(* ===== verification/Prelude.thy ===== *)
theory Prelude
  imports Main "HOL-Library.AList" "HOL-Library.Multiset"
begin

text \<open>
  Shared material of the development: the collections of rewrite rules the component
  theories extend, the model of the JavaScript containers the source uses (a Map iterates in
  insertion order, so it is an association list whose update keeps the position of an
  existing key; a Set is a duplicate-free list), generic facts on lists, and two interfaces
  that several components share: a keyed store and a machine whose operations keep an
  invariant.
\<close>

section \<open>Collections of facts\<close>

named_theorems js_simps \<open>rewrite rules for the JavaScript containers and strings\<close>
named_theorems gate_simps \<open>unfolding rules for the small predicates of a component\<close>

section \<open>Insertion-ordered maps\<close>

type_synonym ('k, 'v) js_map = "('k \<times> 'v) list"

abbreviation map_set :: "'k \<Rightarrow> 'v \<Rightarrow> ('k, 'v) js_map \<Rightarrow> ('k, 'v) js_map" where
  "map_set \<equiv> AList.update"

abbreviation map_delete :: "'k \<Rightarrow> ('k, 'v) js_map \<Rightarrow> ('k, 'v) js_map" where
  "map_delete \<equiv> AList.delete"

abbreviation map_keys :: "('k, 'v) js_map \<Rightarrow> 'k list" where
  "map_keys m \<equiv> map fst m"

lemma map_set_get [simp]: "map_of (map_set k v m) k' = (if k' = k then Some v else map_of m k')"
  by (simp add: update_conv')

lemma map_delete_get [simp]:
  "map_of (map_delete k m) k' = (if k' = k then None else map_of m k')"
  by (simp add: delete_conv')

lemma map_set_mem:
  assumes "distinct (map_keys m)"
  shows "(k', v') \<in> set (map_set k v m) \<longleftrightarrow>
    (if k' = k then v' = v else (k', v') \<in> set m)"
proof -
  have "distinct (map_keys (map_set k v m))"
    using assms by (rule distinct_update)
  then have "(k', v') \<in> set (map_set k v m) \<longleftrightarrow> map_of (map_set k v m) k' = Some v'"
    by (simp only: map_of_eq_Some_iff)
  also have "\<dots> \<longleftrightarrow> (if k' = k then v' = v else map_of m k' = Some v')"
    by auto
  finally show ?thesis
    using assms by (simp add: map_of_eq_Some_iff)
qed

lemma map_set_length:
  "length (map_set k v m) = (if k \<in> set (map_keys m) then length m else Suc (length m))"
  by (induction m) auto

lemma map_set_keys:
  "map_keys (map_set k v m) = (if k \<in> set (map_keys m) then map_keys m else map_keys m @ [k])"
  by (simp add: update_keys)

lemma map_delete_length_le: "length (map_delete k m) \<le> length m"
  by (simp add: AList.delete_eq)

lemma map_delete_length_less:
  "k \<in> set (map_keys m) \<Longrightarrow> length (map_delete k m) < length m"
  by (auto simp: AList.delete_eq intro!: length_filter_less)

lemma map_delete_distinct: "distinct (map_keys m) \<Longrightarrow> distinct (map_keys (map_delete k m))"
  by (simp add: distinct_delete)

lemma map_delete_absent: "k \<notin> set (map_keys m) \<Longrightarrow> map_delete k m = m"
  by (induction m) auto

lemma map_delete_oldest: "distinct (map_keys ((k, v) # m)) \<Longrightarrow> map_delete k ((k, v) # m) = m"
  by (simp add: map_delete_absent)

lemma map_of_in_keys: "map_of m k = Some v \<Longrightarrow> k \<in> set (map_keys m)"
  by (auto dest!: map_of_SomeD intro: rev_image_eqI)

lemma sum_list_map_set_new:
  fixes f :: "'v \<Rightarrow> 'a::comm_monoid_add"
  shows "map_of m k = None \<Longrightarrow>
    sum_list (map (\<lambda>(_, w). f w) (map_set k v m)) = sum_list (map (\<lambda>(_, w). f w) m) + f v"
  by (induction m) (auto simp: add.assoc split: if_splits)

lemma sum_list_map_set_old:
  fixes f :: "'v \<Rightarrow> 'a::comm_monoid_add"
  shows "map_of m k = Some v0 \<Longrightarrow>
    sum_list (map (\<lambda>(_, w). f w) (map_set k v m)) + f v0
      = sum_list (map (\<lambda>(_, w). f w) m) + f v"
  by (induction m) (auto simp: ac_simps split: if_splits)

text \<open>A sweep over a map that rewrites or deletes each entry, in order.\<close>

definition map_sweep :: "('k \<Rightarrow> 'v \<Rightarrow> 'v option) \<Rightarrow> ('k, 'v) js_map \<Rightarrow> ('k, 'v) js_map" where
  "map_sweep f m = concat (map (\<lambda>(k, v). case f k v of None \<Rightarrow> [] | Some w \<Rightarrow> [(k, w)]) m)"

lemma map_sweep_simps [simp]:
  "map_sweep f [] = []"
  "map_sweep f ((k, v) # m) = (case f k v of None \<Rightarrow> map_sweep f m | Some w \<Rightarrow> (k, w) # map_sweep f m)"
  by (auto simp: map_sweep_def split: option.splits)

lemma map_sweep_keys: "set (map_keys (map_sweep f m)) \<subseteq> set (map_keys m)"
proof (induction m)
  case (Cons x m)
  then show ?case by (cases x) (auto split: option.splits)
qed simp

lemma map_sweep_distinct: "distinct (map_keys m) \<Longrightarrow> distinct (map_keys (map_sweep f m))"
proof (induction m)
  case (Cons x m)
  then show ?case
    using map_sweep_keys [of f m] by (cases x) (auto split: option.splits)
qed simp

lemma map_sweep_length: "length (map_sweep f m) \<le> length m"
proof (induction m)
  case (Cons x m)
  then show ?case by (cases x) (auto split: option.splits)
qed simp

lemma map_sweep_get:
  "distinct (map_keys m) \<Longrightarrow> map_of (map_sweep f m) k = Option.bind (map_of m k) (f k)"
proof (induction m)
  case (Cons x m)
  obtain k' v where x: "x = (k', v)" by (cases x)
  then have "map_of m k' = None" using Cons.prems by (simp add: map_of_eq_None_iff)
  with Cons x show ?case by (auto split: option.splits)
qed simp

section \<open>Insertion-ordered sets\<close>

definition set_add :: "'a \<Rightarrow> 'a list \<Rightarrow> 'a list" where
  "set_add x xs = (if x \<in> set xs then xs else xs @ [x])"

definition set_remove :: "'a \<Rightarrow> 'a list \<Rightarrow> 'a list" where
  "set_remove x xs = filter (\<lambda>y. y \<noteq> x) xs"

lemma set_set_add [simp, js_simps]: "set (set_add x xs) = insert x (set xs)"
  by (auto simp: set_add_def)

lemma distinct_set_add [simp, js_simps]: "distinct (set_add x xs) = distinct xs"
  by (auto simp: set_add_def)

lemma set_set_remove [simp, js_simps]: "set (set_remove x xs) = set xs - {x}"
  by (auto simp: set_remove_def)

lemma distinct_set_remove [simp, js_simps]: "distinct xs \<Longrightarrow> distinct (set_remove x xs)"
  by (simp add: set_remove_def)

lemma length_set_remove_le: "length (set_remove x xs) \<le> length xs"
  by (simp add: set_remove_def)

lemma length_set_remove:
  "distinct xs \<Longrightarrow> length (set_remove x xs) = (if x \<in> set xs then length xs - 1 else length xs)"
  by (induction xs) (auto simp: set_remove_def dest: length_pos_if_in_set)

text \<open>First-seen unique values, as \<^verbatim>\<open>[...new Set(values)]\<close> gives them.\<close>

definition unique_values :: "'a list \<Rightarrow> 'a list" where
  "unique_values xs = fold set_add xs []"

lemma set_fold_set_add: "set (fold set_add xs acc) = set acc \<union> set xs"
  by (induction xs arbitrary: acc) auto

lemma distinct_fold_set_add: "distinct (fold set_add xs acc) = distinct acc"
  by (induction xs arbitrary: acc) auto

lemma set_unique_values [simp, js_simps]: "set (unique_values xs) = set xs"
  by (simp add: unique_values_def set_fold_set_add)

lemma distinct_unique_values [simp, js_simps]: "distinct (unique_values xs)"
  by (simp add: unique_values_def distinct_fold_set_add)

lemma fold_set_add_distinct:
  "distinct (acc @ xs) \<Longrightarrow> fold set_add xs acc = acc @ xs"
  by (induction xs arbitrary: acc) (auto simp: set_add_def)

lemma unique_values_distinct: "distinct xs \<Longrightarrow> unique_values xs = xs"
  by (simp add: unique_values_def fold_set_add_distinct)

lemma unique_values_Nil [simp, js_simps]: "unique_values xs = [] \<longleftrightarrow> xs = []"
  by (metis set_unique_values set_empty)

section \<open>Facts on lists\<close>

lemma find_Some_mem: "find P xs = Some x \<Longrightarrow> x \<in> set xs \<and> P x"
  by (auto simp: find_Some_iff)

lemma find_None_all: "find P xs = None \<longleftrightarrow> (\<forall>x \<in> set xs. \<not> P x)"
  by (auto simp: find_None_iff)

lemma find_filter: "find P (filter Q xs) = find (\<lambda>x. Q x \<and> P x) xs"
  by (induction xs) auto

lemma find_cong_set: "(\<And>x. x \<in> set xs \<Longrightarrow> P x = Q x) \<Longrightarrow> find P xs = find Q xs"
  by (induction xs) auto

lemma takeWhile_dropWhile_insert_mset:
  "mset (takeWhile P xs @ x # dropWhile P xs) = add_mset x (mset xs)"
proof -
  have "mset (takeWhile P xs) + mset (dropWhile P xs) = mset xs"
    by (metis mset_append takeWhile_dropWhile_id)
  then show ?thesis by simp
qed

text \<open>
  \<^verbatim>\<open>toSorted\<close> with a comparator: the stable insertion sort, which gives the
  same list as any stable sort when the comparator is a total preorder.
\<close>

fun insert_by :: "('a \<Rightarrow> 'a \<Rightarrow> int) \<Rightarrow> 'a \<Rightarrow> 'a list \<Rightarrow> 'a list" where
  "insert_by cmp x [] = [x]"
| "insert_by cmp x (y # ys) = (if cmp x y \<le> 0 then x # y # ys else y # insert_by cmp x ys)"

definition to_sorted :: "('a \<Rightarrow> 'a \<Rightarrow> int) \<Rightarrow> 'a list \<Rightarrow> 'a list" where
  "to_sorted cmp xs = foldr (insert_by cmp) xs []"

lemma mset_insert_by [simp]: "mset (insert_by cmp x xs) = add_mset x (mset xs)"
  by (induction xs) auto

lemma mset_to_sorted [simp]: "mset (to_sorted cmp xs) = mset xs"
  by (induction xs) (auto simp: to_sorted_def)

lemma set_to_sorted [simp]: "set (to_sorted cmp xs) = set xs"
  by (metis mset_to_sorted set_mset_mset)

lemma in_sum_list_mset: "x \<in># m \<Longrightarrow> m \<in> set ms \<Longrightarrow> x \<in># sum_list ms"
  by (induction ms) auto

section \<open>Interfaces shared by the components\<close>

text \<open>
  A component whose state changes only through a list of operations: an invariant kept by
  every operation holds after every run.
\<close>

locale invariant_machine =
  fixes step :: "'s \<Rightarrow> 'e \<Rightarrow> 's" and inv :: "'s \<Rightarrow> bool"
  assumes machine_step: "inv s \<Longrightarrow> inv (step s e)"
begin

lemma machine_run: "inv s \<Longrightarrow> inv (foldl step s es)"
  by (induction es arbitrary: s) (auto intro: machine_step)

lemma machine_run_prefix: "inv s \<Longrightarrow> inv (foldl step s (take n es))"
  by (rule machine_run)

end

text \<open>
  The same machine with a quantity that no operation lowers (a sequence counter, a
  generation number, a list that only grows, under any preorder).
\<close>

locale monotone_machine = invariant_machine step inv
  for step :: "'s \<Rightarrow> 'e \<Rightarrow> 's" and inv :: "'s \<Rightarrow> bool" +
  fixes le :: "'s \<Rightarrow> 's \<Rightarrow> bool"
  assumes le_refl: "le s s"
    and le_trans: "le s t \<Longrightarrow> le t u \<Longrightarrow> le s u"
    and step_le: "inv s \<Longrightarrow> le s (step s e)"
begin

lemma machine_run_le: "inv s \<Longrightarrow> le s (foldl step s es)"
proof (induction es arbitrary: s)
  case Nil
  show ?case by (simp add: le_refl)
next
  case (Cons e es)
  have "le s (step s e)" using Cons.prems by (rule step_le)
  moreover have "le (step s e) (foldl step (step s e) es)"
    by (intro Cons.IH machine_step Cons.prems)
  ultimately show ?case by (auto intro: le_trans)
qed

end

text \<open>
  A store of values under keys: what a lookup returns after an update and after a deletion,
  and that both keep the store well formed. The components that keep one record per key
  prove their frame facts inside this interface.
\<close>

locale keyed_store =
  fixes get :: "'m \<Rightarrow> 'k \<Rightarrow> 'v option"
    and put :: "'k \<Rightarrow> 'v \<Rightarrow> 'm \<Rightarrow> 'm"
    and del :: "'k \<Rightarrow> 'm \<Rightarrow> 'm"
    and wf :: "'m \<Rightarrow> bool"
  assumes get_put: "wf m \<Longrightarrow> get (put k v m) k' = (if k' = k then Some v else get m k')"
    and get_del: "wf m \<Longrightarrow> get (del k m) k' = (if k' = k then None else get m k')"
    and wf_put: "wf m \<Longrightarrow> wf (put k v m)"
    and wf_del: "wf m \<Longrightarrow> wf (del k m)"
begin

lemma get_touch:
  "wf m \<Longrightarrow> get (put k v (del k m)) k' = (if k' = k then Some v else get m k')"
  by (simp add: get_put get_del wf_del)

lemma put_other: "wf m \<Longrightarrow> k' \<noteq> k \<Longrightarrow> get (put k v m) k' = get m k'"
  by (simp add: get_put)

lemma del_other: "wf m \<Longrightarrow> k' \<noteq> k \<Longrightarrow> get (del k m) k' = get m k'"
  by (simp add: get_del)

lemma fold_del_other:
  "wf m \<Longrightarrow> k \<notin> set ks \<Longrightarrow> get (fold del ks m) k = get m k"
  by (induction ks arbitrary: m) (auto simp: get_del wf_del)

end

interpretation js_store: keyed_store map_of map_set map_delete "\<lambda>m. distinct (map_keys m)"
  by unfold_locales (auto simp: distinct_update distinct_delete)

end
