(* ===== verification/JsText.thy ===== *)
theory JsText
  imports Prelude
begin

text \<open>
  JavaScript strings. A string is a list of 8-bit characters, read as the Latin-1 code units
  of the JavaScript string; white space and lower case are those of
  \<^verbatim>\<open>String.prototype.trim\<close> and \<^verbatim>\<open>toLowerCase\<close> on these code units. The
  theory holds the two primitives, the helpers of
  \<^verbatim>\<open>packages/normalization-core/src/string-coerce.ts\<close> and
  \<^verbatim>\<open>string-normalization.ts\<close> the components call, and their idempotence laws.
\<close>

section \<open>White space and case\<close>

definition is_ws :: "char \<Rightarrow> bool" where
  "is_ws c \<longleftrightarrow> c \<in> {CHR 0x09, CHR 0x0A, CHR 0x0B, CHR 0x0C, CHR 0x0D, CHR 0x20, CHR 0xA0}"

definition js_trim :: "string \<Rightarrow> string" where
  "js_trim s = rev (dropWhile is_ws (rev (dropWhile is_ws s)))"

definition lower_char :: "char \<Rightarrow> char" where
  "lower_char c = (let n = (of_char c :: nat) in
     if 65 \<le> n \<and> n \<le> 90 \<or> 192 \<le> n \<and> n \<le> 222 \<and> n \<noteq> 215 then char_of (n + 32) else c)"

definition js_lower :: "string \<Rightarrow> string" where
  "js_lower s = map lower_char s"

definition starts_with :: "string \<Rightarrow> string \<Rightarrow> bool" where
  "starts_with p s \<longleftrightarrow> take (length p) s = p"

lemma starts_with_append [simp]: "starts_with p (p @ s)"
  by (simp add: starts_with_def)

lemma starts_with_iff: "starts_with p s \<longleftrightarrow> (\<exists>r. s = p @ r)"
  by (metis append_take_drop_id starts_with_append starts_with_def)

section \<open>Splitting, joining and searching\<close>

text \<open>\<open>js_split\<close> is \<^verbatim>\<open>split\<close> at a character, \<open>js_join\<close> \<^verbatim>\<open>join\<close>, \<open>contains\<close> \<^verbatim>\<open>includes\<close> and
  \<open>last_index\<close> \<^verbatim>\<open>lastIndexOf\<close>, with \<open>None\<close> for -1.\<close>

fun js_split :: "char \<Rightarrow> string \<Rightarrow> string list" where
  "js_split sep [] = [[]]"
| "js_split sep (c # s) = (if c = sep then [] # js_split sep s
     else case js_split sep s of [] \<Rightarrow> [[c]] | part # parts \<Rightarrow> (c # part) # parts)"

fun js_join :: "string \<Rightarrow> string list \<Rightarrow> string" where
  "js_join sep [] = []"
| "js_join sep [x] = x"
| "js_join sep (x # xs) = x @ sep @ js_join sep xs"

fun contains :: "string \<Rightarrow> string \<Rightarrow> bool" where
  "contains p [] \<longleftrightarrow> p = []"
| "contains p (c # s) \<longleftrightarrow> starts_with p (c # s) \<or> contains p s"

fun last_index :: "string \<Rightarrow> string \<Rightarrow> nat option" where
  "last_index p [] = (if p = [] then Some 0 else None)"
| "last_index p (c # s) = (case last_index p s of
     Some i \<Rightarrow> Some (Suc i)
   | None \<Rightarrow> if starts_with p (c # s) then Some 0 else None)"

lemma js_join_Cons: "js_join sep (x # xs) = (if xs = [] then x else x @ sep @ js_join sep xs)"
  by (cases xs) simp_all

lemma js_split_nonempty [simp]: "js_split sep s \<noteq> []"
  by (cases s) (auto split: list.split)

lemma js_split_part [simp]: "sep \<notin> set a \<Longrightarrow> js_split sep (a @ sep # s) = a # js_split sep s"
  by (induction a) auto

lemma js_split_single [simp]: "sep \<notin> set a \<Longrightarrow> js_split sep a = [a]"
  by (induction a) auto

lemma js_join_split [simp]: "js_join [sep] (js_split sep s) = s"
proof (induction s)
  case (Cons c s)
  then show ?case by (cases "js_split sep s") (auto simp: js_join_Cons split: if_splits)
qed simp

lemma hd_js_split: "hd (js_split sep s) = takeWhile (\<lambda>c. c \<noteq> sep) s"
proof (induction s)
  case (Cons c s)
  then show ?case by (cases "js_split sep s") auto
qed simp

lemma contains_append [simp]: "contains p (u @ p @ v)"
proof (induction u)
  case Nil
  then show ?case by (cases "p @ v") (auto simp: starts_with_def dest: arg_cong [where f = "take (length p)"])
qed simp

lemma last_index_None: "last_index p s = None \<longleftrightarrow> \<not> contains p s"
  by (induction s) (auto split: option.split)

lemma last_index_append:
  "\<not> contains p (drop 1 (p @ v)) \<Longrightarrow> p \<noteq> [] \<Longrightarrow> last_index p (u @ p @ v) = Some (length u)"
proof (induction u)
  case Nil
  then obtain c q where p: "p = c # q" by (cases p) auto
  with Nil have "last_index p (q @ v) = None" by (simp add: last_index_None)
  then show ?case using starts_with_append [of p v] by (simp add: p)
qed simp

text \<open>Searching a text whose parts are separated by \<open>sep\<close>.\<close>

lemma starts_with_parts:
  "sep \<notin> set u \<Longrightarrow> sep \<notin> set x \<Longrightarrow> starts_with (u @ sep # v) (x @ sep # y) \<longleftrightarrow> x = u \<and> starts_with v y"
proof (induction u arbitrary: x)
  case Nil
  then show ?case by (cases x) (auto simp: starts_with_def)
next
  case (Cons a u)
  then show ?case by (cases x) (auto simp: starts_with_def)
qed

lemma contains_skip: "sep \<notin> set x \<Longrightarrow> contains (sep # u) (x @ s) = contains (sep # u) s"
  by (induction x) (auto simp: starts_with_def)

lemma starts_with_self: "starts_with [] s" "starts_with (c # p) (d # s) \<longleftrightarrow> c = d \<and> starts_with p s" "starts_with (c # p) [] \<longleftrightarrow> False"
  by (auto simp: starts_with_def)

section \<open>Idempotence\<close>

lemma lower_char_idem: "lower_char (lower_char c) = lower_char c"
proof -
  have "(of_char c :: nat) < 256"
    by (rule nat_of_char_less_256)
  then show ?thesis
    by (auto simp: lower_char_def Let_def)
qed

lemma js_lower_idem [simp, js_simps]: "js_lower (js_lower s) = js_lower s"
  by (simp add: js_lower_def lower_char_idem)

lemma js_lower_Nil [simp, js_simps]: "js_lower s = [] \<longleftrightarrow> s = []"
  by (simp add: js_lower_def)

lemma js_lower_empty [simp, js_simps]: "js_lower [] = []"
  by (simp add: js_lower_def)

lemma js_lower_append: "js_lower (s @ t) = js_lower s @ js_lower t"
  by (simp add: js_lower_def)

lemma length_js_lower [simp]: "length (js_lower s) = length s"
  by (simp add: js_lower_def)

lemma is_ws_lower: "is_ws (lower_char c) = is_ws c"
proof -
  have "(of_char c :: nat) < 256" by (rule nat_of_char_less_256)
  have "c = char_of (of_char c :: nat)" by simp
  have "is_ws c \<longleftrightarrow> (of_char c :: nat) \<in> {9, 10, 11, 12, 13, 32, 160}" for c
    by (simp add: is_ws_def flip: of_char_eq_iff [where 'a = nat])
  then show ?thesis
    using \<open>(of_char c :: nat) < 256\<close> by (auto simp: lower_char_def Let_def)
qed

lemma dropWhile_map_lower: "dropWhile is_ws (map lower_char s) = map lower_char (dropWhile is_ws s)"
  by (induction s) (auto simp: is_ws_lower)

lemma js_trim_lower: "js_trim (js_lower s) = js_lower (js_trim s)"
  by (simp add: js_trim_def js_lower_def dropWhile_map_lower rev_map)

lemma js_trim_Nil [simp, js_simps]: "js_trim [] = []"
  by (simp add: js_trim_def)

lemma js_trim_fixed:
  "s = [] \<or> (\<not> is_ws (hd s) \<and> \<not> is_ws (last s)) \<Longrightarrow> js_trim s = s"
proof -
  have fixed: "dropWhile is_ws t = t" if "t = [] \<or> \<not> is_ws (hd t)" for t
    using that by (cases t) auto
  assume "s = [] \<or> (\<not> is_ws (hd s) \<and> \<not> is_ws (last s))"
  then show ?thesis
    by (auto simp: js_trim_def fixed hd_rev)
qed

lemma js_trim_ends: "js_trim s = [] \<or> (\<not> is_ws (hd (js_trim s)) \<and> \<not> is_ws (last (js_trim s)))"
proof (cases "js_trim s = []")
  case False
  define t where "t = dropWhile is_ws s"
  have trim: "js_trim s = rev (dropWhile is_ws (rev t))"
    by (simp add: js_trim_def t_def)
  with False have ne: "dropWhile is_ws (rev t) \<noteq> []" by simp
  then have last: "\<not> is_ws (last (js_trim s))"
    by (simp add: trim last_rev hd_dropWhile)
  obtain u where "rev t = u @ dropWhile is_ws (rev t)"
    by (metis takeWhile_dropWhile_id)
  then have "t = js_trim s @ rev u"
    by (metis rev_append rev_rev_ident trim)
  then have "hd t = hd (js_trim s)" and "t \<noteq> []"
    using False by auto
  then have "\<not> is_ws (hd (js_trim s))"
    using hd_dropWhile [of is_ws s] by (simp add: t_def)
  with last show ?thesis by simp
qed simp

lemma js_trim_idem [simp, js_simps]: "js_trim (js_trim s) = js_trim s"
  using js_trim_ends by (rule js_trim_fixed)

section \<open>Numbers in text\<close>

text \<open>A natural number in a template string, and its reading back.\<close>

fun nat_digits :: "nat \<Rightarrow> string" where
  "nat_digits n = (if n < 10 then [char_of (48 + n)] else nat_digits (n div 10) @ [char_of (48 + n mod 10)])"

declare nat_digits.simps [simp del]

definition digits_value :: "string \<Rightarrow> nat" where
  "digits_value s = foldl (\<lambda>n c. 10 * n + (of_char c - 48)) 0 s"

lemma digits_value_nat_digits [simp]: "digits_value (nat_digits n) = n"
  by (induction n rule: nat_digits.induct) (subst nat_digits.simps, simp add: digits_value_def)

lemma nat_digits_inject [simp]: "nat_digits m = nat_digits n \<longleftrightarrow> m = n"
  by (metis digits_value_nat_digits)

lemma nat_digits_chars: "nat_digits n \<noteq> [] \<and> (\<forall>c \<in> set (nat_digits n). 48 \<le> (of_char c :: nat) \<and> (of_char c :: nat) \<le> 57)"
  by (induction n rule: nat_digits.induct) (subst nat_digits.simps, subst (2) nat_digits.simps, auto)

section \<open>The coercion helpers\<close>

text \<open>
  \<^verbatim>\<open>unknown\<close> arguments that are not strings are the value \<open>None\<close> of the
  optional argument.
\<close>

definition normalizeNullableString :: "string option \<Rightarrow> string option" where
  "normalizeNullableString value = (case value of
     None \<Rightarrow> None
   | Some s \<Rightarrow> (let trimmed = js_trim s in if trimmed \<noteq> [] then Some trimmed else None))"

definition normalizeOptionalString :: "string option \<Rightarrow> string option" where
  "normalizeOptionalString value = normalizeNullableString value"

definition normalizeOptionalLowercaseString :: "string option \<Rightarrow> string option" where
  "normalizeOptionalLowercaseString value = map_option js_lower (normalizeOptionalString value)"

definition normalizeLowercaseStringOrEmpty :: "string option \<Rightarrow> string" where
  "normalizeLowercaseStringOrEmpty value =
     (case normalizeOptionalLowercaseString value of None \<Rightarrow> [] | Some s \<Rightarrow> s)"

definition normalizeStringEntries :: "string list \<Rightarrow> string list" where
  "normalizeStringEntries list = filter (\<lambda>s. s \<noteq> [])
     (map (\<lambda>entry. case normalizeOptionalString (Some entry) of None \<Rightarrow> [] | Some s \<Rightarrow> s) list)"

lemmas string_coerce_defs = normalizeNullableString_def normalizeOptionalString_def
  normalizeOptionalLowercaseString_def normalizeLowercaseStringOrEmpty_def

lemma normalizeLowercaseStringOrEmpty_Some:
  "normalizeLowercaseStringOrEmpty (Some s) = js_lower (js_trim s)"
  by (auto simp: string_coerce_defs Let_def)

lemma normalizeLowercaseStringOrEmpty_idem [js_simps]:
  "normalizeLowercaseStringOrEmpty (Some (normalizeLowercaseStringOrEmpty v))
     = normalizeLowercaseStringOrEmpty v"
  by (cases v) (simp_all add: normalizeLowercaseStringOrEmpty_Some js_trim_lower,
      simp_all add: string_coerce_defs)

lemma normalizeStringEntries_alt:
  "normalizeStringEntries xs = filter (\<lambda>s. s \<noteq> []) (map js_trim xs)"
  by (auto simp: normalizeStringEntries_def string_coerce_defs Let_def
      intro!: arg_cong [where f = "filter (\<lambda>s. s \<noteq> [])"])

lemma normalizeStringEntries_idem [simp, js_simps]:
  "normalizeStringEntries (normalizeStringEntries xs) = normalizeStringEntries xs"
  by (induction xs) (auto simp: normalizeStringEntries_alt)

lemma normalizeStringEntries_mem:
  "x \<in> set (normalizeStringEntries xs) \<longleftrightarrow> x \<noteq> [] \<and> x \<in> js_trim ` set xs"
  by (auto simp: normalizeStringEntries_alt)

end
