(* ===== verification/JsNumber.thy ===== *)
theory JsNumber
  imports Complex_Main Prelude
begin

text \<open>
  Numeric options, after \<^verbatim>\<open>packages/normalization-core/src/number-coercion.ts\<close>. An
  argument of type \<^verbatim>\<open>unknown\<close> is a \<open>rat option\<close>: the rational value of a finite
  JavaScript number, or \<open>None\<close> for everything \<^verbatim>\<open>asFiniteNumber\<close> rejects (a value
  that is no number, NaN, an infinity, undefined). Times are integers: within the safe-integer
  range of the clock they are exact.
\<close>

definition MAX_TIMER_TIMEOUT_MS :: int where
  "MAX_TIMER_TIMEOUT_MS = 2147000000"

definition clampTimerTimeoutMs :: "rat option \<Rightarrow> rat \<Rightarrow> int option" where
  "clampTimerTimeoutMs valueMs minMs = (case valueMs of
     None \<Rightarrow> None
   | Some value \<Rightarrow>
      (let lo = max 1 \<lfloor>minMs\<rfloor> in Some (min (max \<lfloor>value\<rfloor> lo) MAX_TIMER_TIMEOUT_MS)))"

definition clampPositiveTimerTimeoutMs :: "rat option \<Rightarrow> int option" where
  "clampPositiveTimerTimeoutMs valueMs = (case valueMs of
     None \<Rightarrow> None
   | Some value \<Rightarrow> if value \<le> 0 then None else clampTimerTimeoutMs (Some value) 1)"

definition resolveTimerTimeoutMs :: "rat option \<Rightarrow> rat option \<Rightarrow> rat \<Rightarrow> int" where
  "resolveTimerTimeoutMs valueMs fallbackMs minMs =
     (let lo = max 0 \<lfloor>minMs\<rfloor> in
      case (case valueMs of Some v \<Rightarrow> Some v | None \<Rightarrow> fallbackMs) of
        None \<Rightarrow> lo
      | Some v \<Rightarrow> min (max \<lfloor>v\<rfloor> lo) MAX_TIMER_TIMEOUT_MS)"

definition finiteSecondsToTimerSafeMilliseconds :: "rat option \<Rightarrow> bool \<Rightarrow> int option" where
  "finiteSecondsToTimerSafeMilliseconds value floorSeconds = (case value of
     None \<Rightarrow> None
   | Some seconds \<Rightarrow>
      if seconds \<le> 0 then None
      else (let bounded = (if floorSeconds then of_int \<lfloor>seconds\<rfloor> else seconds);
                ms = \<lfloor>bounded * 1000\<rfloor>
            in if ms \<le> 0 then None else Some (min ms MAX_TIMER_TIMEOUT_MS)))"

definition resolveIntegerOption :: "rat option \<Rightarrow> rat \<Rightarrow> int option \<Rightarrow> int option \<Rightarrow> int" where
  "resolveIntegerOption value fallback range_min range_max =
     (let candidate = (case value of Some v \<Rightarrow> v | None \<Rightarrow> fallback);
          floored = \<lfloor>candidate\<rfloor>;
          minBounded = (case range_min of None \<Rightarrow> floored | Some lo \<Rightarrow> max lo floored)
      in case range_max of None \<Rightarrow> minBounded | Some hi \<Rightarrow> min hi minBounded)"

definition resolveNonNegativeIntegerOption :: "rat option \<Rightarrow> rat \<Rightarrow> int" where
  "resolveNonNegativeIntegerOption value fallback =
     resolveIntegerOption value fallback (Some 0) None"

lemma clampPositiveTimerTimeoutMs_bounds:
  "clampPositiveTimerTimeoutMs v = Some t \<Longrightarrow> 1 \<le> t \<and> t \<le> MAX_TIMER_TIMEOUT_MS"
  by (auto simp: clampPositiveTimerTimeoutMs_def clampTimerTimeoutMs_def MAX_TIMER_TIMEOUT_MS_def
      split: option.splits if_splits)

lemma clampPositiveTimerTimeoutMs_idem:
  "clampPositiveTimerTimeoutMs v = Some t \<Longrightarrow>
     clampPositiveTimerTimeoutMs (Some (of_int t)) = Some t"
  using clampPositiveTimerTimeoutMs_bounds [of v t]
  by (auto simp: clampPositiveTimerTimeoutMs_def clampTimerTimeoutMs_def)

lemma resolveTimerTimeoutMs_bounds:
  "0 \<le> resolveTimerTimeoutMs v f m"
  "\<lfloor>m\<rfloor> \<le> MAX_TIMER_TIMEOUT_MS \<Longrightarrow> resolveTimerTimeoutMs v f m \<le> MAX_TIMER_TIMEOUT_MS"
  by (auto simp: resolveTimerTimeoutMs_def Let_def MAX_TIMER_TIMEOUT_MS_def split: option.splits)

lemma resolveNonNegativeIntegerOption_nonneg: "0 \<le> resolveNonNegativeIntegerOption v f"
  by (simp add: resolveNonNegativeIntegerOption_def resolveIntegerOption_def Let_def)

lemma resolveIntegerOption_min:
  "lo \<le> resolveIntegerOption v f (Some lo) None"
  by (simp add: resolveIntegerOption_def Let_def)

end
