(* ===== verification/CommandQueue.thy ===== *)
theory CommandQueue
  imports JsText JsNumber "HOL-Library.Product_Lexorder"
begin

text \<open>
  The in-process command queue of \<^verbatim>\<open>src/src/process/command-queue.ts\<close>: named lanes with
  a concurrency limit, a priority queue per lane, task generations that make late completions
  of a reset lane harmless, the draining flag of a gateway restart, and the waiters for active
  tasks. The singleton of \<^verbatim>\<open>getQueueState\<close> is the record \<open>queue_state\<close>; promises are
  identified by the sequence number of their entry, and what the code does to a promise is
  recorded in \<open>settled\<close>. A task that has been started and whose promise has not settled is an
  element of \<open>inflight\<close>: it holds what the closure of \<^verbatim>\<open>drainLane\<close> captures.
  \<open>nextWaiterId\<close> stands for the object identity of a waiter.
\<close>

section \<open>State\<close>

datatype queue_priority = Foreground | NormalPriority | Background

record enqueue_options =
  opt_warnAfterMs :: "int option"
  opt_priority :: "queue_priority option"
  opt_taskTimeoutMs :: "rat option"
  opt_taskTimeoutAbortGraceMs :: "rat option"

record queue_entry =
  enqueuedAt :: int
  sequence_no :: nat
  priority :: int
  warnAfterMs :: int
  queuedAheadAtEnqueue :: nat
  activeAheadAtEnqueue :: nat
  taskTimeoutMs :: "int option"
  taskTimeoutAbortGraceMs :: "int option"

record lane_state =
  lane_name :: string
  queue :: "queue_entry list"
  activeTaskIds :: "nat list"
  maxConcurrent :: int
  draining :: bool
  generation :: nat

record lane_snapshot =
  snap_lane :: string
  snap_queuedCount :: nat
  snap_activeCount :: nat
  snap_maxConcurrent :: int
  snap_draining :: bool
  snap_generation :: nat

record inflight_task =
  if_taskId :: nat
  if_lane :: string
  if_generation :: nat
  if_entry :: queue_entry

record active_task_waiter =
  waiter_id :: nat
  waiter_taskIds :: "nat list"

datatype queue_error =
    CommandLaneClearedError string
  | GatewayDrainingError
  | TaskError string

datatype settlement = Resolved | Rejected queue_error

datatype queue_effect =
    OnWait nat int nat
  | TaskStarted nat nat string
  | WaiterResolved nat bool

record queue_state =
  gatewayDraining :: bool
  lanes :: "(string, lane_state) js_map"
  activeTaskWaiters :: "active_task_waiter list"
  nextTaskId :: nat
  nextQueueSequence :: nat
  inflight :: "inflight_task list"
  settled :: "(nat \<times> settlement) list"
  effects :: "queue_effect list"
  nextWaiterId :: nat

definition init_queue_state :: queue_state where
  "init_queue_state = \<lparr>gatewayDraining = False, lanes = [], activeTaskWaiters = [],
     nextTaskId = 1, nextQueueSequence = 1, inflight = [], settled = [], effects = [], nextWaiterId = 0\<rparr>"

section \<open>Helpers of the module\<close>

definition MainLane :: string where
  "MainLane = ''main''"

definition normalizeLane :: "string \<Rightarrow> string" where
  "normalizeLane l = (let t = js_trim l in if t \<noteq> [] then t else MainLane)"

definition getLaneDepth :: "lane_state \<Rightarrow> nat" where
  "getLaneDepth ls = length (queue ls) + length (activeTaskIds ls)"

definition createCommandLaneSnapshot :: "lane_state \<Rightarrow> lane_snapshot" where
  "createCommandLaneSnapshot ls = \<lparr>snap_lane = lane_name ls, snap_queuedCount = length (queue ls),
     snap_activeCount = length (activeTaskIds ls), snap_maxConcurrent = maxConcurrent ls,
     snap_draining = draining ls, snap_generation = generation ls\<rparr>"

definition new_lane :: "string \<Rightarrow> lane_state" where
  "new_lane l = \<lparr>lane_name = l, queue = [], activeTaskIds = [], maxConcurrent = 1,
     draining = False, generation = 0\<rparr>"

text \<open>The lane of \<^verbatim>\<open>getLaneState\<close>, and the state in which it exists.\<close>

definition lane_of :: "queue_state \<Rightarrow> string \<Rightarrow> lane_state" where
  "lane_of s l = (case map_of (lanes s) l of Some ls \<Rightarrow> ls | None \<Rightarrow> new_lane l)"

definition put_lane :: "string \<Rightarrow> lane_state \<Rightarrow> queue_state \<Rightarrow> queue_state" where
  "put_lane l ls s = s\<lparr>lanes := map_set l ls (lanes s)\<rparr>"

definition getLaneState :: "string \<Rightarrow> queue_state \<Rightarrow> lane_state \<times> queue_state" where
  "getLaneState l s = (case map_of (lanes s) l of
     Some existing \<Rightarrow> (existing, s)
   | None \<Rightarrow> (new_lane l, put_lane l (new_lane l) s))"

definition completeTask :: "lane_state \<Rightarrow> nat \<Rightarrow> nat \<Rightarrow> bool \<times> lane_state" where
  "completeTask ls taskId taskGeneration =
     (if taskGeneration \<noteq> generation ls then (False, ls)
      else (True, ls\<lparr>activeTaskIds := set_remove taskId (activeTaskIds ls)\<rparr>))"

definition hasPendingActiveTasks :: "nat list \<Rightarrow> queue_state \<Rightarrow> bool" where
  "hasPendingActiveTasks taskIds s \<longleftrightarrow>
     list_ex (\<lambda>(_, ls). list_ex (\<lambda>t. t \<in> set taskIds) (activeTaskIds ls)) (lanes s)"

definition resolveActiveTaskWaiter :: "active_task_waiter \<Rightarrow> bool \<Rightarrow> queue_state \<Rightarrow> queue_state" where
  "resolveActiveTaskWaiter w drained s =
     (if w \<notin> set (activeTaskWaiters s) then s
      else s\<lparr>activeTaskWaiters := removeAll w (activeTaskWaiters s),
             effects := effects s @ [WaiterResolved (waiter_id w) drained]\<rparr>)"

definition notifyActiveTaskWaiters :: "queue_state \<Rightarrow> queue_state" where
  "notifyActiveTaskWaiters s =
     fold (\<lambda>w t. if waiter_taskIds w = [] \<or> \<not> hasPendingActiveTasks (waiter_taskIds w) t
                 then resolveActiveTaskWaiter w True t else t) (activeTaskWaiters s) s"

definition normalizeTaskTimeoutMs :: "rat option \<Rightarrow> int option" where
  "normalizeTaskTimeoutMs value = (case value of
     None \<Rightarrow> None
   | Some v \<Rightarrow> if v \<le> 0 then None else clampPositiveTimerTimeoutMs (Some v))"

fun resolveQueuePriority :: "queue_priority option \<Rightarrow> int" where
  "resolveQueuePriority (Some Foreground) = 1"
| "resolveQueuePriority (Some Background) = -1"
| "resolveQueuePriority _ = 0"


section \<open>Queue order\<close>

text \<open>\<open>runs_after queued entry\<close>: the test of \<^verbatim>\<open>findIndex\<close> in
  \<^verbatim>\<open>enqueueLaneEntry\<close>.\<close>

definition runs_after :: "queue_entry \<Rightarrow> queue_entry \<Rightarrow> bool" where
  "runs_after queued entry \<longleftrightarrow> priority queued < priority entry \<or>
     (priority queued = priority entry \<and> sequence_no queued > sequence_no entry)"

definition enqueueLaneEntry :: "lane_state \<Rightarrow> queue_entry \<Rightarrow> lane_state" where
  "enqueueLaneEntry ls entry =
     (let before = takeWhile (\<lambda>q. \<not> runs_after q entry) (queue ls);
          behind = dropWhile (\<lambda>q. \<not> runs_after q entry) (queue ls);
          e = entry\<lparr>queuedAheadAtEnqueue := length before,
                    activeAheadAtEnqueue := length (activeTaskIds ls)\<rparr>
      in ls\<lparr>queue := before @ e # behind\<rparr>)"

section \<open>The pump\<close>

text \<open>
  One run of \<^verbatim>\<open>pump\<close> over a lane: while there is a free slot and a queued entry, the
  entry is shifted off the queue and started under a fresh task id. The result is the lane,
  the next task id, the started tasks in order and the effects.
\<close>

definition wait_effects :: "int \<Rightarrow> queue_entry \<Rightarrow> queue_effect list" where
  "wait_effects now e = (let waitedMs = now - enqueuedAt e in
     if waitedMs \<ge> warnAfterMs e then [OnWait (sequence_no e) waitedMs (queuedAheadAtEnqueue e)]
     else [])"

function pump :: "int \<Rightarrow> lane_state \<Rightarrow> nat \<Rightarrow>
    lane_state \<times> nat \<times> inflight_task list \<times> queue_effect list" where
  "pump now ls tid =
     (if int (length (activeTaskIds ls)) < maxConcurrent ls \<and> length (queue ls) > 0 then
        let entry = hd (queue ls);
            ls1 = ls\<lparr>queue := tl (queue ls), activeTaskIds := set_add tid (activeTaskIds ls)\<rparr>;
            task = \<lparr>if_taskId = tid, if_lane = lane_name ls, if_generation = generation ls,
                    if_entry = entry\<rparr>;
            (ls2, tid2, tasks, effs) = pump now ls1 (Suc tid)
        in (ls2, tid2, task # tasks,
            wait_effects now entry @ TaskStarted tid (sequence_no entry) (lane_name ls) # effs)
      else (ls, tid, [], []))"
  by pat_completeness auto
termination
  by (relation "measure (\<lambda>(now, ls, tid). length (queue ls))") auto

declare pump.simps [simp del]

definition pump_lane :: "int \<Rightarrow> string \<Rightarrow> queue_state \<Rightarrow> queue_state" where
  "pump_lane now l s =
     (let (ls, tid, tasks, effs) = pump now (lane_of s l) (nextTaskId s)
      in (put_lane l (ls\<lparr>draining := False\<rparr>) s)
           \<lparr>nextTaskId := tid, inflight := inflight s @ tasks, effects := effects s @ effs\<rparr>)"

definition drainLane :: "int \<Rightarrow> string \<Rightarrow> queue_state \<Rightarrow> queue_state" where
  "drainLane now l s =
     (let (ls, s1) = getLaneState l s in
      if draining ls then s1
      else pump_lane now l (put_lane l (ls\<lparr>draining := True\<rparr>) s1))"

section \<open>Operations\<close>

definition markGatewayDraining :: "queue_state \<Rightarrow> queue_state" where
  "markGatewayDraining s = s\<lparr>gatewayDraining := True\<rparr>"

definition isProbeLane :: "string \<Rightarrow> bool" where
  "isProbeLane l \<longleftrightarrow> starts_with ''auth-probe:'' l \<or> starts_with ''session:probe-'' l"

definition setCommandLaneConcurrency :: "int \<Rightarrow> string \<Rightarrow> rat \<Rightarrow> queue_state \<Rightarrow> queue_state" where
  "setCommandLaneConcurrency now l n s =
     (let cleaned = normalizeLane l;
          (ls, s1) = getLaneState cleaned s;
          minConcurrent = (if isProbeLane cleaned then 1 else 0);
          ls1 = ls\<lparr>maxConcurrent := max minConcurrent \<lfloor>n\<rfloor>\<rparr>;
          s2 = put_lane cleaned ls1 s1
      in if maxConcurrent ls1 > 0 then drainLane now cleaned s2 else s2)"

definition enqueueCommandInLane ::
    "int \<Rightarrow> string \<Rightarrow> enqueue_options \<Rightarrow> queue_state \<Rightarrow> (queue_error + nat) \<times> queue_state" where
  "enqueueCommandInLane now l opts s =
     (if gatewayDraining s then (Inl GatewayDrainingError, s)
      else
        let cleaned = normalizeLane l;
            (ls, s1) = getLaneState cleaned s;
            seq = nextQueueSequence s1;
            entry = \<lparr>enqueuedAt = now, sequence_no = seq,
              priority = resolveQueuePriority (opt_priority opts),
              warnAfterMs = (case opt_warnAfterMs opts of Some w \<Rightarrow> w | None \<Rightarrow> 2000),
              queuedAheadAtEnqueue = 0, activeAheadAtEnqueue = 0,
              taskTimeoutMs = normalizeTaskTimeoutMs (opt_taskTimeoutMs opts),
              taskTimeoutAbortGraceMs = normalizeTaskTimeoutMs (opt_taskTimeoutAbortGraceMs opts)\<rparr>;
            s2 = put_lane cleaned (enqueueLaneEntry ls entry)
                   (s1\<lparr>nextQueueSequence := Suc seq\<rparr>)
        in (Inr seq, drainLane now cleaned s2))"

text \<open>
  The rest of the closure of \<^verbatim>\<open>drainLane\<close>, run when \<^verbatim>\<open>runQueueEntryTask\<close> settles
  with \<open>result\<close>: complete the task in the lane, and if the generation is still current notify
  the waiters and pump again; the promise of the entry settles in either case.
\<close>

definition taskFinished :: "int \<Rightarrow> nat \<Rightarrow> settlement \<Rightarrow> queue_state \<Rightarrow> queue_state" where
  "taskFinished now taskId result s =
     (case find (\<lambda>f. if_taskId f = taskId) (inflight s) of
        None \<Rightarrow> s
      | Some f \<Rightarrow>
         let s0 = s\<lparr>inflight := filter (\<lambda>g. if_taskId g \<noteq> taskId) (inflight s)\<rparr>;
             (current, ls) = completeTask (lane_of s0 (if_lane f)) taskId (if_generation f);
             s1 = put_lane (if_lane f) ls s0;
             s2 = (if current then pump_lane now (if_lane f) (notifyActiveTaskWaiters s1) else s1)
         in s2\<lparr>settled := settled s2 @ [(sequence_no (if_entry f), result)]\<rparr>)"

definition clearCommandLane :: "string \<Rightarrow> queue_state \<Rightarrow> nat \<times> queue_state" where
  "clearCommandLane l s =
     (let cleaned = normalizeLane l in
      case map_of (lanes s) cleaned of
        None \<Rightarrow> (0, s)
      | Some ls \<Rightarrow> (length (queue ls),
          (put_lane cleaned (ls\<lparr>queue := []\<rparr>) s)
            \<lparr>settled := settled s @
               map (\<lambda>e. (sequence_no e, Rejected (CommandLaneClearedError cleaned))) (queue ls)\<rparr>))"

definition reset_lane_state :: "lane_state \<Rightarrow> lane_state" where
  "reset_lane_state ls =
     ls\<lparr>generation := generation ls + 1, activeTaskIds := [], draining := False\<rparr>"

definition resetCommandLane :: "int \<Rightarrow> string \<Rightarrow> queue_state \<Rightarrow> nat \<times> queue_state" where
  "resetCommandLane now l s =
     (let cleaned = normalizeLane l in
      case map_of (lanes s) cleaned of
        None \<Rightarrow> (0, s)
      | Some ls \<Rightarrow>
         let ls1 = reset_lane_state ls;
             s1 = put_lane cleaned ls1 s;
             s2 = (if length (queue ls1) > 0 then drainLane now cleaned s1 else s1)
         in (length (activeTaskIds ls), notifyActiveTaskWaiters s2))"

definition resetAllLanes :: "int \<Rightarrow> queue_state \<Rightarrow> queue_state" where
  "resetAllLanes now s =
     (let s1 = s\<lparr>gatewayDraining := False,
                 lanes := map (\<lambda>(l, ls). (l, reset_lane_state ls)) (lanes s)\<rparr>;
          lanesToDrain = map fst (filter (\<lambda>(l, ls). length (queue ls) > 0) (lanes s1))
      in notifyActiveTaskWaiters (fold (drainLane now) lanesToDrain s1))"

definition waitForActiveTasks :: "rat option \<Rightarrow> queue_state \<Rightarrow> nat \<times> queue_state" where
  "waitForActiveTasks timeoutMs s0 =
     (let wid = nextWaiterId s0;
          s = s0\<lparr>nextWaiterId := Suc wid\<rparr>;
          activeAtStart = fold set_add (concat (map (\<lambda>(_, ls). activeTaskIds ls) (lanes s))) []
      in (wid,
        if activeAtStart = [] then s\<lparr>effects := effects s @ [WaiterResolved wid True]\<rparr>
        else if (case timeoutMs of Some t \<Rightarrow> t \<le> 0 | None \<Rightarrow> False)
          then s\<lparr>effects := effects s @ [WaiterResolved wid False]\<rparr>
        else notifyActiveTaskWaiters
          (s\<lparr>activeTaskWaiters := activeTaskWaiters s @
               [\<lparr>waiter_id = wid, waiter_taskIds = activeAtStart\<rparr>]\<rparr>)))"

text \<open>The timer of a waiter fires: \<^verbatim>\<open>resolveActiveTaskWaiter(waiter, drained: false)\<close>.\<close>

definition waiterTimeout :: "nat \<Rightarrow> queue_state \<Rightarrow> queue_state" where
  "waiterTimeout wid s = (case find (\<lambda>w. waiter_id w = wid) (activeTaskWaiters s) of
     None \<Rightarrow> s | Some w \<Rightarrow> resolveActiveTaskWaiter w False s)"

section \<open>Queries\<close>

definition getQueueSize :: "string \<Rightarrow> queue_state \<Rightarrow> nat" where
  "getQueueSize l s = (case map_of (lanes s) (normalizeLane l) of
     None \<Rightarrow> 0 | Some ls \<Rightarrow> getLaneDepth ls)"

definition getCommandLaneSnapshot :: "string \<Rightarrow> queue_state \<Rightarrow> lane_snapshot" where
  "getCommandLaneSnapshot l s = (case map_of (lanes s) (normalizeLane l) of
     None \<Rightarrow> \<lparr>snap_lane = normalizeLane l, snap_queuedCount = 0, snap_activeCount = 0,
              snap_maxConcurrent = 1, snap_draining = False, snap_generation = 0\<rparr>
   | Some ls \<Rightarrow> createCommandLaneSnapshot ls)"

definition getCommandLaneActiveTaskIds :: "string \<Rightarrow> queue_state \<Rightarrow> nat list" where
  "getCommandLaneActiveTaskIds l s = (case map_of (lanes s) (normalizeLane l) of
     None \<Rightarrow> [] | Some ls \<Rightarrow> activeTaskIds ls)"

definition getTotalQueueSize :: "queue_state \<Rightarrow> nat" where
  "getTotalQueueSize s = sum_list (map (\<lambda>(_, ls). getLaneDepth ls) (lanes s))"

definition getActiveTaskCount :: "queue_state \<Rightarrow> nat" where
  "getActiveTaskCount s = sum_list (map (\<lambda>(_, ls). length (activeTaskIds ls)) (lanes s))"

section \<open>The machine\<close>

datatype queue_op =
    Enqueue string enqueue_options
  | TaskFinished nat settlement
  | SetConcurrency string rat
  | ClearLane string
  | ResetLane string
  | ResetAll
  | MarkDraining
  | WaitActive "rat option"
  | WaiterTimeout nat

text \<open>One operation at the clock value paired with it.\<close>

fun queue_step :: "queue_state \<Rightarrow> int \<times> queue_op \<Rightarrow> queue_state" where
  "queue_step s (now, Enqueue l opts) = snd (enqueueCommandInLane now l opts s)"
| "queue_step s (now, TaskFinished t r) = taskFinished now t r s"
| "queue_step s (now, SetConcurrency l n) = setCommandLaneConcurrency now l n s"
| "queue_step s (now, ClearLane l) = snd (clearCommandLane l s)"
| "queue_step s (now, ResetLane l) = snd (resetCommandLane now l s)"
| "queue_step s (now, ResetAll) = resetAllLanes now s"
| "queue_step s (now, MarkDraining) = markGatewayDraining s"
| "queue_step s (now, WaitActive t) = snd (waitForActiveTasks t s)"
| "queue_step s (now, WaiterTimeout w) = waiterTimeout w s"


section \<open>The pump in closed form\<close>

text \<open>The number of entries a pump starts: the free slots, or the whole queue.\<close>

definition pump_count :: "lane_state \<Rightarrow> nat" where
  "pump_count ls =
     min (length (queue ls)) (nat (maxConcurrent ls - int (length (activeTaskIds ls))))"

definition started_task :: "lane_state \<Rightarrow> nat \<Rightarrow> queue_entry \<Rightarrow> inflight_task" where
  "started_task ls t e = \<lparr>if_taskId = t, if_lane = lane_name ls, if_generation = generation ls,
     if_entry = e\<rparr>"

definition pump_tasks :: "lane_state \<Rightarrow> nat \<Rightarrow> inflight_task list" where
  "pump_tasks ls tid =
     map2 (started_task ls) [tid ..< tid + pump_count ls] (take (pump_count ls) (queue ls))"

definition pump_lane_result :: "lane_state \<Rightarrow> nat \<Rightarrow> lane_state" where
  "pump_lane_result ls tid = ls\<lparr>queue := drop (pump_count ls) (queue ls),
     activeTaskIds := activeTaskIds ls @ [tid ..< tid + pump_count ls]\<rparr>"

lemma pump_count_step:
  assumes "int (length (activeTaskIds ls)) < maxConcurrent ls" "queue ls = e # q"
    "t \<notin> set (activeTaskIds ls)"
  shows "pump_count ls = Suc (pump_count (ls\<lparr>queue := q, activeTaskIds := set_add t (activeTaskIds ls)\<rparr>))"
  using assms by (simp add: pump_count_def set_add_def)

lemma pump_closed:
  assumes "\<forall>t \<in> set (activeTaskIds ls). t < tid"
  shows "\<exists>effs. pump now ls tid =
    (pump_lane_result ls tid, tid + pump_count ls, pump_tasks ls tid, effs)"
  using assms
proof (induction now ls tid rule: pump.induct)
  case (1 now ls tid)
  show ?case
  proof (cases "int (length (activeTaskIds ls)) < maxConcurrent ls \<and> length (queue ls) > 0")
    case False
    then have "pump_count ls = 0" by (auto simp: pump_count_def)
    with False show ?thesis
      by (auto simp: pump.simps [of now ls tid] pump_lane_result_def pump_tasks_def)
  next
    case True
    then obtain e q where q: "queue ls = e # q" by (cases "queue ls") auto
    define ls1 where "ls1 = ls\<lparr>queue := q, activeTaskIds := set_add tid (activeTaskIds ls)\<rparr>"
    have fresh: "tid \<notin> set (activeTaskIds ls)" using "1.prems" by auto
    have k: "pump_count ls = Suc (pump_count ls1)"
      unfolding ls1_def using True q fresh by (intro pump_count_step) auto
    have "\<forall>t \<in> set (activeTaskIds ls1). t < Suc tid"
      using "1.prems" by (auto simp: ls1_def)
    with "1.IH" [OF True refl _ refl] q obtain effs where IH: "pump now ls1 (Suc tid) =
      (pump_lane_result ls1 (Suc tid), Suc tid + pump_count ls1, pump_tasks ls1 (Suc tid), effs)"
      by (auto simp: ls1_def)
    have res: "pump_lane_result ls1 (Suc tid) = pump_lane_result ls tid"
      using q fresh unfolding pump_lane_result_def k
      by (simp add: ls1_def set_add_def upt_conv_Cons)
    have st: "started_task ls1 = started_task ls"
      by (intro ext) (simp add: started_task_def ls1_def)
    have tasks: "started_task ls tid e # pump_tasks ls1 (Suc tid) = pump_tasks ls tid"
      unfolding pump_tasks_def k st using q by (simp add: ls1_def upt_conv_Cons del: upt_Suc)
    show ?thesis
      using True q IH k res tasks
      by (simp add: pump.simps [of now ls tid] Let_def ls1_def [symmetric] started_task_def)
  qed
qed


section \<open>The invariant\<close>

text \<open>
  A queue is sorted: descending priority, ascending sequence number within a priority. A lane
  is busy when it has no work to start. An active slot is backed by the started task that will
  release it.
\<close>

definition runs_before :: "queue_entry \<Rightarrow> queue_entry \<Rightarrow> bool" where
  "runs_before a b \<longleftrightarrow> runs_after b a"

definition busy :: "lane_state \<Rightarrow> bool" where
  "busy ls \<longleftrightarrow> queue ls = [] \<or> maxConcurrent ls \<le> int (length (activeTaskIds ls))"

definition backed :: "inflight_task list \<Rightarrow> lane_state \<Rightarrow> bool" where
  "backed fs ls \<longleftrightarrow> (\<forall>t \<in> set (activeTaskIds ls). \<exists>f \<in> set fs.
     if_taskId f = t \<and> if_lane f = lane_name ls \<and> if_generation f = generation ls)"

definition lane_ok :: "inflight_task list \<Rightarrow> lane_state \<Rightarrow> bool" where
  "lane_ok fs ls \<longleftrightarrow> sorted_wrt runs_before (queue ls) \<and> \<not> draining ls \<and>
     distinct (activeTaskIds ls) \<and> backed fs ls"

definition queue_seqs :: "lane_state \<Rightarrow> nat multiset" where
  "queue_seqs ls = mset (map sequence_no (queue ls))"

definition all_seqs :: "queue_state \<Rightarrow> nat multiset" where
  "all_seqs s = sum_list (map (\<lambda>(_, ls). queue_seqs ls) (lanes s)) +
     mset (map (\<lambda>f. sequence_no (if_entry f)) (inflight s)) + mset (map fst (settled s))"

text \<open>
  \<open>core_inv\<close> leaves out that the lanes of \<open>idle\<close> are busy: these are the lanes an operation
  has changed and not yet pumped.
\<close>

definition core_inv :: "string set \<Rightarrow> queue_state \<Rightarrow> bool" where
  "core_inv idle s \<longleftrightarrow>
     distinct (map_keys (lanes s)) \<and>
     (\<forall>(l, ls) \<in> set (lanes s). lane_name ls = l \<and> lane_ok (inflight s) ls \<and> (l \<notin> idle \<longrightarrow> busy ls)) \<and>
     distinct (map if_taskId (inflight s)) \<and>
     (\<forall>f \<in> set (inflight s). if_taskId f < nextTaskId s) \<and>
     0 < nextQueueSequence s \<and>
     all_seqs s = mset [1 ..< nextQueueSequence s]"

definition waiters_ok :: "queue_state \<Rightarrow> bool" where
  "waiters_ok s \<longleftrightarrow> (\<forall>w \<in> set (activeTaskWaiters s). hasPendingActiveTasks (waiter_taskIds w) s)"

definition queue_inv :: "queue_state \<Rightarrow> bool" where
  "queue_inv s \<longleftrightarrow> core_inv {} s \<and> waiters_ok s"

lemma core_invD:
  assumes "core_inv B s"
  shows "distinct (map_keys (lanes s))"
    and "map_of (lanes s) l = Some ls \<Longrightarrow>
      lane_name ls = l \<and> lane_ok (inflight s) ls \<and> (l \<notin> B \<longrightarrow> busy ls)"
    and "distinct (map if_taskId (inflight s))"
    and "f \<in> set (inflight s) \<Longrightarrow> if_taskId f < nextTaskId s"
    and "all_seqs s = mset [1 ..< nextQueueSequence s]"
  using assms by (auto simp: core_inv_def dest!: map_of_SomeD)

lemma core_inv_mono: "core_inv B s \<Longrightarrow> B \<subseteq> C \<Longrightarrow> core_inv C s"
  by (auto simp: core_inv_def)

lemma new_lane_ok [simp]: "lane_ok fs (new_lane l)" "busy (new_lane l)"
  by (simp_all add: lane_ok_def new_lane_def backed_def busy_def)

lemma lane_of_ok:
  assumes "core_inv B s"
  shows "lane_name (lane_of s l) = l" "lane_ok (inflight s) (lane_of s l)"
    "l \<notin> B \<Longrightarrow> busy (lane_of s l)"
  using core_invD(2) [OF assms, of l]
  by (auto simp: lane_of_def new_lane_def [of l] split: option.splits)
     (auto simp flip: new_lane_def)

lemma active_fresh:
  assumes "core_inv B s" "t \<in> set (activeTaskIds (lane_of s l))"
  shows "t < nextTaskId s"
  using assms lane_of_ok(2) [OF assms(1), of l] core_invD(4) [OF assms(1)]
  by (fastforce simp: lane_ok_def backed_def)

lemma all_seqs_put_lane:
  "all_seqs (put_lane l ls s) + queue_seqs (lane_of s l) = all_seqs s + queue_seqs ls"
proof (cases "map_of (lanes s) l")
  case None
  then show ?thesis
    using sum_list_map_set_new [of "lanes s" l queue_seqs ls]
    by (simp add: all_seqs_def put_lane_def lane_of_def new_lane_def queue_seqs_def ac_simps)
next
  case (Some ls0)
  then show ?thesis
    using sum_list_map_set_old [of "lanes s" l ls0 queue_seqs ls]
    by (simp add: all_seqs_def put_lane_def lane_of_def ac_simps)
qed

text \<open>Replacing one lane: the rule every operation uses.\<close>

lemma core_inv_put_lane:
  assumes inv: "core_inv B s"
    and name: "lane_name ls = l" and ok: "lane_ok fs ls" and busy: "l \<notin> C \<Longrightarrow> busy ls"
    and sub: "B \<subseteq> insert l C"
    and others: "\<And>l' ls'. l' \<noteq> l \<Longrightarrow> map_of (lanes s) l' = Some ls' \<Longrightarrow> backed fs ls'"
    and ids: "distinct (map if_taskId fs)" "\<forall>f \<in> set fs. if_taskId f < n"
    and seqs: "all_seqs (put_lane l ls s\<lparr>nextTaskId := n, nextQueueSequence := m, inflight := fs,
      settled := st, effects := ef\<rparr>) = mset [1 ..< m]" and m: "0 < m"
  shows "core_inv C (put_lane l ls s\<lparr>nextTaskId := n, nextQueueSequence := m, inflight := fs,
      settled := st, effects := ef\<rparr>)"
proof -
  have "lane_name v = k \<and> lane_ok fs v \<and> (k \<notin> C \<longrightarrow> busy v)"
    if "(k, v) \<in> set (map_set l ls (lanes s))" for k v
  proof (cases "k = l")
    case True
    with that name ok busy show ?thesis
      using map_set_mem [OF core_invD(1) [OF inv]] by auto
  next
    case False
    with that have kv: "map_of (lanes s) k = Some v"
      using map_set_mem [OF core_invD(1) [OF inv], of k v l ls] core_invD(1) [OF inv] by simp
    from core_invD(2) [OF inv kv] others [OF False kv] False sub show ?thesis
      by (auto simp: lane_ok_def)
  qed
  moreover have "distinct (map_keys (map_set l ls (lanes s)))"
    using core_invD(1) [OF inv] by (rule distinct_update)
  ultimately show ?thesis
    using ids seqs m by (auto simp: core_inv_def put_lane_def)
qed


section \<open>The pump keeps the invariant\<close>

lemma pump_lane_closed:
  assumes "core_inv B s"
  obtains effs where "pump_lane now l s =
    (put_lane l ((pump_lane_result (lane_of s l) (nextTaskId s))\<lparr>draining := False\<rparr>) s)
      \<lparr>nextTaskId := nextTaskId s + pump_count (lane_of s l),
       nextQueueSequence := nextQueueSequence s,
       inflight := inflight s @ pump_tasks (lane_of s l) (nextTaskId s),
       settled := settled s, effects := effs\<rparr>"
proof -
  from active_fresh [OF assms] have "\<forall>t \<in> set (activeTaskIds (lane_of s l)). t < nextTaskId s"
    by blast
  from pump_closed [OF this, of now] obtain effs where
    "pump now (lane_of s l) (nextTaskId s) = (pump_lane_result (lane_of s l) (nextTaskId s),
      nextTaskId s + pump_count (lane_of s l), pump_tasks (lane_of s l) (nextTaskId s), effs)"
    by blast
  then show thesis
    by (intro that [of "effects s @ effs"]) (simp add: pump_lane_def put_lane_def)
qed

lemma pump_tasks_simps:
  "map if_taskId (pump_tasks ls tid) = [tid ..< tid + pump_count ls]"
  "map (\<lambda>f. sequence_no (if_entry f)) (pump_tasks ls tid)
     = map sequence_no (take (pump_count ls) (queue ls))"
  by (auto simp: pump_tasks_def started_task_def pump_count_def intro!: nth_equalityI)

lemma pump_task_mem:
  "f \<in> set (pump_tasks ls tid) \<Longrightarrow> if_lane f = lane_name ls \<and> if_generation f = generation ls \<and>
     tid \<le> if_taskId f \<and> if_taskId f < tid + pump_count ls"
  by (auto simp: pump_tasks_def started_task_def dest!: set_zip_leftD)

lemma pump_task_exists:
  "tid \<le> t \<Longrightarrow> t < tid + pump_count ls \<Longrightarrow> \<exists>f \<in> set (pump_tasks ls tid). if_taskId f = t"
proof -
  assume "tid \<le> t" "t < tid + pump_count ls"
  then have "t \<in> set (map if_taskId (pump_tasks ls tid))"
    unfolding pump_tasks_simps(1) by simp
  then show ?thesis by auto
qed

lemma backed_append: "backed fs ls \<Longrightarrow> backed (fs @ gs) ls"
  by (fastforce simp: backed_def)

lemma backed_draining [simp]: "backed fs (ls\<lparr>draining := b\<rparr>) = backed fs ls"
  by (simp add: backed_def)

lemma pump_result_ok:
  assumes "sorted_wrt runs_before (queue ls)" "distinct (activeTaskIds ls)" "backed fs ls"
    and fresh: "\<forall>t \<in> set (activeTaskIds ls). t < tid"
  shows "lane_ok (fs @ pump_tasks ls tid) ((pump_lane_result ls tid)\<lparr>draining := False\<rparr>)"
    "busy ((pump_lane_result ls tid)\<lparr>draining := False\<rparr>)"
proof -
  have "\<exists>f \<in> set (fs @ pump_tasks ls tid). if_taskId f = t \<and> if_lane f = lane_name ls \<and>
      if_generation f = generation ls" if "t \<in> set (activeTaskIds ls @ [tid ..< tid + pump_count ls])" for t
  proof (cases "t \<in> set (activeTaskIds ls)")
    case True
    with \<open>backed fs ls\<close> show ?thesis by (auto simp: backed_def)
  next
    case False
    with that pump_task_exists [of tid t ls] show ?thesis
      by (auto dest: pump_task_mem)
  qed
  with assms show "lane_ok (fs @ pump_tasks ls tid) ((pump_lane_result ls tid)\<lparr>draining := False\<rparr>)"
    by (auto simp: lane_ok_def pump_lane_result_def backed_def sorted_wrt_drop)
  show "busy ((pump_lane_result ls tid)\<lparr>draining := False\<rparr>)"
    by (auto simp: busy_def pump_lane_result_def pump_count_def min_def)
qed

lemma pump_seqs:
  "queue_seqs (pump_lane_result ls tid) + mset (map (\<lambda>f. sequence_no (if_entry f)) (pump_tasks ls tid))
    = queue_seqs ls"
proof -
  have "mset (map sequence_no (drop k q)) + mset (map sequence_no (take k q)) = mset (map sequence_no q)"
    for k and q :: "queue_entry list"
    by (metis add.commute append_take_drop_id map_append mset_append)
  then show ?thesis
    unfolding pump_tasks_simps(2)
    by (simp add: queue_seqs_def pump_lane_result_def del: mset_map)
qed

lemma mset_exchange:
  fixes X :: "'a multiset"
  assumes "X + I + S + Q = Y + I + S + R" and "R + T = Q"
  shows "X + (I + T) + S = Y + I + S"
proof -
  have "X + (I + T) + S + R = Y + I + S + R"
    using assms(1) unfolding assms(2) [symmetric] by (simp add: ac_simps)
  then show ?thesis by simp
qed

lemma all_seqs_update [simp]:
  "all_seqs (s\<lparr>nextTaskId := a, nextQueueSequence := b, inflight := c, settled := d, effects := e\<rparr>)
    = sum_list (map (\<lambda>(_, ls). queue_seqs ls) (lanes s)) +
      mset (map (\<lambda>f. sequence_no (if_entry f)) c) + mset (map fst d)"
  by (simp add: all_seqs_def)

lemma pump_lane_core:
  assumes inv: "core_inv B s"
  shows "core_inv (B - {l}) (pump_lane now l s)"
proof -
  let ?ls = "lane_of s l"
  let ?tid = "nextTaskId s"
  let ?r = "(pump_lane_result ?ls ?tid)\<lparr>draining := False\<rparr>"
  from pump_lane_closed [OF inv, of now l] obtain effs where eq: "pump_lane now l s =
    (put_lane l ?r s)\<lparr>nextTaskId := ?tid + pump_count ?ls, nextQueueSequence := nextQueueSequence s,
       inflight := inflight s @ pump_tasks ?ls ?tid, settled := settled s, effects := effs\<rparr>" .
  have ok: "lane_ok (inflight s) ?ls" "lane_name ?ls = l"
    using lane_of_ok [OF inv] by auto
  have fresh: "\<forall>t \<in> set (activeTaskIds ?ls). t < ?tid"
    using active_fresh [OF inv] by blast
  have m: "0 < nextQueueSequence s" using inv by (simp add: core_inv_def)
  have "all_seqs (put_lane l ?r s) + queue_seqs ?ls = all_seqs s + queue_seqs (pump_lane_result ?ls ?tid)"
    using all_seqs_put_lane [of l ?r s] by (simp add: queue_seqs_def)
  then have seqs: "all_seqs (put_lane l ?r s\<lparr>nextTaskId := ?tid + pump_count ?ls,
      nextQueueSequence := nextQueueSequence s, inflight := inflight s @ pump_tasks ?ls ?tid,
      settled := settled s, effects := effs\<rparr>) = mset [1 ..< nextQueueSequence s]"
    unfolding core_invD(5) [OF inv, symmetric] all_seqs_update map_append mset_append
    by (simp only: all_seqs_def) (rule mset_exchange [OF _ pump_seqs], simp add: put_lane_def)
  show ?thesis
    unfolding eq
  proof (rule core_inv_put_lane [OF inv _ _ _ _ _ _ _ seqs m])
    show "lane_name ?r = l" using ok(2) by (simp add: pump_lane_result_def)
    from ok(1) have parts: "sorted_wrt runs_before (queue ?ls)" "distinct (activeTaskIds ?ls)"
      "backed (inflight s) ?ls" by (auto simp: lane_ok_def)
    show "lane_ok (inflight s @ pump_tasks ?ls ?tid) ?r" "busy ?r"
      using pump_result_ok [OF parts fresh] by blast+
    show "backed (inflight s @ pump_tasks ?ls ?tid) ls'" if "map_of (lanes s) l' = Some ls'" for l' ls'
      using core_invD(2) [OF inv that] by (auto simp: lane_ok_def intro: backed_append)
    show "distinct (map if_taskId (inflight s @ pump_tasks ?ls ?tid))"
      using core_invD(3,4) [OF inv] by (fastforce simp: pump_tasks_simps)
    show "\<forall>f \<in> set (inflight s @ pump_tasks ?ls ?tid). if_taskId f < ?tid + pump_count ?ls"
      using core_invD(4) [OF inv] by (fastforce dest: pump_task_mem)
  qed auto
qed


section \<open>Draining, lookups and notification\<close>

lemma pump_draining:
  "pump now (ls\<lparr>draining := b\<rparr>) tid =
     (case pump now ls tid of (ls', r) \<Rightarrow> (ls'\<lparr>draining := b\<rparr>, r))"
proof (induction now ls tid rule: pump.induct)
  case (1 now ls tid)
  show ?case
  proof (cases "int (length (activeTaskIds ls)) < maxConcurrent ls \<and> length (queue ls) > 0")
    case True
    have swap: "ls\<lparr>draining := b, queue := q, activeTaskIds := a\<rparr> =
        ls\<lparr>queue := q, activeTaskIds := a, draining := b\<rparr>" for q a
      by (cases ls) simp
    from "1.IH" [OF True refl refl refl] True show ?thesis
      by (simp add: pump.simps [of now ls tid] pump.simps [of now "ls\<lparr>draining := b\<rparr>" tid] Let_def swap
          split: prod.splits)
  next
    case False
    then have "\<not> (int (length (activeTaskIds (ls\<lparr>draining := b\<rparr>))) < maxConcurrent (ls\<lparr>draining := b\<rparr>) \<and>
        length (queue (ls\<lparr>draining := b\<rparr>)) > 0)" by simp
    then show ?thesis
      unfolding pump.simps [of now ls tid] pump.simps [of now "ls\<lparr>draining := b\<rparr>" tid] if_not_P [OF False]
      by (simp only: if_False split_conv)
  qed
qed

lemma lane_of_put_lane [simp]: "lane_of (put_lane l ls s) l' = (if l' = l then ls else lane_of s l')"
  by (simp add: lane_of_def put_lane_def)

lemma put_lane_twice [simp]: "put_lane l ls' (put_lane l ls s) = put_lane l ls' s"
  by (simp add: put_lane_def)

lemma put_lane_select [simp]:
  "nextTaskId (put_lane l ls s) = nextTaskId s"
  "nextQueueSequence (put_lane l ls s) = nextQueueSequence s"
  "inflight (put_lane l ls s) = inflight s"
  "settled (put_lane l ls s) = settled s"
  "effects (put_lane l ls s) = effects s"
  "gatewayDraining (put_lane l ls s) = gatewayDraining s"
  "activeTaskWaiters (put_lane l ls s) = activeTaskWaiters s"
  by (simp_all add: put_lane_def)

lemma getLaneState_eq:
  "fst (getLaneState l s) = lane_of s l"
  "put_lane l ls (snd (getLaneState l s)) = put_lane l ls s"
  "nextQueueSequence (snd (getLaneState l s)) = nextQueueSequence s"
  by (simp_all add: getLaneState_def lane_of_def split: option.splits)

lemma drainLane_eq:
  assumes "\<not> draining (lane_of s l)"
  shows "drainLane now l s = pump_lane now l s"
proof -
  let ?s' = "put_lane l ((lane_of s l)\<lparr>draining := True\<rparr>) s"
  have "drainLane now l s = pump_lane now l ?s'"
    using assms
    by (simp add: drainLane_def split_beta getLaneState_eq)
  also have "\<dots> = pump_lane now l s"
    by (simp add: pump_lane_def pump_draining split_beta Let_def)
  finally show ?thesis .
qed

lemma drainLane_core:
  assumes "core_inv B s"
  shows "core_inv (B - {l}) (drainLane now l s)"
proof -
  have "\<not> draining (lane_of s l)"
    using lane_of_ok(2) [OF assms] by (simp add: lane_ok_def)
  then show ?thesis using pump_lane_core [OF assms] by (simp add: drainLane_eq)
qed

lemma hasPending_iff:
  assumes "distinct (map_keys (lanes s))"
  shows "hasPendingActiveTasks ids s \<longleftrightarrow>
    (\<exists>l. \<exists>t \<in> set (activeTaskIds (lane_of s l)). t \<in> set ids)"
proof -
  have "hasPendingActiveTasks ids s \<longleftrightarrow>
      (\<exists>l ls. map_of (lanes s) l = Some ls \<and> (\<exists>t \<in> set (activeTaskIds ls). t \<in> set ids))"
    using assms by (auto simp: hasPendingActiveTasks_def list_ex_iff)
  also have "\<dots> \<longleftrightarrow> (\<exists>l. \<exists>t \<in> set (activeTaskIds (lane_of s l)). t \<in> set ids)"
  proof
    assume "\<exists>l ls. map_of (lanes s) l = Some ls \<and> (\<exists>t \<in> set (activeTaskIds ls). t \<in> set ids)"
    then obtain l ls where "map_of (lanes s) l = Some ls" "\<exists>t \<in> set (activeTaskIds ls). t \<in> set ids"
      by blast
    then show "\<exists>l. \<exists>t \<in> set (activeTaskIds (lane_of s l)). t \<in> set ids"
      by (intro exI [of _ l]) (simp add: lane_of_def)
  next
    assume "\<exists>l. \<exists>t \<in> set (activeTaskIds (lane_of s l)). t \<in> set ids"
    then obtain l where l: "\<exists>t \<in> set (activeTaskIds (lane_of s l)). t \<in> set ids" by blast
    then obtain ls where "map_of (lanes s) l = Some ls"
      by (cases "map_of (lanes s) l") (auto simp: lane_of_def new_lane_def)
    with l show "\<exists>l ls. map_of (lanes s) l = Some ls \<and> (\<exists>t \<in> set (activeTaskIds ls). t \<in> set ids)"
      by (intro exI [of _ l] exI [of _ ls]) (simp add: lane_of_def)
  qed
  finally show ?thesis .
qed

lemma hasPending_lanes: "lanes s = lanes t \<Longrightarrow> hasPendingActiveTasks ids s = hasPendingActiveTasks ids t"
  by (simp add: hasPendingActiveTasks_def)

lemma notify_closed:
  "\<exists>ef. notifyActiveTaskWaiters s = s\<lparr>activeTaskWaiters :=
     filter (\<lambda>w. waiter_taskIds w \<noteq> [] \<and> hasPendingActiveTasks (waiter_taskIds w) s) (activeTaskWaiters s),
     effects := ef\<rparr>"
proof -
  let ?keep = "\<lambda>w. waiter_taskIds w \<noteq> [] \<and> hasPendingActiveTasks (waiter_taskIds w) s"
  let ?f = "\<lambda>w t. if waiter_taskIds w = [] \<or> \<not> hasPendingActiveTasks (waiter_taskIds w) t
                 then resolveActiveTaskWaiter w True t else t"
  have "\<exists>ef. fold ?f ws (s\<lparr>activeTaskWaiters := vs, effects := e\<rparr>) =
      s\<lparr>activeTaskWaiters := filter (\<lambda>w. w \<in> set ws \<longrightarrow> ?keep w) vs, effects := ef\<rparr>" for ws vs e
  proof (induction ws arbitrary: vs e)
    case Nil
    show ?case by auto
  next
    case (Cons w ws)
    let ?t = "s\<lparr>activeTaskWaiters := vs, effects := e\<rparr>"
    have hp: "hasPendingActiveTasks ids ?t = hasPendingActiveTasks ids s" for ids
      by (rule hasPending_lanes) simp
    show ?case
    proof (cases "?keep w")
      case True
      then have "?f w ?t = ?t" by (simp add: hp)
      moreover obtain ef where
        "fold ?f ws ?t = s\<lparr>activeTaskWaiters := filter (\<lambda>w. w \<in> set ws \<longrightarrow> ?keep w) vs, effects := ef\<rparr>"
        using Cons.IH by blast
      moreover have "filter (\<lambda>v. v \<in> set ws \<longrightarrow> ?keep v) vs = filter (\<lambda>v. v \<in> set (w # ws) \<longrightarrow> ?keep v) vs"
        using True by (intro filter_cong) auto
      ultimately show ?thesis by (simp only: fold_simps) blast
    next
      case False
      obtain e' where step: "?f w ?t = s\<lparr>activeTaskWaiters := removeAll w vs, effects := e'\<rparr>"
      proof (cases "w \<in> set vs")
        case True
        with False show thesis
          by (intro that [of "e @ [WaiterResolved (waiter_id w) True]"])
             (auto simp: hp resolveActiveTaskWaiter_def)
      next
        case False
        then show thesis
          by (intro that [of e]) (simp add: resolveActiveTaskWaiter_def)
      qed
      obtain ef where
        "fold ?f ws (?f w ?t) = s\<lparr>activeTaskWaiters :=
           filter (\<lambda>w. w \<in> set ws \<longrightarrow> ?keep w) (removeAll w vs), effects := ef\<rparr>"
        unfolding step using Cons.IH by blast
      moreover have "filter (\<lambda>v. v \<in> set ws \<longrightarrow> ?keep v) (removeAll w vs) =
          filter (\<lambda>v. v \<in> set (w # ws) \<longrightarrow> ?keep v) vs"
        using False unfolding removeAll_filter_not_eq filter_filter by (intro filter_cong) auto
      ultimately show ?thesis by (simp only: fold_simps) blast
    qed
  qed
  from this [of "activeTaskWaiters s" "effects s" "activeTaskWaiters s"]
  obtain ef where "fold ?f (activeTaskWaiters s) s = s\<lparr>activeTaskWaiters :=
      filter (\<lambda>w. w \<in> set (activeTaskWaiters s) \<longrightarrow> ?keep w) (activeTaskWaiters s), effects := ef\<rparr>"
    by auto
  moreover have "filter (\<lambda>w. w \<in> set (activeTaskWaiters s) \<longrightarrow> ?keep w) (activeTaskWaiters s) =
      filter ?keep (activeTaskWaiters s)"
    by (intro filter_cong) auto
  ultimately show ?thesis by (auto simp: notifyActiveTaskWaiters_def)
qed

lemma core_inv_frame:
  "core_inv B (s\<lparr>activeTaskWaiters := ws, effects := ef\<rparr>) = core_inv B s"
  by (simp add: core_inv_def all_seqs_def)

lemma notify_core [simp]: "core_inv B (notifyActiveTaskWaiters s) = core_inv B s"
  using notify_closed [of s] core_inv_frame by metis

lemma notify_waiters_ok: "waiters_ok (notifyActiveTaskWaiters s)"
proof -
  obtain ef where eq: "notifyActiveTaskWaiters s = s\<lparr>activeTaskWaiters :=
     filter (\<lambda>w. waiter_taskIds w \<noteq> [] \<and> hasPendingActiveTasks (waiter_taskIds w) s) (activeTaskWaiters s),
     effects := ef\<rparr>"
    using notify_closed by blast
  show ?thesis
    unfolding eq waiters_ok_def by (auto simp: hasPendingActiveTasks_def)
qed

lemma waiters_ok_mono:
  assumes "waiters_ok s" "distinct (map_keys (lanes s))" "distinct (map_keys (lanes t))"
    and "set (activeTaskWaiters t) \<subseteq> set (activeTaskWaiters s)"
    and "\<And>l. set (activeTaskIds (lane_of s l)) \<subseteq> set (activeTaskIds (lane_of t l))"
  shows "waiters_ok t"
  unfolding waiters_ok_def
proof
  fix w assume "w \<in> set (activeTaskWaiters t)"
  with assms(1,4) have "hasPendingActiveTasks (waiter_taskIds w) s"
    by (auto simp: waiters_ok_def)
  then show "hasPendingActiveTasks (waiter_taskIds w) t"
    using assms(2,3,5) by (auto simp: hasPending_iff)
qed

section \<open>The lane discipline\<close>

text \<open>
  What a queue of a lane promises its clients: an insertion keeps the queue sorted when the
  key of the new element is larger than every queued key, and adds exactly that key.
\<close>

locale queue_discipline =
  fixes lt :: "'e \<Rightarrow> 'e \<Rightarrow> bool"
    and key :: "'e \<Rightarrow> nat"
    and items :: "'q \<Rightarrow> 'e list"
    and ins :: "'q \<Rightarrow> 'e \<Rightarrow> 'q"
  assumes ins_sorted: "sorted_wrt lt (items q) \<Longrightarrow> \<forall>x \<in> set (items q). key x < key e \<Longrightarrow>
      sorted_wrt lt (items (ins q e))"
    and ins_keys: "mset (map key (items (ins q e))) = add_mset (key e) (mset (map key (items q)))"
begin

lemma ins_bound:
  assumes "\<forall>x \<in> set (items q). key x < n" "key e < n"
  shows "\<forall>x \<in> set (items (ins q e)). key x < n"
proof -
  have "set (map key (items (ins q e))) = insert (key e) (set (map key (items q)))"
    using ins_keys [of q e] by (metis set_mset_add_mset_insert set_mset_mset)
  then have keys: "key ` set (items (ins q e)) = insert (key e) (key ` set (items q))" by simp
  show ?thesis
  proof
    fix x assume "x \<in> set (items (ins q e))"
    then have "key x \<in> insert (key e) (key ` set (items q))" unfolding keys [symmetric] by (rule imageI)
    with assms show "key x < n" by auto
  qed
qed

lemma foldl_sorted:
  assumes "sorted_wrt lt (items q)" "\<forall>x \<in> set (items q). \<forall>e \<in> set es. key x < key e"
    and "sorted_wrt (\<lambda>a b. key a < key b) es"
  shows "sorted_wrt lt (items (foldl ins q es))"
  using assms
proof (induction es arbitrary: q)
  case (Cons e es)
  have "\<forall>x \<in> set (items (ins q e)). key x < key e'" if "e' \<in> set es" for e'
    using Cons.prems that by (intro ins_bound) auto
  then show ?case using Cons.prems by (auto intro!: Cons.IH ins_sorted)
qed simp

lemma foldl_keys:
  "mset (map key (items (foldl ins q es))) = mset (map key (items q)) + mset (map key es)"
  by (induction es arbitrary: q) (simp_all add: ins_keys del: mset_map)

end


lemma runs_before_trans: "runs_before a b \<Longrightarrow> runs_before b c \<Longrightarrow> runs_before a c"
  by (auto simp: runs_before_def runs_after_def)

lemma enqueueLaneEntry_select [simp]:
  "lane_name (enqueueLaneEntry ls e) = lane_name ls"
  "activeTaskIds (enqueueLaneEntry ls e) = activeTaskIds ls"
  "maxConcurrent (enqueueLaneEntry ls e) = maxConcurrent ls"
  "draining (enqueueLaneEntry ls e) = draining ls"
  "generation (enqueueLaneEntry ls e) = generation ls"
  by (simp_all add: enqueueLaneEntry_def Let_def)

lemma runs_before_annotated [simp]:
  "runs_before x (e\<lparr>queuedAheadAtEnqueue := a, activeAheadAtEnqueue := b\<rparr>) = runs_before x e"
  "runs_before (e\<lparr>queuedAheadAtEnqueue := a, activeAheadAtEnqueue := b\<rparr>) x = runs_before e x"
  by (simp_all add: runs_before_def runs_after_def)

lemma enqueueLaneEntry_sorted:
  assumes "sorted_wrt runs_before (queue ls)" "\<forall>x \<in> set (queue ls). sequence_no x < sequence_no e"
  shows "sorted_wrt runs_before (queue (enqueueLaneEntry ls e))"
proof -
  let ?P = "\<lambda>q. \<not> runs_after q e"
  let ?bef = "takeWhile ?P (queue ls)" and ?beh = "dropWhile ?P (queue ls)"
  have "sorted_wrt runs_before (?bef @ ?beh)" using assms(1) by simp
  then have parts: "sorted_wrt runs_before ?bef" "sorted_wrt runs_before ?beh"
    "\<forall>x \<in> set ?bef. \<forall>y \<in> set ?beh. runs_before x y"
    unfolding sorted_wrt_append by blast+
  have before: "runs_before x e" if "x \<in> set ?bef" for x
  proof -
    have "\<not> runs_after x e" "sequence_no x < sequence_no e"
      using that assms(2) set_takeWhileD by (metis, metis)
    then show ?thesis by (auto simp: runs_before_def runs_after_def)
  qed
  have behind: "runs_before e y" if "y \<in> set ?beh" for y
  proof -
    from that obtain h t where ht: "?beh = h # t" by (cases ?beh) auto
    have "runs_after h e" using ht by (metis dropWhile_eq_Cons_conv)
    then have h: "runs_before e h" by (simp add: runs_before_def)
    from that ht consider "y = h" | "y \<in> set t" by auto
    then show ?thesis
      using h parts(2) runs_before_trans [OF h] unfolding ht by cases auto
  qed
  show ?thesis
    using parts before behind by (auto simp: enqueueLaneEntry_def Let_def sorted_wrt_append)
qed

lemma enqueueLaneEntry_seqs:
  "mset (map sequence_no (queue (enqueueLaneEntry ls e)))
     = add_mset (sequence_no e) (mset (map sequence_no (queue ls)))"
proof -
  have "mset (map sequence_no (queue (enqueueLaneEntry ls e))) =
      add_mset (sequence_no e) (mset (map sequence_no
        (takeWhile (\<lambda>q. \<not> runs_after q e) (queue ls) @ dropWhile (\<lambda>q. \<not> runs_after q e) (queue ls))))"
    by (simp add: enqueueLaneEntry_def Let_def del: takeWhile_dropWhile_id)
  then show ?thesis unfolding takeWhile_dropWhile_id .
qed

interpretation lane_queue: queue_discipline runs_before sequence_no queue enqueueLaneEntry
  by unfold_locales (auto intro: enqueueLaneEntry_sorted simp: enqueueLaneEntry_seqs simp del: mset_map)

section \<open>Every operation keeps the invariant\<close>

text \<open>A pump adds to the active set of its lane and leaves the waiters alone.\<close>

lemma pump_lane_frame:
  assumes "core_inv B s"
  shows "set (activeTaskIds (lane_of s l')) \<subseteq> set (activeTaskIds (lane_of (pump_lane now l s) l'))"
    and "activeTaskWaiters (pump_lane now l s) = activeTaskWaiters s"
    and "nextQueueSequence (pump_lane now l s) = nextQueueSequence s"
    and "settled (pump_lane now l s) = settled s"
    and "gatewayDraining (pump_lane now l s) = gatewayDraining s"
proof -
  from pump_lane_closed [OF assms, of now l] obtain effs where eq: "pump_lane now l s =
    (put_lane l ((pump_lane_result (lane_of s l) (nextTaskId s))\<lparr>draining := False\<rparr>) s)
      \<lparr>nextTaskId := nextTaskId s + pump_count (lane_of s l),
       nextQueueSequence := nextQueueSequence s,
       inflight := inflight s @ pump_tasks (lane_of s l) (nextTaskId s),
       settled := settled s, effects := effs\<rparr>" .
  have lanes: "lane_of (t\<lparr>nextTaskId := a, nextQueueSequence := b, inflight := c, settled := d,
      effects := e\<rparr>) = lane_of t" for t a b c d e
    by (intro ext) (simp add: lane_of_def)
  show "set (activeTaskIds (lane_of s l')) \<subseteq> set (activeTaskIds (lane_of (pump_lane now l s) l'))"
    unfolding eq lanes by (simp add: pump_lane_result_def)
  show "activeTaskWaiters (pump_lane now l s) = activeTaskWaiters s"
    "nextQueueSequence (pump_lane now l s) = nextQueueSequence s"
    "settled (pump_lane now l s) = settled s"
    "gatewayDraining (pump_lane now l s) = gatewayDraining s"
    unfolding eq by simp_all
qed

lemma drainLane_pump:
  "core_inv B s \<Longrightarrow> drainLane now l s = pump_lane now l s"
  using lane_of_ok(2) by (auto simp: lane_ok_def intro: drainLane_eq)

lemma core_inv_put_same:
  assumes inv: "core_inv B s" and name: "lane_name ls = l" and ok: "lane_ok (inflight s) ls"
    and busy: "l \<notin> C \<Longrightarrow> busy ls" and sub: "B \<subseteq> insert l C"
    and seqs: "queue_seqs ls = queue_seqs (lane_of s l)"
  shows "core_inv C (put_lane l ls s)"
proof -
  have all: "all_seqs (put_lane l ls s) = all_seqs s"
    using all_seqs_put_lane [of l ls s] unfolding seqs by simp
  have "core_inv C (put_lane l ls s\<lparr>nextTaskId := nextTaskId s, nextQueueSequence := nextQueueSequence s,
      inflight := inflight s, settled := settled s, effects := effects s\<rparr>)"
  proof (rule core_inv_put_lane [OF inv name ok busy sub])
    show "backed (inflight s) ls'" if "map_of (lanes s) l' = Some ls'" for l' ls'
      using core_invD(2) [OF inv that] by (simp add: lane_ok_def)
    have same: "put_lane l ls s\<lparr>nextTaskId := nextTaskId s, nextQueueSequence := nextQueueSequence s,
      inflight := inflight s, settled := settled s, effects := effects s\<rparr> = put_lane l ls s"
      by (cases s) (simp add: put_lane_def)
    show "all_seqs (put_lane l ls s\<lparr>nextTaskId := nextTaskId s,
      nextQueueSequence := nextQueueSequence s, inflight := inflight s, settled := settled s,
      effects := effects s\<rparr>) = mset [1 ..< nextQueueSequence s]"
      unfolding same all using core_invD(5) [OF inv] .
  qed (use inv in \<open>auto simp: core_inv_def\<close>)
  moreover have "put_lane l ls s\<lparr>nextTaskId := nextTaskId s, nextQueueSequence := nextQueueSequence s,
      inflight := inflight s, settled := settled s, effects := effects s\<rparr> = put_lane l ls s"
    by (cases s) (simp add: put_lane_def)
  ultimately show ?thesis by simp
qed

lemma queued_seq_bound:
  assumes "core_inv B s" "e \<in> set (queue (lane_of s l))"
  shows "sequence_no e < nextQueueSequence s"
proof -
  obtain ls where ls: "map_of (lanes s) l = Some ls" "e \<in> set (queue ls)"
    using assms(2) by (auto simp: lane_of_def new_lane_def split: option.splits)
  have "sequence_no e \<in># queue_seqs ls" using ls(2) by (simp add: queue_seqs_def)
  moreover have "queue_seqs ls \<in> set (map (\<lambda>(_, ls). queue_seqs ls) (lanes s))"
    using map_of_SomeD [OF ls(1)] by force
  ultimately have "sequence_no e \<in># sum_list (map (\<lambda>(_, ls). queue_seqs ls) (lanes s))"
    by (rule in_sum_list_mset)
  then have "sequence_no e \<in># all_seqs s" by (simp add: all_seqs_def)
  then show ?thesis using core_invD(5) [OF assms(1)] by simp
qed

lemma enqueue_core:
  assumes inv: "core_inv {} s" and e: "sequence_no e = nextQueueSequence s"
  shows "core_inv {l} (put_lane l (enqueueLaneEntry (lane_of s l) e)
    (s\<lparr>nextQueueSequence := Suc (nextQueueSequence s)\<rparr>))"
proof -
  let ?ls = "enqueueLaneEntry (lane_of s l) e"
  let ?t = "put_lane l ?ls s\<lparr>nextTaskId := nextTaskId s, nextQueueSequence := Suc (nextQueueSequence s),
      inflight := inflight s, settled := settled s, effects := effects s\<rparr>"
  have m: "0 < nextQueueSequence s" using inv by (simp add: core_inv_def)
  have ok: "lane_ok (inflight s) (lane_of s l)" "lane_name (lane_of s l) = l"
    using lane_of_ok [OF inv] by auto
  have "queue_seqs ?ls = add_mset (nextQueueSequence s) (queue_seqs (lane_of s l))"
    unfolding queue_seqs_def enqueueLaneEntry_seqs e ..
  with all_seqs_put_lane [of l ?ls s] core_invD(5) [OF inv]
  have "all_seqs (put_lane l ?ls s) = add_mset (nextQueueSequence s) (mset [1 ..< nextQueueSequence s])"
    by simp
  also have "\<dots> = mset [1 ..< Suc (nextQueueSequence s)]" using m by simp
  finally have "all_seqs ?t = mset [1 ..< Suc (nextQueueSequence s)]"
    by (simp add: all_seqs_def)
  then have "core_inv {l} ?t"
  proof (intro core_inv_put_lane [OF inv])
    show "lane_name ?ls = l" using ok(2) by simp
    have "sorted_wrt runs_before (queue ?ls)"
      using ok(1) queued_seq_bound [OF inv] e
      by (intro enqueueLaneEntry_sorted) (auto simp: lane_ok_def)
    then show "lane_ok (inflight s) ?ls" using ok(1) by (simp add: lane_ok_def backed_def)
    show "backed (inflight s) ls'" if "map_of (lanes s) l' = Some ls'" for l' ls'
      using core_invD(2) [OF inv that] by (simp add: lane_ok_def)
  qed (use inv in \<open>auto simp: core_inv_def\<close>)
  moreover have "?t = put_lane l ?ls (s\<lparr>nextQueueSequence := Suc (nextQueueSequence s)\<rparr>)"
    by (cases s) (simp add: put_lane_def)
  ultimately show ?thesis by simp
qed

lemma queue_invI: "core_inv {} s \<Longrightarrow> waiters_ok s \<Longrightarrow> queue_inv s"
  by (simp add: queue_inv_def)

lemma core_distinct: "core_inv B s \<Longrightarrow> distinct (map_keys (lanes s))"
  by (simp add: core_inv_def)

lemma put_lane_frame [simp]:
  "lane_of (s\<lparr>nextQueueSequence := n\<rparr>) = lane_of s"
  "lane_of (s\<lparr>settled := st\<rparr>) = lane_of s"
  "lane_of (s\<lparr>inflight := fs\<rparr>) = lane_of s"
  by (intro ext, simp add: lane_of_def)+

text \<open>An operation that rewrites one lane without losing an active slot, then pumps it.\<close>

lemma pump_after_put:
  assumes "core_inv {l} t" "waiters_ok s" "distinct (map_keys (lanes s))"
    and "activeTaskWaiters t = activeTaskWaiters s"
    and "\<And>l'. set (activeTaskIds (lane_of s l')) \<subseteq> set (activeTaskIds (lane_of t l'))"
  shows "queue_inv (drainLane now l t)"
proof (rule queue_invI)
  have core: "core_inv ({l} - {l}) (pump_lane now l t)" using assms(1) by (rule pump_lane_core)
  then show "core_inv {} (drainLane now l t)"
    by (simp add: drainLane_pump [OF assms(1)])
  have "waiters_ok (pump_lane now l t)"
  proof (rule waiters_ok_mono [OF assms(2,3) core_distinct [OF core]])
    show "set (activeTaskWaiters (pump_lane now l t)) \<subseteq> set (activeTaskWaiters s)"
      using assms(4) pump_lane_frame(2) [OF assms(1)] by simp
    show "set (activeTaskIds (lane_of s l')) \<subseteq> set (activeTaskIds (lane_of (pump_lane now l t) l'))" for l'
      using assms(5) pump_lane_frame(1) [OF assms(1)] by blast
  qed
  then show "waiters_ok (drainLane now l t)"
    by (simp add: drainLane_pump [OF assms(1)])
qed

lemma enqueue_inv:
  assumes "queue_inv s"
  shows "queue_inv (snd (enqueueCommandInLane now l opts s))"
proof (cases "gatewayDraining s")
  case True
  with assms show ?thesis by (simp add: enqueueCommandInLane_def)
next
  case False
  let ?l = "normalizeLane l"
  obtain e where "sequence_no e = nextQueueSequence s" and
    eq: "snd (enqueueCommandInLane now l opts s) = drainLane now ?l
      (put_lane ?l (enqueueLaneEntry (lane_of s ?l) e) (s\<lparr>nextQueueSequence := Suc (nextQueueSequence s)\<rparr>))"
  proof -
    obtain ls s1 where g: "getLaneState ?l s = (ls, s1)" by fastforce
    have "ls = lane_of s ?l" "nextQueueSequence s1 = nextQueueSequence s"
      "put_lane ?l v (s1\<lparr>nextQueueSequence := n\<rparr>) = put_lane ?l v (s\<lparr>nextQueueSequence := n\<rparr>)" for v n
      using g by (auto simp: getLaneState_def lane_of_def put_lane_def split: option.splits)
    then show thesis
      using False by (intro that) (auto simp: enqueueCommandInLane_def Let_def g)
  qed
  with assms have core: "core_inv {?l} (put_lane ?l (enqueueLaneEntry (lane_of s ?l) e)
      (s\<lparr>nextQueueSequence := Suc (nextQueueSequence s)\<rparr>))"
    by (intro enqueue_core) (simp_all add: queue_inv_def)
  show ?thesis
    unfolding eq using assms core_distinct [of "{}" s]
    by (intro pump_after_put [OF core]) (auto simp: queue_inv_def)
qed

lemma concurrency_inv:
  assumes "queue_inv s"
  shows "queue_inv (setCommandLaneConcurrency now l n s)"
proof -
  let ?l = "normalizeLane l"
  define m where "m = max (if isProbeLane ?l then 1 else 0) \<lfloor>n\<rfloor>"
  let ?t = "put_lane ?l ((lane_of s ?l)\<lparr>maxConcurrent := m\<rparr>) s"
  have eq: "setCommandLaneConcurrency now l n s = (if m > 0 then drainLane now ?l ?t else ?t)"
    by (simp add: setCommandLaneConcurrency_def split_beta Let_def getLaneState_eq m_def)
  have inv: "core_inv {} s" "waiters_ok s" using assms by (simp_all add: queue_inv_def)
  have core: "core_inv C ?t" if "m > 0 \<Longrightarrow> ?l \<in> C" for C
    using lane_of_ok [OF inv(1), of ?l] that
    by (intro core_inv_put_same [OF inv(1)]) (auto simp: lane_ok_def backed_def busy_def queue_seqs_def)
  show ?thesis
  proof (cases "m > 0")
    case True
    then have "core_inv {?l} ?t" by (intro core) simp
    then show ?thesis
      unfolding eq using True inv core_distinct [OF inv(1)]
      by (auto intro!: pump_after_put)
  next
    case False
    then have "core_inv {} ?t" by (intro core) simp
    moreover from this have "waiters_ok ?t"
      by (intro waiters_ok_mono [OF inv(2) core_distinct [OF inv(1)] core_distinct]) auto
    ultimately show ?thesis unfolding eq using False by (simp add: queue_inv_def)
  qed
qed

lemma clear_inv:
  assumes "queue_inv s"
  shows "queue_inv (snd (clearCommandLane l s))"
proof (cases "map_of (lanes s) (normalizeLane l)")
  case None
  with assms show ?thesis by (simp add: clearCommandLane_def)
next
  case (Some ls)
  let ?l = "normalizeLane l"
  let ?st = "settled s @ map (\<lambda>e. (sequence_no e, Rejected (CommandLaneClearedError ?l))) (queue ls)"
  let ?t = "put_lane ?l (ls\<lparr>queue := []\<rparr>) s\<lparr>nextTaskId := nextTaskId s,
     nextQueueSequence := nextQueueSequence s, inflight := inflight s, settled := ?st, effects := effects s\<rparr>"
  have eq: "snd (clearCommandLane l s) = ?t"
    using Some by (cases s) (simp add: clearCommandLane_def put_lane_def Let_def)
  have inv: "core_inv {} s" "waiters_ok s" using assms by (simp_all add: queue_inv_def)
  have lo: "lane_of s ?l = ls" using Some by (simp add: lane_of_def)
  have fst_st: "map fst ?st = map fst (settled s) @ map sequence_no (queue ls)" by simp
  have "all_seqs (put_lane ?l (ls\<lparr>queue := []\<rparr>) s) + mset (map sequence_no (queue ls)) = all_seqs s"
    using all_seqs_put_lane [of ?l "ls\<lparr>queue := []\<rparr>" s] by (simp add: lo queue_seqs_def)
  then have seqs: "all_seqs ?t = mset [1 ..< nextQueueSequence s]"
    unfolding core_invD(5) [OF inv(1), symmetric] all_seqs_update fst_st
    by (simp add: all_seqs_def ac_simps)
  have core: "core_inv {} ?t"
  proof (rule core_inv_put_lane [OF inv(1) _ _ _ _ _ _ _ seqs])
    show "lane_name (ls\<lparr>queue := []\<rparr>) = ?l" "lane_ok (inflight s) (ls\<lparr>queue := []\<rparr>)"
      using lane_of_ok(1,2) [OF inv(1), of ?l] by (auto simp: lo lane_ok_def backed_def)
    show "backed (inflight s) ls'" if "map_of (lanes s) l' = Some ls'" for l' ls'
      using core_invD(2) [OF inv(1) that] by (simp add: lane_ok_def)
  qed (use inv(1) in \<open>auto simp: core_inv_def busy_def\<close>)
  have act: "activeTaskIds (lane_of ?t l') = activeTaskIds (lane_of s l')" for l'
    using lo by (auto simp: lane_of_def put_lane_def)
  show ?thesis
    unfolding eq
    by (intro queue_invI core waiters_ok_mono [OF inv(2) core_distinct [OF inv(1)] core_distinct [OF core]])
       (simp_all add: act)
qed

text \<open>The promise settles after the pump, which does not read \<open>settled\<close>.\<close>

lemma settled_commutes:
  "pump_lane now l (s\<lparr>settled := st\<rparr>) = (pump_lane now l s)\<lparr>settled := st\<rparr>"
  by (cases s) (simp add: pump_lane_def put_lane_def lane_of_def split_beta Let_def)

lemma notify_settled:
  "notifyActiveTaskWaiters (s\<lparr>settled := st\<rparr>) = (notifyActiveTaskWaiters s)\<lparr>settled := st\<rparr>"
proof -
  let ?f = "\<lambda>w t. if waiter_taskIds w = [] \<or> \<not> hasPendingActiveTasks (waiter_taskIds w) t
                 then resolveActiveTaskWaiter w True t else t"
  have "fold ?f ws (t\<lparr>settled := st\<rparr>) = (fold ?f ws t)\<lparr>settled := st\<rparr>" for ws t
  proof (induction ws arbitrary: t)
    case (Cons w ws)
    have "?f w (t\<lparr>settled := st\<rparr>) = (?f w t)\<lparr>settled := st\<rparr>"
      by (cases t) (simp add: resolveActiveTaskWaiter_def hasPendingActiveTasks_def)
    with Cons.IH show ?case by (simp only: fold_simps)
  qed simp
  then show ?thesis by (simp add: notifyActiveTaskWaiters_def)
qed

lemma settled_update_cong:
  "inflight (notifyActiveTaskWaiters s) = inflight s" "settled (notifyActiveTaskWaiters s) = settled s"
  using notify_closed [of s] by (metis (no_types, lifting) queue_state.select_convs
      queue_state.surjective queue_state.update_convs)+

lemma pump_lane_settled: "settled (pump_lane now l s) = settled s"
  by (simp add: pump_lane_def split_beta Let_def)

lemma taskFinished_eq:
  assumes f: "find (\<lambda>f. if_taskId f = t) (inflight s) = Some f"
    and comp: "completeTask (lane_of s (if_lane f)) t (if_generation f) = (current, ls)"
    and T: "T = put_lane (if_lane f) ls (s\<lparr>inflight := filter (\<lambda>g. if_taskId g \<noteq> t) (inflight s),
      settled := settled s @ [(sequence_no (if_entry f), r)]\<rparr>)"
  shows "taskFinished now t r s =
    (if current then pump_lane now (if_lane f) (notifyActiveTaskWaiters T) else T)"
proof -
  let ?s1 = "put_lane (if_lane f) ls (s\<lparr>inflight := filter (\<lambda>g. if_taskId g \<noteq> t) (inflight s)\<rparr>)"
  have T': "T = ?s1\<lparr>settled := settled s @ [(sequence_no (if_entry f), r)]\<rparr>"
    unfolding T by (cases s) (simp add: put_lane_def)
  show ?thesis
    using f comp
    by (simp add: taskFinished_def Let_def T' settled_commutes notify_settled pump_lane_settled
        settled_update_cong)
qed

lemma backed_without:
  assumes "backed fs ls" "distinct (map if_taskId fs)" "f \<in> set fs" "if_taskId f = t"
    and "t \<in> set (activeTaskIds ls) \<Longrightarrow>
      \<not> (if_lane f = lane_name ls \<and> if_generation f = generation ls)"
  shows "backed (filter (\<lambda>g. if_taskId g \<noteq> t) fs) ls"
  unfolding backed_def
proof
  fix u assume u: "u \<in> set (activeTaskIds ls)"
  with assms(1) obtain g where g: "g \<in> set fs" "if_taskId g = u" "if_lane g = lane_name ls"
    "if_generation g = generation ls" by (auto simp: backed_def)
  have "if_taskId g \<noteq> t"
  proof
    assume "if_taskId g = t"
    with g(1) assms(2-4) have "g = f" by (auto dest: inj_onD simp: distinct_map)
    with g u assms(4,5) show False by auto
  qed
  with g show "\<exists>f \<in> set (filter (\<lambda>g. if_taskId g \<noteq> t) fs). if_taskId f = u \<and>
      if_lane f = lane_name ls \<and> if_generation f = generation ls" by auto
qed

lemma mset_filter_taskId:
  assumes "distinct (map if_taskId fs)" "f \<in> set fs" "if_taskId f = t"
  shows "mset fs = add_mset f (mset (filter (\<lambda>g. if_taskId g \<noteq> t) fs))"
  using assms
proof (induction fs)
  case (Cons g fs)
  show ?case
  proof (cases "g = f")
    case True
    with Cons.prems have "\<forall>x \<in> set fs. if_taskId x \<noteq> t"
      by (auto simp: image_iff)
    then have "filter (\<lambda>g. if_taskId g \<noteq> t) fs = fs" by simp
    with True Cons.prems show ?thesis by simp
  next
    case False
    with Cons.prems have "if_taskId g \<noteq> t" by auto
    with False Cons show ?thesis by auto
  qed
qed simp

lemma finish_core:
  assumes inv: "core_inv {} s" and f: "find (\<lambda>f. if_taskId f = t) (inflight s) = Some f"
    and comp: "completeTask (lane_of s (if_lane f)) t (if_generation f) = (current, ls)"
  shows "core_inv (if current then {if_lane f} else {})
    (put_lane (if_lane f) ls (s\<lparr>inflight := filter (\<lambda>g. if_taskId g \<noteq> t) (inflight s),
      settled := settled s @ [(sequence_no (if_entry f), r)]\<rparr>))"
proof -
  let ?l = "if_lane f" and ?fs = "filter (\<lambda>g. if_taskId g \<noteq> t) (inflight s)"
  let ?st = "settled s @ [(sequence_no (if_entry f), r)]"
  let ?T = "put_lane ?l ls s\<lparr>nextTaskId := nextTaskId s, nextQueueSequence := nextQueueSequence s,
      inflight := ?fs, settled := ?st, effects := effects s\<rparr>"
  note ids = core_invD(3) [OF inv]
  have mem: "f \<in> set (inflight s)" "if_taskId f = t" using find_Some_mem [OF f] by auto
  have ok: "lane_ok (inflight s) (lane_of s ?l)" "lane_name (lane_of s ?l) = ?l"
    "busy (lane_of s ?l)" using lane_of_ok [OF inv] by auto
  have ls: "lane_name ls = ?l" "queue ls = queue (lane_of s ?l)" "draining ls = draining (lane_of s ?l)"
    "generation ls = generation (lane_of s ?l)" "maxConcurrent ls = maxConcurrent (lane_of s ?l)"
    "activeTaskIds ls = (if current then set_remove t (activeTaskIds (lane_of s ?l))
      else activeTaskIds (lane_of s ?l))"
    "\<not> current \<Longrightarrow> generation (lane_of s ?l) \<noteq> if_generation f"
    using comp ok(2) by (auto simp: completeTask_def split: if_splits)
  have all: "all_seqs (put_lane ?l ls s) = all_seqs s"
    using all_seqs_put_lane [of ?l ls s] ls(2) by (simp add: queue_seqs_def)
  have "mset (map (\<lambda>f. sequence_no (if_entry f)) (inflight s)) =
      add_mset (sequence_no (if_entry f)) (mset (map (\<lambda>f. sequence_no (if_entry f)) ?fs))"
    unfolding mset_map mset_filter_taskId [OF ids mem] by simp
  then have seqs: "all_seqs ?T = mset [1 ..< nextQueueSequence s]"
    unfolding core_invD(5) [OF inv, symmetric] all [symmetric] all_seqs_update
    by (simp add: all_seqs_def)
  have "core_inv (if current then {?l} else {}) ?T"
  proof (rule core_inv_put_lane [OF inv ls(1) _ _ _ _ _ _ seqs])
    have "backed (inflight s) ls"
      using ok(1,2) ls(1,4,6) unfolding lane_ok_def backed_def
      by (metis (no_types, lifting) DiffE set_set_remove)
    then have "backed ?fs ls"
      by (rule backed_without [OF _ ids mem]) (use ls in \<open>auto split: if_splits\<close>)
    then show "lane_ok ?fs ls" using ok(1) ls by (auto simp: lane_ok_def)
    show "busy ls" if "?l \<notin> (if current then {?l} else {})"
      using that ok(3) ls by (auto simp: busy_def split: if_splits)
    show "backed ?fs ls'" if "l' \<noteq> ?l" "map_of (lanes s) l' = Some ls'" for l' ls'
      using core_invD(2) [OF inv that(2)] that(1)
      by (intro backed_without [OF _ ids mem]) (auto simp: lane_ok_def)
    show "distinct (map if_taskId ?fs)" using ids by (simp add: distinct_map_filter)
    show "\<forall>g \<in> set ?fs. if_taskId g < nextTaskId s" using core_invD(4) [OF inv] by simp
    show "0 < nextQueueSequence s" using inv by (simp add: core_inv_def)
  qed auto
  moreover have "?T = put_lane ?l ls (s\<lparr>inflight := ?fs, settled := ?st\<rparr>)"
    by (cases s) (simp add: put_lane_def)
  ultimately show ?thesis by simp
qed

lemma finished_inv:
  assumes "queue_inv s"
  shows "queue_inv (taskFinished now t r s)"
proof (cases "find (\<lambda>f. if_taskId f = t) (inflight s)")
  case None
  with assms show ?thesis by (simp add: taskFinished_def)
next
  case (Some f)
  have inv: "core_inv {} s" "waiters_ok s" using assms by (simp_all add: queue_inv_def)
  obtain current ls where comp: "completeTask (lane_of s (if_lane f)) t (if_generation f) = (current, ls)"
    by fastforce
  define T where "T = put_lane (if_lane f) ls (s\<lparr>inflight := filter (\<lambda>g. if_taskId g \<noteq> t) (inflight s),
      settled := settled s @ [(sequence_no (if_entry f), r)]\<rparr>)"
  note eq = taskFinished_eq [OF Some comp T_def, of now]
  have core: "core_inv (if current then {if_lane f} else {}) T"
    unfolding T_def by (rule finish_core [OF inv(1) Some comp])
  show ?thesis
  proof (cases current)
    case True
    let ?N = "notifyActiveTaskWaiters T"
    have cN: "core_inv {if_lane f} ?N" using core True by simp
    have cP: "core_inv {} (pump_lane now (if_lane f) ?N)" using pump_lane_core [OF cN, of "if_lane f" now] by simp
    have "waiters_ok (pump_lane now (if_lane f) ?N)"
      using pump_lane_frame [OF cN]
      by (intro waiters_ok_mono [OF notify_waiters_ok [of T] core_distinct [OF cN] core_distinct [OF cP]])
         auto
    with cP show ?thesis unfolding eq using True by (simp add: queue_inv_def)
  next
    case False
    then have "ls = lane_of s (if_lane f)" using comp by (auto simp: completeTask_def split: if_splits)
    then have "waiters_ok T"
      using core by (intro waiters_ok_mono [OF inv(2) core_distinct [OF inv(1)] core_distinct [OF core]])
        (auto simp: T_def)
    with core False show ?thesis unfolding eq by (simp add: queue_inv_def)
  qed
qed

text \<open>Resetting a lane drops its slots and raises its generation; its queue is kept.\<close>

lemma reset_lane_ok:
  "lane_ok fs ls \<Longrightarrow> lane_ok gs (reset_lane_state ls)"
  "lane_name (reset_lane_state ls) = lane_name ls" "queue (reset_lane_state ls) = queue ls"
  "queue_seqs (reset_lane_state ls) = queue_seqs ls"
  by (simp_all add: lane_ok_def backed_def reset_lane_state_def queue_seqs_def)

lemma reset_inv:
  assumes "queue_inv s"
  shows "queue_inv (snd (resetCommandLane now l s))"
proof (cases "map_of (lanes s) (normalizeLane l)")
  case None
  with assms show ?thesis by (simp add: resetCommandLane_def)
next
  case (Some ls)
  let ?l = "normalizeLane l" and ?ls = "reset_lane_state ls"
  let ?s1 = "put_lane ?l ?ls s"
  have inv: "core_inv {} s" using assms by (simp add: queue_inv_def)
  have lo: "lane_of s ?l = ls" using Some by (simp add: lane_of_def)
  have core: "core_inv C ?s1" if "queue ls \<noteq> [] \<Longrightarrow> ?l \<in> C" for C
    using lane_of_ok [OF inv, of ?l] that unfolding lo
    by (intro core_inv_put_same [OF inv]) (auto simp: reset_lane_ok lo busy_def)
  have "core_inv {} (if length (queue ?ls) > 0 then drainLane now ?l ?s1 else ?s1)"
  proof (cases "queue ls = []")
    case True
    then show ?thesis using core by (simp add: reset_lane_ok)
  next
    case False
    then have "core_inv {?l} ?s1" by (intro core) simp
    from drainLane_core [OF this, of ?l now] False show ?thesis by (simp add: reset_lane_ok)
  qed
  then show ?thesis
    using Some by (simp add: resetCommandLane_def Let_def queue_inv_def notify_waiters_ok)
qed

lemma fold_drain_core:
  "core_inv B s \<Longrightarrow> core_inv (B - set ls) (fold (drainLane now) ls s)"
proof (induction ls arbitrary: s B)
  case (Cons l ls)
  have "B - set (l # ls) = B - {l} - set ls" by auto
  with Cons.IH [OF drainLane_core [OF Cons.prems, of l now]] show ?case by simp
qed simp

lemma resetAll_inv:
  assumes "queue_inv s"
  shows "queue_inv (resetAllLanes now s)"
proof -
  let ?s1 = "s\<lparr>gatewayDraining := False, lanes := map (\<lambda>(l, ls). (l, reset_lane_state ls)) (lanes s)\<rparr>"
  let ?ld = "map fst (filter (\<lambda>(l, ls). length (queue ls) > 0) (lanes ?s1))"
  have inv: "core_inv {} s" using assms by (simp add: queue_inv_def)
  have "core_inv (set ?ld) ?s1"
    unfolding core_inv_def
  proof (intro conjI)
    show "distinct (map_keys (lanes ?s1))" using core_invD(1) [OF inv]
      by (simp add: comp_def split_beta)
    have lanes: "\<forall>(l, ls) \<in> set (lanes s). lane_name ls = l \<and> lane_ok (inflight s) ls"
      using inv by (auto simp: core_inv_def)
    show "\<forall>(l, ls) \<in> set (lanes ?s1). lane_name ls = l \<and> lane_ok (inflight ?s1) ls \<and>
        (l \<notin> set ?ld \<longrightarrow> busy ls)"
    proof (clarify, intro conjI impI)
      fix l ls assume m: "(l, ls) \<in> set (lanes ?s1)"
      then show "lane_name ls = l" "lane_ok (inflight ?s1) ls"
        using lanes by (auto simp: reset_lane_ok)
      assume "l \<notin> set ?ld"
      with m have "queue ls = []" by force
      then show "busy ls" by (simp add: busy_def)
    qed
    have "all_seqs ?s1 = all_seqs s" 
      by (simp add: all_seqs_def comp_def case_prod_unfold reset_lane_ok)
    then show "all_seqs ?s1 = mset [1 ..< nextQueueSequence ?s1]"
      using inv by (simp add: core_inv_def)
  qed (use inv in \<open>simp_all add: core_inv_def\<close>)
  from fold_drain_core [OF this, of ?ld now]
  have "core_inv {} (fold (drainLane now) ?ld ?s1)" by simp
  then show ?thesis
    unfolding resetAllLanes_def Let_def queue_inv_def by (simp only: notify_core notify_waiters_ok simp_thms)
qed

lemma wait_inv:
  assumes "queue_inv s"
  shows "queue_inv (snd (waitForActiveTasks tm s))"
proof -
  have frame: "core_inv {} (s\<lparr>nextWaiterId := n, activeTaskWaiters := ws\<rparr>)"
    "core_inv {} (s\<lparr>nextWaiterId := n, effects := ef\<rparr>)" for n ws ef
    using assms by (simp_all add: queue_inv_def core_inv_def all_seqs_def)
  have "waiters_ok (s\<lparr>nextWaiterId := n, effects := ef\<rparr>)" for n ef
    using assms by (simp add: queue_inv_def waiters_ok_def hasPendingActiveTasks_def)
  then show ?thesis
    using frame
    by (auto simp: waitForActiveTasks_def Let_def queue_inv_def notify_waiters_ok split: option.splits)
qed

lemma timeout_inv:
  assumes "queue_inv s"
  shows "queue_inv (waiterTimeout wid s)"
  using assms
  by (auto simp: waiterTimeout_def resolveActiveTaskWaiter_def queue_inv_def waiters_ok_def
      hasPendingActiveTasks_def core_inv_def all_seqs_def split: option.splits)

lemma draining_inv: "queue_inv s \<Longrightarrow> queue_inv (markGatewayDraining s)"
  by (simp add: markGatewayDraining_def queue_inv_def core_inv_def all_seqs_def waiters_ok_def
      hasPendingActiveTasks_def)

lemmas queue_op_inv = enqueue_inv finished_inv concurrency_inv clear_inv reset_inv resetAll_inv
  draining_inv wait_inv timeout_inv

lemma queue_step_inv: "queue_inv s \<Longrightarrow> queue_inv (queue_step s e)"
  by (cases "(s, e)" rule: queue_step.cases) (simp_all add: queue_op_inv)

interpretation queue_machine: invariant_machine queue_step queue_inv
  by unfold_locales (rule queue_step_inv)

lemma init_queue_inv: "queue_inv init_queue_state"
  by (simp add: init_queue_state_def queue_inv_def core_inv_def all_seqs_def waiters_ok_def)

lemma queue_run_inv: "queue_inv (foldl queue_step init_queue_state ops)"
  by (rule queue_machine.machine_run [OF init_queue_inv])

section \<open>What the queue promises\<close>

text \<open>The order of a sorted queue is the order of ranks.\<close>

definition rank :: "queue_entry \<Rightarrow> int \<times> nat" where
  "rank e = (- priority e, sequence_no e)"

lemma runs_before_rank: "runs_before a b \<longleftrightarrow> rank a < rank b"
  by (auto simp: runs_before_def runs_after_def rank_def)

lemma sorted_runs_before: "sorted_wrt runs_before q \<longleftrightarrow> sorted_wrt (<) (map rank q)"
  unfolding sorted_wrt_map runs_before_rank [abs_def] ..

lemma insort_key_seq_sorted:
  assumes "sorted_wrt runs_before xs" "\<forall>x \<in> set xs. sequence_no e < sequence_no x"
  shows "sorted_wrt runs_before (insort_key (\<lambda>e. - priority e) e xs)"
  using assms
proof (induction xs)
  case (Cons x xs)
  then show ?case
    by (auto simp: set_insort_key runs_before_def runs_after_def)
qed simp

lemma sort_key_seq_sorted:
  "sorted_wrt (\<lambda>a b. sequence_no a < sequence_no b) es \<Longrightarrow>
    sorted_wrt runs_before (sort_key (\<lambda>e. - priority e) es)"
  by (induction es) (auto intro: insort_key_seq_sorted)

lemma enqueueLaneEntry_ranks:
  "set (map rank (queue (enqueueLaneEntry ls e))) = insert (rank e) (set (map rank (queue ls)))"
proof -
  have "set (map rank (takeWhile (\<lambda>q. \<not> runs_after q e) (queue ls))) \<union>
      set (map rank (dropWhile (\<lambda>q. \<not> runs_after q e) (queue ls))) = set (map rank (queue ls))"
    by (metis map_append set_append takeWhile_dropWhile_id)
  then show ?thesis by (auto simp: enqueueLaneEntry_def Let_def rank_def)
qed

lemma foldl_enqueue_ranks:
  "set (map rank (queue (foldl enqueueLaneEntry ls es))) = set (map rank (queue ls)) \<union> set (map rank es)"
  by (induction es arbitrary: ls) (auto simp: enqueueLaneEntry_ranks simp del: set_map)

text \<open>C34: Commands appended to an empty lane one after the other with
  rising sequence numbers stand in the queue in the order of a stable sort by descending
  priority: foreground before normal before background, first in first out within a priority.\<close>

theorem queue_is_stable_sort:
  assumes "queue ls = []" and "sorted_wrt (\<lambda>a b. sequence_no a < sequence_no b) es"
  shows "map sequence_no (queue (foldl enqueueLaneEntry ls es)) =
    map sequence_no (sort_key (\<lambda>e. - priority e) es)"
proof -
  let ?q = "queue (foldl enqueueLaneEntry ls es)" and ?s = "sort_key (\<lambda>e. - priority e) es"
  have "sorted_wrt runs_before ?q"
    using assms by (intro lane_queue.foldl_sorted) auto
  moreover have "sorted_wrt runs_before ?s" using assms(2) by (rule sort_key_seq_sorted)
  ultimately have "sorted_wrt (<) (map rank ?q)" "sorted_wrt (<) (map rank ?s)"
    unfolding sorted_runs_before by auto
  moreover have "set (map rank ?q) = set (map rank ?s)"
    unfolding foldl_enqueue_ranks using assms(1) by simp
  ultimately have "map rank ?q = map rank ?s"
    by (intro sorted_distinct_set_unique) (auto simp: strict_sorted_iff)
  then have "map (snd \<circ> rank) ?q = map (snd \<circ> rank) ?s" by (metis map_map)
  then show ?thesis by (simp add: comp_def rank_def)
qed

text \<open>C1: At every moment of every run each accepted command (each sequence
  number handed out) is in exactly one place: queued in one lane, in flight, or settled once.
  No command is lost, started twice or settled twice, whatever resets, clears, late completions
  and restarts happen in between.\<close>

theorem queue_conservation:
  "all_seqs (foldl queue_step init_queue_state ops) =
     mset [1 ..< nextQueueSequence (foldl queue_step init_queue_state ops)]"
  using queue_run_inv [of ops] by (simp add: queue_inv_def core_inv_def)

text \<open>C18: In every reachable state a lane with queued commands and a positive
  concurrency limit is full of started tasks of its current generation, each still in flight:
  some completion will pump the lane again, so a queue never stalls.\<close>

theorem queue_no_stall:
  assumes "s = foldl queue_step init_queue_state ops"
    and "(l, ls) \<in> set (lanes s)" "queue ls \<noteq> []" "maxConcurrent ls > 0"
  shows "maxConcurrent ls \<le> int (length (activeTaskIds ls)) \<and>
    (\<forall>t \<in> set (activeTaskIds ls). \<exists>f \<in> set (inflight s).
       if_taskId f = t \<and> if_lane f = l \<and> if_generation f = generation ls)"
proof -
  have "core_inv {} s" using queue_run_inv [of ops] assms(1) by (simp add: queue_inv_def)
  with assms(2) have "lane_name ls = l" "lane_ok (inflight s) ls" "busy ls"
    by (auto simp: core_inv_def)
  with assms(3) show ?thesis by (auto simp: lane_ok_def backed_def busy_def)
qed

lemma pump_lane_starts:
  assumes "core_inv B s" "queue (lane_of s l) = e # q"
    and "int (length (activeTaskIds (lane_of s l))) < maxConcurrent (lane_of s l)"
  shows "\<exists>f \<in> set (inflight (pump_lane now l s)). if_entry f = e \<and> if_lane f = l"
    and "\<exists>n. queue (lane_of (pump_lane now l s) l) = drop n q"
proof -
  have "0 < pump_count (lane_of s l)" using assms(2,3) by (simp add: pump_count_def)
  then obtain k where k: "pump_count (lane_of s l) = Suc k" by (auto dest: gr0_implies_Suc)
  from pump_lane_closed [OF assms(1), of now l] obtain effs where eq: "pump_lane now l s =
    (put_lane l ((pump_lane_result (lane_of s l) (nextTaskId s))\<lparr>draining := False\<rparr>) s)
      \<lparr>nextTaskId := nextTaskId s + pump_count (lane_of s l),
       nextQueueSequence := nextQueueSequence s,
       inflight := inflight s @ pump_tasks (lane_of s l) (nextTaskId s),
       settled := settled s, effects := effs\<rparr>" .
  have "pump_tasks (lane_of s l) (nextTaskId s) =
      started_task (lane_of s l) (nextTaskId s) e # map2 (started_task (lane_of s l))
        [Suc (nextTaskId s) ..< nextTaskId s + Suc k] (take k q)"
    using assms(2) by (simp add: pump_tasks_def k upt_conv_Cons del: upt_Suc)
  then have "started_task (lane_of s l) (nextTaskId s) e \<in> set (inflight (pump_lane now l s))"
    unfolding eq by simp
  then show "\<exists>f \<in> set (inflight (pump_lane now l s)). if_entry f = e \<and> if_lane f = l"
    using lane_of_ok(1) [OF assms(1), of l] by (force simp: started_task_def)
  show "\<exists>n. queue (lane_of (pump_lane now l s) l) = drop n q"
    unfolding eq using assms(2) k
    by (intro exI [of _ k]) (simp add: lane_of_def put_lane_def pump_lane_result_def)
qed

text \<open>What a pump does not change, and how far it fills a lane, in any state.\<close>

lemma pump_frame:
  "pump now ls tid = (ls', tid', ts, effs) \<Longrightarrow>
    generation ls' = generation ls \<and> maxConcurrent ls' = maxConcurrent ls \<and>
    length (activeTaskIds ls') \<le> max (length (activeTaskIds ls)) (nat (maxConcurrent ls))"
proof (induction now ls tid arbitrary: ls' tid' ts effs rule: pump.induct)
  case (1 now ls tid)
  show ?case
  proof (cases "int (length (activeTaskIds ls)) < maxConcurrent ls \<and> length (queue ls) > 0")
    case True
    let ?ls1 = "ls\<lparr>queue := tl (queue ls), activeTaskIds := set_add tid (activeTaskIds ls)\<rparr>"
    obtain a b c d where p: "pump now ?ls1 (Suc tid) = (a, b, c, d)" by (metis prod_cases4)
    have "ls' = a" using "1.prems" True p by (simp add: pump.simps [of now ls tid] Let_def)
    moreover have "length (set_add tid (activeTaskIds ls)) \<le> Suc (length (activeTaskIds ls))"
      by (simp add: set_add_def)
    ultimately show ?thesis using "1.IH" [OF True refl refl refl p] True by auto
  next
    case False
    then have "ls' = ls" using "1.prems" unfolding pump.simps [of now ls tid] if_not_P [OF False] by simp
    then show ?thesis by simp
  qed
qed

definition serves :: "lane_state \<Rightarrow> lane_state \<Rightarrow> bool" where
  "serves ls ls' \<longleftrightarrow> generation ls' = generation ls \<and> maxConcurrent ls' = maxConcurrent ls \<and>
    length (activeTaskIds ls') \<le> max (length (activeTaskIds ls)) (nat (maxConcurrent ls))"

lemma serves_refl [simp]: "serves ls ls"
  by (simp add: serves_def)

lemma serves_trans: "serves a b \<Longrightarrow> serves b c \<Longrightarrow> serves a c"
  by (auto simp: serves_def)

lemma pump_lane_serves: "serves (lane_of s l') (lane_of (pump_lane now l s) l')"
proof -
  obtain a b c d where p: "pump now (lane_of s l) (nextTaskId s) = (a, b, c, d)"
    by (metis prod_cases4)
  have "lane_of (pump_lane now l s) l' = (if l' = l then a\<lparr>draining := False\<rparr> else lane_of s l')"
    using p by (simp add: pump_lane_def lane_of_def put_lane_def)
  then show ?thesis using pump_frame [OF p] by (simp add: serves_def)
qed

lemma lane_of_getLaneState: "lane_of (snd (getLaneState l s)) l' = lane_of s l'"
  by (simp add: getLaneState_def lane_of_def put_lane_def split: option.splits)

lemma drainLane_serves: "serves (lane_of s l') (lane_of (drainLane now l s) l')"
proof (cases "draining (lane_of s l)")
  case True
  then show ?thesis by (simp add: drainLane_def split_beta getLaneState_eq lane_of_getLaneState)
next
  case False
  then show ?thesis by (simp add: drainLane_eq pump_lane_serves)
qed

lemma fold_drain_serves: "serves (lane_of s l') (lane_of (fold (drainLane now) ls s) l')"
  by (induction ls arbitrary: s) (auto intro: serves_trans [OF drainLane_serves])

lemma notify_lane_of [simp]: "lane_of (notifyActiveTaskWaiters s) = lane_of s"
proof -
  obtain ws ef where "notifyActiveTaskWaiters s = s\<lparr>activeTaskWaiters := ws, effects := ef\<rparr>"
    using notify_closed [of s] by blast
  then show ?thesis by (intro ext) (simp add: lane_of_def)
qed

lemma put_lane_serves:
  "serves (lane_of s l) ls \<Longrightarrow> serves (lane_of s l') (lane_of (put_lane l ls s) l')"
  by simp

lemma gateway_pump [simp]: "gatewayDraining (pump_lane now l s) = gatewayDraining s"
  by (simp add: pump_lane_def split_beta Let_def)

lemma gateway_drain [simp]: "gatewayDraining (drainLane now l s) = gatewayDraining s"
  by (simp add: drainLane_def getLaneState_def split: option.splits)

lemma gateway_notify [simp]: "gatewayDraining (notifyActiveTaskWaiters s) = gatewayDraining s"
proof -
  obtain ws ef where "notifyActiveTaskWaiters s = s\<lparr>activeTaskWaiters := ws, effects := ef\<rparr>"
    using notify_closed [of s] by blast
  then show ?thesis by simp
qed

lemma enqueue_eq:
  "snd (enqueueCommandInLane now l opts s) = s \<or>
   (\<exists>e. snd (enqueueCommandInLane now l opts s) = drainLane now (normalizeLane l)
      (put_lane (normalizeLane l) (enqueueLaneEntry (lane_of s (normalizeLane l)) e)
        (s\<lparr>nextQueueSequence := Suc (nextQueueSequence s)\<rparr>)))"
proof (cases "gatewayDraining s")
  case False
  let ?l = "normalizeLane l"
  obtain ls s1 where g: "getLaneState ?l s = (ls, s1)" by fastforce
  have "ls = lane_of s ?l" "nextQueueSequence s1 = nextQueueSequence s"
    "put_lane ?l v (s1\<lparr>nextQueueSequence := n\<rparr>) = put_lane ?l v (s\<lparr>nextQueueSequence := n\<rparr>)" for v n
    using g by (auto simp: getLaneState_def lane_of_def put_lane_def split: option.splits)
  with False show ?thesis by (auto simp: enqueueCommandInLane_def Let_def g)
qed (simp add: enqueueCommandInLane_def)

lemma set_concurrency_eq:
  "setCommandLaneConcurrency now l n s =
    (let t = put_lane (normalizeLane l) ((lane_of s (normalizeLane l))\<lparr>maxConcurrent :=
        max (if isProbeLane (normalizeLane l) then 1 else 0) \<lfloor>n\<rfloor>\<rparr>) s
     in if maxConcurrent (lane_of t (normalizeLane l)) > 0 then drainLane now (normalizeLane l) t else t)"
  by (simp add: setCommandLaneConcurrency_def split_beta Let_def getLaneState_eq)

lemma wait_lane_of: "lane_of (snd (waitForActiveTasks t s)) = lane_of s"
proof -
  have "lane_of (s\<lparr>nextWaiterId := n, effects := ef\<rparr>) = lane_of s"
    "lane_of (s\<lparr>nextWaiterId := n, activeTaskWaiters := ws\<rparr>) = lane_of s" for n ef ws
    by (intro ext, simp add: lane_of_def)+
  then show ?thesis by (auto simp: waitForActiveTasks_def Let_def split: option.splits)
qed

lemma waiterTimeout_lane_of: "lane_of (waiterTimeout w s) = lane_of s"
  by (intro ext) (simp add: waiterTimeout_def resolveActiveTaskWaiter_def lane_of_def split: option.splits)

lemma draining_lane_of: "lane_of (markGatewayDraining s) = lane_of s"
  by (intro ext) (simp add: markGatewayDraining_def lane_of_def)

text \<open>Each operation seen from one lane.\<close>

lemma drain_put_serves:
  assumes "l' = l \<Longrightarrow> serves a ls" "l' \<noteq> l \<Longrightarrow> serves a (lane_of s l')"
  shows "serves a (lane_of (drainLane now l (put_lane l ls s)) l')"
  using assms
  by (cases "l' = l")
     (auto intro!: serves_trans [OF _ drainLane_serves])

lemma enqueue_serves: "serves (lane_of s l') (lane_of (snd (enqueueCommandInLane now l opts s)) l')"
proof -
  have "serves ls (enqueueLaneEntry ls e)" for ls e by (simp add: serves_def)
  then show ?thesis
    using enqueue_eq [of now l opts s]
    by (cases "l' = normalizeLane l") (auto intro!: drain_put_serves)
qed

lemma completeTask_serves: "completeTask ls t g = (c, ls') \<Longrightarrow> serves ls ls'"
  using length_set_remove_le [of t "activeTaskIds ls"]
  by (auto simp: completeTask_def serves_def split: if_splits)

lemma finished_serves: "serves (lane_of s l') (lane_of (taskFinished now t r s) l')"
proof (cases "find (\<lambda>f. if_taskId f = t) (inflight s)")
  case (Some f)
  obtain c ls where comp: "completeTask (lane_of s (if_lane f)) t (if_generation f) = (c, ls)"
    by fastforce
  define T where "T = put_lane (if_lane f) ls (s\<lparr>inflight := filter (\<lambda>g. if_taskId g \<noteq> t) (inflight s),
      settled := settled s @ [(sequence_no (if_entry f), r)]\<rparr>)"
  have T: "lane_of T l' = (if l' = if_lane f then ls else lane_of s l')"
    by (simp add: T_def lane_of_def put_lane_def)
  have "serves (lane_of s l') (lane_of T l')"
    using completeTask_serves [OF comp] by (simp add: T)
  then show ?thesis
    unfolding taskFinished_eq [OF Some comp T_def]
    by (auto intro: serves_trans pump_lane_serves [of "notifyActiveTaskWaiters T", simplified])
qed (simp add: taskFinished_def)

lemma clear_serves: "serves (lane_of s l') (lane_of (snd (clearCommandLane l s)) l')"
  by (auto simp: clearCommandLane_def Let_def lane_of_def put_lane_def serves_def split: option.splits)

lemma reset_serves:
  "serves (lane_of s l') (lane_of (snd (resetCommandLane now l s)) l') \<or>
   serves (reset_lane_state (lane_of s l')) (lane_of (snd (resetCommandLane now l s)) l')"
proof (cases "map_of (lanes s) (normalizeLane l)")
  case (Some ls)
  let ?l = "normalizeLane l" and ?t = "drainLane now (normalizeLane l)
      (put_lane (normalizeLane l) (reset_lane_state ls) s)"
  have lo: "lane_of s ?l = ls" using Some by (simp add: lane_of_def)
  have "l' = ?l \<Longrightarrow> serves (reset_lane_state (lane_of s l')) (lane_of ?t l')"
    "l' \<noteq> ?l \<Longrightarrow> serves (lane_of s l') (lane_of ?t l')"
    by (rule drain_put_serves; simp add: lo)+
  with Some lo show ?thesis
    by (cases "l' = ?l") (simp_all add: resetCommandLane_def Let_def reset_lane_ok)
qed (simp add: resetCommandLane_def)

lemma resetAll_serves:
  "serves (lane_of s l') (lane_of (resetAllLanes now s) l') \<or>
   serves (reset_lane_state (lane_of s l')) (lane_of (resetAllLanes now s) l')"
proof -
  let ?s1 = "s\<lparr>gatewayDraining := False, lanes := map (\<lambda>(l, ls). (l, reset_lane_state ls)) (lanes s)\<rparr>"
  have "map_of (lanes ?s1) l' = map_option reset_lane_state (map_of (lanes s) l')"
    by (simp add: map_of_map)
  then have "lane_of ?s1 l' = lane_of s l' \<or> lane_of ?s1 l' = reset_lane_state (lane_of s l')"
    by (cases "map_of (lanes s) l'") (simp_all add: lane_of_def)
  then show ?thesis
    using fold_drain_serves [of ?s1 l' now "map fst (filter (\<lambda>(l, ls). length (queue ls) > 0) (lanes ?s1))"]
    by (auto simp: resetAllLanes_def Let_def)
qed

lemma concurrency_generation:
  "generation (lane_of (setCommandLaneConcurrency now l n s) l') = generation (lane_of s l')"
proof -
  let ?l = "normalizeLane l"
  let ?t = "put_lane ?l ((lane_of s ?l)\<lparr>maxConcurrent := max (if isProbeLane ?l then 1 else 0) \<lfloor>n\<rfloor>\<rparr>) s"
  have "generation (lane_of (drainLane now ?l ?t) l') = generation (lane_of ?t l')"
    using drainLane_serves [of ?t l' now ?l] by (simp add: serves_def)
  moreover have "generation (lane_of ?t l') = generation (lane_of s l')" by simp
  ultimately show ?thesis by (simp add: set_concurrency_eq Let_def)
qed

lemma queue_step_lane:
  "serves (lane_of s l) (lane_of (queue_step s e) l) \<or>
   serves (reset_lane_state (lane_of s l)) (lane_of (queue_step s e) l) \<or>
   (\<exists>l' n. snd e = SetConcurrency l' n \<and> generation (lane_of (queue_step s e) l) = generation (lane_of s l))"
  by (cases "(s, e)" rule: queue_step.cases)
     (simp_all add: enqueue_serves finished_serves clear_serves reset_serves resetAll_serves
        concurrency_generation wait_lane_of waiterTimeout_lane_of draining_lane_of)

lemma queue_step_generation: "generation (lane_of s l) \<le> generation (lane_of (queue_step s e) l)"
  using queue_step_lane [of s l e] by (auto simp: serves_def reset_lane_state_def)

interpretation generation_machine: monotone_machine queue_step queue_inv
  "\<lambda>s t. \<forall>l. generation (lane_of s l) \<le> generation (lane_of t l)"
  by unfold_locales (auto intro: queue_step_inv queue_step_generation order_trans)

section \<open>Progress, resets and restarts\<close>

lemma find_inflight:
  assumes "core_inv B s" "f \<in> set (inflight s)"
  shows "find (\<lambda>g. if_taskId g = if_taskId f) (inflight s) = Some f"
proof (cases "find (\<lambda>g. if_taskId g = if_taskId f) (inflight s)")
  case None
  with assms(2) show ?thesis by (auto simp: find_None_all)
next
  case (Some g)
  then have "g \<in> set (inflight s)" "if_taskId g = if_taskId f"
    using find_Some_mem [OF Some] by auto
  with assms(2) core_invD(3) [OF assms(1)] have "g = f" by (auto simp: distinct_map dest: inj_onD)
  with Some show ?thesis by simp
qed

text \<open>In a reachable state, when a task of the current generation finishes and
  the lane is not over its limit, the command at the head of the lane's queue is started by that
  very step.\<close>

theorem queue_progress:
  assumes "s = foldl queue_step init_queue_state ops"
    and "f \<in> set (inflight s)" "if_taskId f \<in> set (activeTaskIds (lane_of s (if_lane f)))"
    and "if_generation f = generation (lane_of s (if_lane f))"
    and "queue (lane_of s (if_lane f)) = e # q"
    and "int (length (activeTaskIds (lane_of s (if_lane f)))) \<le> maxConcurrent (lane_of s (if_lane f))"
  shows "\<exists>g \<in> set (inflight (queue_step s (now, TaskFinished (if_taskId f) r))).
    if_entry g = e \<and> if_lane g = if_lane f"
proof -
  let ?l = "if_lane f" and ?t = "if_taskId f"
  have inv: "core_inv {} s" using queue_run_inv [of ops] assms(1) by (simp add: queue_inv_def)
  note fnd = find_inflight [OF inv assms(2)]
  let ?ls = "(lane_of s ?l)\<lparr>activeTaskIds := set_remove ?t (activeTaskIds (lane_of s ?l))\<rparr>"
  have comp: "completeTask (lane_of s ?l) ?t (if_generation f) = (True, ?ls)"
    using assms(4) by (simp add: completeTask_def)
  define T where "T = put_lane ?l ?ls (s\<lparr>inflight := filter (\<lambda>g. if_taskId g \<noteq> ?t) (inflight s),
      settled := settled s @ [(sequence_no (if_entry f), r)]\<rparr>)"
  have core: "core_inv {?l} (notifyActiveTaskWaiters T)"
    using finish_core [OF inv fnd comp] by (simp add: T_def)
  have lo: "lane_of T ?l = ?ls" by (simp add: T_def)
  have "distinct (activeTaskIds (lane_of s ?l))"
    using lane_of_ok(2) [OF inv] by (simp add: lane_ok_def)
  then have "length (set_remove ?t (activeTaskIds (lane_of s ?l))) < length (activeTaskIds (lane_of s ?l))"
    using assms(3) by (auto simp: length_set_remove dest: length_pos_if_in_set)
  then have "\<exists>g \<in> set (inflight (pump_lane now ?l (notifyActiveTaskWaiters T))). if_entry g = e \<and> if_lane g = ?l"
    using assms(5,6) by (intro pump_lane_starts(1) [OF core, where q = q]) (simp_all add: lo)
  then show ?thesis by (simp add: taskFinished_eq [OF fnd comp T_def])
qed

text \<open>C23: A task that was in flight when its lane was reset stays stale
  for ever: however many operations follow, when it completes at last its promise settles, no lane
  changes (in particular no slot of the new generation is released) and nothing is started.\<close>

theorem stale_completion_ignored:
  assumes "s = foldl queue_step init_queue_state ops"
    and "map_of (lanes s) (normalizeLane l) = Some ls"
    and "f \<in> set (inflight s)" "if_lane f = normalizeLane l" "if_generation f \<le> generation ls"
    and "t = foldl queue_step (snd (resetCommandLane now l s)) later" "f \<in> set (inflight t)"
    and "u = queue_step t (now', TaskFinished (if_taskId f) r)"
  shows "lane_of u = lane_of t \<and> inflight u = filter (\<lambda>g. if_taskId g \<noteq> if_taskId f) (inflight t) \<and>
    settled u = settled t @ [(sequence_no (if_entry f), r)] \<and> nextTaskId u = nextTaskId t"
proof -
  let ?l = "normalizeLane l" and ?r = "snd (resetCommandLane now l s)"
  have inv_r: "queue_inv ?r" using queue_run_inv [of ops] assms(1) by (auto intro: reset_inv)
  then have inv_t: "core_inv {} t"
    using queue_machine.machine_run assms(6) by (auto simp: queue_inv_def)
  have lo: "lane_of s ?l = ls" using assms(2) by (simp add: lane_of_def)
  have "serves (reset_lane_state ls) (lane_of ?r ?l)"
    using assms(2) by (auto simp: resetCommandLane_def Let_def lo reset_lane_ok intro!: drain_put_serves)
  then have "if_generation f < generation (lane_of ?r ?l)"
    using assms(5) by (simp add: serves_def reset_lane_state_def)
  also have "\<dots> \<le> generation (lane_of t ?l)"
    using generation_machine.machine_run_le [OF inv_r] assms(6) by simp
  finally have "if_generation f \<noteq> generation (lane_of t (if_lane f))" by (simp add: assms(4))
  then have comp: "completeTask (lane_of t (if_lane f)) (if_taskId f) (if_generation f)
      = (False, lane_of t (if_lane f))"
    by (simp add: completeTask_def)
  have "u = put_lane (if_lane f) (lane_of t (if_lane f))
      (t\<lparr>inflight := filter (\<lambda>g. if_taskId g \<noteq> if_taskId f) (inflight t),
         settled := settled t @ [(sequence_no (if_entry f), r)]\<rparr>)"
    unfolding assms(8) by (simp add: taskFinished_eq [OF find_inflight [OF inv_t assms(7)] comp refl])
  then show ?thesis by (auto simp: lane_of_def put_lane_def)
qed

text \<open>Resetting a lane restores its capacity: of the queued commands,
  as many as the concurrency limit allows are started at once under the new generation, the rest
  stays queued in order, and the number returned is the number of abandoned slots.\<close>

theorem lane_reset_recovers:
  assumes "s = foldl queue_step init_queue_state ops"
    and "map_of (lanes s) (normalizeLane l) = Some ls"
    and "n = min (length (queue ls)) (nat (maxConcurrent ls))"
    and "resetCommandLane now l s = (released, t)"
  shows "released = length (activeTaskIds ls) \<and>
    generation (lane_of t (normalizeLane l)) = Suc (generation ls) \<and>
    queue (lane_of t (normalizeLane l)) = drop n (queue ls) \<and>
    length (activeTaskIds (lane_of t (normalizeLane l))) = n \<and>
    map if_entry (inflight t) = map if_entry (inflight s) @ take n (queue ls)"
proof -
  let ?l = "normalizeLane l" and ?ls = "reset_lane_state ls"
  let ?s1 = "put_lane ?l ?ls s"
  have inv: "core_inv {} s" using queue_run_inv [of ops] assms(1) by (simp add: queue_inv_def)
  have lo: "lane_of s ?l = ls" using assms(2) by (simp add: lane_of_def)
  have k: "pump_count ?ls = n" by (simp add: pump_count_def reset_lane_state_def assms(3))
  have t: "released = length (activeTaskIds ls)"
    "t = notifyActiveTaskWaiters (if queue ls \<noteq> [] then drainLane now ?l ?s1 else ?s1)"
    using assms(2,4) by (auto simp: resetCommandLane_def Let_def reset_lane_ok)
  show ?thesis
  proof (cases "queue ls = []")
    case True
    then show ?thesis using t assms(3) by (simp add: settled_update_cong reset_lane_state_def)
  next
    case False
    have core: "core_inv {?l} ?s1"
      using lane_of_ok [OF inv, of ?l] unfolding lo
      by (intro core_inv_put_same [OF inv]) (auto simp: reset_lane_ok lo)
    from pump_lane_closed [OF core, of now ?l] obtain effs where eq: "pump_lane now ?l ?s1 =
      (put_lane ?l ((pump_lane_result ?ls (nextTaskId s))\<lparr>draining := False\<rparr>) s)
        \<lparr>nextTaskId := nextTaskId s + n, nextQueueSequence := nextQueueSequence s,
         inflight := inflight s @ pump_tasks ?ls (nextTaskId s), settled := settled s, effects := effs\<rparr>"
      by (auto simp: k)
    have "map if_entry (pump_tasks ?ls (nextTaskId s)) = take n (queue ls)"
      using k by (auto simp: pump_tasks_def started_task_def reset_lane_ok pump_count_def
          intro!: nth_equalityI)
    moreover have "lane_of (pump_lane now ?l ?s1) ?l = (pump_lane_result ?ls (nextTaskId s))\<lparr>draining := False\<rparr>"
      unfolding eq by (simp add: lane_of_def put_lane_def)
    ultimately show ?thesis
      using False t
      by (simp add: settled_update_cong drainLane_pump [OF core] eq pump_lane_result_def k)
         (simp add: reset_lane_state_def)
  qed
qed

text \<open>Once the gateway is marked as draining for a restart, every
  enqueue is refused with \<open>GatewayDrainingError\<close> and changes nothing, after any operations
  short of the reset of all lanes that ends the restart.\<close>

theorem draining_gateway_rejects:
  assumes "\<forall>(_, op) \<in> set ops. op \<noteq> ResetAll"
    and "t = foldl queue_step (markGatewayDraining s) ops"
  shows "enqueueCommandInLane now l opts t = (Inl GatewayDrainingError, t)"
proof -
  have step: "gatewayDraining (queue_step u (now, op))" if "gatewayDraining u" "op \<noteq> ResetAll" for u now op
    using that enqueue_eq [of now _ _ u]
    by (cases op)
       (auto simp: taskFinished_def set_concurrency_eq clearCommandLane_def resetCommandLane_def Let_def
          waitForActiveTasks_def waiterTimeout_def resolveActiveTaskWaiter_def markGatewayDraining_def
          enqueueCommandInLane_def split: option.splits prod.splits)
  have "gatewayDraining (foldl queue_step u ops)" if "gatewayDraining u" for u
    using that assms(1)
  proof (induction ops arbitrary: u)
    case (Cons x ops)
    then show ?case using step [of u "snd x" "fst x"] by (cases x) auto
  qed simp
  then have "gatewayDraining t" unfolding assms(2) by (simp add: markGatewayDraining_def)
  then show ?thesis by (simp add: enqueueCommandInLane_def)
qed

text \<open>Without a change of the concurrency limit every lane runs
  at most one task of its current generation at a time.\<close>

theorem unconfigured_lanes_are_serial:
  assumes "\<forall>(_, op) \<in> set ops. \<forall>l n. op \<noteq> SetConcurrency l n"
  shows "length (getCommandLaneActiveTaskIds l (foldl queue_step init_queue_state ops)) \<le> 1"
proof -
  let ?inv = "\<lambda>ls. maxConcurrent ls = 1 \<and> length (activeTaskIds ls) \<le> 1"
  have serve: "serves ls ls' \<Longrightarrow> ?inv ls \<Longrightarrow> ?inv ls'" for ls ls' by (auto simp: serves_def)
  have reset: "?inv ls \<Longrightarrow> ?inv (reset_lane_state ls)" for ls by (simp add: reset_lane_state_def)
  have "?inv (lane_of (foldl queue_step u ops) k)" if "?inv (lane_of u k)" for u k
    using that assms
  proof (induction ops arbitrary: u)
    case (Cons x ops)
    have "?inv (lane_of (queue_step u x) k)"
      using queue_step_lane [of u k x] Cons.prems serve reset by (cases x) fastforce
    then show ?case using Cons by simp
  qed simp
  moreover have "?inv (lane_of init_queue_state k)" for k
    by (simp add: init_queue_state_def lane_of_def new_lane_def)
  ultimately have "?inv (lane_of (foldl queue_step init_queue_state ops) (normalizeLane l))" by blast
  then show ?thesis
    by (cases "map_of (lanes (foldl queue_step init_queue_state ops)) (normalizeLane l)")
       (simp_all add: getCommandLaneActiveTaskIds_def lane_of_def)
qed

section \<open>Concrete runs\<close>

definition plain_options :: "queue_priority option \<Rightarrow> enqueue_options" where
  "plain_options p = \<lparr>opt_warnAfterMs = None, opt_priority = p, opt_taskTimeoutMs = None,
     opt_taskTimeoutAbortGraceMs = None\<rparr>"

definition two_commands :: "(int \<times> queue_op) list" where
  "two_commands = [(0, Enqueue ''cron'' (plain_options None)), (1, Enqueue ''cron '' (plain_options None))]"

definition sample_entry :: "nat \<Rightarrow> int \<Rightarrow> queue_entry" where
  "sample_entry n p = \<lparr>enqueuedAt = 0, sequence_no = n, priority = p, warnAfterMs = 2000,
     queuedAheadAtEnqueue = 0, activeAheadAtEnqueue = 0, taskTimeoutMs = None,
     taskTimeoutAbortGraceMs = None\<rparr>"

lemma two_commands_state:
  "foldl queue_step init_queue_state two_commands =
    \<lparr>gatewayDraining = False,
     lanes = [(''cron'', \<lparr>lane_name = ''cron'', queue = [(sample_entry 2 0)\<lparr>enqueuedAt := 1,
        activeAheadAtEnqueue := 1\<rparr>], activeTaskIds = [1], maxConcurrent = 1, draining = False, generation = 0\<rparr>)],
     activeTaskWaiters = [], nextTaskId = 2, nextQueueSequence = 3,
     inflight = [\<lparr>if_taskId = 1, if_lane = ''cron'', if_generation = 0, if_entry = sample_entry 1 0\<rparr>],
     settled = [], effects = [TaskStarted 1 1 ''cron''], nextWaiterId = 0\<rparr>"
  by code_simp

theorem queue_is_stable_sort_witness:
  "map sequence_no (queue (foldl enqueueLaneEntry (new_lane ''cron'')
     [sample_entry 1 0, sample_entry 2 1, sample_entry 3 0, sample_entry 4 1])) = [2, 4, 1, 3]"
proof -
  have "map sequence_no (sort_key (\<lambda>e. - priority e)
      [sample_entry 1 0, sample_entry 2 1, sample_entry 3 0, sample_entry 4 1]) = [2, 4, 1, 3]"
    by (simp add: sample_entry_def)
  then show ?thesis
    by (subst queue_is_stable_sort) (simp_all add: new_lane_def sample_entry_def)
qed

definition sample_task :: inflight_task where
  "sample_task = \<lparr>if_taskId = 1, if_lane = ''cron'', if_generation = 0, if_entry = sample_entry 1 0\<rparr>"

definition sample_lane :: lane_state where
  "sample_lane = \<lparr>lane_name = ''cron'', queue = [(sample_entry 2 0)\<lparr>enqueuedAt := 1,
     activeAheadAtEnqueue := 1\<rparr>], activeTaskIds = [1], maxConcurrent = 1, draining = False, generation = 0\<rparr>"

lemma sample_facts:
  "lane_of (foldl queue_step init_queue_state two_commands) ''cron'' = sample_lane"
  "map_of (lanes (foldl queue_step init_queue_state two_commands)) ''cron'' = Some sample_lane"
  "(''cron'', sample_lane) \<in> set (lanes (foldl queue_step init_queue_state two_commands))"
  "inflight (foldl queue_step init_queue_state two_commands) = [sample_task]"
  unfolding two_commands_state by (simp_all add: lane_of_def sample_lane_def sample_task_def)

theorem queue_no_stall_witness:
  "\<exists>f \<in> set (inflight (foldl queue_step init_queue_state two_commands)).
     if_taskId f = 1 \<and> if_lane f = ''cron'' \<and> if_generation f = 0"
  using queue_no_stall [OF refl sample_facts(3)] by (auto simp: sample_lane_def)

theorem queue_progress_witness:
  "\<exists>g \<in> set (inflight (queue_step (foldl queue_step init_queue_state two_commands)
     (5, TaskFinished 1 Resolved))). sequence_no (if_entry g) = 2"
proof -
  let ?s = "foldl queue_step init_queue_state two_commands"
  have "\<exists>g \<in> set (inflight (queue_step ?s (5, TaskFinished (if_taskId sample_task) Resolved))).
      if_entry g = hd (queue sample_lane) \<and> if_lane g = if_lane sample_task"
  proof (rule queue_progress [OF refl, where q = "[]"])
    have l: "if_lane sample_task = ''cron''" by (simp add: sample_task_def)
    show "sample_task \<in> set (inflight ?s)" by (simp add: sample_facts)
    show "if_taskId sample_task \<in> set (activeTaskIds (lane_of ?s (if_lane sample_task)))"
      "if_generation sample_task = generation (lane_of ?s (if_lane sample_task))"
      "queue (lane_of ?s (if_lane sample_task)) = [hd (queue sample_lane)]"
      "int (length (activeTaskIds (lane_of ?s (if_lane sample_task))))
        \<le> maxConcurrent (lane_of ?s (if_lane sample_task))"
      unfolding l sample_facts by (simp_all add: sample_task_def sample_lane_def)
  qed
  moreover have "sequence_no (hd (queue sample_lane)) = 2" "if_taskId sample_task = 1"
    by (simp_all add: sample_lane_def sample_entry_def sample_task_def)
  ultimately show ?thesis by metis
qed

theorem stale_completion_ignored_witness:
  "lane_of (queue_step (snd (resetCommandLane 2 ''cron'' (foldl queue_step init_queue_state two_commands)))
     (9, TaskFinished 1 Resolved)) ''cron''
   = sample_lane\<lparr>queue := [], activeTaskIds := [2], generation := 1\<rparr>"
proof -
  let ?t = "snd (resetCommandLane 2 ''cron'' (foldl queue_step init_queue_state two_commands))"
  have n: "normalizeLane ''cron'' = ''cron''" by code_simp
  have t: "sample_task \<in> set (inflight ?t)"
    "lane_of ?t ''cron'' = sample_lane\<lparr>queue := [], activeTaskIds := [2], generation := 1\<rparr>"
    unfolding two_commands_state by code_simp+
  have "lane_of (queue_step ?t (9, TaskFinished (if_taskId sample_task) Resolved)) = lane_of ?t"
  proof (rule stale_completion_ignored [THEN conjunct1, OF refl _ _ _ _ _ _ refl])
    show "map_of (lanes (foldl queue_step init_queue_state two_commands)) (normalizeLane ''cron'')
      = Some sample_lane" by (simp add: n sample_facts)
    show "sample_task \<in> set (inflight (foldl queue_step init_queue_state two_commands))"
      by (simp add: sample_facts)
    show "if_lane sample_task = normalizeLane ''cron''" "if_generation sample_task \<le> generation sample_lane"
      by (simp_all add: n sample_task_def sample_lane_def)
    show "?t = foldl queue_step ?t []" by simp
  qed (rule t(1))
  then show ?thesis using t(2) by (simp add: sample_task_def)
qed

theorem lane_reset_recovers_witness:
  "map if_entry (inflight (snd (resetCommandLane 2 ''cron''
     (foldl queue_step init_queue_state two_commands)))) =
   [sample_entry 1 0, (sample_entry 2 0)\<lparr>enqueuedAt := 1, activeAheadAtEnqueue := 1\<rparr>]"
proof -
  have n: "normalizeLane ''cron'' = ''cron''" by code_simp
  obtain released t where r: "resetCommandLane 2 ''cron'' (foldl queue_step init_queue_state two_commands)
      = (released, t)" by fastforce
  have "map if_entry (inflight t) =
      map if_entry (inflight (foldl queue_step init_queue_state two_commands)) @ take 1 (queue sample_lane)"
    using lane_reset_recovers [OF refl _ _ r, of sample_lane 1]
    by (simp add: n sample_facts(2)) (simp add: sample_lane_def)
  then have "map if_entry (inflight (snd (resetCommandLane 2 ''cron''
      (foldl queue_step init_queue_state two_commands)))) = map if_entry [sample_task] @ take 1 (queue sample_lane)"
    unfolding r sample_facts(4) by simp
  then show ?thesis by (simp add: sample_task_def sample_lane_def)
qed

theorem draining_gateway_rejects_witness:
  "enqueueCommandInLane 7 ''cron'' (plain_options None)
     (foldl queue_step (markGatewayDraining init_queue_state) [(3, ClearLane ''cron'')]) =
   (Inl GatewayDrainingError, foldl queue_step (markGatewayDraining init_queue_state) [(3, ClearLane ''cron'')])"
  by (rule draining_gateway_rejects [OF _ refl]) simp

theorem unconfigured_lanes_are_serial_witness:
  "length (getCommandLaneActiveTaskIds ''cron'' (foldl queue_step init_queue_state two_commands)) \<le> 1"
  by (rule unconfigured_lanes_are_serial) (simp add: two_commands_def)

end
