(* ===== verification/Gating.thy ===== *)
theory Gating
  imports JsText
begin

text \<open>
  The gating helpers shared by the channel runtimes: mention gating
  (\<^verbatim>\<open>src/src/channels/mention-gating.ts\<close>), command authorisation
  (\<^verbatim>\<open>src/src/channels/command-gating.ts\<close>), the merging of allow lists
  (\<^verbatim>\<open>src/src/channels/allow-from.ts\<close>) and the matching of compiled allow lists
  (\<^verbatim>\<open>src/src/channels/allowlist-match.ts\<close>). An absent optional parameter is \<open>None\<close>;
  the elements of an allow list are strings (the code applies \<^verbatim>\<open>String\<close> to numbers first).
\<close>

section \<open>Mention gating\<close>

datatype implicit_mention_kind = ReplyToBot | QuotedBot | BotThreadParticipant | Native

record mention_facts =
  canDetectMention :: bool
  wasMentioned :: bool
  hasAnyMention :: "bool option"
  implicitMentionKinds :: "implicit_mention_kind list option"

record mention_policy =
  mp_isGroup :: bool
  mp_requireMention :: bool
  mp_allowedImplicitMentionKinds :: "implicit_mention_kind list option"
  mp_allowTextCommands :: bool
  mp_hasControlCommand :: bool
  mp_commandAuthorized :: bool

record mention_decision =
  md_implicitMention :: bool
  md_matchedImplicitMentionKinds :: "implicit_mention_kind list"
  md_effectiveWasMentioned :: bool
  md_shouldBypassMention :: bool
  md_shouldSkip :: bool

definition or_default :: "'a option \<Rightarrow> 'a \<Rightarrow> 'a" where
  "or_default v d = (case v of Some x \<Rightarrow> x | None \<Rightarrow> d)"

definition implicitMentionKindWhen :: "implicit_mention_kind \<Rightarrow> bool \<Rightarrow> implicit_mention_kind list" where
  "implicitMentionKindWhen kind enabled = (if enabled then [kind] else [])"

definition resolveMatchedImplicitMentionKinds ::
    "implicit_mention_kind list option \<Rightarrow> implicit_mention_kind list option \<Rightarrow> implicit_mention_kind list" where
  "resolveMatchedImplicitMentionKinds inputs allowed =
     (let inputKinds = or_default inputs [] in
      if inputKinds = [] then []
      else fold (\<lambda>kind matched.
             if (case allowed of Some ks \<Rightarrow> kind \<notin> set ks | None \<Rightarrow> False) then matched
             else if kind \<in> set matched then matched else matched @ [kind]) inputKinds [])"

definition resolveMentionDecisionCore ::
    "bool \<Rightarrow> bool \<Rightarrow> bool \<Rightarrow> implicit_mention_kind list option \<Rightarrow> implicit_mention_kind list option \<Rightarrow>
     bool \<Rightarrow> mention_decision" where
  "resolveMentionDecisionCore requireMention canDetect mentioned kinds allowedKinds shouldBypass =
     (let matched = resolveMatchedImplicitMentionKinds kinds allowedKinds;
          implicit = matched \<noteq> [];
          effective = mentioned \<or> implicit \<or> shouldBypass
      in \<lparr>md_implicitMention = implicit, md_matchedImplicitMentionKinds = matched,
          md_effectiveWasMentioned = effective, md_shouldBypassMention = shouldBypass,
          md_shouldSkip = (requireMention \<and> canDetect \<and> \<not> effective)\<rparr>)"

definition resolveInboundMentionDecision :: "mention_facts \<Rightarrow> mention_policy \<Rightarrow> mention_decision" where
  "resolveInboundMentionDecision facts policy =
     (let shouldBypass = (mp_isGroup policy \<and> mp_requireMention policy \<and> \<not> wasMentioned facts \<and>
            \<not> or_default (hasAnyMention facts) False \<and> mp_allowTextCommands policy \<and>
            mp_commandAuthorized policy \<and> mp_hasControlCommand policy)
      in resolveMentionDecisionCore (mp_requireMention policy) (canDetectMention facts)
           (wasMentioned facts) (implicitMentionKinds facts)
           (mp_allowedImplicitMentionKinds policy) shouldBypass)"

text \<open>The deprecated entry points, kept by the code for older callers.\<close>

definition resolveMentionGating ::
    "bool \<Rightarrow> bool \<Rightarrow> bool \<Rightarrow> bool option \<Rightarrow> bool option \<Rightarrow> bool \<times> bool" where
  "resolveMentionGating requireMention canDetect mentioned implicit shouldBypass =
     (let r = resolveMentionDecisionCore requireMention canDetect mentioned
                (Some (implicitMentionKindWhen Native (implicit = Some True))) None
                (shouldBypass = Some True)
      in (md_effectiveWasMentioned r, md_shouldSkip r))"

definition resolveMentionGatingWithBypass ::
    "mention_facts \<Rightarrow> bool option \<Rightarrow> mention_policy \<Rightarrow> bool \<times> bool \<times> bool" where
  "resolveMentionGatingWithBypass facts implicit policy =
     (let r = resolveInboundMentionDecision
                (facts\<lparr>implicitMentionKinds := Some (implicitMentionKindWhen Native (implicit = Some True))\<rparr>)
                (policy\<lparr>mp_allowedImplicitMentionKinds := None\<rparr>)
      in (md_effectiveWasMentioned r, md_shouldSkip r, md_shouldBypassMention r))"

lemma fold_matched_kinds:
  "set (fold (\<lambda>kind matched. if bad kind then matched
      else if kind \<in> set matched then matched else matched @ [kind]) ks acc)
    = set acc \<union> {k \<in> set ks. \<not> bad k}"
  by (induction ks arbitrary: acc) auto

lemma matched_kinds_set:
  "set (resolveMatchedImplicitMentionKinds inputs allowed) =
    {k \<in> set (or_default inputs []). case allowed of Some ks \<Rightarrow> k \<in> set ks | None \<Rightarrow> True}"
  by (auto simp: resolveMatchedImplicitMentionKinds_def Let_def fold_matched_kinds split: option.splits)

section \<open>Command gating\<close>

record command_authorizer =
  configured :: bool
  allowed :: bool

datatype access_groups_off_mode = OffAllow | OffDeny | OffConfigured

definition resolveCommandAuthorizedFromAuthorizers ::
    "bool \<Rightarrow> command_authorizer list \<Rightarrow> access_groups_off_mode option \<Rightarrow> bool" where
  "resolveCommandAuthorizedFromAuthorizers useAccessGroups authorizers modeOff =
     (let mode = or_default modeOff OffAllow in
      if \<not> useAccessGroups then
        (if mode = OffAllow then True
         else if mode = OffDeny then False
         else if \<not> list_ex configured authorizers then True
         else list_ex (\<lambda>a. configured a \<and> allowed a) authorizers)
      else list_ex (\<lambda>a. configured a \<and> allowed a) authorizers)"

definition resolveControlCommandGate ::
    "bool \<Rightarrow> command_authorizer list \<Rightarrow> bool \<Rightarrow> bool \<Rightarrow> access_groups_off_mode option \<Rightarrow> bool \<times> bool" where
  "resolveControlCommandGate useAccessGroups authorizers allowTextCommands hasControl modeOff =
     (let authorized = resolveCommandAuthorizedFromAuthorizers useAccessGroups authorizers modeOff
      in (authorized, allowTextCommands \<and> hasControl \<and> \<not> authorized))"

definition resolveDualTextControlCommandGate ::
    "bool \<Rightarrow> bool \<Rightarrow> bool \<Rightarrow> bool \<Rightarrow> bool \<Rightarrow> bool \<Rightarrow> access_groups_off_mode option \<Rightarrow> bool \<times> bool" where
  "resolveDualTextControlCommandGate useAccessGroups pc pa sc sa hasControl modeOff =
     resolveControlCommandGate useAccessGroups
       [\<lparr>configured = pc, allowed = pa\<rparr>, \<lparr>configured = sc, allowed = sa\<rparr>] True hasControl modeOff"

lemma authorized_with_groups [gate_simps]:
  "resolveCommandAuthorizedFromAuthorizers True as m \<longleftrightarrow> (\<exists>a \<in> set as. configured a \<and> allowed a)"
  by (simp add: resolveCommandAuthorizedFromAuthorizers_def list_ex_iff Let_def)

section \<open>Allow lists\<close>

definition ACCESS_GROUP_ALLOW_FROM_PREFIX :: string where
  "ACCESS_GROUP_ALLOW_FROM_PREFIX = ''accessGroup:''"

definition parseAccessGroupAllowFromEntry :: "string \<Rightarrow> string option" where
  "parseAccessGroupAllowFromEntry entry =
     (let trimmed = js_trim entry in
      if \<not> starts_with ACCESS_GROUP_ALLOW_FROM_PREFIX trimmed then None
      else let name = js_trim (drop (length ACCESS_GROUP_ALLOW_FROM_PREFIX) trimmed)
           in if length name > 0 then Some name else None)"

definition mergeDmAllowFromSources ::
    "string list option \<Rightarrow> string list option \<Rightarrow> string option \<Rightarrow> string list" where
  "mergeDmAllowFromSources allowFrom storeAllowFrom dmPolicy =
     (let storeEntries = (if dmPolicy = Some ''allowlist'' \<or> dmPolicy = Some ''open'' then []
                          else or_default storeAllowFrom [])
      in normalizeStringEntries (or_default allowFrom [] @ storeEntries))"

definition resolveGroupAllowFromSources ::
    "string list option \<Rightarrow> string list option \<Rightarrow> bool option \<Rightarrow> string list" where
  "resolveGroupAllowFromSources allowFrom groupAllowFrom fallback =
     (let scoped = (case groupAllowFrom of
          Some (e # es) \<Rightarrow> e # es
        | _ \<Rightarrow> if fallback = Some False then [] else or_default allowFrom [])
      in normalizeStringEntries scoped)"

record sender_allow =
  sa_entries :: "string list"
  sa_hasWildcard :: bool
  sa_hasEntries :: bool

definition isSenderIdAllowed :: "sender_allow \<Rightarrow> string option \<Rightarrow> bool \<Rightarrow> bool" where
  "isSenderIdAllowed allow senderId allowWhenEmpty =
     (if \<not> sa_hasEntries allow then allowWhenEmpty
      else if sa_hasWildcard allow then True
      else if senderId = None \<or> senderId = Some [] then False
      else the senderId \<in> set (sa_entries allow))"

definition resolveChannelIngressEffectiveAllowFromLists ::
    "string list option \<Rightarrow> string list option \<Rightarrow> string list option \<Rightarrow> string option \<Rightarrow> bool option \<Rightarrow>
     string list \<times> string list" where
  "resolveChannelIngressEffectiveAllowFromLists allowFrom groupAllowFrom storeAllowFrom dmPolicy fallback =
     (normalizeStringEntries (mergeDmAllowFromSources allowFrom storeAllowFrom dmPolicy),
      normalizeStringEntries (resolveGroupAllowFromSources allowFrom groupAllowFrom fallback))"

text \<open>\<open>readStore\<close> is the pairing store, or \<open>None\<close> when reading it fails.\<close>

definition readChannelIngressStoreAllowFromForDmPolicy ::
    "string option \<Rightarrow> bool option \<Rightarrow> string list option \<Rightarrow> string list" where
  "readChannelIngressStoreAllowFromForDmPolicy dmPolicy shouldRead readStore =
     (if shouldRead = Some False \<or> dmPolicy = Some ''allowlist'' \<or> dmPolicy = Some ''open'' then []
      else or_default readStore [])"

record dm_audit =
  da_configAllowFrom :: "string list"
  da_hasWildcard :: bool
  da_allowCount :: nat
  da_isMultiUserDm :: bool

definition resolveDmAllowAuditState ::
    "string list option \<Rightarrow> string option \<Rightarrow> (string \<Rightarrow> string) option \<Rightarrow> string list option \<Rightarrow> dm_audit" where
  "resolveDmAllowAuditState allowFrom dmPolicy normalizeEntry readStore =
     (let configAllowFrom = normalizeStringEntries (or_default allowFrom []);
          wildcard = ''*'' \<in> set configAllowFrom;
          storeAllowFrom = readChannelIngressStoreAllowFromForDmPolicy dmPolicy None readStore;
          norm = or_default normalizeEntry (\<lambda>v. v);
          normalizedCfg = normalizeStringEntries (map norm (filter (\<lambda>v. v \<noteq> ''*'') configAllowFrom));
          normalizedStore = normalizeStringEntries (map norm storeAllowFrom);
          count = length (unique_values (normalizedCfg @ normalizedStore))
      in \<lparr>da_configAllowFrom = configAllowFrom, da_hasWildcard = wildcard, da_allowCount = count,
          da_isMultiUserDm = (wildcard \<or> count > 1)\<rparr>)"

section \<open>Compiled allow lists\<close>

datatype allowlist_match_source =
    SrcWildcard | SrcId | SrcName | SrcTag | SrcUsername | SrcPrefixedId | SrcPrefixedUser
  | SrcPrefixedName | SrcSlug | SrcLocalpart

record allowlist_match =
  am_allowed :: bool
  am_matchKey :: "string option"
  am_matchSource :: "allowlist_match_source option"

record compiled_allowlist =
  ca_set :: "string list"
  ca_wildcard :: bool

definition no_allowlist_match :: allowlist_match where
  "no_allowlist_match = \<lparr>am_allowed = False, am_matchKey = None, am_matchSource = None\<rparr>"

definition compileAllowlist :: "string list \<Rightarrow> compiled_allowlist" where
  "compileAllowlist entries =
     (let s = unique_values (filter (\<lambda>e. e \<noteq> []) entries)
      in \<lparr>ca_set = s, ca_wildcard = (''*'' \<in> set s)\<rparr>)"

definition compileSimpleAllowlist :: "string list \<Rightarrow> compiled_allowlist" where
  "compileSimpleAllowlist entries = compileAllowlist
     (filter (\<lambda>e. e \<noteq> []) (List.map_filter (\<lambda>e. normalizeOptionalLowercaseString (Some e)) entries))"

fun resolveAllowlistCandidates ::
    "compiled_allowlist \<Rightarrow> (string option \<times> allowlist_match_source) list \<Rightarrow> allowlist_match" where
  "resolveAllowlistCandidates c [] = no_allowlist_match"
| "resolveAllowlistCandidates c ((value, source) # cs) =
     (if value = None \<or> value = Some [] then resolveAllowlistCandidates c cs
      else if the value \<in> set (ca_set c) then
        \<lparr>am_allowed = True, am_matchKey = value, am_matchSource = Some source\<rparr>
      else resolveAllowlistCandidates c cs)"

definition resolveCompiledAllowlistMatch ::
    "compiled_allowlist \<Rightarrow> (string option \<times> allowlist_match_source) list \<Rightarrow> allowlist_match" where
  "resolveCompiledAllowlistMatch c cs =
     (if length (ca_set c) = 0 then no_allowlist_match
      else if ca_wildcard c then
        \<lparr>am_allowed = True, am_matchKey = Some ''*'', am_matchSource = Some SrcWildcard\<rparr>
      else resolveAllowlistCandidates c cs)"

definition resolveAllowlistMatchByCandidates ::
    "string list \<Rightarrow> (string option \<times> allowlist_match_source) list \<Rightarrow> allowlist_match" where
  "resolveAllowlistMatchByCandidates allowList cs =
     resolveCompiledAllowlistMatch (compileAllowlist allowList) cs"

definition resolveAllowlistMatchSimple ::
    "string list \<Rightarrow> string \<Rightarrow> string option \<Rightarrow> bool option \<Rightarrow> allowlist_match" where
  "resolveAllowlistMatchSimple allowFrom senderId senderName allowNameMatching =
     (let allow = compileSimpleAllowlist allowFrom in
      if length (ca_set allow) = 0 then no_allowlist_match
      else if ca_wildcard allow then
        \<lparr>am_allowed = True, am_matchKey = Some ''*'', am_matchSource = Some SrcWildcard\<rparr>
      else
        let sid = normalizeLowercaseStringOrEmpty (Some senderId);
            name = normalizeOptionalLowercaseString senderName
        in resolveAllowlistCandidates allow
             ((Some sid, SrcId) #
              (if allowNameMatching = Some True \<and> name \<noteq> None \<and> name \<noteq> Some []
               then [(name, SrcName)] else [])))"

lemma candidates_allowed:
  "am_allowed (resolveAllowlistCandidates c cs) \<longleftrightarrow>
    (\<exists>v. v \<noteq> [] \<and> v \<in> set (ca_set c) \<and> Some v \<in> fst ` set cs)"
proof (induction c cs rule: resolveAllowlistCandidates.induct)
  case (2 c v src cs)
  then show ?case by (cases v) auto
qed (simp add: no_allowlist_match_def)

lemma compileAllowlist_set [simp]:
  "set (ca_set (compileAllowlist es)) = set es - {[]}"
  "ca_wildcard (compileAllowlist es) \<longleftrightarrow> ''*'' \<in> set es"
  by (auto simp: compileAllowlist_def Let_def)

end
