(* ===== verification/AccessTypes.thy ===== *)
theory AccessTypes
  imports Gating
begin

text \<open>
  The data of the channel ingress kernel, \<^verbatim>\<open>src/src/channels/message-access/types.ts\<close>:
  identities, allow list entries and their resolved form, route facts, events, policies, gates
  and decisions. An entry that keeps its comparable value is the extension of the redacted
  entry by that value. The channel adapter is code of the channel plugins: it is a record of
  two functions that the kernel takes as an argument.
\<close>

section \<open>Identities and entries\<close>

datatype identifier_kind = StableId | Username | Email | Phone | Role | PluginKind string

datatype sensitivity = SensNormal | SensPii

record match_material =
  mat_opaqueId :: string
  mat_kind :: identifier_kind
  mat_dangerous :: "bool option"
  mat_sensitivity :: "sensitivity option"
  mat_value :: string

type_synonym ingress_subject = "match_material list"

record normalized_entry =
  opaqueEntryId :: string
  entry_kind :: identifier_kind
  dangerous :: "bool option"
  entry_sensitivity :: "sensitivity option"

record internal_entry = normalized_entry +
  entry_value :: string

datatype ingress_reason =
    Allowed | RouteBlocked | RouteSenderEmpty | DmPolicyDisabled | DmPolicyOpen
  | DmPolicyAllowlisted | DmPolicyPairingRequired | DmPolicyNotAllowlisted
  | GroupPolicyDisabled | GroupPolicyOpen | GroupPolicyAllowed | GroupPolicyEmptyAllowlist
  | GroupPolicyNotAllowlisted | CommandAuthorized | ControlCommandUnauthorized
  | EventAuthorized | EventUnauthorized | EventPairingNotAllowed | SenderNotRequired
  | OriginSubjectMissing | OriginSubjectNotMatched | ActivationAllowed | ActivationSkipped
  | AccessGroupMissing | AccessGroupUnsupported | AccessGroupFailed
  | MutableIdentifierDisabled | NoPolicyMatch

record entry_diagnostic =
  diag_opaqueEntryId :: "string option"
  diag_reasonCode :: ingress_reason

record ingress_match =
  matched :: bool
  matchedEntryIds :: "string list"

record normalize_result =
  nr_matchable :: "internal_entry list"
  nr_invalid :: "entry_diagnostic list"
  nr_disabled :: "entry_diagnostic list"

datatype match_context = CtxDm | CtxGroup | CtxRoute | CtxCommand

record ingress_adapter =
  normalizeEntries :: "string list \<Rightarrow> match_context \<Rightarrow> string \<Rightarrow> normalize_result"
  matchSubject :: "ingress_subject \<Rightarrow> internal_entry list \<Rightarrow> match_context \<Rightarrow> ingress_match"

section \<open>Access groups\<close>

datatype access_group_config =
    MessageSenders "(string, string list) js_map"
  | DiscordChannelAudience string string "string option"

datatype fact_source = FactStatic | FactDynamic

datatype fact_failure = FactMissing | FactUnsupported | FactFailed

datatype membership_fact =
    FactMatched string fact_source "string list"
  | FactNotMatched string fact_source
  | FactProblem fact_failure string fact_source ingress_reason "string option"

fun fact_groupName :: "membership_fact \<Rightarrow> string" where
  "fact_groupName (FactMatched n _ _) = n"
| "fact_groupName (FactNotMatched n _) = n"
| "fact_groupName (FactProblem _ n _ _ _) = n"

record access_groups =
  ag_referenced :: "string list"
  ag_matched :: "string list"
  ag_missing :: "string list"
  ag_unsupported :: "string list"
  ag_failed :: "string list"

record resolved_allowlist =
  rawEntryCount :: nat
  normalizedEntries :: "normalized_entry list"
  invalidEntries :: "entry_diagnostic list"
  disabledEntries :: "entry_diagnostic list"
  allow_matchedEntryIds :: "string list"
  hasConfiguredEntries :: bool
  hasMatchableEntries :: bool
  hasWildcard :: bool
  accessGroups :: access_groups
  allow_match :: ingress_match

record allowlist_facts =
  af_configured :: bool
  af_matched :: bool
  af_reasonCode :: ingress_reason
  af_matchedEntryIds :: "string list"
  af_invalidEntryCount :: nat
  af_disabledEntryCount :: nat
  af_accessGroups :: access_groups

section \<open>Routes and events\<close>

datatype route_gate_state = RouteNotConfigured | RouteMatched | RouteNotMatched | RouteDisabled | RouteLookupFailed

datatype route_sender_policy = Inherit | Replace | DenyWhenEmpty

datatype route_sender_source = EffectiveDm | EffectiveGroup

datatype gate_kind =
    KRoute | KRouteSender | KDmSender | KGroupSender | KMembership | KOwnerAllowlist
  | KNestedAllowlist | KCommand | KEvent | KMention

datatype gate_effect = EffAllow | EffBlockDispatch | EffBlockCommand | EffSkip | EffObserve | EffIgnore

record route_facts =
  rf_id :: string
  rf_kind :: gate_kind
  rf_gate :: route_gate_state
  rf_effect :: gate_effect
  rf_precedence :: int
  rf_senderPolicy :: route_sender_policy
  rf_senderAllowFrom :: "string list option"
  rf_senderAllowFromSource :: "route_sender_source option"
  rf_match :: "ingress_match option"

record resolved_route =
  rr_id :: string
  rr_kind :: gate_kind
  rr_gate :: route_gate_state
  rr_effect :: gate_effect
  rr_precedence :: int
  rr_senderPolicy :: route_sender_policy
  rr_match :: "ingress_match option"
  rr_senderAllowlist :: "resolved_allowlist option"

datatype event_kind = EvMessage | EvReaction | EvButton | EvPostback | EvNativeCommand | EvSlashCommand | EvSystem

datatype auth_mode = AuthInbound | AuthCommand | AuthOriginSubject | AuthRouteOnly | AuthNone

record ingress_event_input =
  ei_kind :: event_kind
  ei_authMode :: auth_mode
  ei_mayPair :: bool
  ei_originSubject :: "ingress_subject option"

record ingress_event =
  ev_kind :: event_kind
  ev_authMode :: auth_mode
  ev_mayPair :: bool
  hasOriginSubject :: bool
  originSubjectMatched :: bool

datatype conversation_kind = Direct | Group | Channel

record ingress_input =
  in_channelId :: string
  in_accountId :: string
  in_subject :: ingress_subject
  in_conversationKind :: conversation_kind
  in_adapter :: ingress_adapter
  in_accessGroups :: "(string, access_group_config) js_map"
  in_membership :: "membership_fact list"
  in_routeFacts :: "route_facts list"
  in_mentionFacts :: "mention_facts option"
  in_event :: ingress_event_input
  in_dm :: "string list option"
  in_group :: "string list option"
  in_commandOwner :: "string list option"
  in_commandGroup :: "string list option"
  in_pairingStore :: "string list option"

section \<open>Policies, gates and decisions\<close>

datatype sender_policy = PolPairing | PolAllowlist | PolOpen | PolDisabled

datatype mutable_matching = MutableDisabled | MutableEnabled

datatype activation_order = BeforeSender | AfterCommand

record activation_policy =
  act_requireMention :: bool
  act_allowTextCommands :: bool
  act_allowedImplicitMentionKinds :: "implicit_mention_kind list option"
  act_order :: "activation_order option"

record command_policy =
  cmd_useAccessGroups :: "bool option"
  cmd_allowTextCommands :: bool
  cmd_hasControlCommand :: bool
  cmd_modeWhenAccessGroupsOff :: "access_groups_off_mode option"

record ingress_policy =
  dmPolicy :: sender_policy
  groupPolicy :: sender_policy
  groupAllowFromFallbackToAllowFrom :: "bool option"
  mutableIdentifierMatching :: "mutable_matching option"
  activation :: "activation_policy option"
  command :: "command_policy option"

datatype gate_phase = PhRoute | PhSender | PhCommand | PhEvent | PhActivation

record gate_command =
  gc_useAccessGroups :: bool
  gc_allowTextCommands :: bool
  gc_modeWhenAccessGroupsOff :: "access_groups_off_mode option"
  gc_shouldBlockControlCommand :: bool

record gate_activation =
  ga_hasMentionFacts :: bool
  ga_requireMention :: bool
  ga_allowTextCommands :: bool
  ga_allowedImplicitMentionKinds :: "implicit_mention_kind list option"
  ga_order :: "activation_order option"
  ga_shouldSkip :: bool
  ga_canDetectMention :: "bool option"
  ga_wasMentioned :: "bool option"
  ga_hasAnyMention :: "bool option"
  ga_implicitMentionKinds :: "implicit_mention_kind list option"
  ga_effectiveWasMentioned :: "bool option"
  ga_shouldBypassMention :: "bool option"

record gate =
  gate_id :: string
  gate_phase :: gate_phase
  gate_kind :: gate_kind
  gate_effect :: gate_effect
  gate_allowed :: bool
  gate_reasonCode :: ingress_reason
  gate_match :: "ingress_match option"
  gate_allowlist :: "allowlist_facts option"
  gate_sender :: "sender_policy option"
  gate_command :: "gate_command option"
  gate_event :: "ingress_event option"
  gate_activation :: "gate_activation option"

record ingress_state =
  st_channelId :: string
  st_accountId :: string
  conversationKind :: conversation_kind
  st_event :: ingress_event
  mentionFacts :: "mention_facts option"
  routeFacts :: "resolved_route list"
  al_dm :: resolved_allowlist
  al_pairingStore :: resolved_allowlist
  al_group :: resolved_allowlist
  al_commandOwner :: resolved_allowlist
  al_commandGroup :: resolved_allowlist

datatype ingress_admission = Dispatch | Observe | Skip | Drop | PairingRequired

datatype ingress_verdict = VAllow | VBlock | VPairing

record ingress_decision =
  admission :: ingress_admission
  verdict :: ingress_verdict
  decisiveGateId :: string
  dec_reasonCode :: ingress_reason
  gates :: "gate list"

definition base_gate :: "string \<Rightarrow> gate_phase \<Rightarrow> gate_kind \<Rightarrow> gate_effect \<Rightarrow> bool \<Rightarrow> ingress_reason \<Rightarrow> gate" where
  "base_gate i p k e a r = \<lparr>gate_id = i, gate_phase = p, gate_kind = k, gate_effect = e,
     gate_allowed = a, gate_reasonCode = r, gate_match = None, gate_allowlist = None,
     gate_sender = None, gate_command = None, gate_event = None, gate_activation = None\<rparr>"

lemma base_gate_select [simp, gate_simps]:
  "gate_id (base_gate i p k e a r) = i" "gate_phase (base_gate i p k e a r) = p"
  "gate_kind (base_gate i p k e a r) = k" "gate_effect (base_gate i p k e a r) = e"
  "gate_allowed (base_gate i p k e a r) = a" "gate_reasonCode (base_gate i p k e a r) = r"
  by (simp_all add: base_gate_def)

end
