(* ===== verification/AccessState.thy ===== *)
theory AccessState
  imports AccessTypes
begin

text \<open>
  The resolver of \<^verbatim>\<open>src/src/channels/message-access/state.ts\<close>, which turns configured
  allow lists, access groups and route facts into the state the decision is made on, and the
  identity adapter of \<^verbatim>\<open>runtime-identity.ts\<close>, which normalises entries and matches
  subjects. The awaited adapter calls are function applications: the kernel runs them for
  their results only. \<open>localeCompare\<close> is the collation of the host and an argument.
\<close>

section \<open>Matching\<close>

definition redactedEntries :: "internal_entry list \<Rightarrow> normalized_entry list" where
  "redactedEntries es = map normalized_entry.truncate es"

definition emptyMatch :: ingress_match where
  "emptyMatch = \<lparr>matched = False, matchedEntryIds = []\<rparr>"

definition mergeMatches :: "ingress_match list \<Rightarrow> ingress_match" where
  "mergeMatches ms =
     (let ids = unique_values (concat (map matchedEntryIds ms))
      in \<lparr>matched = (list_ex matched ms \<or> length ids > 0), matchedEntryIds = ids\<rparr>)"

definition mergeDiagnostics :: "entry_diagnostic list list \<Rightarrow> entry_diagnostic list" where
  "mergeDiagnostics groups = concat groups"

definition accessGroupFactByName :: "membership_fact list \<Rightarrow> (string, membership_fact) js_map" where
  "accessGroupFactByName facts = fold (\<lambda>f m. map_set (fact_groupName f) f m) facts []"

record match_result =
  mr_normalizedEntries :: "normalized_entry list"
  mr_invalidEntries :: "entry_diagnostic list"
  mr_disabledEntries :: "entry_diagnostic list"
  mr_match :: ingress_match

definition normalizeAndMatch ::
    "ingress_adapter \<Rightarrow> ingress_subject \<Rightarrow> string \<Rightarrow> string list \<Rightarrow> match_context \<Rightarrow> match_result" where
  "normalizeAndMatch adapter subject accountId entries ctx =
     (if length entries = 0 then
        \<lparr>mr_normalizedEntries = [], mr_invalidEntries = [], mr_disabledEntries = [],
         mr_match = emptyMatch\<rparr>
      else
        let n = normalizeEntries adapter entries ctx accountId;
            m = (if length (nr_matchable n) > 0 then matchSubject adapter subject (nr_matchable n) ctx
                 else emptyMatch)
        in \<lparr>mr_normalizedEntries = redactedEntries (nr_matchable n), mr_invalidEntries = nr_invalid n,
            mr_disabledEntries = nr_disabled n, mr_match = m\<rparr>)"

definition referencedAccessGroups :: "string list \<Rightarrow> string list" where
  "referencedAccessGroups entries = unique_values (List.map_filter parseAccessGroupAllowFromEntry entries)"

definition directAllowlistEntries :: "string list \<Rightarrow> string list" where
  "directAllowlistEntries entries = filter (\<lambda>e. parseAccessGroupAllowFromEntry e = None) entries"

definition groupSenderEntries :: "string \<Rightarrow> ingress_input \<Rightarrow> string list" where
  "groupSenderEntries groupName input = (case map_of (in_accessGroups input) groupName of
     Some (MessageSenders members) \<Rightarrow> normalizeStringEntries
       (or_default (map_of members ''*'') [] @ or_default (map_of members (in_channelId input)) [])
   | _ \<Rightarrow> [])"

section \<open>Origin subjects\<close>

definition eventSubjectMatchContext :: "ingress_input \<Rightarrow> match_context" where
  "eventSubjectMatchContext input = (if in_conversationKind input = Direct then CtxDm else CtxGroup)"

definition normalizeSubjectIdentifiersForMatch ::
    "ingress_input \<Rightarrow> ingress_subject \<Rightarrow> match_context \<Rightarrow> string \<Rightarrow> internal_entry list" where
  "normalizeSubjectIdentifiersForMatch input subject ctx opaquePrefix =
     concat (map (\<lambda>(i, identifier).
       let es = normalizeEntries (in_adapter input) [mat_value identifier] ctx (in_accountId input)
       in map (\<lambda>(j, e). \<lparr>opaqueEntryId = opaquePrefix @ ''-'' @ nat_digits (i + 1) @ '':'' @ nat_digits (j + 1),
                          entry_kind = entry_kind e, dangerous = dangerous e,
                          entry_sensitivity = entry_sensitivity e, entry_value = entry_value e\<rparr>)
            (enumerate 0 (filter (\<lambda>e. entry_kind e = mat_kind identifier \<and> entry_value e \<noteq> ''*'')
                            (nr_matchable es))))
       (enumerate 0 subject))"

definition originSubjectMatches :: "ingress_input \<Rightarrow> bool" where
  "originSubjectMatches input = (case ei_originSubject (in_event input) of
     None \<Rightarrow> False
   | Some origin \<Rightarrow>
       if list_ex (\<lambda>i. list_ex (\<lambda>c. mat_kind c = mat_kind i \<and> mat_value c = mat_value i)
            (in_subject input)) origin
       then True
       else
         let ctx = eventSubjectMatchContext input;
             originEntries = normalizeSubjectIdentifiersForMatch input origin ctx ''origin''
         in if length originEntries > 0 \<and>
               matched (matchSubject (in_adapter input) (in_subject input) originEntries ctx)
            then True
            else
              let currentEntries =
                    normalizeSubjectIdentifiersForMatch input (in_subject input) ctx ''current''
              in if length currentEntries = 0 then False
                 else matched (matchSubject (in_adapter input) origin currentEntries ctx))"

section \<open>Allow lists and access groups\<close>

record group_resolution =
  gr_normalizedEntries :: "normalized_entry list"
  gr_invalidEntries :: "entry_diagnostic list"
  gr_disabledEntries :: "entry_diagnostic list"
  gr_matches :: "ingress_match list"
  gr_accessGroups :: access_groups

text \<open>One round of the loop of \<^verbatim>\<open>resolveAccessGroupEntries\<close>.\<close>

definition access_group_round ::
    "ingress_input \<Rightarrow> match_context \<Rightarrow> (string, membership_fact) js_map \<Rightarrow> string \<Rightarrow>
     group_resolution \<Rightarrow> group_resolution" where
  "access_group_round input ctx factByName g r =
     (let ag = gr_accessGroups r in
      case map_of factByName g of
        Some (FactMatched _ _ ids) \<Rightarrow>
          r\<lparr>gr_accessGroups := ag\<lparr>ag_matched := ag_matched ag @ [g]\<rparr>,
            gr_matches := gr_matches r @ [\<lparr>matched = True, matchedEntryIds = ids\<rparr>]\<rparr>
      | Some (FactProblem FactMissing _ _ _ _) \<Rightarrow>
          r\<lparr>gr_accessGroups := ag\<lparr>ag_missing := ag_missing ag @ [g]\<rparr>\<rparr>
      | Some (FactProblem FactUnsupported _ _ _ _) \<Rightarrow>
          r\<lparr>gr_accessGroups := ag\<lparr>ag_unsupported := ag_unsupported ag @ [g]\<rparr>\<rparr>
      | Some (FactProblem FactFailed _ _ _ _) \<Rightarrow>
          r\<lparr>gr_accessGroups := ag\<lparr>ag_failed := ag_failed ag @ [g]\<rparr>\<rparr>
      | Some (FactNotMatched _ _) \<Rightarrow> r
      | None \<Rightarrow>
         (case map_of (in_accessGroups input) g of
            None \<Rightarrow> r\<lparr>gr_accessGroups := ag\<lparr>ag_missing := ag_missing ag @ [g]\<rparr>\<rparr>
          | Some (DiscordChannelAudience _ _ _) \<Rightarrow>
              r\<lparr>gr_accessGroups := ag\<lparr>ag_unsupported := ag_unsupported ag @ [g]\<rparr>\<rparr>
          | Some (MessageSenders _) \<Rightarrow>
              let res = normalizeAndMatch (in_adapter input) (in_subject input) (in_accountId input)
                          (groupSenderEntries g input) ctx;
                  r1 = r\<lparr>gr_normalizedEntries := gr_normalizedEntries r @ mr_normalizedEntries res,
                         gr_invalidEntries := gr_invalidEntries r @ mr_invalidEntries res,
                         gr_disabledEntries := gr_disabledEntries r @ mr_disabledEntries res\<rparr>
              in if matched (mr_match res)
                 then r1\<lparr>gr_accessGroups := ag\<lparr>ag_matched := ag_matched ag @ [g]\<rparr>,
                         gr_matches := gr_matches r1 @ [mr_match res]\<rparr>
                 else r1))"

definition resolveAccessGroupEntries ::
    "ingress_input \<Rightarrow> match_context \<Rightarrow> string list \<Rightarrow> group_resolution" where
  "resolveAccessGroupEntries input ctx referenced =
     fold (access_group_round input ctx (accessGroupFactByName (in_membership input))) referenced
       \<lparr>gr_normalizedEntries = [], gr_invalidEntries = [], gr_disabledEntries = [], gr_matches = [],
        gr_accessGroups = \<lparr>ag_referenced = referenced, ag_matched = [], ag_missing = [],
          ag_unsupported = [], ag_failed = []\<rparr>\<rparr>"

definition resolveIngressAllowlist ::
    "ingress_input \<Rightarrow> string list option \<Rightarrow> match_context \<Rightarrow> resolved_allowlist" where
  "resolveIngressAllowlist input rawEntries ctx =
     (let entries = normalizeStringEntries (or_default rawEntries []);
          referenced = referencedAccessGroups entries;
          directEntries = directAllowlistEntries entries;
          direct = normalizeAndMatch (in_adapter input) (in_subject input) (in_accountId input)
                     directEntries ctx;
          groups = resolveAccessGroupEntries input ctx referenced;
          m = mergeMatches (mr_match direct # gr_matches groups)
      in \<lparr>rawEntryCount = length entries,
          normalizedEntries = mr_normalizedEntries direct @ gr_normalizedEntries groups,
          invalidEntries = mergeDiagnostics [mr_invalidEntries direct, gr_invalidEntries groups],
          disabledEntries = mergeDiagnostics [mr_disabledEntries direct, gr_disabledEntries groups],
          allow_matchedEntryIds = matchedEntryIds m,
          hasConfiguredEntries = (length entries > 0),
          hasMatchableEntries = (length (mr_normalizedEntries direct) > 0 \<or>
                                 length (gr_normalizedEntries groups) > 0),
          hasWildcard = (''*'' \<in> set directEntries),
          accessGroups = gr_accessGroups groups,
          allow_match = m\<rparr>)"

section \<open>Routes and the whole state\<close>

definition compare_routes :: "(string \<Rightarrow> string \<Rightarrow> int) \<Rightarrow> route_facts \<Rightarrow> route_facts \<Rightarrow> int" where
  "compare_routes localeCompare left right =
     (let d = rf_precedence left - rf_precedence right
      in if d \<noteq> 0 then d else localeCompare (rf_id left) (rf_id right))"

definition resolve_route :: "ingress_input \<Rightarrow> route_facts \<Rightarrow> resolved_route" where
  "resolve_route input route =
     (let senderAllowFrom = (case rf_senderAllowFrom route of
            Some l \<Rightarrow> Some l
          | None \<Rightarrow> (case rf_senderAllowFromSource route of
                Some EffectiveDm \<Rightarrow> in_dm input
              | Some EffectiveGroup \<Rightarrow> in_group input
              | None \<Rightarrow> None))
      in \<lparr>rr_id = rf_id route, rr_kind = rf_kind route, rr_gate = rf_gate route,
          rr_effect = rf_effect route, rr_precedence = rf_precedence route,
          rr_senderPolicy = rf_senderPolicy route, rr_match = rf_match route,
          rr_senderAllowlist = map_option (\<lambda>l. resolveIngressAllowlist input (Some l) CtxRoute)
            senderAllowFrom\<rparr>)"

definition resolveRouteFacts :: "(string \<Rightarrow> string \<Rightarrow> int) \<Rightarrow> ingress_input \<Rightarrow> resolved_route list" where
  "resolveRouteFacts localeCompare input =
     map (resolve_route input) (to_sorted (compare_routes localeCompare) (in_routeFacts input))"

definition resolveChannelIngressState :: "(string \<Rightarrow> string \<Rightarrow> int) \<Rightarrow> ingress_input \<Rightarrow> ingress_state" where
  "resolveChannelIngressState localeCompare input =
     \<lparr>st_channelId = in_channelId input, st_accountId = in_accountId input,
      conversationKind = in_conversationKind input,
      st_event = \<lparr>ev_kind = ei_kind (in_event input), ev_authMode = ei_authMode (in_event input),
        ev_mayPair = ei_mayPair (in_event input),
        hasOriginSubject = (ei_originSubject (in_event input) \<noteq> None),
        originSubjectMatched = originSubjectMatches input\<rparr>,
      mentionFacts = in_mentionFacts input,
      routeFacts = resolveRouteFacts localeCompare input,
      al_dm = resolveIngressAllowlist input (in_dm input) CtxDm,
      al_pairingStore = resolveIngressAllowlist input (in_pairingStore input) CtxDm,
      al_group = resolveIngressAllowlist input (in_group input) CtxGroup,
      al_commandOwner = resolveIngressAllowlist input (in_commandOwner input) CtxCommand,
      al_commandGroup = resolveIngressAllowlist input (in_commandGroup input) CtxCommand\<rparr>"

section \<open>The identity adapter\<close>

text \<open>
  A descriptor of \<^verbatim>\<open>createIdentityAdapter\<close>. The normalisers return \<open>None\<close> for null and
  undefined; \<open>id_resolveEntryId\<close> and \<open>id_matchEntry\<close> are the optional hooks of a plugin.
\<close>

record identity_field =
  fld_key :: string
  fld_kind :: identifier_kind
  fld_normalize :: "(string \<Rightarrow> string option) option"
  fld_normalizeEntry :: "(string \<Rightarrow> string option) option"
  fld_normalizeSubject :: "(string \<Rightarrow> string option) option"
  fld_dangerous :: "string \<Rightarrow> bool option"
  fld_sensitivity :: "sensitivity option"

record identity_descriptor =
  id_primary :: identity_field
  id_aliases :: "identity_field list"
  id_isWildcardEntry :: "(string \<Rightarrow> bool) option"
  id_resolveEntryId :: "string \<Rightarrow> nat \<Rightarrow> string \<Rightarrow> nat \<Rightarrow> string option"
  id_matchEntry :: "ingress_subject \<Rightarrow> internal_entry \<Rightarrow> match_context \<Rightarrow> bool option"

datatype normalize_mode = ModeEntry | ModeSubject

definition normalizeFieldValue :: "identity_field \<Rightarrow> string \<Rightarrow> normalize_mode \<Rightarrow> string option" where
  "normalizeFieldValue field value mode =
     (let default = or_default (fld_normalize field) (\<lambda>v. Some v);
          normalize = (if mode = ModeEntry then or_default (fld_normalizeEntry field) default
                       else or_default (fld_normalizeSubject field) default)
      in case normalize value of
           None \<Rightarrow> None
         | Some v \<Rightarrow> if js_trim v = [] then None else Some (js_trim v))"

definition identityFields :: "identity_descriptor \<Rightarrow> identity_field list" where
  "identityFields identity = id_primary identity # id_aliases identity"

definition adapterEntry ::
    "identity_descriptor \<Rightarrow> identity_field \<Rightarrow> nat \<Rightarrow> string \<Rightarrow> nat \<Rightarrow> string \<Rightarrow> string option \<Rightarrow> internal_entry" where
  "adapterEntry identity field fieldIndex e entryIndex value fallbackSuffix =
     \<lparr>opaqueEntryId = (case id_resolveEntryId identity e entryIndex (fld_key field) fieldIndex of
          Some i \<Rightarrow> i
        | None \<Rightarrow> ''entry-'' @ nat_digits (entryIndex + 1) @ '':'' @ or_default fallbackSuffix (fld_key field)),
      entry_kind = fld_kind field, dangerous = fld_dangerous field e,
      entry_sensitivity = fld_sensitivity field, entry_value = value\<rparr>"

definition identity_entries :: "identity_descriptor \<Rightarrow> nat \<times> string \<Rightarrow> internal_entry list" where
  "identity_entries identity = (\<lambda>(entryIndex, e).
     if or_default (id_isWildcardEntry identity) (\<lambda>v. v = ''*'') e then
       [adapterEntry identity (hd (identityFields identity)) 0 e entryIndex ''*'' (Some ''wildcard'')]
     else concat (map (\<lambda>(fieldIndex, field).
       case normalizeFieldValue field e ModeEntry of
         None \<Rightarrow> []
       | Some v \<Rightarrow> [adapterEntry identity field fieldIndex e entryIndex v None])
       (enumerate 0 (identityFields identity))))"

fun kind_name :: "identifier_kind \<Rightarrow> string" where
  "kind_name StableId = ''stable-id''"
| "kind_name Username = ''username''"
| "kind_name Email = ''email''"
| "kind_name Phone = ''phone''"
| "kind_name Role = ''role''"
| "kind_name (PluginKind k) = ''plugin:'' @ k"

definition identityMatchKey :: "identifier_kind \<Rightarrow> string \<Rightarrow> string" where
  "identityMatchKey kind value = kind_name kind @ '':'' @ value"

definition subject_keys :: "identity_descriptor \<Rightarrow> ingress_subject \<Rightarrow> string list" where
  "subject_keys identity subject = concat (map (\<lambda>identifier.
     case find (\<lambda>f. fld_kind f = mat_kind identifier) (identityFields identity) of
       None \<Rightarrow> []
     | Some field \<Rightarrow> (case normalizeFieldValue field (mat_value identifier) ModeSubject of
           None \<Rightarrow> [] | Some v \<Rightarrow> [identityMatchKey (mat_kind identifier) v])) subject)"

definition createIdentityAdapter :: "identity_descriptor \<Rightarrow> ingress_adapter" where
  "createIdentityAdapter identity =
     \<lparr>normalizeEntries = (\<lambda>entries ctx accountId.
        \<lparr>nr_matchable = concat (map (identity_entries identity) (enumerate 0 entries)),
         nr_invalid = [], nr_disabled = []\<rparr>),
      matchSubject = (\<lambda>subject entries ctx.
        let keys = subject_keys identity subject;
            ids = map opaqueEntryId (filter (\<lambda>e.
              let fallback = (entry_value e = ''*'' \<or> identityMatchKey (entry_kind e) (entry_value e) \<in> set keys)
              in or_default (id_matchEntry identity subject e ctx) fallback) entries)
        in \<lparr>matched = (length ids > 0), matchedEntryIds = ids\<rparr>)\<rparr>"

definition createIdentitySubject ::
    "identity_descriptor \<Rightarrow> string option \<Rightarrow> (string, string) js_map \<Rightarrow> ingress_subject" where
  "createIdentitySubject identity stableId aliases =
     concat (map (\<lambda>(index, field).
       case (if index = (0::nat) then stableId else map_of aliases (fld_key field)) of
         None \<Rightarrow> []
       | Some v \<Rightarrow> [\<lparr>mat_opaqueId = fld_key field, mat_kind = fld_kind field,
           mat_dangerous = fld_dangerous field v, mat_sensitivity = fld_sensitivity field,
           mat_value = v\<rparr>])
       (enumerate 0 (identityFields identity)))"

section \<open>Runtime access groups\<close>

definition accessGroupNames :: "string list \<Rightarrow> string list" where
  "accessGroupNames entries = unique_values (List.map_filter parseAccessGroupAllowFromEntry entries)"

definition allReferencedAccessGroupNames :: "string list list \<Rightarrow> string list" where
  "allReferencedAccessGroupNames groups = unique_values (concat (map accessGroupNames groups))"

definition normalizeEffectiveEntries ::
    "ingress_adapter \<Rightarrow> string \<Rightarrow> string list \<Rightarrow> match_context \<Rightarrow> string list" where
  "normalizeEffectiveEntries adapter accountId entries ctx =
     (let rawEntries = normalizeStringEntries entries;
          groupEntries = filter (\<lambda>e. parseAccessGroupAllowFromEntry e \<noteq> None) rawEntries;
          directEntries = filter (\<lambda>e. parseAccessGroupAllowFromEntry e = None) rawEntries
      in if length directEntries = 0 then groupEntries
         else unique_values (groupEntries @
           map entry_value (nr_matchable (normalizeEntries adapter directEntries ctx accountId))))"

text \<open>The membership hook answers with a verdict, or \<open>None\<close> when it throws.\<close>

definition resolveRuntimeAccessGroupMembershipFacts ::
    "(string \<Rightarrow> access_group_config \<Rightarrow> bool option) option \<Rightarrow> (string, access_group_config) js_map \<Rightarrow>
     string list \<Rightarrow> membership_fact list" where
  "resolveRuntimeAccessGroupMembershipFacts hook groups names = (case hook of
     None \<Rightarrow> []
   | Some resolve \<Rightarrow> concat (map (\<lambda>name. case map_of groups name of
         None \<Rightarrow> []
       | Some (MessageSenders _) \<Rightarrow> []
       | Some g \<Rightarrow> (case resolve name g of
             Some True \<Rightarrow> [FactMatched name FactDynamic [''access-group:'' @ name]]
           | Some False \<Rightarrow> [FactNotMatched name FactDynamic]
           | None \<Rightarrow> [FactProblem FactFailed name FactDynamic AccessGroupFailed
                         (Some (''access-group:'' @ name))])) names))"

end
