(* ===== verification/AccessDecision.thy ===== *)
theory AccessDecision
  imports AccessState
begin

text \<open>
  The decision of the channel ingress kernel: allow list policies
  (\<^verbatim>\<open>message-access/allowlist.ts\<close>), sender gates (\<^verbatim>\<open>sender-gates.ts\<close>) and
  \<^verbatim>\<open>decideChannelIngress\<close> (\<^verbatim>\<open>decision.ts\<close>), which evaluates the gates in
  order and stops at the first decisive one.
\<close>

section \<open>Allow list policies\<close>

definition allowlistFailureReason :: "resolved_allowlist \<Rightarrow> ingress_reason option" where
  "allowlistFailureReason al =
     (if length (ag_failed (accessGroups al)) > 0 then Some AccessGroupFailed
      else if length (ag_unsupported (accessGroups al)) > 0 then Some AccessGroupUnsupported
      else if length (ag_missing (accessGroups al)) > 0 then Some AccessGroupMissing
      else None)"

definition redactedAllowlistDiagnostics :: "resolved_allowlist \<Rightarrow> ingress_reason \<Rightarrow> allowlist_facts" where
  "redactedAllowlistDiagnostics al reason =
     \<lparr>af_configured = hasConfiguredEntries al, af_matched = matched (allow_match al),
      af_reasonCode = reason, af_matchedEntryIds = allow_matchedEntryIds al,
      af_invalidEntryCount = length (invalidEntries al),
      af_disabledEntryCount = length (disabledEntries al), af_accessGroups = accessGroups al\<rparr>"

definition mergeResolvedAllowlists :: "resolved_allowlist list \<Rightarrow> resolved_allowlist" where
  "mergeResolvedAllowlists als =
     (let ids = unique_values (concat (map allow_matchedEntryIds als));
          merged = (\<lambda>f. unique_values (concat (map (\<lambda>a. f (accessGroups a)) als)))
      in \<lparr>rawEntryCount = sum_list (map rawEntryCount als),
          normalizedEntries = concat (map normalizedEntries als),
          invalidEntries = concat (map invalidEntries als),
          disabledEntries = concat (map disabledEntries als),
          allow_matchedEntryIds = ids,
          hasConfiguredEntries = list_ex hasConfiguredEntries als,
          hasMatchableEntries = list_ex hasMatchableEntries als,
          hasWildcard = list_ex hasWildcard als,
          accessGroups = \<lparr>ag_referenced = merged ag_referenced, ag_matched = merged ag_matched,
            ag_missing = merged ag_missing, ag_unsupported = merged ag_unsupported,
            ag_failed = merged ag_failed\<rparr>,
          allow_match = \<lparr>matched = (list_ex (\<lambda>a. matched (allow_match a)) als \<or> length ids > 0),
            matchedEntryIds = ids\<rparr>\<rparr>)"

definition is_dangerous :: "normalized_entry \<Rightarrow> bool" where
  "is_dangerous e \<longleftrightarrow> dangerous e = Some True"

definition applyMutableIdentifierPolicy :: "resolved_allowlist \<Rightarrow> ingress_policy \<Rightarrow> resolved_allowlist" where
  "applyMutableIdentifierPolicy al policy =
     (if mutableIdentifierMatching policy = Some MutableEnabled then al
      else
        let dangerousEntries = filter is_dangerous (normalizedEntries al);
            dangerousEntryIds = unique_values (map opaqueEntryId dangerousEntries)
        in if length dangerousEntryIds = 0 then al
           else
             let ids = filter (\<lambda>i. i \<notin> set dangerousEntryIds) (allow_matchedEntryIds al);
                 disabled = disabledEntries al @ map (\<lambda>e. \<lparr>diag_opaqueEntryId = Some (opaqueEntryId e),
                              diag_reasonCode = MutableIdentifierDisabled\<rparr>) dangerousEntries
             in al\<lparr>disabledEntries := disabled, allow_matchedEntryIds := ids,
                   hasMatchableEntries := list_ex (\<lambda>e. \<not> is_dangerous e) (normalizedEntries al),
                   allow_match := \<lparr>matched = (length ids > 0), matchedEntryIds = ids\<rparr>\<rparr>)"

definition route_override :: "resolved_route \<Rightarrow> resolved_allowlist \<Rightarrow> resolved_allowlist" where
  "route_override route effective =
     (if rr_gate route \<noteq> RouteMatched then effective
      else case rr_senderAllowlist route of
          None \<Rightarrow> effective
        | Some al \<Rightarrow> if rr_senderPolicy route = Inherit then mergeResolvedAllowlists [effective, al]
                     else al)"

definition effectiveGroupSenderAllowlist :: "ingress_state \<Rightarrow> ingress_policy \<Rightarrow> resolved_allowlist" where
  "effectiveGroupSenderAllowlist state policy =
     (let base = (if groupAllowFromFallbackToAllowFrom policy = Some True \<and>
                     \<not> hasConfiguredEntries (al_group state)
                  then al_dm state else al_group state)
      in applyMutableIdentifierPolicy (fold route_override (routeFacts state) base) policy)"

section \<open>Sender gates\<close>

definition sender_gate ::
    "string \<Rightarrow> gate_kind \<Rightarrow> gate_effect \<Rightarrow> bool \<Rightarrow> ingress_reason \<Rightarrow> ingress_match \<Rightarrow> sender_policy \<Rightarrow>
     resolved_allowlist \<Rightarrow> gate" where
  "sender_gate i k e a r m pol al = (base_gate i PhSender k e a r)
     \<lparr>gate_match := Some m, gate_sender := Some pol,
      gate_allowlist := Some (redactedAllowlistDiagnostics al r)\<rparr>"

definition senderGateForDirect :: "ingress_state \<Rightarrow> ingress_policy \<Rightarrow> gate" where
  "senderGateForDirect state policy =
     (let dm = applyMutableIdentifierPolicy (al_dm state) policy;
          pairingStore = applyMutableIdentifierPolicy (al_pairingStore state) policy;
          allow = (\<lambda>r. sender_gate ''sender:dm'' KDmSender EffAllow True r (allow_match dm) (dmPolicy policy) dm);
          block = (\<lambda>r. sender_gate ''sender:dm'' KDmSender EffBlockDispatch False r (allow_match dm)
                     (dmPolicy policy) dm)
      in if dmPolicy policy = PolDisabled then block DmPolicyDisabled
         else if dmPolicy policy = PolOpen then
           (if hasWildcard dm then allow DmPolicyOpen
            else if matched (allow_match dm) then allow DmPolicyAllowlisted
            else block DmPolicyNotAllowlisted)
         else if matched (allow_match dm) then allow DmPolicyAllowlisted
         else if dmPolicy policy = PolPairing \<and> matched (allow_match pairingStore) then
           sender_gate ''sender:dm'' KDmSender EffAllow True DmPolicyAllowlisted
             (allow_match pairingStore) (dmPolicy policy) pairingStore
         else if dmPolicy policy = PolPairing \<and> ev_mayPair (st_event state) then
           block DmPolicyPairingRequired
         else block (if dmPolicy policy = PolPairing then EventPairingNotAllowed
                     else or_default (allowlistFailureReason dm) DmPolicyNotAllowlisted))"

definition senderGateForGroup :: "ingress_state \<Rightarrow> ingress_policy \<Rightarrow> gate" where
  "senderGateForGroup state policy =
     (let grp = effectiveGroupSenderAllowlist state policy;
          allow = (\<lambda>r. sender_gate ''sender:group'' KGroupSender EffAllow True r (allow_match grp)
                     (groupPolicy policy) grp);
          block = (\<lambda>r. sender_gate ''sender:group'' KGroupSender EffBlockDispatch False r (allow_match grp)
                     (groupPolicy policy) grp)
      in if groupPolicy policy = PolDisabled then block GroupPolicyDisabled
         else if groupPolicy policy = PolOpen then allow GroupPolicyOpen
         else if \<not> hasConfiguredEntries grp then block GroupPolicyEmptyAllowlist
         else if matched (allow_match grp) then allow GroupPolicyAllowed
         else block (or_default (allowlistFailureReason grp) GroupPolicyNotAllowlisted))"

definition applyEventAuthModeToSenderGate :: "ingress_state \<Rightarrow> gate \<Rightarrow> gate" where
  "applyEventAuthModeToSenderGate state g =
     (if ev_authMode (st_event state) = AuthInbound \<or> gate_allowed g then g
      else g\<lparr>gate_effect := EffIgnore, gate_allowed := True, gate_reasonCode := SenderNotRequired,
             gate_allowlist := map_option (\<lambda>f. f\<lparr>af_reasonCode := SenderNotRequired\<rparr>) (gate_allowlist g)\<rparr>)"

section \<open>Route, command, event and activation gates\<close>

definition decisiveDecision ::
    "ingress_admission \<Rightarrow> ingress_verdict \<Rightarrow> gate \<Rightarrow> gate list \<Rightarrow> ingress_decision" where
  "decisiveDecision a v g gs = \<lparr>admission = a, verdict = v, decisiveGateId = gate_id g,
     dec_reasonCode = gate_reasonCode g, gates = gs\<rparr>"

definition routeGates :: "ingress_state \<Rightarrow> gate list" where
  "routeGates state = map (\<lambda>route. (base_gate (rr_id route) PhRoute (rr_kind route) (rr_effect route)
       (rr_effect route \<noteq> EffBlockDispatch)
       (if rr_effect route = EffBlockDispatch then RouteBlocked else Allowed))
     \<lparr>gate_match := rr_match route\<rparr>) (routeFacts state)"

definition routeSenderEmptyGate :: "ingress_state \<Rightarrow> gate option" where
  "routeSenderEmptyGate state =
     map_option (\<lambda>route. (base_gate (rr_id route @ '':sender'') PhRoute KRouteSender EffBlockDispatch False
         RouteSenderEmpty)
       \<lparr>gate_match := rr_match route,
        gate_allowlist := map_option (\<lambda>al. redactedAllowlistDiagnostics al RouteSenderEmpty)
          (rr_senderAllowlist route)\<rparr>)
     (find (\<lambda>fact. rr_senderPolicy fact = DenyWhenEmpty \<and> rr_gate fact = RouteMatched \<and>
          map_option hasConfiguredEntries (rr_senderAllowlist fact) \<noteq> Some True) (routeFacts state))"

definition mergeCommandMatch :: "ingress_match \<Rightarrow> ingress_match \<Rightarrow> ingress_match" where
  "mergeCommandMatch owner grp =
     (let ids = unique_values (matchedEntryIds owner @ matchedEntryIds grp)
      in \<lparr>matched = (matched owner \<or> matched grp \<or> length ids > 0), matchedEntryIds = ids\<rparr>)"

definition commandGate :: "ingress_state \<Rightarrow> ingress_policy \<Rightarrow> gate" where
  "commandGate state policy = (case command policy of
     None \<Rightarrow> base_gate ''command'' PhCommand KCommand EffAllow True CommandAuthorized
   | Some c \<Rightarrow>
      let useAccessGroups = or_default (cmd_useAccessGroups c) True;
          owner = applyMutableIdentifierPolicy (al_commandOwner state) policy;
          grp = applyMutableIdentifierPolicy (al_commandGroup state) policy;
          authorized = resolveCommandAuthorizedFromAuthorizers useAccessGroups
            [\<lparr>configured = hasConfiguredEntries owner, allowed = matched (allow_match owner)\<rparr>,
             \<lparr>configured = hasConfiguredEntries grp, allowed = matched (allow_match grp)\<rparr>]
            (cmd_modeWhenAccessGroupsOff c);
          shouldBlock = (cmd_allowTextCommands c \<and> cmd_hasControlCommand c \<and> \<not> authorized)
      in (base_gate ''command'' PhCommand KCommand
           (if shouldBlock then EffBlockCommand else EffAllow) authorized
           (if shouldBlock then ControlCommandUnauthorized else CommandAuthorized))
         \<lparr>gate_match := Some (mergeCommandMatch (allow_match owner) (allow_match grp)),
          gate_command := Some \<lparr>gc_useAccessGroups = useAccessGroups,
            gc_allowTextCommands = cmd_allowTextCommands c,
            gc_modeWhenAccessGroupsOff = cmd_modeWhenAccessGroupsOff c,
            gc_shouldBlockControlCommand = shouldBlock\<rparr>\<rparr>)"

definition event_result :: "ingress_event \<Rightarrow> bool \<Rightarrow> ingress_reason \<Rightarrow> gate" where
  "event_result ev a r = (base_gate ''event'' PhEvent KEvent (if a then EffAllow else EffBlockDispatch) a r)
     \<lparr>gate_event := Some ev\<rparr>"

definition eventGate :: "ingress_state \<Rightarrow> gate \<Rightarrow> gate \<Rightarrow> gate" where
  "eventGate state senderGate cmdGate =
     (let ev = st_event state; mode = ev_authMode ev in
      if mode = AuthNone \<or> mode = AuthRouteOnly then event_result ev True EventAuthorized
      else if mode = AuthCommand then
        event_result ev (gate_allowed cmdGate)
          (if gate_allowed cmdGate then EventAuthorized else EventUnauthorized)
      else if mode = AuthOriginSubject then
        (if \<not> hasOriginSubject ev then event_result ev False OriginSubjectMissing
         else event_result ev (originSubjectMatched ev)
                (if originSubjectMatched ev then EventAuthorized else OriginSubjectNotMatched))
      else event_result ev (gate_allowed senderGate)
             (if gate_allowed senderGate then EventAuthorized else EventUnauthorized))"

definition activationMetadata ::
    "activation_policy option \<Rightarrow> mention_facts option \<Rightarrow> bool \<Rightarrow> bool option \<Rightarrow> bool option \<Rightarrow> gate_activation" where
  "activationMetadata act facts shouldSkip effective bypass =
     \<lparr>ga_hasMentionFacts = (facts \<noteq> None),
      ga_requireMention = or_default (map_option act_requireMention act) False,
      ga_allowTextCommands = or_default (map_option act_allowTextCommands act) False,
      ga_allowedImplicitMentionKinds = Option.bind act act_allowedImplicitMentionKinds,
      ga_order = Option.bind act act_order,
      ga_shouldSkip = shouldSkip,
      ga_canDetectMention = map_option canDetectMention facts,
      ga_wasMentioned = map_option wasMentioned facts,
      ga_hasAnyMention = Option.bind facts hasAnyMention,
      ga_implicitMentionKinds = Option.bind facts implicitMentionKinds,
      ga_effectiveWasMentioned = effective,
      ga_shouldBypassMention = bypass\<rparr>"

definition activation_result ::
    "ingress_state \<Rightarrow> ingress_policy \<Rightarrow> bool \<Rightarrow> bool option \<Rightarrow> bool option \<Rightarrow> gate" where
  "activation_result state policy shouldSkip effective bypass =
     (base_gate ''activation'' PhActivation KMention (if shouldSkip then EffSkip else EffAllow)
        (\<not> shouldSkip) (if shouldSkip then ActivationSkipped else ActivationAllowed))
     \<lparr>gate_activation := Some (activationMetadata (activation policy) (mentionFacts state)
        shouldSkip effective bypass)\<rparr>"

definition activationGate :: "ingress_state \<Rightarrow> ingress_policy \<Rightarrow> gate \<Rightarrow> gate" where
  "activationGate state policy cmdGate = (case (activation policy, mentionFacts state) of
     (Some act, Some facts) \<Rightarrow>
       let result = resolveInboundMentionDecision facts
             \<lparr>mp_isGroup = (conversationKind state \<noteq> Direct),
              mp_requireMention = act_requireMention act,
              mp_allowedImplicitMentionKinds = act_allowedImplicitMentionKinds act,
              mp_allowTextCommands = act_allowTextCommands act,
              mp_hasControlCommand = or_default (map_option cmd_hasControlCommand (command policy)) False,
              mp_commandAuthorized = gate_allowed cmdGate\<rparr>
       in activation_result state policy (md_shouldSkip result)
            (Some (md_effectiveWasMentioned result)) (Some (md_shouldBypassMention result))
   | (_, facts) \<Rightarrow> activation_result state policy False
       (map_option (\<lambda>f. wasMentioned f \<or> or_default (implicitMentionKinds f) [] \<noteq> []) facts) None)"

section \<open>The decision\<close>

definition sender_gate_of :: "ingress_state \<Rightarrow> ingress_policy \<Rightarrow> gate" where
  "sender_gate_of state policy =
     (if conversationKind state = Direct then senderGateForDirect state policy
      else senderGateForGroup state policy)"

definition decideChannelIngress :: "ingress_state \<Rightarrow> ingress_policy \<Rightarrow> ingress_decision" where
  "decideChannelIngress state policy =
     (let gates0 = routeGates state @ (case routeSenderEmptyGate state of Some g \<Rightarrow> [g] | None \<Rightarrow> [])
      in case find (\<lambda>g. gate_effect g = EffBlockDispatch) gates0 of
        Some routeBlock \<Rightarrow> decisiveDecision Drop VBlock routeBlock gates0
      | None \<Rightarrow>
        let early = (case activation policy of
              Some act \<Rightarrow> if act_order act = Some BeforeSender \<and> \<not> act_allowTextCommands act
                          then Some (activationGate state policy
                                       (commandGate state (policy\<lparr>command := None\<rparr>)))
                          else None
            | None \<Rightarrow> None);
            gates1 = gates0 @ (case early of Some g \<Rightarrow> [g] | None \<Rightarrow> [])
        in if (case early of Some g \<Rightarrow> gate_effect g = EffSkip | None \<Rightarrow> False)
           then decisiveDecision Skip VAllow (the early) gates1
           else
             let sender = applyEventAuthModeToSenderGate state (sender_gate_of state policy);
                 gates2 = gates1 @ [sender]
             in if \<not> gate_allowed sender then
                  decisiveDecision
                    (if gate_reasonCode sender = DmPolicyPairingRequired then PairingRequired else Drop)
                    (if gate_reasonCode sender = DmPolicyPairingRequired then VPairing else VBlock)
                    sender gates2
                else
                  let cmd = commandGate state policy; gates3 = gates2 @ [cmd]
                  in if gate_effect cmd = EffBlockCommand then decisiveDecision Drop VBlock cmd gates3
                     else
                       let ev = eventGate state sender cmd; gates4 = gates3 @ [ev]
                       in if \<not> gate_allowed ev then decisiveDecision Drop VBlock ev gates4
                          else
                            let act = (case early of Some g \<Rightarrow> g
                                       | None \<Rightarrow> activationGate state policy cmd);
                                gates5 = gates4 @ (if early = None then [act] else [])
                            in if gate_effect act = EffSkip then decisiveDecision Skip VAllow act gates5
                               else if gate_effect act = EffObserve
                                 then decisiveDecision Observe VAllow act gates5
                               else decisiveDecision Dispatch VAllow act gates5)"

section \<open>The specification of a dispatch\<close>

text \<open>
  What admits an event, stated without gates: who is authorised as a sender, what a command
  needs, and when a mention is required.
\<close>

definition dm_authorised :: "ingress_state \<Rightarrow> ingress_policy \<Rightarrow> bool" where
  "dm_authorised state policy \<longleftrightarrow>
     (let dm = applyMutableIdentifierPolicy (al_dm state) policy;
          store = applyMutableIdentifierPolicy (al_pairingStore state) policy in
      (case dmPolicy policy of
         PolDisabled \<Rightarrow> False
       | PolOpen \<Rightarrow> hasWildcard dm \<or> matched (allow_match dm)
       | PolAllowlist \<Rightarrow> matched (allow_match dm)
       | PolPairing \<Rightarrow> matched (allow_match dm) \<or> matched (allow_match store)))"

definition group_authorised :: "ingress_state \<Rightarrow> ingress_policy \<Rightarrow> bool" where
  "group_authorised state policy \<longleftrightarrow>
     (let grp = effectiveGroupSenderAllowlist state policy in
      groupPolicy policy = PolOpen \<or>
      (groupPolicy policy \<noteq> PolDisabled \<and> hasConfiguredEntries grp \<and> matched (allow_match grp)))"

definition sender_authorised :: "ingress_state \<Rightarrow> ingress_policy \<Rightarrow> bool" where
  "sender_authorised state policy \<longleftrightarrow>
     (if conversationKind state = Direct then dm_authorised state policy else group_authorised state policy)"

definition command_authorised :: "ingress_state \<Rightarrow> ingress_policy \<Rightarrow> bool" where
  "command_authorised state policy \<longleftrightarrow> (case command policy of
     None \<Rightarrow> True
   | Some c \<Rightarrow> resolveCommandAuthorizedFromAuthorizers (or_default (cmd_useAccessGroups c) True)
       (map (\<lambda>al. \<lparr>configured = hasConfiguredEntries al, allowed = matched (allow_match al)\<rparr>)
          [applyMutableIdentifierPolicy (al_commandOwner state) policy,
           applyMutableIdentifierPolicy (al_commandGroup state) policy])
       (cmd_modeWhenAccessGroupsOff c))"

definition control_command :: "ingress_policy \<Rightarrow> bool" where
  "control_command policy \<longleftrightarrow> (case command policy of
     None \<Rightarrow> False | Some c \<Rightarrow> cmd_allowTextCommands c \<and> cmd_hasControlCommand c)"

definition routes_open :: "ingress_state \<Rightarrow> bool" where
  "routes_open state \<longleftrightarrow> (\<forall>r \<in> set (routeFacts state). rr_effect r \<noteq> EffBlockDispatch \<and>
     \<not> (rr_senderPolicy r = DenyWhenEmpty \<and> rr_gate r = RouteMatched \<and>
        (case rr_senderAllowlist r of None \<Rightarrow> True | Some al \<Rightarrow> \<not> hasConfiguredEntries al)))"

definition event_authorised :: "ingress_state \<Rightarrow> ingress_policy \<Rightarrow> bool" where
  "event_authorised state policy \<longleftrightarrow> (case ev_authMode (st_event state) of
     AuthInbound \<Rightarrow> sender_authorised state policy
   | AuthCommand \<Rightarrow> command_authorised state policy
   | AuthOriginSubject \<Rightarrow> hasOriginSubject (st_event state) \<and> originSubjectMatched (st_event state)
   | AuthRouteOnly \<Rightarrow> True
   | AuthNone \<Rightarrow> True)"

definition mention_bypass :: "ingress_state \<Rightarrow> ingress_policy \<Rightarrow> mention_facts \<Rightarrow> activation_policy \<Rightarrow> bool" where
  "mention_bypass state policy facts act \<longleftrightarrow>
     conversationKind state \<noteq> Direct \<and> \<not> wasMentioned facts \<and> hasAnyMention facts \<noteq> Some True \<and>
     act_allowTextCommands act \<and> command_authorised state policy \<and>
     (case command policy of None \<Rightarrow> False | Some c \<Rightarrow> cmd_hasControlCommand c)"

definition activated :: "ingress_state \<Rightarrow> ingress_policy \<Rightarrow> bool" where
  "activated state policy \<longleftrightarrow> (case (activation policy, mentionFacts state) of
     (Some act, Some facts) \<Rightarrow>
        \<not> act_requireMention act \<or> \<not> canDetectMention facts \<or> wasMentioned facts \<or>
        (\<exists>k \<in> set (or_default (implicitMentionKinds facts) []).
           case act_allowedImplicitMentionKinds act of None \<Rightarrow> True | Some ks \<Rightarrow> k \<in> set ks) \<or>
        mention_bypass state policy facts act
   | _ \<Rightarrow> True)"

definition dispatch_spec :: "ingress_state \<Rightarrow> ingress_policy \<Rightarrow> bool" where
  "dispatch_spec state policy \<longleftrightarrow> routes_open state \<and> event_authorised state policy \<and>
     \<not> (control_command policy \<and> \<not> command_authorised state policy) \<and> activated state policy"


section \<open>The gates against the specification\<close>

lemma sender_gate_select [simp, gate_simps]:
  "gate_allowed (sender_gate i k e a r m pol al) = a" "gate_reasonCode (sender_gate i k e a r m pol al) = r"
  "gate_effect (sender_gate i k e a r m pol al) = e" "gate_id (sender_gate i k e a r m pol al) = i"
  by (simp_all add: sender_gate_def)

lemma direct_gate_allowed: "gate_allowed (senderGateForDirect state policy) = dm_authorised state policy"
  by (cases "dmPolicy policy") (simp_all add: senderGateForDirect_def dm_authorised_def Let_def)

lemma group_gate_allowed: "gate_allowed (senderGateForGroup state policy) = group_authorised state policy"
  by (cases "groupPolicy policy") (simp_all add: senderGateForGroup_def group_authorised_def Let_def)

lemma sender_gate_of_allowed: "gate_allowed (sender_gate_of state policy) = sender_authorised state policy"
  by (simp add: sender_gate_of_def sender_authorised_def direct_gate_allowed group_gate_allowed)

lemma event_mode_sender_allowed:
  "gate_allowed (applyEventAuthModeToSenderGate state g) \<longleftrightarrow>
     gate_allowed g \<or> ev_authMode (st_event state) \<noteq> AuthInbound"
  by (simp add: applyEventAuthModeToSenderGate_def)

lemma command_gate_allowed: "gate_allowed (commandGate state policy) = command_authorised state policy"
  by (simp add: commandGate_def command_authorised_def Let_def split: option.splits)

lemma command_gate_effect:
  "gate_effect (commandGate state policy) = EffBlockCommand \<longleftrightarrow>
     control_command policy \<and> \<not> command_authorised state policy"
  by (auto simp: commandGate_def command_authorised_def control_command_def Let_def split: option.splits)

lemma event_result_select [simp, gate_simps]:
  "gate_allowed (event_result ev a r) = a" "gate_reasonCode (event_result ev a r) = r"
  by (simp_all add: event_result_def)

lemma event_gate_allowed:
  "gate_allowed (eventGate state sg cg) \<longleftrightarrow> (case ev_authMode (st_event state) of
     AuthInbound \<Rightarrow> gate_allowed sg | AuthCommand \<Rightarrow> gate_allowed cg
   | AuthOriginSubject \<Rightarrow> hasOriginSubject (st_event state) \<and> originSubjectMatched (st_event state)
   | _ \<Rightarrow> True)"
  by (cases "ev_authMode (st_event state)") (simp_all add: eventGate_def Let_def)

lemma activation_result_select [simp, gate_simps]:
  "gate_effect (activation_result state policy skip e b) = (if skip then EffSkip else EffAllow)"
  "gate_id (activation_result state policy skip e b) = ''activation''"
  by (simp_all add: activation_result_def)

lemma matched_kinds_empty:
  "resolveMatchedImplicitMentionKinds inputs allowedKinds = [] \<longleftrightarrow>
     \<not> (\<exists>k \<in> set (or_default inputs []). case allowedKinds of None \<Rightarrow> True | Some ks \<Rightarrow> k \<in> set ks)"
  using matched_kinds_set [of inputs allowedKinds]
  by (auto split: option.splits simp flip: set_empty)

lemma activation_gate_skips:
  assumes "gate_allowed cg = command_authorised state policy \<or>
    (\<forall>act. activation policy = Some act \<longrightarrow> \<not> act_allowTextCommands act)"
  shows "gate_effect (activationGate state policy cg) = EffSkip \<longleftrightarrow> \<not> activated state policy"
proof (cases "activation policy")
  case None
  then show ?thesis by (simp add: activationGate_def activated_def)
next
  case (Some act)
  note act = Some
  show ?thesis
  proof (cases "mentionFacts state")
    case None
    then show ?thesis using act by (simp add: activationGate_def activated_def)
  next
    case (Some facts)
    have hc: "or_default (map_option cmd_hasControlCommand (command policy)) False \<longleftrightarrow>
        (case command policy of None \<Rightarrow> False | Some c \<Rightarrow> cmd_hasControlCommand c)"
      by (simp add: or_default_def split: option.splits)
    have ham: "or_default (hasAnyMention facts) False \<longleftrightarrow> hasAnyMention facts = Some True"
      by (auto simp: or_default_def split: option.splits)
    show ?thesis
      using assms act Some
      by (auto simp: activationGate_def activated_def Let_def resolveInboundMentionDecision_def
          resolveMentionDecisionCore_def matched_kinds_empty mention_bypass_def hc ham)
  qed
qed

lemma activation_effect_cases:
  "gate_effect (activationGate state policy cg) = EffSkip \<or> gate_effect (activationGate state policy cg) = EffAllow"
  by (auto simp: activationGate_def Let_def split: option.splits)

lemma first_block_none:
  "find (\<lambda>g. gate_effect g = EffBlockDispatch)
     (routeGates state @ (case routeSenderEmptyGate state of Some g \<Rightarrow> [g] | None \<Rightarrow> [])) = None
   \<longleftrightarrow> routes_open state"
proof -
  let ?P = "\<lambda>fact. rr_senderPolicy fact = DenyWhenEmpty \<and> rr_gate fact = RouteMatched \<and>
      map_option hasConfiguredEntries (rr_senderAllowlist fact) \<noteq> Some True"
  have sender: "(\<forall>g \<in> set (case routeSenderEmptyGate state of Some g \<Rightarrow> [g] | None \<Rightarrow> []).
      gate_effect g \<noteq> EffBlockDispatch) \<longleftrightarrow> (\<forall>r \<in> set (routeFacts state). \<not> ?P r)"
    unfolding find_None_all [symmetric]
    by (cases "find ?P (routeFacts state)") (simp_all add: routeSenderEmptyGate_def)
  have effect: "(\<forall>g \<in> set (routeGates state). gate_effect g \<noteq> EffBlockDispatch) \<longleftrightarrow>
      (\<forall>r \<in> set (routeFacts state). rr_effect r \<noteq> EffBlockDispatch)"
    by (simp add: routeGates_def)
  have unlisted: "map_option hasConfiguredEntries a \<noteq> Some True \<longleftrightarrow>
      (case a of None \<Rightarrow> True | Some al \<Rightarrow> \<not> hasConfiguredEntries al)" for a
    by (cases a) auto
  show ?thesis
    unfolding find_None_all set_append ball_Un sender effect routes_open_def unlisted by blast
qed

section \<open>The decision in closed form\<close>

definition early_activation :: "ingress_state \<Rightarrow> ingress_policy \<Rightarrow> gate option" where
  "early_activation state policy = (case activation policy of
     Some act \<Rightarrow> if act_order act = Some BeforeSender \<and> \<not> act_allowTextCommands act
                 then Some (activationGate state policy (commandGate state (policy\<lparr>command := None\<rparr>)))
                 else None
   | None \<Rightarrow> None)"

lemma early_activation_skips:
  "early_activation state policy = Some g \<Longrightarrow> gate_effect g = EffSkip \<longleftrightarrow> \<not> activated state policy"
  by (auto simp: early_activation_def activation_gate_skips split: option.splits if_splits)

lemma early_activation_effect:
  "early_activation state policy = Some g \<Longrightarrow> gate_effect g \<noteq> EffObserve"
  using activation_effect_cases [of state policy "commandGate state (policy\<lparr>command := None\<rparr>)"]
  by (auto simp: early_activation_def split: option.splits if_splits)

lemma late_activation_skips:
  "gate_effect (activationGate state policy (commandGate state policy)) = EffSkip \<longleftrightarrow>
     \<not> activated state policy"
  by (intro activation_gate_skips) (simp add: command_gate_allowed)

lemma late_activation_effect: "gate_effect (activationGate state policy cg) \<noteq> EffObserve"
  using activation_effect_cases [of state policy cg] by auto

text \<open>The verdict and the reason, gate by gate.\<close>

lemma decide_routes_closed:
  "\<not> routes_open state \<Longrightarrow> admission (decideChannelIngress state policy) = Drop"
  unfolding first_block_none [symmetric]
  by (auto simp: decideChannelIngress_def Let_def decisiveDecision_def)

lemma decide_admission:
  assumes "routes_open state"
  shows "admission (decideChannelIngress state policy) =
    (if early_activation state policy \<noteq> None \<and> \<not> activated state policy then Skip
     else if \<not> gate_allowed (applyEventAuthModeToSenderGate state (sender_gate_of state policy)) then
       (if gate_reasonCode (applyEventAuthModeToSenderGate state (sender_gate_of state policy))
           = DmPolicyPairingRequired then PairingRequired else Drop)
     else if control_command policy \<and> \<not> command_authorised state policy then Drop
     else if \<not> gate_allowed (eventGate state
         (applyEventAuthModeToSenderGate state (sender_gate_of state policy)) (commandGate state policy))
       then Drop
     else if \<not> activated state policy then Skip else Dispatch)"
proof -
  note none = assms [folded first_block_none]
  show ?thesis
    unfolding decideChannelIngress_def Let_def none option.case early_activation_def [symmetric]
      command_gate_effect
    by (cases "early_activation state policy")
       (auto simp: decisiveDecision_def early_activation_skips early_activation_effect
          late_activation_skips late_activation_effect)
qed

text \<open>C2: The gate graph implements the specification: an event is
  dispatched exactly when no route blocks it, the party its authorisation mode names is
  authorised, it is not an unauthorised control command, and it is addressed to the bot where a
  mention is required; the order in which the gates run, and whether the mention gate runs before
  the sender gate, does not change who gets through.\<close>

theorem dispatch_refines_spec:
  "admission (decideChannelIngress state policy) = Dispatch \<longleftrightarrow> dispatch_spec state policy"
proof (cases "routes_open state")
  case True
  then show ?thesis
    by (cases "ev_authMode (st_event state)")
       (auto simp: decide_admission dispatch_spec_def event_authorised_def event_mode_sender_allowed
          sender_gate_of_allowed event_gate_allowed command_gate_allowed)
next
  case False
  then show ?thesis by (simp add: decide_routes_closed dispatch_spec_def)
qed

lemma pairing_reason:
  "gate_reasonCode (sender_gate_of state policy) = DmPolicyPairingRequired \<longleftrightarrow>
     conversationKind state = Direct \<and> dmPolicy policy = PolPairing \<and>
     \<not> dm_authorised state policy \<and> ev_mayPair (st_event state)"
proof -
  have fr: "or_default (allowlistFailureReason al) DmPolicyNotAllowlisted \<noteq> DmPolicyPairingRequired"
    "or_default (allowlistFailureReason al) GroupPolicyNotAllowlisted \<noteq> DmPolicyPairingRequired" for al
    by (simp_all add: allowlistFailureReason_def or_default_def)
  have "gate_reasonCode (senderGateForDirect state policy) = DmPolicyPairingRequired \<longleftrightarrow>
      dmPolicy policy = PolPairing \<and> \<not> dm_authorised state policy \<and> ev_mayPair (st_event state)"
    by (cases "dmPolicy policy") (simp_all add: senderGateForDirect_def dm_authorised_def Let_def fr)
  moreover have "gate_reasonCode (senderGateForGroup state policy) \<noteq> DmPolicyPairingRequired"
    by (simp add: senderGateForGroup_def Let_def fr)
  ultimately show ?thesis by (simp add: sender_gate_of_def)
qed

text \<open>A pairing offer is made exactly to an unauthorised sender of an
  inbound direct message under the pairing policy when the event may pair, no route blocks it and
  an early mention gate did not skip it; no group, no other policy and no callback event ever
  leads to a pairing offer.\<close>

theorem pairing_offer_exact:
  "admission (decideChannelIngress state policy) = PairingRequired \<longleftrightarrow>
     routes_open state \<and> (early_activation state policy = None \<or> activated state policy) \<and>
     ev_authMode (st_event state) = AuthInbound \<and> conversationKind state = Direct \<and>
     dmPolicy policy = PolPairing \<and> \<not> dm_authorised state policy \<and> ev_mayPair (st_event state)"
proof (cases "routes_open state")
  case True
  have "gate_reasonCode (applyEventAuthModeToSenderGate state g) =
      (if ev_authMode (st_event state) = AuthInbound \<or> gate_allowed g then gate_reasonCode g
       else SenderNotRequired)" for g
    by (simp add: applyEventAuthModeToSenderGate_def)
  then show ?thesis
    using True pairing_reason [of state policy]
    by (auto simp: decide_admission event_mode_sender_allowed sender_gate_of_allowed sender_authorised_def)
next
  case False
  then show ?thesis by (simp add: decide_routes_closed)
qed

text \<open>Outside the pairing policy, and in every group, the pairing
  store has no influence on any part of the decision: a stored pairing never authorises a sender
  under the open, allow list or disabled policy.\<close>

theorem pairing_store_cannot_widen:
  assumes "dmPolicy policy \<noteq> PolPairing \<or> conversationKind state \<noteq> Direct"
  shows "decideChannelIngress (state\<lparr>al_pairingStore := store\<rparr>) policy = decideChannelIngress state policy"
proof -
  let ?s = "state\<lparr>al_pairingStore := store\<rparr>"
  have "sender_gate_of ?s policy = sender_gate_of state policy"
    using assms
    by (auto simp: sender_gate_of_def senderGateForDirect_def senderGateForGroup_def
        effectiveGroupSenderAllowlist_def Let_def)
  moreover have "commandGate ?s p = commandGate state p" for p
    by (simp add: commandGate_def split: option.split)
  moreover have "activationGate ?s policy cg = activationGate state policy cg" for cg
    by (simp add: activationGate_def activation_result_def split: option.splits)
  moreover have "routeGates ?s = routeGates state" "routeSenderEmptyGate ?s = routeSenderEmptyGate state"
    "applyEventAuthModeToSenderGate ?s = applyEventAuthModeToSenderGate state" "eventGate ?s = eventGate state"
    by (simp_all add: routeGates_def routeSenderEmptyGate_def applyEventAuthModeToSenderGate_def [abs_def]
        eventGate_def [abs_def])
  ultimately show ?thesis unfolding decideChannelIngress_def by (simp only:)
qed

definition audited :: "ingress_decision \<Rightarrow> bool" where
  "audited d \<longleftrightarrow> (\<exists>g \<in> set (gates d). gate_id g = decisiveGateId d \<and> gate_reasonCode g = dec_reasonCode d) \<and>
     (verdict d, admission d) \<in> {(VBlock, Drop), (VPairing, PairingRequired), (VAllow, Dispatch), (VAllow, Skip)}"

lemma audited_if: "(c \<Longrightarrow> audited x) \<Longrightarrow> (\<not> c \<Longrightarrow> audited y) \<Longrightarrow> audited (if c then x else y)"
  by simp

lemma audited_decisive:
  "g \<in> set gs \<Longrightarrow> (v, a) \<in> {(VBlock, Drop), (VPairing, PairingRequired), (VAllow, Dispatch), (VAllow, Skip)} \<Longrightarrow>
     audited (decisiveDecision a v g gs)"
  by (auto simp: decisiveDecision_def audited_def)

text \<open>The decision can be audited: the gate it names is one of the
  graph, with the reason it reports, and the verdict and the admission agree (a block drops, a
  pairing verdict offers pairing, an allow verdict dispatches or skips).\<close>

theorem decisive_gate_in_graph:
  "(\<exists>g \<in> set (gates (decideChannelIngress state policy)).
      gate_id g = decisiveGateId (decideChannelIngress state policy) \<and>
      gate_reasonCode g = dec_reasonCode (decideChannelIngress state policy)) \<and>
   (verdict (decideChannelIngress state policy), admission (decideChannelIngress state policy)) \<in>
      {(VBlock, Drop), (VPairing, PairingRequired), (VAllow, Dispatch), (VAllow, Skip)}"
proof -
  have "audited (decideChannelIngress state policy)"
  proof (cases "routes_open state")
    case True
    note none = True [folded first_block_none]
    show ?thesis
    proof (cases "early_activation state policy")
      case None
      show ?thesis
        unfolding decideChannelIngress_def Let_def none option.case early_activation_def [symmetric] None
        by (intro audited_if audited_decisive) (simp_all add: late_activation_effect)
    next
      case (Some g)
      show ?thesis
        unfolding decideChannelIngress_def Let_def none option.case early_activation_def [symmetric] Some
        by (intro audited_if audited_decisive) (simp_all add: early_activation_effect [OF Some])
    qed
  next
    case False
    then obtain g where g: "find (\<lambda>g. gate_effect g = EffBlockDispatch) (routeGates state @
        (case routeSenderEmptyGate state of Some g \<Rightarrow> [g] | None \<Rightarrow> [])) = Some g"
      using first_block_none [of state] by (cases "find (\<lambda>g. gate_effect g = EffBlockDispatch) (routeGates state @
        (case routeSenderEmptyGate state of Some g \<Rightarrow> [g] | None \<Rightarrow> []))") auto
    show ?thesis
      unfolding decideChannelIngress_def Let_def g option.case
      using find_Some_mem [OF g] by (intro audited_decisive) auto
  qed
  then show ?thesis unfolding audited_def .
qed

end
