(* ===== verification/AccessIdentity.thy ===== *)
theory AccessIdentity
  imports AccessDecision
begin

text \<open>
  The contract between the ingress kernel and a channel adapter, discharged by the identity
  adapter of \<^verbatim>\<open>runtime-identity.ts\<close>, and what it gives end to end: a dispatched sender
  is one the configuration lists.
\<close>

section \<open>The adapter contract\<close>

text \<open>
  A match names only entries it was given, and says \<open>matched\<close> exactly when it names one.
\<close>

locale ingress_adapter_laws =
  fixes ad :: ingress_adapter
  assumes ids_from_entries: "set (matchedEntryIds (matchSubject ad s es c)) \<subseteq> opaqueEntryId ` set es"
    and matched_iff: "matched (matchSubject ad s es c) \<longleftrightarrow> matchedEntryIds (matchSubject ad s es c) \<noteq> []"
begin

lemma direct_matched_iff:
  "matched (mr_match (normalizeAndMatch ad s a es c)) \<longleftrightarrow>
     matchedEntryIds (mr_match (normalizeAndMatch ad s a es c)) \<noteq> []"
  by (simp add: normalizeAndMatch_def Let_def emptyMatch_def matched_iff)

lemma direct_ids:
  "set (matchedEntryIds (mr_match (normalizeAndMatch ad s a es c))) \<subseteq>
     opaqueEntryId ` set (mr_normalizedEntries (normalizeAndMatch ad s a es c))"
proof -
  have "opaqueEntryId (normalized_entry.truncate e) = opaqueEntryId e" for e :: internal_entry
    by (simp add: normalized_entry.truncate_def)
  then show ?thesis
    using ids_from_entries
    by (simp add: normalizeAndMatch_def Let_def emptyMatch_def redactedEntries_def image_image)
qed

end

lemma identity_match_ids:
  "matchedEntryIds (matchSubject (createIdentityAdapter idn) s es c) =
     map opaqueEntryId (filter (\<lambda>e. or_default (id_matchEntry idn s e c)
       (entry_value e = ''*'' \<or> identityMatchKey (entry_kind e) (entry_value e) \<in> set (subject_keys idn s))) es)"
  by (simp add: createIdentityAdapter_def Let_def)

interpretation identity_adapter: ingress_adapter_laws "createIdentityAdapter idn" for idn
  by unfold_locales (auto simp: createIdentityAdapter_def Let_def)

section \<open>Matches of a resolved allow list\<close>

lemma access_group_round_matches:
  "length (gr_matches (access_group_round input ctx m g r)) + length (ag_matched (gr_accessGroups r)) =
   length (ag_matched (gr_accessGroups (access_group_round input ctx m g r))) + length (gr_matches r)"
  by (auto simp: access_group_round_def Let_def split: option.split membership_fact.split
      fact_failure.split access_group_config.split)

lemma access_group_fold_matches:
  "length (gr_matches (fold (access_group_round input ctx m) gs r)) + length (ag_matched (gr_accessGroups r)) =
   length (ag_matched (gr_accessGroups (fold (access_group_round input ctx m) gs r))) + length (gr_matches r)"
proof (induction gs arbitrary: r)
  case (Cons g gs)
  from Cons.IH [of "access_group_round input ctx m g r"] access_group_round_matches [of input ctx m g r]
  show ?case by simp
qed simp

lemma group_matches_iff:
  "gr_matches (resolveAccessGroupEntries input ctx gs) = [] \<longleftrightarrow>
     ag_matched (gr_accessGroups (resolveAccessGroupEntries input ctx gs)) = []"
  using access_group_fold_matches [of input ctx _ gs "\<lparr>gr_normalizedEntries = [], gr_invalidEntries = [],
      gr_disabledEntries = [], gr_matches = [], gr_accessGroups = \<lparr>ag_referenced = gs, ag_matched = [],
      ag_missing = [], ag_unsupported = [], ag_failed = []\<rparr>\<rparr>"]
  by (simp add: resolveAccessGroupEntries_def flip: length_0_conv)

text \<open>An entry of the configuration lists a sender: it is a wildcard, or normalised for a field of the
  identity that is not marked dangerous it is an identifier of the sender, or the hook
  \<open>matchEntry\<close> of the channel says that an entry made from it, not marked dangerous either, matches.\<close>

definition listed :: "identity_descriptor \<Rightarrow> ingress_subject \<Rightarrow> match_context \<Rightarrow> string \<Rightarrow> bool" where
  "listed idn s c e \<longleftrightarrow> or_default (id_isWildcardEntry idn) (\<lambda>v. v = ''*'') e \<or>
     (\<exists>field \<in> set (identityFields idn). \<exists>v. normalizeFieldValue field e ModeEntry = Some v \<and>
        fld_dangerous field e \<noteq> Some True \<and>
        (v = ''*'' \<or> identityMatchKey (fld_kind field) v \<in> set (subject_keys idn s))) \<or>
     (\<exists>i. \<exists>en \<in> set (identity_entries idn (i, e)). dangerous en \<noteq> Some True \<and> id_matchEntry idn s en c = Some True)"

lemma identity_entries_listed:
  assumes "en \<in> set (identity_entries idn (i, e))" and "dangerous en \<noteq> Some True"
    and match: "or_default (id_matchEntry idn s en c)
      (entry_value en = ''*'' \<or> identityMatchKey (entry_kind en) (entry_value en) \<in> set (subject_keys idn s))"
  shows "listed idn s c e"
proof (cases "or_default (id_isWildcardEntry idn) (\<lambda>v. v = ''*'') e \<or> id_matchEntry idn s en c \<noteq> None")
  case True
  with assms show ?thesis by (auto simp: listed_def or_default_def) blast
next
  case False
  with assms(1) match obtain k field where f: "(k, field) \<in> set (enumerate 0 (identityFields idn))"
    "en \<in> set (case normalizeFieldValue field e ModeEntry of None \<Rightarrow> []
       | Some v \<Rightarrow> [adapterEntry idn field k e i v None])"
    and key: "entry_value en = ''*'' \<or> identityMatchKey (entry_kind en) (entry_value en) \<in> set (subject_keys idn s)"
    by (auto simp: identity_entries_def or_default_def)
  then obtain v where v: "normalizeFieldValue field e ModeEntry = Some v"
    "en = adapterEntry idn field k e i v None"
    by (cases "normalizeFieldValue field e ModeEntry") auto
  have "field \<in> set (identityFields idn)" using f(1) by (auto simp: enumerate_eq_zip dest: set_zip_rightD)
  with v assms(2) key show ?thesis unfolding listed_def by (auto simp: adapterEntry_def)
qed

lemma mutable_policy_match:
  assumes "matched (allow_match (applyMutableIdentifierPolicy al policy))"
    and "mutableIdentifierMatching policy \<noteq> Some MutableEnabled"
    and "matched (allow_match al) \<longleftrightarrow> allow_matchedEntryIds al \<noteq> []"
  obtains i where "i \<in> set (allow_matchedEntryIds al)"
    "\<forall>e \<in> set (normalizedEntries al). opaqueEntryId e = i \<longrightarrow> \<not> is_dangerous e"
proof -
  let ?D = "filter is_dangerous (normalizedEntries al)"
  show thesis
  proof (cases "?D = []")
    case True
    with assms have "allow_matchedEntryIds al \<noteq> []"
      by (simp add: applyMutableIdentifierPolicy_def Let_def)
    with True show ?thesis
      by (intro that [of "hd (allow_matchedEntryIds al)"]) (auto simp: filter_empty_conv)
  next
    case False
    with assms have "filter (\<lambda>i. i \<notin> opaqueEntryId ` set ?D) (allow_matchedEntryIds al) \<noteq> []"
      by (simp add: applyMutableIdentifierPolicy_def Let_def)
    then obtain i where "i \<in> set (allow_matchedEntryIds al)" "i \<notin> opaqueEntryId ` set ?D"
      by (auto simp: filter_empty_conv)
    then show ?thesis by (intro that [of i]) auto
  qed
qed

lemma resolved_match_listed:
  assumes ad: "in_adapter input = createIdentityAdapter idn"
    and m: "matched (allow_match (applyMutableIdentifierPolicy (resolveIngressAllowlist input raw ctx) policy))"
    and pol: "mutableIdentifierMatching policy \<noteq> Some MutableEnabled"
    and none: "ag_matched (accessGroups (resolveIngressAllowlist input raw ctx)) = []"
  shows "\<exists>e \<in> set (normalizeStringEntries (or_default raw [])). listed idn (in_subject input) ctx e"
proof -
  let ?al = "resolveIngressAllowlist input raw ctx"
  let ?es = "normalizeStringEntries (or_default raw [])"
  let ?direct = "normalizeAndMatch (createIdentityAdapter idn) (in_subject input) (in_accountId input)
      (directAllowlistEntries ?es) ctx"
  have gm: "gr_matches (resolveAccessGroupEntries input ctx (referencedAccessGroups ?es)) = []"
    using none group_matches_iff by (simp add: resolveIngressAllowlist_def Let_def)
  have ids: "set (allow_matchedEntryIds ?al) = set (matchedEntryIds (mr_match ?direct))"
    by (simp add: resolveIngressAllowlist_def Let_def mergeMatches_def gm ad)
  have iff: "matched (allow_match ?al) \<longleftrightarrow> allow_matchedEntryIds ?al \<noteq> []"
    using identity_adapter.direct_matched_iff
    by (simp add: resolveIngressAllowlist_def Let_def mergeMatches_def gm ad)
  from mutable_policy_match [OF m pol iff] obtain i where i: "i \<in> set (matchedEntryIds (mr_match ?direct))"
    "\<forall>e \<in> set (normalizedEntries ?al). opaqueEntryId e = i \<longrightarrow> \<not> is_dangerous e"
    unfolding ids by blast
  let ?n = "nr_matchable (normalizeEntries (createIdentityAdapter idn) (directAllowlistEntries ?es) ctx (in_accountId input))"
  have ne: "directAllowlistEntries ?es \<noteq> []" "?n \<noteq> []"
    using i(1) by (auto simp: normalizeAndMatch_def emptyMatch_def Let_def split: if_splits)
  from i(1) ne obtain en where en: "en \<in> set ?n" "i = opaqueEntryId en"
    "or_default (id_matchEntry idn (in_subject input) en ctx)
      (entry_value en = ''*'' \<or> identityMatchKey (entry_kind en) (entry_value en) \<in> set (subject_keys idn (in_subject input)))"
    by (auto simp: normalizeAndMatch_def Let_def identity_match_ids)
  have "normalized_entry.truncate en \<in> set (normalizedEntries ?al)"
    using en(1) ne
    by (auto simp: resolveIngressAllowlist_def Let_def ad normalizeAndMatch_def redactedEntries_def)
  with i(2) en(2) have "dangerous en \<noteq> Some True"
    by (auto simp: is_dangerous_def normalized_entry.truncate_def)
  moreover from en(1) obtain k e where e: "(k, e) \<in> set (enumerate 0 (directAllowlistEntries ?es))"
    "en \<in> set (identity_entries idn (k, e))"
    by (auto simp: createIdentityAdapter_def)
  ultimately have "listed idn (in_subject input) ctx e"
    using en(3) by (intro identity_entries_listed)
  moreover have "e \<in> set ?es"
    using e(1) by (auto simp: enumerate_eq_zip directAllowlistEntries_def dest!: set_zip_rightD)
  ultimately show ?thesis by blast
qed

text \<open>C4: End to end, for a channel that uses the identity adapter, under the DM
  allow list policy with mutable identifiers not enabled: if a direct message that comes as inbound
  traffic (authMode inbound) is dispatched, then an access group of the allow list matched, or the
  configuration contains an entry that lists the sender: a wildcard, or an entry that, normalised
  for an identity field that is not marked dangerous, equals an identifier of the sender, or one
  for which the matchEntry hook of the channel, where it has one, confirmed a match of an entry
  that is not marked dangerous. A display name that only resembles a listed entry through a mutable
  field gets nobody in.\<close>

theorem dispatched_sender_is_listed:
  assumes "in_adapter input = createIdentityAdapter idn"
    and "state = resolveChannelIngressState localeCompare input"
    and "conversationKind state = Direct" and "ev_authMode (st_event state) = AuthInbound"
    and "dmPolicy policy = PolAllowlist" and "mutableIdentifierMatching policy \<noteq> Some MutableEnabled"
    and "admission (decideChannelIngress state policy) = Dispatch"
  shows "ag_matched (accessGroups (al_dm state)) \<noteq> [] \<or>
    (\<exists>e \<in> set (normalizeStringEntries (or_default (in_dm input) [])). listed idn (in_subject input) CtxDm e)"
proof -
  have al: "al_dm state = resolveIngressAllowlist input (in_dm input) CtxDm"
    by (simp add: assms(2) resolveChannelIngressState_def)
  have "dm_authorised state policy"
    using assms(3,4,7) unfolding dispatch_refines_spec dispatch_spec_def
    by (simp add: event_authorised_def sender_authorised_def)
  then have "matched (allow_match (applyMutableIdentifierPolicy (al_dm state) policy))"
    using assms(5) by (simp add: dm_authorised_def Let_def)
  then show ?thesis
    using resolved_match_listed [OF assms(1) _ assms(6)] unfolding al by blast
qed

section \<open>A concrete channel\<close>

definition sample_identity :: identity_descriptor where
  "sample_identity = \<lparr>id_primary = \<lparr>fld_key = ''stableId'', fld_kind = StableId, fld_normalize = None,
       fld_normalizeEntry = None, fld_normalizeSubject = None, fld_dangerous = (\<lambda>_. None),
       fld_sensitivity = None\<rparr>,
     id_aliases = [\<lparr>fld_key = ''name'', fld_kind = Username, fld_normalize = None,
       fld_normalizeEntry = None, fld_normalizeSubject = None, fld_dangerous = (\<lambda>_. Some True),
       fld_sensitivity = None\<rparr>],
     id_isWildcardEntry = None, id_resolveEntryId = (\<lambda>_ _ _ _. None),
     id_matchEntry = (\<lambda>_ _ _. None)\<rparr>"

definition sample_input :: "string list \<Rightarrow> ingress_input" where
  "sample_input allow = \<lparr>in_channelId = ''telegram'', in_accountId = ''default'',
     in_subject = createIdentitySubject sample_identity (Some ''42'') [(''name'', ''ann'')],
     in_conversationKind = Direct, in_adapter = createIdentityAdapter sample_identity,
     in_accessGroups = [], in_membership = [], in_routeFacts = [], in_mentionFacts = None,
     in_event = \<lparr>ei_kind = EvMessage, ei_authMode = AuthInbound, ei_mayPair = True, ei_originSubject = None\<rparr>,
     in_dm = Some allow, in_group = None, in_commandOwner = None, in_commandGroup = None,
     in_pairingStore = None\<rparr>"

definition sample_policy :: "sender_policy \<Rightarrow> ingress_policy" where
  "sample_policy dm = \<lparr>dmPolicy = dm, groupPolicy = PolDisabled, groupAllowFromFallbackToAllowFrom = None,
     mutableIdentifierMatching = None, activation = None, command = None\<rparr>"

definition no_collation :: "string \<Rightarrow> string \<Rightarrow> int" where
  "no_collation a b = 0"

lemma sample_by_id:
  "admission (decideChannelIngress (resolveChannelIngressState no_collation (sample_input ['' 42 ''])) (sample_policy PolAllowlist))
     = Dispatch"
  by code_simp

text \<open>The sender's display name is listed, but names are mutable.\<close>

lemma sample_by_name:
  "admission (decideChannelIngress (resolveChannelIngressState no_collation (sample_input [''ann''])) (sample_policy PolAllowlist))
     = Drop"
  by code_simp

theorem dispatched_sender_is_listed_witness:
  "\<exists>e \<in> set (normalizeStringEntries ['' 42 '']). listed sample_identity (in_subject (sample_input ['' 42 ''])) CtxDm e"
proof -
  let ?in = "sample_input ['' 42 '']" and ?st = "resolveChannelIngressState no_collation (sample_input ['' 42 ''])"
  have "ag_matched (accessGroups (al_dm ?st)) \<noteq> [] \<or>
    (\<exists>e \<in> set (normalizeStringEntries (or_default (in_dm ?in) [])). listed sample_identity (in_subject ?in) CtxDm e)"
    by (rule dispatched_sender_is_listed [OF _ refl _ _ _ _ sample_by_id])
       (simp_all add: sample_input_def sample_identity_def resolveChannelIngressState_def sample_policy_def)
  moreover have "ag_matched (accessGroups (al_dm ?st)) = []" by code_simp
  moreover have "or_default (in_dm ?in) [] = ['' 42 '']" by (simp add: sample_input_def or_default_def)
  ultimately show ?thesis by simp
qed

theorem pairing_store_cannot_widen_witness:
  "admission (decideChannelIngress ((resolveChannelIngressState no_collation (sample_input [''ann'']))
     \<lparr>al_pairingStore := al_dm (resolveChannelIngressState no_collation (sample_input [''*'']))\<rparr>)
     (sample_policy PolAllowlist)) = Drop"
  by (subst pairing_store_cannot_widen) (simp_all add: sample_by_name, simp add: sample_policy_def)

end
