(* ===== verification/RateLimit.thy ===== *)
theory RateLimit
  imports JsText JsNumber
begin

text \<open>
  The in-memory rate limiters: the authentication limiter of
  \<^verbatim>\<open>src/src/gateway/auth-rate-limit.ts\<close> (sliding window and lockout per scope and
  client address), the fixed window of \<^verbatim>\<open>src/src/infra/fixed-window-rate-limit.ts\<close> and
  the control-plane budget of \<^verbatim>\<open>src/src/gateway/control-plane-rate-limit.ts\<close>. The value
  of the clock is an argument of every operation. The closures of a limiter become the
  configuration (constant) and the state (returned updated); the parsing of addresses
  (\<^verbatim>\<open>./net.js\<close>) is a pair of functions in the configuration.
\<close>

section \<open>The authentication limiter\<close>

record rate_limit_config =
  rl_maxAttempts :: "int option"
  rl_windowMs :: "rat option"
  rl_lockoutMs :: "rat option"
  rl_exemptLoopback :: "bool option"
  rl_maxEntries :: "rat option"

record limiter =
  maxAttempts :: int
  windowMs :: int
  lockoutMs :: int
  exemptLoopback :: bool
  maxEntries :: int
  resolveClientIp :: "string option \<Rightarrow> string option"
  isLoopbackAddress :: "string \<Rightarrow> bool"

record rate_entry =
  attempts :: "int list"
  lockedUntil :: "int option"

record limiter_state =
  entries :: "(string, rate_entry) js_map"
  overflowLockedUntil :: "int option"

record check_result =
  cr_allowed :: bool
  cr_remaining :: int
  cr_retryAfterMs :: int

definition createAuthRateLimiter ::
    "rate_limit_config \<Rightarrow> (string option \<Rightarrow> string option) \<Rightarrow> (string \<Rightarrow> bool) \<Rightarrow> limiter \<times> limiter_state" where
  "createAuthRateLimiter config resolveIp isLoopback =
     (\<lparr>maxAttempts = (case rl_maxAttempts config of Some n \<Rightarrow> n | None \<Rightarrow> 10),
       windowMs = resolveTimerTimeoutMs (rl_windowMs config) (Some 60000) 0,
       lockoutMs = resolveTimerTimeoutMs (rl_lockoutMs config) (Some 300000) 0,
       exemptLoopback = (case rl_exemptLoopback config of Some b \<Rightarrow> b | None \<Rightarrow> True),
       maxEntries = resolveIntegerOption (rl_maxEntries config) 10000 (Some 1) None,
       resolveClientIp = resolveIp, isLoopbackAddress = isLoopback\<rparr>,
      \<lparr>entries = [], overflowLockedUntil = None\<rparr>)"

definition PRUNE_INTERVAL_MS :: rat where
  "PRUNE_INTERVAL_MS = 60000"

text \<open>\<open>Some None\<close> is a number that is not finite, \<open>None\<close> is undefined.\<close>

definition resolvePruneIntervalMs :: "rat option option \<Rightarrow> int" where
  "resolvePruneIntervalMs value = (case value of
     None \<Rightarrow> \<lfloor>PRUNE_INTERVAL_MS\<rfloor>
   | Some (Some v) \<Rightarrow> if v \<le> 0 then 0 else resolveTimerTimeoutMs (Some v) (Some PRUNE_INTERVAL_MS) 1
   | Some None \<Rightarrow> resolveTimerTimeoutMs None (Some PRUNE_INTERVAL_MS) 1)"

definition normalizeRateLimitClientIp :: "limiter \<Rightarrow> string option \<Rightarrow> string" where
  "normalizeRateLimitClientIp c ip =
     (if (case ip of Some s \<Rightarrow> starts_with ''browser-origin:'' s \<or> starts_with ''identity:'' s | None \<Rightarrow> False)
      then the ip
      else case resolveClientIp c ip of Some r \<Rightarrow> r | None \<Rightarrow> ''unknown'')"

definition buildRateLimitIdentityKey :: "string \<Rightarrow> string \<Rightarrow> string" where
  "buildRateLimitIdentityKey namespace identity = ''identity:'' @ namespace @ '':'' @ identity"

definition normalizeScope :: "string option \<Rightarrow> string" where
  "normalizeScope scope =
     (let t = js_trim (case scope of Some s \<Rightarrow> s | None \<Rightarrow> ''default'')
      in if t \<noteq> [] then t else ''default'')"

definition resolveKey :: "limiter \<Rightarrow> string option \<Rightarrow> string option \<Rightarrow> string \<times> string" where
  "resolveKey c rawIp rawScope =
     (let ip = normalizeRateLimitClientIp c rawIp; scope = normalizeScope rawScope
      in (scope @ '':'' @ ip, ip))"

definition isExempt :: "limiter \<Rightarrow> string \<Rightarrow> bool" where
  "isExempt c ip \<longleftrightarrow> exemptLoopback c \<and> isLoopbackAddress c ip"

definition slideWindow :: "limiter \<Rightarrow> rate_entry \<Rightarrow> int \<Rightarrow> rate_entry" where
  "slideWindow c e now = e\<lparr>attempts := filter (\<lambda>ts. ts > now - windowMs c) (attempts e)\<rparr>"

text \<open>A timestamp of zero is falsy: it counts as no lock.\<close>

definition locked_at :: "int option \<Rightarrow> int \<Rightarrow> bool" where
  "locked_at l now \<longleftrightarrow> (case l of Some u \<Rightarrow> u \<noteq> 0 \<and> now < u | None \<Rightarrow> False)"

definition pruneExpiredEntries :: "limiter \<Rightarrow> int \<Rightarrow> limiter_state \<Rightarrow> limiter_state" where
  "pruneExpiredEntries c now s = s\<lparr>entries := concat (map (\<lambda>(k, e).
      if locked_at (lockedUntil e) now then [(k, e)]
      else if length (attempts (slideWindow c e now)) = 0 then []
      else [(k, slideWindow c e now)]) (entries s))\<rparr>"

definition checkOverflowLock :: "limiter \<Rightarrow> int \<Rightarrow> limiter_state \<Rightarrow> check_result option \<times> limiter_state" where
  "checkOverflowLock c now s = (case overflowLockedUntil s of
     None \<Rightarrow> (None, s)
   | Some u \<Rightarrow>
      if u = 0 then (None, s)
      else if now \<ge> u then (None, s\<lparr>overflowLockedUntil := None\<rparr>)
      else
        let s1 = (if int (length (entries s)) \<ge> maxEntries c then pruneExpiredEntries c now s else s)
        in if int (length (entries s1)) < maxEntries c then (None, s1\<lparr>overflowLockedUntil := None\<rparr>)
           else (Some \<lparr>cr_allowed = False, cr_remaining = 0, cr_retryAfterMs = u - now\<rparr>, s1))"

definition enforceMaxEntries :: "limiter \<Rightarrow> int \<Rightarrow> limiter_state \<Rightarrow> bool \<times> limiter_state" where
  "enforceMaxEntries c now s =
     (if int (length (entries s)) < maxEntries c then (True, s)
      else
        let s1 = pruneExpiredEntries c now s in
        if int (length (entries s1)) < maxEntries c then (True, s1)
        else case find (\<lambda>(k, e). \<not> locked_at (lockedUntil e) now) (entries s1) of
            Some (k, _) \<Rightarrow> (True, s1\<lparr>entries := map_delete k (entries s1)\<rparr>)
          | None \<Rightarrow> (False, s1))"

definition check :: "limiter \<Rightarrow> int \<Rightarrow> string option \<Rightarrow> string option \<Rightarrow> limiter_state \<Rightarrow>
    check_result \<times> limiter_state" where
  "check c now rawIp rawScope s =
     (let (key, ip) = resolveKey c rawIp rawScope;
          free = \<lparr>cr_allowed = True, cr_remaining = maxAttempts c, cr_retryAfterMs = 0\<rparr> in
      if isExempt c ip then (free, s)
      else case map_of (entries s) key of
        None \<Rightarrow> (case checkOverflowLock c now s of
             (Some r, s1) \<Rightarrow> (r, s1)
           | (None, s1) \<Rightarrow> (free, s1))
      | Some e \<Rightarrow>
          if locked_at (lockedUntil e) now then
            (\<lparr>cr_allowed = False, cr_remaining = 0, cr_retryAfterMs = the (lockedUntil e) - now\<rparr>, s)
          else
            let e1 = (case lockedUntil e of
                  Some u \<Rightarrow> if u \<noteq> 0 \<and> now \<ge> u then e\<lparr>lockedUntil := None, attempts := []\<rparr> else e
                | None \<Rightarrow> e);
                e2 = slideWindow c e1 now;
                remaining = max 0 (maxAttempts c - int (length (attempts e2)))
            in (\<lparr>cr_allowed = (remaining > 0), cr_remaining = remaining, cr_retryAfterMs = 0\<rparr>,
                s\<lparr>entries := map_set key e2 (entries s)\<rparr>))"

definition recordFailure :: "limiter \<Rightarrow> int \<Rightarrow> string option \<Rightarrow> string option \<Rightarrow> limiter_state \<Rightarrow> limiter_state" where
  "recordFailure c now rawIp rawScope s =
     (let (key, ip) = resolveKey c rawIp rawScope;
          record_in = (\<lambda>e s. if locked_at (lockedUntil e) now then s\<lparr>entries := map_set key e (entries s)\<rparr>
            else
              let e1 = slideWindow c e now;
                  e2 = e1\<lparr>attempts := attempts e1 @ [now]\<rparr>;
                  e3 = (if int (length (attempts e2)) \<ge> maxAttempts c
                        then e2\<lparr>lockedUntil := Some (now + lockoutMs c)\<rparr> else e2)
              in s\<lparr>entries := map_set key e3 (entries s)\<rparr>) in
      if isExempt c ip then s
      else case map_of (entries s) key of
        Some e \<Rightarrow> record_in e s
      | None \<Rightarrow> (case enforceMaxEntries c now s of
            (False, s1) \<Rightarrow> s1\<lparr>overflowLockedUntil := Some (max
               (case overflowLockedUntil s1 of Some u \<Rightarrow> u | None \<Rightarrow> 0) (now + lockoutMs c))\<rparr>
          | (True, s1) \<Rightarrow> record_in \<lparr>attempts = [], lockedUntil = None\<rparr> s1))"

definition reset :: "limiter \<Rightarrow> string option \<Rightarrow> string option \<Rightarrow> limiter_state \<Rightarrow> limiter_state" where
  "reset c rawIp rawScope s = s\<lparr>entries := map_delete (fst (resolveKey c rawIp rawScope)) (entries s)\<rparr>"

definition prune :: "limiter \<Rightarrow> int \<Rightarrow> limiter_state \<Rightarrow> limiter_state" where
  "prune c now s = pruneExpiredEntries c now s"

definition size_of :: "limiter_state \<Rightarrow> nat" where
  "size_of s = length (entries s)"

definition dispose :: "limiter_state \<Rightarrow> limiter_state" where
  "dispose s = s\<lparr>entries := [], overflowLockedUntil := None\<rparr>"

datatype limiter_op =
    Check "string option" "string option"
  | RecordFailure "string option" "string option"
  | Reset "string option" "string option"
  | Prune

fun limiter_step :: "limiter \<Rightarrow> limiter_state \<Rightarrow> int \<times> limiter_op \<Rightarrow> limiter_state" where
  "limiter_step c s (now, Check ip sc) = snd (check c now ip sc s)"
| "limiter_step c s (now, RecordFailure ip sc) = recordFailure c now ip sc s"
| "limiter_step c s (now, Reset ip sc) = reset c ip sc s"
| "limiter_step c s (now, Prune) = prune c now s"

section \<open>The fixed window\<close>

definition resolveFixedWindowRateLimitInteger :: "rat option \<Rightarrow> rat \<Rightarrow> int \<Rightarrow> int" where
  "resolveFixedWindowRateLimitInteger value fallback lo =
     max lo \<lfloor>case value of Some v \<Rightarrow> v | None \<Rightarrow> fallback\<rfloor>"

record fixed_window =
  fw_maxRequests :: int
  fw_windowMs :: int
  fw_count :: int
  fw_windowStartMs :: int

definition createFixedWindowRateLimiter :: "rat option \<Rightarrow> rat option \<Rightarrow> fixed_window" where
  "createFixedWindowRateLimiter maxRequests window =
     \<lparr>fw_maxRequests = resolveFixedWindowRateLimitInteger maxRequests 1 1,
      fw_windowMs = resolveFixedWindowRateLimitInteger window 1 1,
      fw_count = 0, fw_windowStartMs = 0\<rparr>"

definition consume :: "int \<Rightarrow> fixed_window \<Rightarrow> check_result \<times> fixed_window" where
  "consume now w =
     (let w1 = (if now - fw_windowStartMs w \<ge> fw_windowMs w
                then w\<lparr>fw_windowStartMs := now, fw_count := 0\<rparr> else w)
      in if fw_count w1 \<ge> fw_maxRequests w1 then
           (\<lparr>cr_allowed = False, cr_remaining = 0,
             cr_retryAfterMs = max 0 (fw_windowStartMs w1 + fw_windowMs w1 - now)\<rparr>, w1)
         else
           let w2 = w1\<lparr>fw_count := fw_count w1 + 1\<rparr>
           in (\<lparr>cr_allowed = True, cr_remaining = max 0 (fw_maxRequests w2 - fw_count w2),
                cr_retryAfterMs = 0\<rparr>, w2))"

definition fw_reset :: "fixed_window \<Rightarrow> fixed_window" where
  "fw_reset w = w\<lparr>fw_count := 0, fw_windowStartMs := 0\<rparr>"

text \<open>The number of admitted calls among calls at the times of a list.\<close>

fun admitted :: "fixed_window \<Rightarrow> int list \<Rightarrow> nat" where
  "admitted w [] = 0"
| "admitted w (t # ts) = (case consume t w of (r, w1) \<Rightarrow> (if cr_allowed r then 1 else 0) + admitted w1 ts)"

section \<open>The control-plane budget\<close>

record bucket =
  bk_count :: int
  bk_windowStartMs :: int

definition CONTROL_PLANE_RATE_LIMIT_MAX_REQUESTS :: int where
  "CONTROL_PLANE_RATE_LIMIT_MAX_REQUESTS = 3"

definition CONTROL_PLANE_RATE_LIMIT_WINDOW_MS :: int where
  "CONTROL_PLANE_RATE_LIMIT_WINDOW_MS = 60000"

definition CONTROL_PLANE_BUCKET_MAX_STALE_MS :: int where
  "CONTROL_PLANE_BUCKET_MAX_STALE_MS = 5 * 60000"

definition CONTROL_PLANE_BUCKET_MAX_ENTRIES :: nat where
  "CONTROL_PLANE_BUCKET_MAX_ENTRIES = 10000"

record gateway_client =
  client_deviceId :: "string option"
  client_ip :: "string option"
  client_connId :: "string option"

definition normalizeControlPlaneIdentityPart :: "string option \<Rightarrow> string \<Rightarrow> string" where
  "normalizeControlPlaneIdentityPart value fallback = (case value of
     None \<Rightarrow> fallback
   | Some v \<Rightarrow> if js_trim v \<noteq> [] then js_trim v else fallback)"

definition resolveControlPlaneRateLimitKey :: "gateway_client \<Rightarrow> string" where
  "resolveControlPlaneRateLimitKey client =
     (let deviceId = normalizeControlPlaneIdentityPart (client_deviceId client) ''unknown-device'';
          clientIp = normalizeControlPlaneIdentityPart (client_ip client) ''unknown-ip'';
          connId = normalizeControlPlaneIdentityPart (client_connId client) [];
          base = deviceId @ ''|'' @ clientIp
      in if deviceId = ''unknown-device'' \<and> clientIp = ''unknown-ip'' \<and> connId \<noteq> []
         then base @ ''|conn='' @ connId else base)"

definition consumeControlPlaneWriteBudget ::
    "int \<Rightarrow> gateway_client \<Rightarrow> (string, bucket) js_map \<Rightarrow> check_result \<times> (string, bucket) js_map" where
  "consumeControlPlaneWriteBudget now client m =
     (let key = resolveControlPlaneRateLimitKey client;
          fresh = (let m1 = (if map_of m key = None \<and> length m \<ge> CONTROL_PLANE_BUCKET_MAX_ENTRIES
                            then (case m of [] \<Rightarrow> m | (oldest, _) # _ \<Rightarrow> map_delete oldest m) else m)
                   in (\<lparr>cr_allowed = True, cr_remaining = CONTROL_PLANE_RATE_LIMIT_MAX_REQUESTS - 1,
                         cr_retryAfterMs = 0\<rparr>,
                       map_set key \<lparr>bk_count = 1, bk_windowStartMs = now\<rparr> m1))
      in case map_of m key of
           None \<Rightarrow> fresh
         | Some b \<Rightarrow>
             if now - bk_windowStartMs b \<ge> CONTROL_PLANE_RATE_LIMIT_WINDOW_MS then fresh
             else if bk_count b \<ge> CONTROL_PLANE_RATE_LIMIT_MAX_REQUESTS then
               (\<lparr>cr_allowed = False, cr_remaining = 0,
                 cr_retryAfterMs = max 0 (bk_windowStartMs b + CONTROL_PLANE_RATE_LIMIT_WINDOW_MS - now)\<rparr>, m)
             else
               let b1 = b\<lparr>bk_count := bk_count b + 1\<rparr>
               in (\<lparr>cr_allowed = True,
                    cr_remaining = max 0 (CONTROL_PLANE_RATE_LIMIT_MAX_REQUESTS - bk_count b1),
                    cr_retryAfterMs = 0\<rparr>, map_set key b1 m))"

definition pruneStaleControlPlaneBuckets :: "int \<Rightarrow> (string, bucket) js_map \<Rightarrow> nat \<times> (string, bucket) js_map" where
  "pruneStaleControlPlaneBuckets now m =
     (let kept = filter (\<lambda>(k, b). \<not> now - bk_windowStartMs b > CONTROL_PLANE_BUCKET_MAX_STALE_MS) m
      in (length m - length kept, kept))"

datatype budget_op = Consume gateway_client | PruneStale

fun budget_step :: "(string, bucket) js_map \<Rightarrow> int \<times> budget_op \<Rightarrow> (string, bucket) js_map" where
  "budget_step m (now, Consume client) = snd (consumeControlPlaneWriteBudget now client m)"
| "budget_step m (now, PruneStale) = snd (pruneStaleControlPlaneBuckets now m)"

section \<open>The limiter keeps its bounds\<close>

definition limiter_wf :: "limiter \<Rightarrow> limiter_state \<Rightarrow> bool" where
  "limiter_wf c s \<longleftrightarrow> 1 \<le> maxEntries c \<and> distinct (map_keys (entries s)) \<and>
     int (length (entries s)) \<le> maxEntries c"

definition expire :: "limiter \<Rightarrow> int \<Rightarrow> string \<Rightarrow> rate_entry \<Rightarrow> rate_entry option" where
  "expire c now k e = (if locked_at (lockedUntil e) now then Some e
     else if attempts (slideWindow c e now) = [] then None else Some (slideWindow c e now))"

lemma prune_sweep: "entries (pruneExpiredEntries c now s) = map_sweep (expire c now) (entries s)"
  by (auto simp: pruneExpiredEntries_def map_sweep_def expire_def
      intro!: arg_cong [where f = concat] map_cong)

lemma prune_overflow [simp]: "overflowLockedUntil (pruneExpiredEntries c now s) = overflowLockedUntil s"
  by (simp add: pruneExpiredEntries_def)

lemma prune_wf: "limiter_wf c s \<Longrightarrow> limiter_wf c (pruneExpiredEntries c now s)"
  using map_sweep_length [of "expire c now" "entries s"]
  by (auto simp: limiter_wf_def prune_sweep map_sweep_distinct)

lemma checkOverflow_wf: "limiter_wf c s \<Longrightarrow> limiter_wf c (snd (checkOverflowLock c now s))"
  using prune_wf [of c s now]
  by (auto simp: checkOverflowLock_def Let_def limiter_wf_def split: option.splits)

lemma set_entry_wf:
  "limiter_wf c s \<Longrightarrow> k \<in> set (map_keys (entries s)) \<or> int (length (entries s)) < maxEntries c \<Longrightarrow>
    limiter_wf c (s\<lparr>entries := map_set k e (entries s)\<rparr>)"
  by (auto simp: limiter_wf_def map_set_length distinct_update)

lemma enforce_wf:
  assumes "limiter_wf c s" "enforceMaxEntries c now s = (ok, t)"
  shows "limiter_wf c t" "ok \<Longrightarrow> int (length (entries t)) < maxEntries c"
proof -
  let ?p = "pruneExpiredEntries c now s"
  have p: "limiter_wf c ?p" using assms(1) by (rule prune_wf)
  have "limiter_wf c t \<and> (ok \<longrightarrow> int (length (entries t)) < maxEntries c)"
  proof (cases "int (length (entries s)) < maxEntries c \<or> int (length (entries ?p)) < maxEntries c")
    case True
    with assms p show ?thesis by (auto simp: enforceMaxEntries_def Let_def split: if_splits)
  next
    case full: False
    show ?thesis
    proof (cases "find (\<lambda>(k, e). \<not> locked_at (lockedUntil e) now) (entries ?p)")
      case None
      with assms(2) full p show ?thesis by (simp add: enforceMaxEntries_def Let_def)
    next
      case (Some x)
      obtain k e where x: "x = (k, e)" by (cases x)
      have "(k, e) \<in> set (entries ?p)" using find_Some_mem [OF Some] x by simp
      then have "k \<in> set (map_keys (entries ?p))" by force
      then have "length (map_delete k (entries ?p)) < length (entries ?p)"
        by (rule map_delete_length_less)
      moreover have "ok" "t = ?p\<lparr>entries := map_delete k (entries ?p)\<rparr>"
        using assms(2) full Some x by (simp_all add: enforceMaxEntries_def Let_def)
      ultimately show ?thesis using p by (simp add: limiter_wf_def map_delete_distinct)
    qed
  qed
  then show "limiter_wf c t" "ok \<Longrightarrow> int (length (entries t)) < maxEntries c" by blast+
qed

lemma check_wf:
  assumes "limiter_wf c s"
  shows "limiter_wf c (snd (check c now ip sc s))"
proof -
  obtain key a where k: "resolveKey c ip sc = (key, a)" by fastforce
  show ?thesis
  proof (cases "map_of (entries s) key")
    case None
    with assms checkOverflow_wf [OF assms, of now] show ?thesis
      by (auto simp: check_def k Let_def split: prod.splits option.splits)
  next
    case (Some e)
    with assms show ?thesis
      by (auto simp: check_def k Let_def intro!: set_entry_wf intro: map_of_in_keys)
  qed
qed

lemma record_wf:
  assumes "limiter_wf c s"
  shows "limiter_wf c (recordFailure c now ip sc s)"
proof -
  obtain key a where k: "resolveKey c ip sc = (key, a)" by fastforce
  show ?thesis
  proof (cases "map_of (entries s) key")
    case (Some e)
    with assms show ?thesis
      by (auto simp: recordFailure_def k Let_def intro!: set_entry_wf intro: map_of_in_keys)
  next
    case None
    obtain ok t where e: "enforceMaxEntries c now s = (ok, t)" by fastforce
    note t = enforce_wf [OF assms e]
    show ?thesis
    proof (cases ok)
      case True
      with t None e show ?thesis
        by (simp add: recordFailure_def k Let_def assms locked_at_def set_entry_wf)
    next
      case False
      with t None e assms show ?thesis
        by (simp add: recordFailure_def k Let_def limiter_wf_def)
    qed
  qed
qed

lemma reset_wf: "limiter_wf c s \<Longrightarrow> limiter_wf c (reset c ip sc s)"
  using map_delete_length_le [of "fst (resolveKey c ip sc)" "entries s"]
  by (auto simp: reset_def limiter_wf_def intro: map_delete_distinct)

lemma limiter_step_wf: "limiter_wf c s \<Longrightarrow> limiter_wf c (limiter_step c s op)"
  by (cases "(c, s, op)" rule: limiter_step.cases)
     (simp_all add: check_wf record_wf reset_wf prune_wf prune_def)

interpretation limiter_machine: invariant_machine "limiter_step c" "limiter_wf c" for c
  by unfold_locales (rule limiter_step_wf)

lemma created_wf: "createAuthRateLimiter config r l = (c, s) \<Longrightarrow> limiter_wf c s"
  using resolveIntegerOption_min [of 1 "rl_maxEntries config" 10000]
  by (auto simp: createAuthRateLimiter_def limiter_wf_def)

text \<open>Whatever the clients send, an authentication limiter never
  tracks more identities than its configured maximum.\<close>

theorem limiter_memory_bounded:
  assumes "createAuthRateLimiter config resolve loopback = (c, s)"
  shows "int (size_of (foldl (limiter_step c) s ops)) \<le> maxEntries c"
  using limiter_machine.machine_run [OF created_wf [OF assms]]
  by (auto simp: limiter_wf_def size_of_def)


section \<open>Lockouts hold\<close>

definition locked_key :: "string \<Rightarrow> int \<Rightarrow> limiter_state \<Rightarrow> bool" where
  "locked_key k u s \<longleftrightarrow> (\<exists>e. map_of (entries s) k = Some e \<and> lockedUntil e = Some u)"

lemma prune_locked:
  assumes "limiter_wf c s" "locked_key k u s" "u \<noteq> 0" "now < u"
  shows "locked_key k u (pruneExpiredEntries c now s)"
proof -
  from assms(2) obtain e where e: "map_of (entries s) k = Some e" "lockedUntil e = Some u"
    by (auto simp: locked_key_def)
  then have "map_of (entries (pruneExpiredEntries c now s)) k = Some e"
    using assms by (simp add: prune_sweep map_sweep_get limiter_wf_def expire_def locked_at_def)
  with e show ?thesis by (simp add: locked_key_def)
qed

lemma enforce_locked:
  assumes "limiter_wf c s" "locked_key k u s" "u \<noteq> 0" "now < u" "enforceMaxEntries c now s = (ok, t)"
  shows "locked_key k u t"
proof -
  let ?p = "pruneExpiredEntries c now s"
  have p: "locked_key k u ?p" "limiter_wf c ?p" using assms prune_locked prune_wf by blast+
  have "k' \<noteq> k" if "find (\<lambda>(k, e). \<not> locked_at (lockedUntil e) now) (entries ?p) = Some (k', e')" for k' e'
  proof
    assume "k' = k"
    with that p(2) have "map_of (entries ?p) k = Some e'" "\<not> locked_at (lockedUntil e') now"
      by (auto dest!: find_Some_mem simp: limiter_wf_def)
    with p(1) assms(3,4) show False by (auto simp: locked_key_def locked_at_def)
  qed
  then show ?thesis
    using assms(2,5) p(1)
    by (auto simp: enforceMaxEntries_def Let_def locked_key_def split: if_splits option.splits)
qed

lemma overflow_locked:
  assumes "limiter_wf c s" "locked_key k u s" "u \<noteq> 0" "now < u"
  shows "locked_key k u (snd (checkOverflowLock c now s))"
  using prune_locked [OF assms] assms(2)
  by (auto simp: checkOverflowLock_def Let_def locked_key_def split: option.splits)

lemma step_locked:
  assumes "limiter_wf c s" "locked_key k u s" "u \<noteq> 0" "now < u"
    and "\<And>ip sc. op = Reset ip sc \<Longrightarrow> fst (resolveKey c ip sc) \<noteq> k"
  shows "locked_key k u (limiter_step c s (now, op))"
proof (cases op)
  case (Check ip sc)
  obtain key a where r: "resolveKey c ip sc = (key, a)" by fastforce
  show ?thesis
  proof (cases "map_of (entries s) key")
    case None
    with Check overflow_locked [OF assms(1-4)] assms(2) r show ?thesis
      by (auto simp: check_def Let_def split: prod.splits option.splits)
  next
    case (Some e)
    then show ?thesis
      using Check assms(2-4) r
      by (cases "key = k") (auto simp: check_def Let_def locked_key_def locked_at_def)
  qed
next
  case (RecordFailure ip sc)
  obtain key a where r: "resolveKey c ip sc = (key, a)" by fastforce
  obtain ok t where en: "enforceMaxEntries c now s = (ok, t)" by fastforce
  note t = enforce_locked [OF assms(1-4) en]
  show ?thesis
  proof (cases "map_of (entries s) key")
    case None
    then have "key \<noteq> k" using assms(2) by (auto simp: locked_key_def)
    with None RecordFailure t assms(2) r en show ?thesis
      by (cases ok) (auto simp: recordFailure_def Let_def locked_key_def)
  next
    case (Some e)
    then show ?thesis
      using RecordFailure assms(2-4) r
      by (cases "key = k") (auto simp: recordFailure_def Let_def locked_key_def locked_at_def)
  qed
next
  case (Reset ip sc)
  with assms(2,5) show ?thesis by (auto simp: reset_def locked_key_def)
next
  case Prune
  with prune_locked [OF assms(1-4)] show ?thesis by (simp add: prune_def)
qed

text \<open>C21: Once an identity is locked until a moment, every check before
  that moment is refused with the exact remaining time, after any traffic from any clients: no
  flood of other identities, no pruning and no further failures evict or shorten the lockout; only
  a reset of that identity ends it early.\<close>

theorem lockout_cannot_be_lifted:
  assumes "createAuthRateLimiter config resolve loopback = (c, s0)"
    and "s = foldl (limiter_step c) s0 ops"
    and "fst (resolveKey c ip sc) = k" "\<not> isExempt c (snd (resolveKey c ip sc))"
    and "map_of (entries s) k = Some e" "lockedUntil e = Some u" "u \<noteq> 0"
    and "\<forall>(now, op) \<in> set later. now < u \<and> (\<forall>ip' sc'. op = Reset ip' sc' \<longrightarrow> fst (resolveKey c ip' sc') \<noteq> k)"
    and "now < u"
  shows "fst (check c now ip sc (foldl (limiter_step c) s later)) =
    \<lparr>cr_allowed = False, cr_remaining = 0, cr_retryAfterMs = u - now\<rparr>"
proof -
  have keep: "locked_key k u (foldl (limiter_step c) t later)" if "limiter_wf c t" "locked_key k u t" for t
    using that assms(8)
  proof (induction later arbitrary: t)
    case (Cons x later)
    obtain n op where x: "x = (n, op)" by (cases x)
    have "locked_key k u (limiter_step c t (n, op))"
      using Cons.prems x assms(7) by (intro step_locked) auto
    moreover have "limiter_wf c (limiter_step c t (n, op))" using Cons.prems(1) by (rule limiter_step_wf)
    ultimately show ?case using Cons x by simp
  qed simp
  have "limiter_wf c s"
    using limiter_machine.machine_run [OF created_wf [OF assms(1)]] assms(2) by simp
  moreover have "locked_key k u s" using assms(5,6) by (simp add: locked_key_def)
  ultimately obtain e' where "map_of (entries (foldl (limiter_step c) s later)) k = Some e'"
    "lockedUntil e' = Some u"
    using keep by (auto simp: locked_key_def)
  with assms(3,4,7,9) show ?thesis
    by (auto simp: check_def split_beta Let_def locked_at_def)
qed

section \<open>Guessing runs into a lockout\<close>

lemma record_known:
  assumes "map_of (entries s) (fst (resolveKey c ip sc)) = Some e" "\<not> locked_at (lockedUntil e) now"
    and "\<not> isExempt c (snd (resolveKey c ip sc))"
    and "attempts (slideWindow c e now) = as" "lockedUntil e = l"
  shows "map_of (entries (recordFailure c now ip sc s)) (fst (resolveKey c ip sc)) =
    Some \<lparr>attempts = as @ [now], lockedUntil =
      (if int (Suc (length as)) \<ge> maxAttempts c then Some (now + lockoutMs c) else l)\<rparr>"
  using assms by (cases e) (auto simp: recordFailure_def split_beta Let_def slideWindow_def)

lemma record_fresh:
  assumes "map_of (entries s) (fst (resolveKey c ip sc)) = None" "int (length (entries s)) < maxEntries c"
    and "\<not> isExempt c (snd (resolveKey c ip sc))"
  shows "map_of (entries (recordFailure c now ip sc s)) (fst (resolveKey c ip sc)) =
    Some \<lparr>attempts = [now], lockedUntil =
      (if 1 \<ge> maxAttempts c then Some (now + lockoutMs c) else None)\<rparr>"
  using assms
  by (simp add: recordFailure_def split_beta Let_def enforceMaxEntries_def locked_at_def slideWindow_def)

lemma failures_recorded:
  assumes "map_of (entries s) (fst (resolveKey c ip sc)) = None" "int (length (entries s)) < maxEntries c"
    and "\<not> isExempt c (snd (resolveKey c ip sc))"
    and "ts \<noteq> []" "\<forall>t \<in> set ts. \<forall>t' \<in> set ts. t' - t < windowMs c" "int (length ts) \<le> maxAttempts c"
  shows "map_of (entries (fold (\<lambda>t. recordFailure c t ip sc) ts s)) (fst (resolveKey c ip sc)) =
    Some \<lparr>attempts = ts, lockedUntil =
      (if int (length ts) = maxAttempts c then Some (last ts + lockoutMs c) else None)\<rparr>"
  using assms(4-6)
proof (induction ts rule: rev_induct)
  case (snoc t ts)
  show ?case
  proof (cases "ts = []")
    case True
    with snoc.prems record_fresh [OF assms(1-3), of t] show ?thesis by auto
  next
    case False
    let ?k = "fst (resolveKey c ip sc)" and ?s = "fold (\<lambda>t. recordFailure c t ip sc) ts s"
    let ?e = "\<lparr>attempts = ts, lockedUntil = None :: int option\<rparr>"
    have e: "map_of (entries ?s) ?k = Some ?e"
      using snoc False by simp
    have "attempts (slideWindow c ?e t) = ts"
      using snoc.prems(2) by (auto simp: slideWindow_def intro!: filter_True)
    from record_known [OF e _ assms(3) this] snoc.prems(3) show ?thesis
      by (simp add: locked_at_def)
  qed
qed simp

text \<open>C38: An identity that is not exempt and that the limiter does not track yet,
  while its table has room, is locked by failing as often as the limit allows within one window,
  one failure after the other with no other traffic between them: its next check is refused from
  the last failure until the lockout has passed since then.\<close>

theorem guessing_locks_out:
  assumes "map_of (entries s) (fst (resolveKey c ip sc)) = None" "int (length (entries s)) < maxEntries c"
    and "\<not> isExempt c (snd (resolveKey c ip sc))"
    and "ts \<noteq> []" "int (length ts) = maxAttempts c" "\<forall>t \<in> set ts. \<forall>t' \<in> set ts. t' - t < windowMs c"
    and "0 < last ts" "last ts \<le> now" "now < last ts + lockoutMs c"
  shows "\<not> cr_allowed (fst (check c now ip sc (fold (\<lambda>t. recordFailure c t ip sc) ts s)))"
proof -
  have "map_of (entries (fold (\<lambda>t. recordFailure c t ip sc) ts s)) (fst (resolveKey c ip sc)) =
      Some \<lparr>attempts = ts, lockedUntil = Some (last ts + lockoutMs c)\<rparr>"
    using failures_recorded [OF assms(1-4) assms(6)] assms(5) by simp
  with assms(3,7-9) show ?thesis
    by (simp add: check_def split_beta Let_def locked_at_def)
qed

text \<open>When the table is full of active lockouts, a failure of an unknown
  identity cannot be recorded, so the limiter refuses unknown identities altogether while those
  lockouts last and the overflow lock runs: exhausting the table never opens the gate.\<close>

theorem flood_fails_closed:
  assumes "limiter_wf c s" "int (length (entries s)) = maxEntries c"
    and "\<forall>(k, e) \<in> set (entries s). locked_at (lockedUntil e) now'"
    and "now \<le> now'" "now' < now + lockoutMs c" "0 \<le> now"
    and "map_of (entries s) (fst (resolveKey c ip sc)) = None" "\<not> isExempt c (snd (resolveKey c ip sc))"
    and "map_of (entries s) (fst (resolveKey c ip' sc')) = None" "\<not> isExempt c (snd (resolveKey c ip' sc'))"
  shows "\<not> cr_allowed (fst (check c now' ip' sc' (recordFailure c now ip sc s)))"
proof -
  have locked: "locked_at (lockedUntil e) t" if "(k, e) \<in> set (entries s)" "t \<le> now'" for k e t
    using assms(3) that by (auto simp: locked_at_def split: option.splits)
  have sweep: "map_sweep (expire c t) m = m"
    if "\<forall>(k, e) \<in> set m. locked_at (lockedUntil e) t" for t m
    using that by (induction m) (auto simp: expire_def)
  have keep: "pruneExpiredEntries c t s = s" if "t \<le> now'" for t
  proof -
    have "entries (pruneExpiredEntries c t s) = entries s"
      unfolding prune_sweep using locked [OF _ that] by (intro sweep) auto
    then show ?thesis by (cases s) (simp add: pruneExpiredEntries_def)
  qed
  have "find (\<lambda>(k, e). \<not> locked_at (lockedUntil e) now) (entries s) = None"
    using locked [OF _ assms(4)] by (auto simp: find_None_all)
  then have enf: "enforceMaxEntries c now s = (False, s)"
    using assms(2) keep [OF assms(4)] by (simp add: enforceMaxEntries_def)
  define ov where "ov = max (case overflowLockedUntil s of Some u \<Rightarrow> u | None \<Rightarrow> 0) (now + lockoutMs c)"
  have rec: "recordFailure c now ip sc s = s\<lparr>overflowLockedUntil := Some ov\<rparr>"
    using assms(7,8) enf by (simp add: recordFailure_def split_beta Let_def ov_def)
  have ov: "now' < ov" "ov \<noteq> 0" using assms(4-6) by (auto simp: ov_def)
  have "pruneExpiredEntries c now' (s\<lparr>overflowLockedUntil := Some ov\<rparr>) =
      (pruneExpiredEntries c now' s)\<lparr>overflowLockedUntil := Some ov\<rparr>"
    by (simp add: pruneExpiredEntries_def)
  with ov assms(2) keep [of now'] have
    "checkOverflowLock c now' (s\<lparr>overflowLockedUntil := Some ov\<rparr>) =
      (Some \<lparr>cr_allowed = False, cr_remaining = 0, cr_retryAfterMs = ov - now'\<rparr>, s\<lparr>overflowLockedUntil := Some ov\<rparr>)"
    by (simp add: checkOverflowLock_def Let_def)
  with assms(9,10) show ?thesis
    unfolding rec by (simp add: check_def split_beta Let_def)
qed

section \<open>The fixed window admits at most its quota\<close>

lemma consume_frame:
  "consume t w = (r, w') \<Longrightarrow> fw_maxRequests w' = fw_maxRequests w \<and> fw_windowMs w' = fw_windowMs w"
  by (auto simp: consume_def Let_def split: if_splits)

lemma admitted_in_window:
  assumes "\<forall>t \<in> set ts. t - fw_windowStartMs w < fw_windowMs w"
  shows "int (admitted w ts) \<le> max 0 (fw_maxRequests w - fw_count w)"
  using assms
proof (induction ts arbitrary: w)
  case (Cons t ts)
  show ?case
  proof (cases "fw_count w \<ge> fw_maxRequests w")
    case True
    with Cons.prems have "consume t w = (\<lparr>cr_allowed = False, cr_remaining = 0,
        cr_retryAfterMs = max 0 (fw_windowStartMs w + fw_windowMs w - t)\<rparr>, w)"
      by (simp add: consume_def Let_def)
    with Cons show ?thesis by simp
  next
    case False
    let ?w = "w\<lparr>fw_count := fw_count w + 1\<rparr>"
    have "int (admitted ?w ts) \<le> max 0 (fw_maxRequests ?w - fw_count ?w)"
      using Cons.prems by (intro Cons.IH) simp
    moreover have "admitted w (t # ts) = Suc (admitted ?w ts)"
      using False Cons.prems by (simp add: consume_def Let_def)
    ultimately show ?thesis using False by simp
  qed
qed simp

fun consume_all :: "fixed_window \<Rightarrow> int list \<Rightarrow> fixed_window" where
  "consume_all w [] = w"
| "consume_all w (t # ts) = consume_all (snd (consume t w)) ts"

lemma admitted_append: "admitted w (xs @ ys) = admitted w xs + admitted (consume_all w xs) ys"
  by (induction xs arbitrary: w) (auto split: prod.splits)

lemma consume_all_frame:
  "fw_maxRequests (consume_all w ts) = fw_maxRequests w \<and> fw_windowMs (consume_all w ts) = fw_windowMs w"
  by (induction ts arbitrary: w) (auto simp: consume_def Let_def)

lemma consume_all_in_window:
  "\<forall>t \<in> set ts. t - fw_windowStartMs w < fw_windowMs w \<Longrightarrow>
    fw_windowStartMs (consume_all w ts) = fw_windowStartMs w"
proof (induction ts arbitrary: w)
  case (Cons t ts)
  then have "fw_windowStartMs (snd (consume t w)) = fw_windowStartMs w \<and>
      fw_windowMs (snd (consume t w)) = fw_windowMs w"
    by (simp add: consume_def Let_def)
  with Cons show ?case by simp
qed simp

lemma admitted_fresh:
  assumes "us \<noteq> []" "hd us - fw_windowStartMs v \<ge> fw_windowMs v" "\<forall>t \<in> set us. t - hd us < fw_windowMs v"
    and "0 \<le> fw_maxRequests v" "0 < fw_windowMs v"
  shows "int (admitted v us) \<le> fw_maxRequests v"
proof -
  let ?v = "v\<lparr>fw_windowStartMs := hd us, fw_count := 0\<rparr>"
  have "consume (hd us) v = consume (hd us) ?v"
    using assms(2,5) by (simp add: consume_def Let_def)
  then have "admitted v us = admitted ?v us"
    using assms(1) by (cases us) simp_all
  moreover have "int (admitted ?v us) \<le> max 0 (fw_maxRequests ?v - fw_count ?v)"
    using assms(3) by (intro admitted_in_window) simp
  ultimately show ?thesis using assms(4) by simp
qed

text \<open>Over any stretch of calls shorter than the window, with a clock
  that does not run backwards, a fixed-window limiter admits at most twice its quota, however the
  stretch lies over the window boundaries and whatever the limiter has seen before.\<close>

theorem fixed_window_quota:
  assumes "sorted ts" and "\<forall>t \<in> set ts. t - hd ts < fw_windowMs w"
    and "0 \<le> fw_count w" "0 \<le> fw_maxRequests w" "0 < fw_windowMs w"
  shows "int (admitted w ts) \<le> 2 * fw_maxRequests w"
proof -
  let ?P = "\<lambda>t. t - fw_windowStartMs w < fw_windowMs w"
  let ?xs = "takeWhile ?P ts" and ?ys = "dropWhile ?P ts"
  let ?v = "consume_all w ?xs"
  have xs: "\<forall>t \<in> set ?xs. ?P t" by (auto dest: set_takeWhileD)
  then have "int (admitted w ?xs) \<le> max 0 (fw_maxRequests w - fw_count w)"
    by (rule admitted_in_window)
  moreover have "int (admitted ?v ?ys) \<le> fw_maxRequests w"
  proof (cases "?ys = []")
    case True
    show ?thesis unfolding True using assms(4) by simp
  next
    case False
    have v: "fw_windowStartMs ?v = fw_windowStartMs w" "fw_windowMs ?v = fw_windowMs w"
      "fw_maxRequests ?v = fw_maxRequests w"
      using consume_all_in_window [OF xs] consume_all_frame [of w ?xs] by auto
    have ne: "ts \<noteq> []" using False by auto
    have "hd ?ys \<in> set ts" using False by (metis hd_in_set set_dropWhileD)
    then have "hd ts \<le> hd ?ys" using assms(1) ne by (cases ts) auto
    then have "\<forall>t \<in> set ?ys. t - hd ?ys < fw_windowMs w"
      using assms(2) by (fastforce dest: set_dropWhileD)
    moreover have "hd ?ys - fw_windowStartMs w \<ge> fw_windowMs w"
      using hd_dropWhile [OF False] by simp
    ultimately show ?thesis
      using admitted_fresh [OF False, of ?v] assms(4,5) v by simp
  qed
  moreover have "admitted w ts = admitted w ?xs + admitted ?v ?ys"
    using admitted_append [of w ?xs ?ys] by simp
  ultimately show ?thesis using assms(3) by simp
qed

section \<open>The control-plane budget is bounded\<close>

definition buckets_ok :: "(string, bucket) js_map \<Rightarrow> bool" where
  "buckets_ok m \<longleftrightarrow> distinct (map_keys m) \<and> length m \<le> CONTROL_PLANE_BUCKET_MAX_ENTRIES \<and>
     (\<forall>(k, b) \<in> set m. 1 \<le> bk_count b \<and> bk_count b \<le> CONTROL_PLANE_RATE_LIMIT_MAX_REQUESTS)"

lemma map_set_all:
  "distinct (map_keys m) \<Longrightarrow> \<forall>(k, b) \<in> set m. P b \<Longrightarrow> P v \<Longrightarrow> \<forall>(k, b) \<in> set (map_set x v m). P b"
  using map_set_mem [of m _ _ x v] by (auto split: if_splits)

lemma consume_budget_ok:
  assumes "buckets_ok m"
  shows "buckets_ok (snd (consumeControlPlaneWriteBudget now client m))"
proof -
  let ?k = "resolveControlPlaneRateLimitKey client"
  let ?b = "\<lparr>bk_count = 1, bk_windowStartMs = now\<rparr>"
  define m1 where "m1 = (if map_of m ?k = None \<and> length m \<ge> CONTROL_PLANE_BUCKET_MAX_ENTRIES
    then (case m of [] \<Rightarrow> m | (oldest, _) # _ \<Rightarrow> map_delete oldest m) else m)"
  have m1: "distinct (map_keys m1)" "set m1 \<subseteq> set m" "length m1 \<le> length m"
    "map_of m ?k = None \<Longrightarrow> length m1 < CONTROL_PLANE_BUCKET_MAX_ENTRIES"
    "map_of m ?k \<noteq> None \<Longrightarrow> m1 = m"
  proof -
    have "m1 = m \<or> (\<exists>x. m = x # m1 \<and> map_of m ?k = None)"
      using assms by (auto simp: m1_def buckets_ok_def map_delete_oldest simp del: AList.delete_simps split: list.split)
    moreover have "map_of m ?k = None \<Longrightarrow> length m1 < CONTROL_PLANE_BUCKET_MAX_ENTRIES"
      using assms by (auto simp: m1_def buckets_ok_def map_delete_oldest CONTROL_PLANE_BUCKET_MAX_ENTRIES_def
          simp del: AList.delete_simps split: list.split)
    ultimately show "distinct (map_keys m1)" "set m1 \<subseteq> set m" "length m1 \<le> length m"
      "map_of m ?k = None \<Longrightarrow> length m1 < CONTROL_PLANE_BUCKET_MAX_ENTRIES"
      "map_of m ?k \<noteq> None \<Longrightarrow> m1 = m"
      using assms by (auto simp: buckets_ok_def map_of_eq_None_iff split: if_splits)
  qed
  have fresh: "buckets_ok (map_set ?k ?b m1)"
  proof -
    have "length (map_set ?k ?b m1) \<le> CONTROL_PLANE_BUCKET_MAX_ENTRIES"
      using m1 assms by (cases "map_of m ?k")
        (auto simp: map_set_length buckets_ok_def map_of_eq_None_iff dest: map_of_in_keys rev_image_eqI [of _ _ _ fst])
    moreover have "\<forall>(k, b) \<in> set (map_set ?k ?b m1). 1 \<le> bk_count b \<and> bk_count b \<le> CONTROL_PLANE_RATE_LIMIT_MAX_REQUESTS"
      using m1(1,2) assms
      by (intro map_set_all) (auto simp: buckets_ok_def CONTROL_PLANE_RATE_LIMIT_MAX_REQUESTS_def)
    ultimately show ?thesis using m1(1) by (simp add: buckets_ok_def distinct_update)
  qed
  show ?thesis
  proof (cases "map_of m ?k")
    case None
    with fresh show ?thesis by (simp add: consumeControlPlaneWriteBudget_def Let_def m1_def)
  next
    case (Some b)
    have b: "1 \<le> bk_count b" using assms map_of_SomeD [OF Some] by (auto simp: buckets_ok_def)
    have "buckets_ok (map_set ?k (b\<lparr>bk_count := bk_count b + 1\<rparr>) m)"
      if "bk_count b < CONTROL_PLANE_RATE_LIMIT_MAX_REQUESTS"
    proof -
      have "\<forall>(k, b) \<in> set (map_set ?k (b\<lparr>bk_count := bk_count b + 1\<rparr>) m).
          1 \<le> bk_count b \<and> bk_count b \<le> CONTROL_PLANE_RATE_LIMIT_MAX_REQUESTS"
        using assms that b by (intro map_set_all) (auto simp: buckets_ok_def)
      then show ?thesis
        using assms map_of_in_keys [OF Some]
        by (simp add: buckets_ok_def distinct_update map_set_length)
    qed
    with fresh m1(5) Some assms show ?thesis
      by (simp add: consumeControlPlaneWriteBudget_def Let_def m1_def)
  qed
qed

lemma budget_step_ok: "buckets_ok m \<Longrightarrow> buckets_ok (budget_step m op)"
proof (cases "(m, op)" rule: budget_step.cases)
  case (2 m' now)
  moreover assume "buckets_ok m"
  moreover have "length (filter P m) \<le> length m" for P by simp
  ultimately show ?thesis
    by (auto simp: pruneStaleControlPlaneBuckets_def buckets_ok_def Let_def distinct_map_filter
        intro: order_trans [OF length_filter_le])
qed (auto intro: consume_budget_ok)

interpretation budget_machine: invariant_machine budget_step buckets_ok
  by unfold_locales (rule budget_step_ok)

text \<open>However many distinct clients call, the control-plane limiter
  keeps at most 10000 buckets, and no bucket ever counts more than the three writes of a window.\<close>

theorem control_plane_bounded:
  "length (foldl budget_step [] ops) \<le> 10000 \<and>
   list_all (\<lambda>(k, b). bk_count b \<le> CONTROL_PLANE_RATE_LIMIT_MAX_REQUESTS) (foldl budget_step [] ops)"
  using budget_machine.machine_run [of "[]" ops]
  by (auto simp: buckets_ok_def CONTROL_PLANE_BUCKET_MAX_ENTRIES_def list_all_iff)

section \<open>A concrete limiter\<close>

definition sample_limiter :: "limiter \<times> limiter_state" where
  "sample_limiter = createAuthRateLimiter \<lparr>rl_maxAttempts = Some 2, rl_windowMs = Some 1000,
     rl_lockoutMs = Some 5000, rl_exemptLoopback = Some False, rl_maxEntries = Some 1\<rparr> (\<lambda>ip. ip) (\<lambda>_. False)"

lemma sample_limiter_eq:
  "sample_limiter = (\<lparr>maxAttempts = 2, windowMs = 1000, lockoutMs = 5000, exemptLoopback = False,
     maxEntries = 1, resolveClientIp = (\<lambda>ip. ip), isLoopbackAddress = (\<lambda>_. False)\<rparr>,
     \<lparr>entries = [], overflowLockedUntil = None\<rparr>)"
  by (simp add: sample_limiter_def createAuthRateLimiter_def resolveTimerTimeoutMs_def
      resolveIntegerOption_def MAX_TIMER_TIMEOUT_MS_def)

lemma sample_key: "resolveKey (fst sample_limiter) (Some ''9.9.9.9'') None = (''default:9.9.9.9'', ''9.9.9.9'')"
  "\<not> isExempt (fst sample_limiter) ip"
  unfolding sample_limiter_eq by code_simp (simp add: isExempt_def)

theorem limiter_memory_bounded_witness:
  "int (size_of (foldl (limiter_step (fst sample_limiter)) (snd sample_limiter)
     [(1, RecordFailure (Some ''1.1.1.1'') None), (2, RecordFailure (Some ''2.2.2.2'') None)])) \<le> 1"
proof -
  have "int (size_of (foldl (limiter_step (fst sample_limiter)) (snd sample_limiter)
     [(1, RecordFailure (Some ''1.1.1.1'') None), (2, RecordFailure (Some ''2.2.2.2'') None)])) \<le>
     maxEntries (fst sample_limiter)"
    by (rule limiter_memory_bounded [of _ "\<lambda>ip. ip" "\<lambda>_. False"]) (simp add: sample_limiter_def flip: surjective_pairing)
  then show ?thesis by (simp add: sample_limiter_eq)
qed

theorem lockout_cannot_be_lifted_witness:
  "fst (check (fst sample_limiter) 3000 (Some ''9.9.9.9'') None
     (foldl (limiter_step (fst sample_limiter))
       (foldl (limiter_step (fst sample_limiter)) (snd sample_limiter)
         [(10, RecordFailure (Some ''9.9.9.9'') None), (20, RecordFailure (Some ''9.9.9.9'') None)])
       [(2000, RecordFailure (Some ''8.8.8.8'') None), (2500, Prune)])) =
   \<lparr>cr_allowed = False, cr_remaining = 0, cr_retryAfterMs = 2020\<rparr>"
proof -
  let ?s = "foldl (limiter_step (fst sample_limiter)) (snd sample_limiter)
     [(10, RecordFailure (Some ''9.9.9.9'') None), (20, RecordFailure (Some ''9.9.9.9'') None)]"
  have created: "createAuthRateLimiter \<lparr>rl_maxAttempts = Some 2, rl_windowMs = Some 1000,
     rl_lockoutMs = Some 5000, rl_exemptLoopback = Some False, rl_maxEntries = Some 1\<rparr> (\<lambda>ip. ip) (\<lambda>_. False)
     = (fst sample_limiter, snd sample_limiter)" by (simp add: sample_limiter_def)
  have e: "map_of (entries ?s) ''default:9.9.9.9'' = Some \<lparr>attempts = [10, 20], lockedUntil = Some 5020\<rparr>"
    unfolding sample_limiter_eq by code_simp
  show ?thesis
    using lockout_cannot_be_lifted [OF created refl, of "Some ''9.9.9.9''" None "''default:9.9.9.9''"
        "[(10, RecordFailure (Some ''9.9.9.9'') None), (20, RecordFailure (Some ''9.9.9.9'') None)]"
        "\<lparr>attempts = [10, 20], lockedUntil = Some 5020\<rparr>" 5020
        "[(2000, RecordFailure (Some ''8.8.8.8'') None), (2500, Prune)]" 3000]
    by (simp add: sample_key e del: foldl.simps)
qed

theorem guessing_locks_out_witness:
  "\<not> cr_allowed (fst (check (fst sample_limiter) 100 (Some ''9.9.9.9'') None
     (fold (\<lambda>t. recordFailure (fst sample_limiter) t (Some ''9.9.9.9'') None) [10, 20] (snd sample_limiter))))"
  by (rule guessing_locks_out) (simp_all add: sample_limiter_eq isExempt_def)

theorem flood_fails_closed_witness:
  "\<not> cr_allowed (fst (check (fst sample_limiter) 200 (Some ''2.2.2.2'') None
     (recordFailure (fst sample_limiter) 100 (Some ''1.1.1.1'') None
       \<lparr>entries = [(''default:9.9.9.9'', \<lparr>attempts = [10, 20], lockedUntil = Some 5020\<rparr>)],
        overflowLockedUntil = None\<rparr>)))"
proof (rule flood_fails_closed)
  show "map_of (entries \<lparr>entries = [(''default:9.9.9.9'', \<lparr>attempts = [10, 20], lockedUntil = Some 5020\<rparr>)],
      overflowLockedUntil = None\<rparr>) (fst (resolveKey (fst sample_limiter) (Some ''1.1.1.1'') None)) = None"
    unfolding sample_limiter_eq by code_simp
  show "map_of (entries \<lparr>entries = [(''default:9.9.9.9'', \<lparr>attempts = [10, 20], lockedUntil = Some 5020\<rparr>)],
      overflowLockedUntil = None\<rparr>) (fst (resolveKey (fst sample_limiter) (Some ''2.2.2.2'') None)) = None"
    unfolding sample_limiter_eq by code_simp
qed (simp_all add: sample_limiter_eq limiter_wf_def isExempt_def locked_at_def)

theorem fixed_window_quota_witness:
  "int (admitted (createFixedWindowRateLimiter (Some 3) (Some 60)) [100, 110, 110, 120]) \<le> 6"
proof -
  have "int (admitted (createFixedWindowRateLimiter (Some 3) (Some 60)) [100, 110, 110, 120]) \<le>
      2 * fw_maxRequests (createFixedWindowRateLimiter (Some 3) (Some 60))"
    by (rule fixed_window_quota)
       (simp_all add: createFixedWindowRateLimiter_def resolveFixedWindowRateLimitInteger_def)
  then show ?thesis
    by (simp add: createFixedWindowRateLimiter_def resolveFixedWindowRateLimitInteger_def)
qed

end
