(* ===== verification/DedupeCache.thy ===== *)
theory DedupeCache
  imports JsNumber
begin

text \<open>
  The replay and duplicate suppression cache of \<^verbatim>\<open>src/src/infra/dedupe.ts\<close> with the
  pruning of \<^verbatim>\<open>src/src/infra/map-size.ts\<close>: an insertion-ordered map from keys to
  timestamps whose order is the order of last use. A key is a string; the falsy keys (null,
  undefined and the empty string) are \<open>None\<close> and \<open>Some []\<close>.
\<close>

record dedupe_config =
  ttlMs :: int
  maxSize :: int

type_synonym dedupe_cache = "(string, int) js_map"

definition createDedupeCache :: "rat option \<Rightarrow> rat option \<Rightarrow> dedupe_config \<times> dedupe_cache" where
  "createDedupeCache ttl sz = (\<lparr>ttlMs = resolveNonNegativeIntegerOption ttl 0,
     maxSize = resolveNonNegativeIntegerOption sz 0\<rparr>, [])"

text \<open>The loop removes the oldest entry until the map fits.\<close>

function drop_oldest :: "nat \<Rightarrow> dedupe_cache \<Rightarrow> dedupe_cache" where
  "drop_oldest limit m = (if length m > limit then
     (case m of [] \<Rightarrow> m | (oldest, _) # _ \<Rightarrow>
        if length (map_delete oldest m) < length m then drop_oldest limit (map_delete oldest m) else m)
     else m)"
  by pat_completeness auto
termination by (relation "measure (\<lambda>(l, m). length m)") auto

declare drop_oldest.simps [simp del]

definition pruneMapToMaxSize :: "dedupe_cache \<Rightarrow> int \<Rightarrow> dedupe_cache" where
  "pruneMapToMaxSize m sz = (let limit = max 0 sz in if limit \<le> 0 then [] else drop_oldest (nat limit) m)"

definition touch :: "string \<Rightarrow> int \<Rightarrow> dedupe_cache \<Rightarrow> dedupe_cache" where
  "touch key now m = map_set key now (map_delete key m)"

definition prune_cache :: "dedupe_config \<Rightarrow> int \<Rightarrow> dedupe_cache \<Rightarrow> dedupe_cache" where
  "prune_cache c now m =
     (let m1 = (if ttlMs c > 0 then filter (\<lambda>(_, ts). \<not> ts < now - ttlMs c) m else m)
      in if maxSize c \<le> 0 then [] else pruneMapToMaxSize m1 (maxSize c))"

definition hasUnexpired :: "dedupe_config \<Rightarrow> string \<Rightarrow> int \<Rightarrow> bool \<Rightarrow> dedupe_cache \<Rightarrow> bool \<times> dedupe_cache" where
  "hasUnexpired c key now touchOnRead m = (case map_of m key of
     None \<Rightarrow> (False, m)
   | Some existing \<Rightarrow>
      if ttlMs c > 0 \<and> now - existing \<ge> ttlMs c then (False, map_delete key m)
      else (True, if touchOnRead then touch key now m else m))"

definition falsy_key :: "string option \<Rightarrow> bool" where
  "falsy_key k \<longleftrightarrow> k = None \<or> k = Some []"

definition check_key :: "dedupe_config \<Rightarrow> string option \<Rightarrow> int \<Rightarrow> dedupe_cache \<Rightarrow> bool \<times> dedupe_cache" where
  "check_key c key now m =
     (if falsy_key key then (False, m)
      else case hasUnexpired c (the key) now True m of
          (True, m1) \<Rightarrow> (True, m1)
        | (False, m1) \<Rightarrow> (False, prune_cache c now (touch (the key) now m1)))"

definition peek_key :: "dedupe_config \<Rightarrow> string option \<Rightarrow> int \<Rightarrow> dedupe_cache \<Rightarrow> bool \<times> dedupe_cache" where
  "peek_key c key now m = (if falsy_key key then (False, m) else hasUnexpired c (the key) now False m)"

definition delete_key :: "string option \<Rightarrow> dedupe_cache \<Rightarrow> dedupe_cache" where
  "delete_key key m = (if falsy_key key then m else map_delete (the key) m)"

datatype dedupe_op = CheckKey "string option" | PeekKey "string option" | DeleteKey "string option" | ClearCache

fun dedupe_step :: "dedupe_config \<Rightarrow> dedupe_cache \<Rightarrow> int \<times> dedupe_op \<Rightarrow> dedupe_cache" where
  "dedupe_step c m (now, CheckKey k) = snd (check_key c k now m)"
| "dedupe_step c m (now, PeekKey k) = snd (peek_key c k now m)"
| "dedupe_step c m (now, DeleteKey k) = delete_key k m"
| "dedupe_step c m (now, ClearCache) = []"

section \<open>Bounds\<close>

lemma drop_oldest_eq:
  "distinct (map_keys m) \<Longrightarrow> drop_oldest n m = drop (length m - n) m"
proof (induction n m rule: drop_oldest.induct)
  case (1 n m)
  show ?case
  proof (cases "length m > n")
    case True
    then obtain k v m' where m: "m = (k, v) # m'" by (cases m) auto
    have del: "map_delete k m = m'" using 1(2) m map_delete_oldest by simp
    have "drop_oldest n m = drop_oldest n m'"
      using True m del by (subst drop_oldest.simps) simp
    also have "\<dots> = drop (length m' - n) m'"
      using 1(1) [OF True m refl] 1(2) m del by simp
    also have "\<dots> = drop (length m - n) m" using True m by (simp add: Suc_diff_le)
    finally show ?thesis .
  next
    case False
    then show ?thesis by (subst drop_oldest.simps) simp
  qed
qed

definition cache_ok :: "dedupe_config \<Rightarrow> dedupe_cache \<Rightarrow> bool" where
  "cache_ok c m \<longleftrightarrow> 0 \<le> maxSize c \<and> distinct (map_keys m) \<and> int (length m) \<le> maxSize c"

lemma touch_eq: "touch k now m = map_delete k m @ [(k, now)]"
proof -
  have "map_of (map_delete k m) k = None" by simp
  moreover have "map_set k now n = n @ [(k, now)]" if "map_of n k = None" for n :: dedupe_cache
    using that by (induction n) (auto split: if_splits)
  ultimately show ?thesis by (simp add: touch_def)
qed

lemma touch_distinct: "distinct (map_keys m) \<Longrightarrow> distinct (map_keys (touch k now m))"
  by (simp add: touch_def distinct_update map_delete_distinct)

lemma prune_cache_eq:
  assumes "distinct (map_keys m)"
  shows "prune_cache c now m =
    (let m1 = (if ttlMs c > 0 then filter (\<lambda>(_, ts). \<not> ts < now - ttlMs c) m else m)
     in drop (length m1 - nat (maxSize c)) m1)"
proof -
  have "distinct (map_keys (filter P m))" for P using assms by (simp add: distinct_map_filter)
  then show ?thesis
    using assms by (auto simp: prune_cache_def pruneMapToMaxSize_def Let_def drop_oldest_eq)
qed

lemma prune_cache_ok:
  "0 \<le> maxSize c \<Longrightarrow> distinct (map_keys m) \<Longrightarrow> cache_ok c (prune_cache c now m)"
  by (auto simp: prune_cache_eq cache_ok_def Let_def distinct_map_filter distinct_drop simp flip: drop_map)

lemma hasUnexpired_distinct:
  "distinct (map_keys m) \<Longrightarrow> distinct (map_keys (snd (hasUnexpired c k now b m)))"
  by (auto simp: hasUnexpired_def touch_distinct map_delete_distinct split: option.splits)

lemma hasUnexpired_ok:
  assumes "cache_ok c m"
  shows "cache_ok c (snd (hasUnexpired c k now b m))"
proof (cases "map_of m k")
  case None
  with assms show ?thesis by (simp add: hasUnexpired_def)
next
  case (Some ts)
  then have "length (map_delete k m) < length m"
    by (intro map_delete_length_less) (rule map_of_in_keys)
  with assms Some show ?thesis
    by (simp add: hasUnexpired_def cache_ok_def touch_eq map_delete_distinct touch_distinct [unfolded touch_eq, simplified])
qed

lemma dedupe_step_ok: "cache_ok c m \<Longrightarrow> cache_ok c (dedupe_step c m x)"
proof (cases "(c, m, x)" rule: dedupe_step.cases)
  case (1 c' m' now k)
  assume ok: "cache_ok c m"
  obtain b m1 where h: "hasUnexpired c (the k) now True m = (b, m1)" by fastforce
  have "cache_ok c m1" "distinct (map_keys m1)"
    using hasUnexpired_ok [OF ok, of "the k" now True] h by (auto simp: cache_ok_def)
  then show ?thesis
    using 1 ok h prune_cache_ok [OF _ touch_distinct]
    by (cases b) (auto simp: check_key_def cache_ok_def)
next
  case (2 c' m' now k)
  assume "cache_ok c m"
  with 2 show ?thesis by (auto simp: peek_key_def intro: hasUnexpired_ok)
next
  case (3 c' m' now k)
  assume "cache_ok c m"
  with 3 map_delete_length_le [of "the k" m] show ?thesis
    by (auto simp: delete_key_def cache_ok_def intro: map_delete_distinct)
next
  case (4 c' m' now)
  assume "cache_ok c m"
  with 4 show ?thesis by (simp add: cache_ok_def)
qed

interpretation dedupe_machine: invariant_machine "dedupe_step c" "cache_ok c" for c
  by unfold_locales (rule dedupe_step_ok)

lemma created_ok: "createDedupeCache ttl sz = (c, m) \<Longrightarrow> cache_ok c m"
  using resolveNonNegativeIntegerOption_nonneg [of sz 0]
  by (auto simp: createDedupeCache_def cache_ok_def)

text \<open>A dedupe cache never holds more than \<open>maxSize\<close> keys, each at
  most once, after any operations at any times; with size zero it holds nothing.\<close>

theorem dedupe_bounded:
  assumes "createDedupeCache ttl sz = (c, m)"
  shows "int (length (foldl (dedupe_step c) m ops)) \<le> maxSize c \<and>
    distinct (map_keys (foldl (dedupe_step c) m ops))"
  using dedupe_machine.machine_run [OF created_ok [OF assms], of ops] by (auto simp: cache_ok_def)

section \<open>No false duplicates\<close>

lemma set_map_delete: "set (map_delete k m) \<subseteq> set m"
  by (auto simp: AList.delete_eq)

lemma prune_cache_subset: "distinct (map_keys m) \<Longrightarrow> set (prune_cache c now m) \<subseteq> set m"
  by (auto simp: prune_cache_eq Let_def dest: in_set_dropD split: if_splits)

lemma hasUnexpired_subset:
  "set (snd (hasUnexpired c k now b m)) \<subseteq> insert (k, now) (set m)"
  using set_map_delete [of k m] by (auto simp: hasUnexpired_def touch_eq split: option.splits)

lemma check_key_subset:
  assumes "distinct (map_keys m)"
  shows "set (snd (check_key c k now m)) \<subseteq> set m \<union> (if falsy_key k then {} else {(the k, now)})"
proof (cases "falsy_key k")
  case False
  obtain b m1 where h: "hasUnexpired c (the k) now True m = (b, m1)" by fastforce
  have m1: "set m1 \<subseteq> insert (the k, now) (set m)" "distinct (map_keys m1)"
    using hasUnexpired_subset [of c "the k" now True m] hasUnexpired_distinct [OF assms, of c "the k" now True] h
    by auto
  have "set (touch (the k) now m1) \<subseteq> insert (the k, now) (set m)"
    using m1(1) set_map_delete [of "the k" m1] by (auto simp: touch_eq)
  then have "set (prune_cache c now (touch (the k) now m1)) \<subseteq> insert (the k, now) (set m)"
    using prune_cache_subset [OF touch_distinct [OF m1(2)], of c now "the k" now] by blast
  with m1(1) h False show ?thesis by (cases b) (auto simp: check_key_def)
qed (simp add: check_key_def)

lemma dedupe_step_subset:
  assumes "distinct (map_keys m)"
  shows "set (dedupe_step c m (now, op)) \<subseteq>
    set m \<union> {(k, now) | k. k \<noteq> [] \<and> op = CheckKey (Some k)}"
proof (cases op)
  case (CheckKey k)
  with check_key_subset [OF assms, of c k now] show ?thesis
    by (cases k) (auto simp: falsy_key_def split: if_splits)
next
  case (PeekKey k)
  have "set (snd (hasUnexpired c k' now False m)) \<subseteq> set m" for k'
    using set_map_delete [of k' m] by (auto simp: hasUnexpired_def split: option.splits)
  with PeekKey show ?thesis by (auto simp: peek_key_def)
next
  case (DeleteKey k)
  with set_map_delete [of "the k" m] show ?thesis by (auto simp: delete_key_def)
qed simp

lemma run_recorded:
  assumes "cache_ok c m" "(k, t) \<in> set (foldl (dedupe_step c) m ops)"
  shows "(k, t) \<in> set m \<or> (t, CheckKey (Some k)) \<in> set ops"
  using assms
proof (induction ops arbitrary: m)
  case (Cons x ops)
  obtain now op where x: "x = (now, op)" by (cases x)
  have "cache_ok c (dedupe_step c m x)" using Cons.prems(1) by (rule dedupe_step_ok)
  from Cons.IH [OF this] Cons.prems(2)
  have "(k, t) \<in> set (dedupe_step c m x) \<or> (t, CheckKey (Some k)) \<in> set ops" by simp
  moreover have "distinct (map_keys m)" using Cons.prems(1) by (simp add: cache_ok_def)
  ultimately show ?case using dedupe_step_subset [of m c now op] x by auto
qed simp

text \<open>C39: A key is reported as a duplicate only if it was really checked
  before, and within the time to live when one is set: an event that is seen for the first time is
  never suppressed.\<close>

theorem no_false_duplicate:
  assumes "createDedupeCache ttl sz = (c, m)"
    and "fst (check_key c (Some k) now (foldl (dedupe_step c) m ops))"
  shows "\<exists>t. (t, CheckKey (Some k)) \<in> set ops \<and> (ttlMs c > 0 \<longrightarrow> now - t < ttlMs c)"
proof -
  let ?m = "foldl (dedupe_step c) m ops"
  have h: "fst (hasUnexpired c k now True ?m)"
    using assms(2) by (auto simp: check_key_def split: if_splits prod.splits bool.splits)
  then obtain t where t: "map_of ?m k = Some t" "ttlMs c > 0 \<longrightarrow> now - t < ttlMs c"
    by (cases "map_of ?m k") (auto simp: hasUnexpired_def split: if_splits)
  have "m = []" using assms(1) by (simp add: createDedupeCache_def)
  with run_recorded [OF created_ok [OF assms(1)]] t show ?thesis
    by (auto dest!: map_of_SomeD)
qed

section \<open>Duplicates are caught\<close>

text \<open>The entry of \<open>k\<close> is followed only by keys of \<open>K\<close>.\<close>

definition recent :: "string \<Rightarrow> int \<Rightarrow> string set \<Rightarrow> dedupe_cache \<Rightarrow> bool" where
  "recent k t K m \<longleftrightarrow> distinct (map_keys m) \<and> (\<exists>xs ys. m = xs @ (k, t) # ys \<and> fst ` set ys \<subseteq> K)"

lemma recentI:
  "distinct (map_keys m) \<Longrightarrow> m = xs @ (k, t) # ys \<Longrightarrow> fst ` set ys \<subseteq> K \<Longrightarrow> recent k t K m"
  unfolding recent_def by blast

lemma recent_delete: "recent k t K m \<Longrightarrow> k' \<noteq> k \<Longrightarrow> recent k t K (map_delete k' m)"
proof -
  assume "recent k t K m" "k' \<noteq> k"
  then obtain xs ys where m: "distinct (map_keys m)" "m = xs @ (k, t) # ys" "fst ` set ys \<subseteq> K"
    by (auto simp: recent_def)
  have "map_delete k' m = map_delete k' xs @ (k, t) # map_delete k' ys"
    using m(2) \<open>k' \<noteq> k\<close> by (simp add: AList.delete_eq)
  moreover have "fst ` set (map_delete k' ys) \<subseteq> K" using m(3) set_map_delete [of k' ys] by blast
  ultimately show ?thesis using m(1) by (intro recentI map_delete_distinct)
qed

lemma recent_touch:
  assumes "recent k t K m" "k' \<noteq> k"
  shows "recent k t (insert k' K) (touch k' now m)"
proof -
  from recent_delete [OF assms] obtain xs ys where
    "map_delete k' m = xs @ (k, t) # ys" "fst ` set ys \<subseteq> K" by (auto simp: recent_def)
  then have "touch k' now m = xs @ (k, t) # (ys @ [(k', now)])" "fst ` set (ys @ [(k', now)]) \<subseteq> insert k' K"
    by (auto simp: touch_eq)
  moreover have "distinct (map_keys (touch k' now m))"
    using assms(1) by (auto simp: recent_def intro: touch_distinct)
  ultimately show ?thesis by (intro recentI)
qed

lemma recent_prune:
  assumes "recent k t K m" "finite K" "int (card K) < maxSize c" "ttlMs c > 0 \<Longrightarrow> now - t \<le> ttlMs c"
  shows "recent k t K (prune_cache c now m)"
proof -
  from assms(1) obtain xs ys where m: "distinct (map_keys m)" "m = xs @ (k, t) # ys" "fst ` set ys \<subseteq> K"
    by (auto simp: recent_def)
  define P where "P = (\<lambda>(_ :: string, ts :: int). ttlMs c > 0 \<longrightarrow> \<not> ts < now - ttlMs c)"
  have p: "prune_cache c now m = drop (length (filter P m) - nat (maxSize c)) (filter P m)"
  proof -
    have "(if ttlMs c > 0 then filter (\<lambda>(_, ts). \<not> ts < now - ttlMs c) m else m) = filter P m"
      by (cases "ttlMs c > 0") (simp_all add: P_def)
    then show ?thesis by (simp only: prune_cache_eq [OF m(1)] Let_def)
  qed
  have f: "filter P m = filter P xs @ (k, t) # filter P ys"
    using m(2) assms(4) by (auto simp: P_def)
  have ys: "fst ` set (filter P ys) \<subseteq> K" using m(3) by auto
  have "distinct (map fst (filter P ys))" using m(1,2) by (auto simp: distinct_map_filter)
  then have "length (filter P ys) = card (fst ` set (filter P ys))"
    by (metis distinct_card length_map set_map)
  also have "\<dots> \<le> card K" using ys assms(2) by (rule card_mono [rotated])
  finally have "length (filter P m) - nat (maxSize c) \<le> length (filter P xs)"
    using assms(3) unfolding f by simp
  then have "prune_cache c now m = drop (length (filter P m) - nat (maxSize c)) (filter P xs) @ (k, t) # filter P ys"
    unfolding p by (subst f) simp
  moreover have "distinct (map_keys (prune_cache c now m))"
    unfolding p using m(1) by (simp add: distinct_map_filter distinct_drop flip: drop_map)
  ultimately show ?thesis using ys by (intro recentI)
qed

lemma recent_check:
  assumes "recent k t K m" "finite K" "int (card (insert k' K)) < maxSize c" "k' \<noteq> k" "k' \<noteq> []"
    and "ttlMs c > 0 \<Longrightarrow> now - t \<le> ttlMs c"
  shows "recent k t (insert k' K) (snd (check_key c (Some k') now m))"
proof -
  have prune: "recent k t (insert k' K) (prune_cache c now (touch k' now m'))" if "recent k t K m'" for m'
    using assms by (intro recent_prune recent_touch that) auto
  show ?thesis
    using assms(1,4,5) prune recent_touch recent_delete
    by (auto simp: check_key_def hasUnexpired_def falsy_key_def split: option.split)
qed

lemma recent_run:
  assumes "recent k t K m" "finite K"
    and "\<forall>(now, op) \<in> set later. (ttlMs c > 0 \<longrightarrow> now - t \<le> ttlMs c) \<and>
      (\<exists>k'. op = CheckKey (Some k') \<and> k' \<noteq> k \<and> k' \<noteq> [])"
    and "int (card (K \<union> {k'. CheckKey (Some k') \<in> snd ` set later})) < maxSize c"
  shows "\<exists>K'. recent k t K' (foldl (dedupe_step c) m later)"
  using assms
proof (induction later arbitrary: m K)
  case (Cons x later)
  obtain now k' where x: "x = (now, CheckKey (Some k'))" "k' \<noteq> k" "k' \<noteq> []"
    "ttlMs c > 0 \<longrightarrow> now - t \<le> ttlMs c"
    using Cons.prems(3) by (cases x) auto
  have all: "K \<union> {k'. CheckKey (Some k') \<in> snd ` set (x # later)} =
      insert k' K \<union> {k'. CheckKey (Some k') \<in> snd ` set later}" using x by auto
  have "finite {k'. CheckKey (Some k') \<in> snd ` set later}"
    by (rule finite_subset [of _ "(\<lambda>op. case op of CheckKey k \<Rightarrow> the k | _ \<Rightarrow> []) ` snd ` set later"])
       (force, simp)
  then have "card (insert k' K) \<le> card (insert k' K \<union> {k'. CheckKey (Some k') \<in> snd ` set later})"
    using Cons.prems(2) by (intro card_mono) auto
  then have "recent k t (insert k' K) (snd (check_key c (Some k') now m))"
    using Cons.prems x unfolding all by (intro recent_check) auto
  from Cons.IH [OF this] Cons.prems x show ?case unfolding all by simp
qed auto

text \<open>Least recently used is what is forgotten: once a key has been checked,
  a second check within the time to live reports a duplicate as long as fewer than \<open>maxSize\<close>
  distinct other keys were checked in between, however often.\<close>

theorem duplicate_caught:
  assumes "createDedupeCache ttl sz = (c, m)" "s = foldl (dedupe_step c) m earlier"
    and "k \<noteq> []" "ttlMs c > 0 \<Longrightarrow> t2 - t1 < ttlMs c"
    and "\<forall>(now, op) \<in> set later. now \<le> t2 \<and> (\<exists>k'. op = CheckKey (Some k') \<and> k' \<noteq> k \<and> k' \<noteq> [])"
    and "int (card {k'. CheckKey (Some k') \<in> snd ` set later}) < maxSize c"
  shows "fst (check_key c (Some k) t2 (foldl (dedupe_step c) (snd (check_key c (Some k) t1 s)) later))"
proof -
  have ok: "distinct (map_keys s)"
    using dedupe_machine.machine_run [OF created_ok [OF assms(1)]] assms(2) by (auto simp: cache_ok_def)
  have touched: "recent k t1 {} (touch k t1 m')" if "distinct (map_keys m')" for m'
    using touch_distinct [OF that, of k t1] by (rule recentI [of _ "map_delete k m'" _ _ "[]"]) (simp_all add: touch_eq)
  have "recent k t1 {} (prune_cache c t1 (touch k t1 m'))" if "distinct (map_keys m')" for m'
    using assms(6) by (intro recent_prune touched that) auto
  then have "recent k t1 {} (snd (check_key c (Some k) t1 s))"
    using assms(3) ok touched map_delete_distinct [OF ok]
    by (auto simp: check_key_def hasUnexpired_def falsy_key_def split: option.split)
  moreover have "\<forall>(now, op) \<in> set later. (ttlMs c > 0 \<longrightarrow> now - t1 \<le> ttlMs c) \<and>
      (\<exists>k'. op = CheckKey (Some k') \<and> k' \<noteq> k \<and> k' \<noteq> [])"
    using assms(4,5) by fastforce
  ultimately obtain K where "recent k t1 K (foldl (dedupe_step c) (snd (check_key c (Some k) t1 s)) later)"
    using recent_run [of k t1 "{}" _ later c] assms(6) by auto
  then obtain xs ys where r: "foldl (dedupe_step c) (snd (check_key c (Some k) t1 s)) later = xs @ (k, t1) # ys"
    "distinct (map_keys (xs @ (k, t1) # ys))" by (auto simp: recent_def)
  have "map_of (xs @ (k, t1) # ys) k = Some t1" 
    by (subst map_of_eq_Some_iff [OF r(2)]) simp
  then show ?thesis
    unfolding r(1) using assms(3,4) by (auto simp: check_key_def hasUnexpired_def falsy_key_def)
qed

section \<open>A concrete cache\<close>

definition sample_cache :: dedupe_config where
  "sample_cache = \<lparr>ttlMs = 1000, maxSize = 2\<rparr>"

lemma sample_cache_created: "createDedupeCache (Some 1000) (Some 2) = (sample_cache, [])"
  by (simp add: createDedupeCache_def sample_cache_def resolveNonNegativeIntegerOption_def
      resolveIntegerOption_def)

theorem dedupe_bounded_witness:
  "int (length (foldl (dedupe_step sample_cache) []
     [(1, CheckKey (Some ''a'')), (2, CheckKey (Some ''b'')), (3, CheckKey (Some ''c''))])) \<le> 2"
  using dedupe_bounded [OF sample_cache_created,
      of "[(1, CheckKey (Some ''a'')), (2, CheckKey (Some ''b'')), (3, CheckKey (Some ''c''))]"]
  by (simp add: sample_cache_def del: foldl.simps)

theorem no_false_duplicate_witness:
  "\<exists>t. (t, CheckKey (Some ''a'')) \<in> set [(1, CheckKey (Some ''a'')), (2, PeekKey (Some ''b''))] \<and> 500 - t < (1000 :: int)"
proof -
  have "fst (check_key sample_cache (Some ''a'') 500 (foldl (dedupe_step sample_cache) []
      [(1, CheckKey (Some ''a'')), (2, PeekKey (Some ''b''))]))"
    by code_simp
  from no_false_duplicate [OF sample_cache_created this] show ?thesis
    by (simp add: sample_cache_def)
qed

theorem duplicate_caught_witness:
  "fst (check_key sample_cache (Some ''a'') 900 (foldl (dedupe_step sample_cache)
     (snd (check_key sample_cache (Some ''a'') 100 [])) [(200, CheckKey (Some ''b'')), (300, CheckKey (Some ''b''))]))"
proof (rule duplicate_caught [OF sample_cache_created, of _ "[]"])
  have "{k'. CheckKey (Some k') \<in> snd ` set [(200 :: int, CheckKey (Some ''b'')), (300, CheckKey (Some ''b''))]} = {''b''}"
    by auto
  then show "int (card {k'. CheckKey (Some k') \<in>
      snd ` set [(200 :: int, CheckKey (Some ''b'')), (300, CheckKey (Some ''b''))]}) < maxSize sample_cache"
    by (simp only:) (simp add: sample_cache_def)
qed (simp_all add: sample_cache_def)

end
