(* ===== verification/RouteIds.thy ===== *)
theory RouteIds
  imports JsText
begin

text \<open>
  Identifiers of the router: account ids (\<^verbatim>\<open>src/src/routing/account-id.ts\<close>), agent ids
  and session keys (\<^verbatim>\<open>src/src/routing/session-key.ts\<close>, with the peer ids of
  \<^verbatim>\<open>src/src/sessions/session-key-utils.ts\<close>), chat types and binding scopes. The regular
  expressions become predicates on characters; the memo tables of the id normalisers are left
  out, because they store the result under the whole input.
\<close>

section \<open>Identifier characters\<close>

definition id_char :: "char \<Rightarrow> bool" where
  "id_char c \<longleftrightarrow> (let n = (of_char c :: nat) in
     (97 \<le> n \<and> n \<le> 122) \<or> (48 \<le> n \<and> n \<le> 57) \<or> n = 95 \<or> n = 45)"

definition alnum_char :: "char \<Rightarrow> bool" where
  "alnum_char c \<longleftrightarrow> (let n = (of_char c :: nat) in
     (97 \<le> n \<and> n \<le> 122) \<or> (65 \<le> n \<and> n \<le> 90) \<or> (48 \<le> n \<and> n \<le> 57))"

definition id_char_ci :: "char \<Rightarrow> bool" where
  "id_char_ci c \<longleftrightarrow> alnum_char c \<or> c = CHR ''_'' \<or> c = CHR ''-''"

text \<open>\<^verbatim>\<open>VALID_ID_RE\<close>: a letter or digit, then at most 63 identifier characters.\<close>

definition valid_id :: "string \<Rightarrow> bool" where
  "valid_id s \<longleftrightarrow> (case s of [] \<Rightarrow> False
     | c # cs \<Rightarrow> alnum_char c \<and> length cs \<le> 63 \<and> list_all id_char_ci cs)"

text \<open>\<^verbatim>\<open>INVALID_CHARS_RE\<close>: every run of invalid characters becomes one dash.\<close>

fun collapse_invalid :: "bool \<Rightarrow> string \<Rightarrow> string" where
  "collapse_invalid in_run [] = []"
| "collapse_invalid in_run (c # cs) =
     (if id_char c then c # collapse_invalid False cs
      else if in_run then collapse_invalid True cs
      else CHR ''-'' # collapse_invalid True cs)"

definition is_dash :: "char \<Rightarrow> bool" where
  "is_dash c \<longleftrightarrow> c = CHR ''-''"

definition strip_dashes :: "string \<Rightarrow> string" where
  "strip_dashes s = rev (dropWhile is_dash (rev (dropWhile is_dash s)))"

definition slug :: "string \<Rightarrow> string" where
  "slug normalized = take 64 (strip_dashes (collapse_invalid False normalized))"

section \<open>Account ids\<close>

definition DEFAULT_ACCOUNT_ID :: string where
  "DEFAULT_ACCOUNT_ID = ''default''"

definition isBlockedObjectKey :: "string \<Rightarrow> bool" where
  "isBlockedObjectKey key \<longleftrightarrow> key \<in> set [''__proto__'', ''prototype'', ''constructor'']"

definition canonicalizeAccountId :: "string \<Rightarrow> string" where
  "canonicalizeAccountId value =
     (let normalized = normalizeLowercaseStringOrEmpty (Some value)
      in if valid_id value then normalized else slug normalized)"

definition normalizeCanonicalAccountId :: "string \<Rightarrow> string option" where
  "normalizeCanonicalAccountId value =
     (let canonical = canonicalizeAccountId value
      in if canonical = [] \<or> isBlockedObjectKey canonical then None else Some canonical)"

definition normalizeAccountId :: "string option \<Rightarrow> string" where
  "normalizeAccountId value =
     (let trimmed = js_trim (case value of Some v \<Rightarrow> v | None \<Rightarrow> [])
      in if trimmed = [] then DEFAULT_ACCOUNT_ID
         else case normalizeCanonicalAccountId trimmed of Some a \<Rightarrow> a | None \<Rightarrow> DEFAULT_ACCOUNT_ID)"

definition normalizeOptionalAccountId :: "string option \<Rightarrow> string option" where
  "normalizeOptionalAccountId value =
     (let trimmed = js_trim (case value of Some v \<Rightarrow> v | None \<Rightarrow> [])
      in if trimmed = [] then None else normalizeCanonicalAccountId trimmed)"

section \<open>Agent ids\<close>

definition DEFAULT_AGENT_ID :: string where
  "DEFAULT_AGENT_ID = ''main''"

definition DEFAULT_MAIN_KEY :: string where
  "DEFAULT_MAIN_KEY = ''main''"

definition normalizeAgentId :: "string option \<Rightarrow> string" where
  "normalizeAgentId value =
     (let trimmed = js_trim (case value of Some v \<Rightarrow> v | None \<Rightarrow> []);
          normalized = normalizeLowercaseStringOrEmpty (Some trimmed)
      in if trimmed = [] then DEFAULT_AGENT_ID
         else if valid_id trimmed then normalized
         else if slug normalized = [] then DEFAULT_AGENT_ID else slug normalized)"

definition sanitizeAgentId :: "string option \<Rightarrow> string" where
  "sanitizeAgentId value = normalizeAgentId value"

definition isValidAgentId :: "string option \<Rightarrow> bool" where
  "isValidAgentId value \<longleftrightarrow>
     (let trimmed = js_trim (case value of Some v \<Rightarrow> v | None \<Rightarrow> []) in trimmed \<noteq> [] \<and> valid_id trimmed)"

definition normalizeMainKey :: "string option \<Rightarrow> string" where
  "normalizeMainKey value =
     (let n = normalizeLowercaseStringOrEmpty value in if n \<noteq> [] then n else DEFAULT_MAIN_KEY)"

section \<open>Chat types and binding scopes\<close>

datatype chat_type = DirectChat | GroupChat | ChannelChat

fun chat_type_name :: "chat_type \<Rightarrow> string" where
  "chat_type_name DirectChat = ''direct''"
| "chat_type_name GroupChat = ''group''"
| "chat_type_name ChannelChat = ''channel''"

definition normalizeChatType :: "string option \<Rightarrow> chat_type option" where
  "normalizeChatType raw = (case normalizeOptionalLowercaseString raw of
     None \<Rightarrow> None
   | Some v \<Rightarrow> if v = ''direct'' \<or> v = ''dm'' then Some DirectChat
               else if v = ''group'' then Some GroupChat
               else if v = ''channel'' then Some ChannelChat else None)"

definition peerKindMatches :: "chat_type \<Rightarrow> chat_type \<Rightarrow> bool" where
  "peerKindMatches bindingKind scopeKind \<longleftrightarrow> bindingKind = scopeKind \<or>
     (bindingKind = GroupChat \<and> scopeKind = ChannelChat) \<or>
     (bindingKind = ChannelChat \<and> scopeKind = GroupChat)"

definition normalizeRouteBindingId :: "string option \<Rightarrow> string" where
  "normalizeRouteBindingId value = (case value of Some v \<Rightarrow> js_trim v | None \<Rightarrow> [])"

definition normalizeRouteBindingRoles :: "string list option \<Rightarrow> string list option" where
  "normalizeRouteBindingRoles value = (case value of Some (r # rs) \<Rightarrow> Some (r # rs) | _ \<Rightarrow> None)"

text \<open>An absent or empty constraint is falsy and matches everything.\<close>

definition scopeIdMatches :: "string option \<Rightarrow> string \<Rightarrow> string \<Rightarrow> bool" where
  "scopeIdMatches constraint exact groupSpace \<longleftrightarrow>
     (case constraint of None \<Rightarrow> True | Some c \<Rightarrow> c = [] \<or> c = exact \<or> c = groupSpace)"

definition hasAnyRouteBindingRole :: "string list \<Rightarrow> string list option \<Rightarrow> bool" where
  "hasAnyRouteBindingRole roles memberRoleIds \<longleftrightarrow>
     (case memberRoleIds of None \<Rightarrow> False | Some ms \<Rightarrow> list_ex (\<lambda>r. r \<in> set ms) roles)"

definition routeBindingScopeMatches ::
    "string option \<Rightarrow> string option \<Rightarrow> string list option \<Rightarrow>
     string option \<Rightarrow> string option \<Rightarrow> string option \<Rightarrow> string list option \<Rightarrow> bool" where
  "routeBindingScopeMatches c_guild c_team c_roles guild team groupSpace memberRoleIds =
     (let guildId = normalizeRouteBindingId guild; teamId = normalizeRouteBindingId team;
          space = normalizeRouteBindingId groupSpace in
      if \<not> scopeIdMatches c_guild guildId space then False
      else if \<not> scopeIdMatches c_team teamId space then False
      else case normalizeRouteBindingRoles c_roles of
          None \<Rightarrow> True
        | Some roles \<Rightarrow> hasAnyRouteBindingRole roles memberRoleIds)"

section \<open>Session keys\<close>

datatype dm_scope = DmMain | PerPeer | PerChannelPeer | PerAccountChannelPeer

definition buildAgentMainSessionKey :: "string option \<Rightarrow> string option \<Rightarrow> string" where
  "buildAgentMainSessionKey agentId mainKey =
     ''agent:'' @ normalizeAgentId agentId @ '':'' @ normalizeMainKey mainKey"

text \<open>The registry \<^verbatim>\<open>CASE_PRESERVING_PEERS\<close>: a channel with its peer kinds, whether one
  segment or the whole tail of a key is preserved, and whether also without an owner.\<close>

datatype span_extent = Segment | Tail

record peer_descriptor =
  pd_channel :: string
  pd_peerKinds :: "string list"
  pd_span :: span_extent
  pd_unscoped :: bool

definition CASE_PRESERVING_PEERS :: "peer_descriptor list" where
  "CASE_PRESERVING_PEERS =
     [\<lparr>pd_channel = ''signal'', pd_peerKinds = [''group''], pd_span = Segment, pd_unscoped = True\<rparr>,
      \<lparr>pd_channel = ''matrix'', pd_peerKinds = [''channel'', ''group''], pd_span = Tail, pd_unscoped = True\<rparr>]"

definition findCasePreservingPeerDescriptor :: "string option \<Rightarrow> string option \<Rightarrow> peer_descriptor option" where
  "findCasePreservingPeerDescriptor channel peerKind =
     (let c = normalizeLowercaseStringOrEmpty channel; k = normalizeLowercaseStringOrEmpty peerKind
      in find (\<lambda>d. pd_channel d = c \<and> k \<in> set (pd_peerKinds d)) CASE_PRESERVING_PEERS)"

definition isCasePreservingPeer :: "string option \<Rightarrow> string option \<Rightarrow> bool" where
  "isCasePreservingPeer channel peerKind \<longleftrightarrow>
     findCasePreservingPeerDescriptor (Some (normalizeLowercaseStringOrEmpty channel))
       (Some (normalizeLowercaseStringOrEmpty peerKind)) \<noteq> None"

definition normalizeSessionPeerId :: "string option \<Rightarrow> string option \<Rightarrow> string option \<Rightarrow> string" where
  "normalizeSessionPeerId channel peerKind peerId =
     (let p = js_trim (case peerId of Some v \<Rightarrow> v | None \<Rightarrow> [])
      in if p = [] then []
         else if isCasePreservingPeer channel peerKind then p
         else normalizeLowercaseStringOrEmpty (Some p))"

definition linked_candidates :: "string \<Rightarrow> string \<Rightarrow> string list" where
  "linked_candidates channel peerId =
     (let raw = normalizeLowercaseStringOrEmpty (Some peerId);
          c = normalizeLowercaseStringOrEmpty (Some channel);
          scoped = normalizeLowercaseStringOrEmpty (Some (c @ '':'' @ peerId))
      in (if raw \<noteq> [] then [raw] else []) @ (if c \<noteq> [] \<and> scoped \<noteq> [] then [scoped] else []))"

definition resolveLinkedPeerId ::
    "(string \<times> string list) list option \<Rightarrow> string \<Rightarrow> string \<Rightarrow> string option" where
  "resolveLinkedPeerId identityLinks channel rawPeerId = (case identityLinks of
     None \<Rightarrow> None
   | Some links \<Rightarrow>
      let peerId = js_trim rawPeerId; candidates = linked_candidates channel peerId in
      if peerId = [] \<or> candidates = [] then None
      else map_option (\<lambda>(canonical, _). js_trim canonical)
        (find (\<lambda>(canonical, ids). js_trim canonical \<noteq> [] \<and>
           list_ex (\<lambda>i. let n = normalizeLowercaseStringOrEmpty (Some i) in n \<noteq> [] \<and> n \<in> set candidates) ids)
         links))"

definition or_unknown :: "string \<Rightarrow> string" where
  "or_unknown s = (if s \<noteq> [] then s else ''unknown'')"

definition buildAgentPeerSessionKey ::
    "string \<Rightarrow> string option \<Rightarrow> string \<Rightarrow> string option \<Rightarrow> chat_type option \<Rightarrow> string option \<Rightarrow>
     (string \<times> string list) list option \<Rightarrow> dm_scope option \<Rightarrow> string" where
  "buildAgentPeerSessionKey agentId mainKey channel accountId peerKind peerId identityLinks dmScope =
     (let kind = (case peerKind of Some k \<Rightarrow> k | None \<Rightarrow> DirectChat);
          ch = or_unknown (normalizeLowercaseStringOrEmpty (Some channel));
          agent = ''agent:'' @ normalizeAgentId (Some agentId)
      in if kind = DirectChat then
           let scope = (case dmScope of Some d \<Rightarrow> d | None \<Rightarrow> DmMain);
               raw = js_trim (case peerId of Some v \<Rightarrow> v | None \<Rightarrow> []);
               linked = (if scope = DmMain then None else resolveLinkedPeerId identityLinks channel raw);
               peer = normalizeLowercaseStringOrEmpty (Some
                 (case linked of Some l \<Rightarrow> if l \<noteq> [] then l else raw | None \<Rightarrow> raw))
           in if scope = PerAccountChannelPeer \<and> peer \<noteq> [] then
                agent @ '':'' @ ch @ '':'' @ normalizeAccountId accountId @ '':direct:'' @ peer
              else if scope = PerChannelPeer \<and> peer \<noteq> [] then
                agent @ '':'' @ ch @ '':direct:'' @ peer
              else if scope = PerPeer \<and> peer \<noteq> [] then
                agent @ '':direct:'' @ peer
              else buildAgentMainSessionKey (Some agentId) mainKey
         else
           agent @ '':'' @ ch @ '':'' @ chat_type_name kind @ '':'' @
             or_unknown (normalizeSessionPeerId (Some channel) (Some (chat_type_name kind)) peerId))"

definition buildGroupHistoryKey :: "string \<Rightarrow> string option \<Rightarrow> chat_type \<Rightarrow> string \<Rightarrow> string" where
  "buildGroupHistoryKey channel accountId peerKind peerId =
     (let ch = or_unknown (normalizeLowercaseStringOrEmpty (Some channel)) in
      ch @ '':'' @ normalizeAccountId accountId @ '':'' @ chat_type_name peerKind @ '':'' @
        or_unknown (normalizeSessionPeerId (Some ch) (Some (chat_type_name peerKind)) (Some peerId)))"

text \<open>\<open>normalizeThreadId\<close> is the optional hook of a channel; the parent key passes through.\<close>

definition resolveThreadSessionKeys ::
    "string \<Rightarrow> string option \<Rightarrow> string option \<Rightarrow> bool option \<Rightarrow> (string \<Rightarrow> string) option \<Rightarrow>
     string \<times> string option" where
  "resolveThreadSessionKeys baseKey threadId parentKey useSuffix normalizeThreadId =
     (let t = js_trim (case threadId of Some v \<Rightarrow> v | None \<Rightarrow> []) in
      if t = [] then (baseKey, None)
      else
        let nt = (case normalizeThreadId of Some f \<Rightarrow> f t
                  | None \<Rightarrow> normalizeLowercaseStringOrEmpty (Some t))
        in (if useSuffix \<noteq> Some False then baseKey @ '':thread:'' @ nt else baseKey, parentKey))"

section \<open>Identifiers are safe\<close>

lemma id_char_dash: "id_char CHR ''-''"
  by (simp add: id_char_def)

lemma collapse_id_chars: "list_all id_char (collapse_invalid b s)"
  by (induction b s rule: collapse_invalid.induct) (auto simp: id_char_dash)

lemma list_all_dropWhile: "list_all P xs \<Longrightarrow> list_all P (dropWhile Q xs)"
  by (auto simp: list_all_iff dest: set_dropWhileD)

lemma slug_id_chars: "list_all id_char (slug s)"
  using collapse_id_chars [of False s]
  by (auto simp: slug_def strip_dashes_def list_all_iff dest!: in_set_takeD set_dropWhileD)

lemma slug_length: "length (slug s) \<le> 64"
  by (simp add: slug_def)

lemma lower_id_char: "id_char_ci c \<Longrightarrow> id_char (lower_char c)"
  by (auto simp: id_char_ci_def alnum_char_def id_char_def lower_char_def Let_def)

lemma valid_id_lower:
  assumes "valid_id s"
  shows "list_all id_char (js_lower s)" "length s \<le> 64" "s \<noteq> []"
proof -
  from assms obtain c cs where s: "s = c # cs" "alnum_char c" "length cs \<le> 63" "list_all id_char_ci cs"
    by (auto simp: valid_id_def split: list.splits)
  then have "list_all id_char_ci s" by (simp add: id_char_ci_def)
  then show "list_all id_char (js_lower s)"
    by (auto simp: js_lower_def list_all_iff lower_id_char)
  show "length s \<le> 64" "s \<noteq> []" using s by auto
qed

text \<open>An identifier that may stand in a session key.\<close>

definition safe_id :: "string \<Rightarrow> bool" where
  "safe_id s \<longleftrightarrow> s \<noteq> [] \<and> length s \<le> 64 \<and> list_all id_char s"

lemma safe_id_no_colon: "safe_id s \<Longrightarrow> CHR '':'' \<notin> set s"
  by (auto simp: safe_id_def list_all_iff id_char_def)

lemma slug_safe: "slug s \<noteq> [] \<Longrightarrow> safe_id (slug s)"
  using slug_id_chars slug_length by (simp add: safe_id_def)

lemma valid_safe:
  assumes "valid_id (js_trim s)"
  shows "safe_id (normalizeLowercaseStringOrEmpty (Some (js_trim s)))"
  using valid_id_lower [OF assms] 
  by (simp add: safe_id_def normalizeLowercaseStringOrEmpty_Some js_trim_idem js_lower_def)

lemma agent_id_safe: "safe_id (normalizeAgentId value)"
proof -
  have main: "safe_id DEFAULT_AGENT_ID" by code_simp
  show ?thesis
    using main valid_safe slug_safe
    by (auto simp: normalizeAgentId_def Let_def split: option.splits)
qed

lemma account_id_safe: "safe_id (normalizeAccountId value)"
proof -
  have def: "safe_id DEFAULT_ACCOUNT_ID" by code_simp
  have "safe_id a" if "normalizeCanonicalAccountId (js_trim s) = Some a" for s a
    using that valid_safe [of s] slug_safe
    by (auto simp: normalizeCanonicalAccountId_def canonicalizeAccountId_def Let_def split: if_splits)
  with def show ?thesis by (auto simp: normalizeAccountId_def Let_def split: option.splits)
qed

lemma account_id_not_blocked: "\<not> isBlockedObjectKey (normalizeAccountId value)"
  by (auto simp: normalizeAccountId_def normalizeCanonicalAccountId_def Let_def DEFAULT_ACCOUNT_ID_def
      isBlockedObjectKey_def split: option.splits if_splits)

section \<open>What a session key tells\<close>

lemma split_at_colon:
  assumes "CHR '':'' \<notin> set a" "CHR '':'' \<notin> set b" "a @ CHR '':'' # x = b @ CHR '':'' # y"
  shows "a = b \<and> x = y"
proof -
  have "takeWhile (\<lambda>c. c \<noteq> CHR '':'') (u @ CHR '':'' # v) = u" if "CHR '':'' \<notin> set u" for u v
    using that by (induction u) auto
  with assms show ?thesis by (metis same_append_eq list.inject)
qed

text \<open>C40: A session key says whose it is: whatever ids, scopes and links go
  in, the key starts with \<open>agent:\<close>, the segment after it is the normalised agent id, and that
  id is safe: not empty, at most 64 characters, only lower-case letters, digits, dashes and
  underscores.\<close>

theorem session_key_names_agent:
  "take 6 (buildAgentPeerSessionKey agentId mainKey channel accountId kind peer links scope) = ''agent:'' \<and>
   takeWhile (\<lambda>c. c \<noteq> CHR '':'') (drop 6 (buildAgentPeerSessionKey agentId mainKey channel accountId kind peer links scope))
     = normalizeAgentId (Some agentId) \<and> safe_id (normalizeAgentId (Some agentId))"
proof -
  have tw: "takeWhile (\<lambda>c. c \<noteq> CHR '':'') (a @ CHR '':'' # r) = a" if "safe_id a" for a r
    using safe_id_no_colon [OF that] by (induction a) auto
  have "\<exists>r. buildAgentPeerSessionKey agentId mainKey channel accountId kind peer links scope =
      ''agent:'' @ normalizeAgentId (Some agentId) @ CHR '':'' # r"
    by (auto simp: buildAgentPeerSessionKey_def buildAgentMainSessionKey_def Let_def)
  then obtain r where "buildAgentPeerSessionKey agentId mainKey channel accountId kind peer links scope =
      ''agent:'' @ normalizeAgentId (Some agentId) @ CHR '':'' # r" ..
  then show ?thesis using agent_id_safe [of "Some agentId"] by (simp add: tw)
qed

text \<open>C33: Under the scope per account, channel and peer, two direct messages from
  peers whose ids are not blank and that no identity link replaces, over channels whose names
  contain no colon, share a session only if they reach the same agent over the same channel and
  account from the same peer, where agent, channel and account are compared as normalised ids and
  the peer ids after trimming and up to letter case: the people and the accounts told apart by
  these ids are not folded into one conversation.\<close>

theorem dm_sessions_isolated:
  assumes "buildAgentPeerSessionKey a1 mk1 c1 acc1 (Some DirectChat) (Some p1) links (Some PerAccountChannelPeer) =
      buildAgentPeerSessionKey a2 mk2 c2 acc2 (Some DirectChat) (Some p2) links (Some PerAccountChannelPeer)"
    and "js_trim p1 \<noteq> []" "js_trim p2 \<noteq> []" "CHR '':'' \<notin> set c1" "CHR '':'' \<notin> set c2"
    and "resolveLinkedPeerId links c1 (js_trim p1) = None" "resolveLinkedPeerId links c2 (js_trim p2) = None"
  shows "normalizeAgentId (Some a1) = normalizeAgentId (Some a2) \<and>
    or_unknown (normalizeLowercaseStringOrEmpty (Some c1)) = or_unknown (normalizeLowercaseStringOrEmpty (Some c2)) \<and>
    normalizeAccountId acc1 = normalizeAccountId acc2 \<and> js_lower (js_trim p1) = js_lower (js_trim p2)"
proof -
  let ?ch = "\<lambda>c. or_unknown (normalizeLowercaseStringOrEmpty (Some c))"
  have lower: "lower_char x \<noteq> CHR '':''" if "x \<noteq> CHR '':''" for x
  proof
    assume "lower_char x = CHR '':''"
    then have "(of_char (lower_char x) :: nat) = 58" by simp
    with that show False
      by (auto simp: lower_char_def Let_def of_char_of split: if_splits)
         (use \<open>lower_char x = CHR '':''\<close> in \<open>auto simp: lower_char_def Let_def\<close>)
  qed
  have ch: "CHR '':'' \<notin> set (?ch c)" if "CHR '':'' \<notin> set c" for c
  proof -
    have "CHR '':'' \<notin> set (js_trim c)"
      using that by (auto simp: js_trim_def dest!: set_dropWhileD)
    then have "CHR '':'' \<notin> set (js_lower (js_trim c))" using lower by (force simp: js_lower_def)
    then show ?thesis by (simp add: or_unknown_def normalizeLowercaseStringOrEmpty_Some)
  qed
  have key: "buildAgentPeerSessionKey a mk c acc (Some DirectChat) (Some p) links (Some PerAccountChannelPeer) =
      ''agent:'' @ normalizeAgentId (Some a) @ CHR '':'' # ?ch c @ CHR '':'' # normalizeAccountId acc @
        CHR '':'' # ''direct:'' @ js_lower (js_trim p)" if "js_trim p \<noteq> []" "resolveLinkedPeerId links c (js_trim p) = None" for a mk c acc p
    using that
    by (simp add: buildAgentPeerSessionKey_def Let_def
        normalizeLowercaseStringOrEmpty_Some js_trim_idem js_lower_def)
  note no_colon = safe_id_no_colon [OF agent_id_safe] safe_id_no_colon [OF account_id_safe] ch
  from assms(1) have "normalizeAgentId (Some a1) @ CHR '':'' # ?ch c1 @ CHR '':'' # normalizeAccountId acc1 @
        CHR '':'' # ''direct:'' @ js_lower (js_trim p1) =
      normalizeAgentId (Some a2) @ CHR '':'' # ?ch c2 @ CHR '':'' # normalizeAccountId acc2 @
        CHR '':'' # ''direct:'' @ js_lower (js_trim p2)"
    unfolding key [OF assms(2,6)] key [OF assms(3,7)] by simp
  from split_at_colon [OF no_colon(1,1) this] have ag: "normalizeAgentId (Some a1) = normalizeAgentId (Some a2)"
    and r1: "?ch c1 @ CHR '':'' # normalizeAccountId acc1 @ CHR '':'' # ''direct:'' @ js_lower (js_trim p1) =
      ?ch c2 @ CHR '':'' # normalizeAccountId acc2 @ CHR '':'' # ''direct:'' @ js_lower (js_trim p2)"
    by blast+
  from split_at_colon [OF ch [OF assms(4)] ch [OF assms(5)] r1] have c: "?ch c1 = ?ch c2"
    and r2: "normalizeAccountId acc1 @ CHR '':'' # ''direct:'' @ js_lower (js_trim p1) =
      normalizeAccountId acc2 @ CHR '':'' # ''direct:'' @ js_lower (js_trim p2)"
    by blast+
  from split_at_colon [OF no_colon(2,2) r2] ag c show ?thesis by simp
qed

theorem dm_sessions_isolated_witness:
  "normalizeAccountId (Some ''Work'') = normalizeAccountId (Some '' work'') \<and>
   js_lower (js_trim '' Ann'') = js_lower (js_trim ''ann'')"
proof -
  have "buildAgentPeerSessionKey ''ops'' None ''Slack'' (Some ''Work'') (Some DirectChat) (Some '' Ann'') None (Some PerAccountChannelPeer) =
      buildAgentPeerSessionKey ''Ops'' None ''slack'' (Some '' work'') (Some DirectChat) (Some ''ann'') None (Some PerAccountChannelPeer)"
    by code_simp
  moreover have "js_trim '' Ann'' \<noteq> []" "js_trim ''ann'' \<noteq> []" by code_simp+
  ultimately show ?thesis by (auto dest!: dm_sessions_isolated simp: resolveLinkedPeerId_def)
qed

end
