(* ===== verification/RouteResolve.thy ===== *)
theory RouteResolve
  imports RouteIds
begin

text \<open>
  The agent router of \<^verbatim>\<open>src/src/routing/resolve-route.ts\<close>: bindings of the configuration
  are grouped by channel and account, indexed by what they constrain, and the route of an inbound
  message is the first match of the most specific tier. The memo tables on the configuration
  object are left out here; the one whose key does not determine its value, the table of resolved
  routes, is the subject of \<^verbatim>\<open>RouteCache\<close>.
\<close>

section \<open>Configuration and inputs\<close>

record raw_peer =
  rp_kind :: "string option"
  rp_id :: "string option"

record route_binding =
  b_isAcp :: bool
  b_agentId :: string
  b_channel :: "string option"
  b_accountId :: "string option"
  b_peer :: "raw_peer option"
  b_guildId :: "string option"
  b_teamId :: "string option"
  b_roles :: "string list option"
  b_dmScope :: "dm_scope option"

record agent_entry =
  ag_id :: string
  ag_default :: bool

record route_config =
  cfg_agents :: "agent_entry list"
  cfg_bindings :: "route_binding list"
  cfg_mainKey :: "string option"
  cfg_dmScope :: "dm_scope option"
  cfg_identityLinks :: "(string \<times> string list) list option"

record route_peer =
  peer_kind :: chat_type
  peer_id :: string

record route_input =
  ri_channel :: string
  ri_accountId :: "string option"
  ri_peer :: "route_peer option"
  ri_parentPeer :: "route_peer option"
  ri_guildId :: "string option"
  ri_teamId :: "string option"
  ri_memberRoleIds :: "string list option"

datatype matched_by =
    ByPeer | ByParent | ByWildcard | ByGuildRoles | ByGuild | ByTeam | ByAccount | ByChannel | ByDefault

datatype last_route_policy = LastMain | LastSession

record agent_route =
  route_agentId :: string
  route_channel :: string
  route_accountId :: string
  route_dmScope :: dm_scope
  route_sessionKey :: string
  route_mainSessionKey :: string
  route_lastRoutePolicy :: last_route_policy
  route_matchedBy :: matched_by

definition listBindings :: "route_config \<Rightarrow> route_binding list" where
  "listBindings cfg = filter (\<lambda>b. \<not> b_isAcp b) (cfg_bindings cfg)"

definition normalizeToken :: "string option \<Rightarrow> string" where
  "normalizeToken value = normalizeLowercaseStringOrEmpty value"

definition normalizeId :: "string option \<Rightarrow> string" where
  "normalizeId value = normalizeRouteBindingId value"

definition deriveLastRoutePolicy :: "string \<Rightarrow> string \<Rightarrow> last_route_policy" where
  "deriveLastRoutePolicy sessionKey mainSessionKey =
     (if sessionKey = mainSessionKey then LastMain else LastSession)"

definition resolveInboundLastRouteSessionKey :: "agent_route \<Rightarrow> string \<Rightarrow> string" where
  "resolveInboundLastRouteSessionKey route sessionKey =
     (if route_lastRoutePolicy route = LastMain then route_mainSessionKey route else sessionKey)"

definition buildAgentSessionKey ::
    "string \<Rightarrow> string option \<Rightarrow> string \<Rightarrow> string option \<Rightarrow> route_peer option \<Rightarrow> dm_scope option \<Rightarrow>
     (string \<times> string list) list option \<Rightarrow> string" where
  "buildAgentSessionKey agentId mainKey channel accountId peer dmScope identityLinks =
     buildAgentPeerSessionKey agentId
       (Some (case mainKey of Some k \<Rightarrow> k | None \<Rightarrow> DEFAULT_MAIN_KEY))
       (or_unknown (normalizeToken (Some channel))) accountId
       (Some (case peer of Some p \<Rightarrow> peer_kind p | None \<Rightarrow> DirectChat))
       (map_option (\<lambda>p. or_unknown (normalizeId (Some (peer_id p)))) peer)
       identityLinks dmScope"

section \<open>Agents\<close>

definition resolveDefaultAgentId :: "route_config \<Rightarrow> string" where
  "resolveDefaultAgentId cfg = (case cfg_agents cfg of
     [] \<Rightarrow> DEFAULT_AGENT_ID
   | first # _ \<Rightarrow>
      let chosen = js_trim (ag_id (case filter ag_default (cfg_agents cfg) of
            d # _ \<Rightarrow> d | [] \<Rightarrow> first))
      in normalizeAgentId (Some (if chosen \<noteq> [] then chosen else DEFAULT_AGENT_ID)))"

definition agents_by_normalized_id :: "route_config \<Rightarrow> (string, string) js_map" where
  "agents_by_normalized_id cfg = fold (\<lambda>agent m.
     let rawId = js_trim (ag_id agent) in
     if rawId = [] then m
     else map_set (normalizeAgentId (Some rawId)) (sanitizeAgentId (Some rawId)) m) (cfg_agents cfg) []"

definition pickFirstExistingAgentId :: "route_config \<Rightarrow> string \<Rightarrow> string" where
  "pickFirstExistingAgentId cfg agentId =
     (let fallback = sanitizeAgentId (Some (resolveDefaultAgentId cfg));
          trimmed = js_trim agentId;
          byId = agents_by_normalized_id cfg
      in if trimmed = [] then fallback
         else if length byId = 0 then sanitizeAgentId (Some trimmed)
         else case map_of byId (normalizeAgentId (Some trimmed)) of
             Some r \<Rightarrow> if r \<noteq> [] then r else fallback
           | None \<Rightarrow> fallback)"

section \<open>Bindings\<close>

datatype peer_constraint = PeerNone | PeerInvalid | PeerWildcard chat_type | PeerValid chat_type string

record binding_match =
  accountPattern :: string
  match_peer :: peer_constraint
  match_guildId :: "string option"
  match_teamId :: "string option"
  match_roles :: "string list option"

record evaluated_binding =
  eb_binding :: route_binding
  eb_match :: binding_match
  eb_order :: nat

definition resolveAccountPatternKey :: "string \<Rightarrow> string" where
  "resolveAccountPatternKey p = (if js_trim p = [] then DEFAULT_ACCOUNT_ID else normalizeAccountId (Some p))"

definition or_null :: "string \<Rightarrow> string option" where
  "or_null s = (if s \<noteq> [] then Some s else None)"

definition normalizePeerConstraint :: "raw_peer option \<Rightarrow> peer_constraint" where
  "normalizePeerConstraint peer = (case peer of
     None \<Rightarrow> PeerNone
   | Some p \<Rightarrow>
      let i = normalizeId (rp_id p) in
      case normalizeChatType (rp_kind p) of
        None \<Rightarrow> PeerInvalid
      | Some kind \<Rightarrow> if i = [] then PeerInvalid
                     else if i = ''*'' then PeerWildcard kind else PeerValid kind i)"

definition normalizeBindingMatch :: "route_binding \<Rightarrow> binding_match" where
  "normalizeBindingMatch b =
     \<lparr>accountPattern = js_trim (case b_accountId b of Some a \<Rightarrow> a | None \<Rightarrow> []),
      match_peer = normalizePeerConstraint (b_peer b),
      match_guildId = or_null (normalizeId (b_guildId b)),
      match_teamId = or_null (normalizeId (b_teamId b)),
      match_roles = normalizeRouteBindingRoles (b_roles b)\<rparr>"

record channel_bindings =
  byAccount :: "(string, evaluated_binding list) js_map"
  byAnyAccount :: "evaluated_binding list"

text \<open>One round of the loop of \<^verbatim>\<open>buildEvaluatedBindingsByChannel\<close>.\<close>

definition add_binding ::
    "route_binding \<Rightarrow> nat \<times> (string, channel_bindings) js_map \<Rightarrow> nat \<times> (string, channel_bindings) js_map" where
  "add_binding b acc =
     (let (order, m) = acc; channel = normalizeToken (b_channel b) in
      if channel = [] then acc
      else
        let ev = \<lparr>eb_binding = b, eb_match = normalizeBindingMatch b, eb_order = order\<rparr>;
            bucket = (case map_of m channel of Some k \<Rightarrow> k | None \<Rightarrow> \<lparr>byAccount = [], byAnyAccount = []\<rparr>);
            pattern = accountPattern (eb_match ev);
            bucket1 = (if pattern = ''*'' then bucket\<lparr>byAnyAccount := byAnyAccount bucket @ [ev]\<rparr>
              else
                let key = resolveAccountPatternKey pattern;
                    old = (case map_of (byAccount bucket) key of Some l \<Rightarrow> l | None \<Rightarrow> [])
                in bucket\<lparr>byAccount := map_set key (old @ [ev]) (byAccount bucket)\<rparr>)
        in (Suc order, map_set channel bucket1 m))"

definition buildEvaluatedBindingsByChannel :: "route_config \<Rightarrow> (string, channel_bindings) js_map" where
  "buildEvaluatedBindingsByChannel cfg = snd (fold add_binding (listBindings cfg) (0, []))"

fun merge_by_order :: "evaluated_binding list \<Rightarrow> evaluated_binding list \<Rightarrow> evaluated_binding list" where
  "merge_by_order [] ys = ys"
| "merge_by_order xs [] = xs"
| "merge_by_order (x # xs) (y # ys) =
     (if eb_order x \<le> eb_order y then x # merge_by_order xs (y # ys)
      else y # merge_by_order (x # xs) ys)"

definition mergeEvaluatedBindingsInSourceOrder ::
    "evaluated_binding list \<Rightarrow> evaluated_binding list \<Rightarrow> evaluated_binding list" where
  "mergeEvaluatedBindingsInSourceOrder accountScoped anyAccount =
     (if length accountScoped = 0 then anyAccount
      else if length anyAccount = 0 then accountScoped
      else merge_by_order accountScoped anyAccount)"

definition getEvaluatedBindingsForChannelAccount ::
    "route_config \<Rightarrow> string \<Rightarrow> string \<Rightarrow> evaluated_binding list" where
  "getEvaluatedBindingsForChannelAccount cfg channel accountId =
     (case map_of (buildEvaluatedBindingsByChannel cfg) channel of
        None \<Rightarrow> mergeEvaluatedBindingsInSourceOrder [] []
      | Some b \<Rightarrow> mergeEvaluatedBindingsInSourceOrder
          (case map_of (byAccount b) accountId of Some l \<Rightarrow> l | None \<Rightarrow> []) (byAnyAccount b))"

section \<open>The index\<close>

record bindings_index =
  ix_byPeer :: "(string, evaluated_binding list) js_map"
  ix_byPeerWildcard :: "evaluated_binding list"
  ix_byGuildWithRoles :: "(string, evaluated_binding list) js_map"
  ix_byGuild :: "(string, evaluated_binding list) js_map"
  ix_byTeam :: "(string, evaluated_binding list) js_map"
  ix_byAccount :: "evaluated_binding list"
  ix_byChannel :: "evaluated_binding list"

definition pushToIndexMap ::
    "string option \<Rightarrow> evaluated_binding \<Rightarrow> (string, evaluated_binding list) js_map \<Rightarrow>
     (string, evaluated_binding list) js_map" where
  "pushToIndexMap key b m = (case key of
     None \<Rightarrow> m
   | Some k \<Rightarrow> if k = [] then m
      else map_set k ((case map_of m k of Some l \<Rightarrow> l | None \<Rightarrow> []) @ [b]) m)"

definition peerLookupKeys :: "chat_type \<Rightarrow> string \<Rightarrow> string list" where
  "peerLookupKeys kind i = (case kind of
     GroupChat \<Rightarrow> [''group:'' @ i, ''channel:'' @ i]
   | ChannelChat \<Rightarrow> [''channel:'' @ i, ''group:'' @ i]
   | DirectChat \<Rightarrow> [chat_type_name kind @ '':'' @ i])"

definition collectPeerIndexedBindings :: "bindings_index \<Rightarrow> route_peer option \<Rightarrow> evaluated_binding list" where
  "collectPeerIndexedBindings index peer = (case peer of
     None \<Rightarrow> []
   | Some p \<Rightarrow> fold (\<lambda>key out. fold set_add
        (case map_of (ix_byPeer index) key of Some l \<Rightarrow> l | None \<Rightarrow> []) out)
        (peerLookupKeys (peer_kind p) (peer_id p)) [])"

definition index_binding :: "evaluated_binding \<Rightarrow> bindings_index \<Rightarrow> bindings_index" where
  "index_binding b ix = (let m = eb_match b in
     case match_peer m of
       PeerValid kind i \<Rightarrow> ix\<lparr>ix_byPeer := fold (\<lambda>key. pushToIndexMap (Some key) b) (peerLookupKeys kind i) (ix_byPeer ix)\<rparr>
     | PeerWildcard _ \<Rightarrow> ix\<lparr>ix_byPeerWildcard := ix_byPeerWildcard ix @ [b]\<rparr>
     | _ \<Rightarrow>
        if match_guildId m \<noteq> None \<and> match_roles m \<noteq> None then
          ix\<lparr>ix_byGuildWithRoles := pushToIndexMap (match_guildId m) b (ix_byGuildWithRoles ix)\<rparr>
        else if match_guildId m \<noteq> None \<and> match_roles m = None then
          ix\<lparr>ix_byGuild := pushToIndexMap (match_guildId m) b (ix_byGuild ix)\<rparr>
        else if match_teamId m \<noteq> None then
          ix\<lparr>ix_byTeam := pushToIndexMap (match_teamId m) b (ix_byTeam ix)\<rparr>
        else if accountPattern m \<noteq> ''*'' then ix\<lparr>ix_byAccount := ix_byAccount ix @ [b]\<rparr>
        else ix\<lparr>ix_byChannel := ix_byChannel ix @ [b]\<rparr>)"

definition empty_index :: bindings_index where
  "empty_index = \<lparr>ix_byPeer = [], ix_byPeerWildcard = [], ix_byGuildWithRoles = [], ix_byGuild = [],
     ix_byTeam = [], ix_byAccount = [], ix_byChannel = []\<rparr>"

definition buildEvaluatedBindingsIndex :: "evaluated_binding list \<Rightarrow> bindings_index" where
  "buildEvaluatedBindingsIndex bs = fold index_binding bs empty_index"

section \<open>Resolution\<close>

record scope_base =
  sc_guildId :: string
  sc_teamId :: string
  sc_memberRoleIds :: "string list"

definition matchesBindingScope :: "binding_match \<Rightarrow> route_peer option \<Rightarrow> scope_base \<Rightarrow> bool" where
  "matchesBindingScope m peer scope =
     (let rest = routeBindingScopeMatches (match_guildId m) (match_teamId m) (match_roles m)
            (Some (sc_guildId scope)) (Some (sc_teamId scope)) None (Some (sc_memberRoleIds scope))
      in case match_peer m of
           PeerInvalid \<Rightarrow> False
         | PeerValid kind i \<Rightarrow> (case peer of None \<Rightarrow> False
             | Some p \<Rightarrow> peerKindMatches kind (peer_kind p) \<and> peer_id p = i \<and> rest)
         | PeerWildcard kind \<Rightarrow> (case peer of None \<Rightarrow> False
             | Some p \<Rightarrow> peerKindMatches kind (peer_kind p) \<and> rest)
         | PeerNone \<Rightarrow> rest)"

definition hasGuildConstraint :: "binding_match \<Rightarrow> bool" where
  "hasGuildConstraint m \<longleftrightarrow> match_guildId m \<noteq> None \<and> match_guildId m \<noteq> Some []"

definition hasTeamConstraint :: "binding_match \<Rightarrow> bool" where
  "hasTeamConstraint m \<longleftrightarrow> match_teamId m \<noteq> None \<and> match_teamId m \<noteq> Some []"

definition hasRolesConstraint :: "binding_match \<Rightarrow> bool" where
  "hasRolesConstraint m \<longleftrightarrow> match_roles m \<noteq> None"

definition is_valid_peer :: "binding_match \<Rightarrow> bool" where
  "is_valid_peer m \<longleftrightarrow> (case match_peer m of PeerValid _ _ \<Rightarrow> True | _ \<Rightarrow> False)"

definition is_wildcard_peer :: "binding_match \<Rightarrow> bool" where
  "is_wildcard_peer m \<longleftrightarrow> (case match_peer m of PeerWildcard _ \<Rightarrow> True | _ \<Rightarrow> False)"

record tier =
  tier_matchedBy :: matched_by
  tier_enabled :: bool
  tier_scopePeer :: "route_peer option"
  tier_candidates :: "evaluated_binding list"
  tier_predicate :: "evaluated_binding \<Rightarrow> bool"

definition lookup_list :: "(string, evaluated_binding list) js_map \<Rightarrow> string \<Rightarrow> evaluated_binding list" where
  "lookup_list m k = (case map_of m k of Some l \<Rightarrow> l | None \<Rightarrow> [])"

definition route_tiers ::
    "bindings_index \<Rightarrow> route_peer option \<Rightarrow> route_peer option \<Rightarrow> scope_base \<Rightarrow> tier list" where
  "route_tiers ix peer parentPeer scope =
     (let guildId = sc_guildId scope; teamId = sc_teamId scope;
          parent = (case parentPeer of Some p \<Rightarrow> if peer_id p \<noteq> [] then Some p else None | None \<Rightarrow> None)
      in [\<lparr>tier_matchedBy = ByPeer, tier_enabled = (peer \<noteq> None), tier_scopePeer = peer,
           tier_candidates = collectPeerIndexedBindings ix peer,
           tier_predicate = (\<lambda>c. is_valid_peer (eb_match c))\<rparr>,
          \<lparr>tier_matchedBy = ByParent, tier_enabled = (parent \<noteq> None), tier_scopePeer = parent,
           tier_candidates = collectPeerIndexedBindings ix parentPeer,
           tier_predicate = (\<lambda>c. is_valid_peer (eb_match c))\<rparr>,
          \<lparr>tier_matchedBy = ByWildcard, tier_enabled = (peer \<noteq> None), tier_scopePeer = peer,
           tier_candidates = ix_byPeerWildcard ix,
           tier_predicate = (\<lambda>c. is_wildcard_peer (eb_match c))\<rparr>,
          \<lparr>tier_matchedBy = ByGuildRoles,
           tier_enabled = (guildId \<noteq> [] \<and> length (sc_memberRoleIds scope) > 0), tier_scopePeer = peer,
           tier_candidates = (if guildId \<noteq> [] then lookup_list (ix_byGuildWithRoles ix) guildId else []),
           tier_predicate = (\<lambda>c. hasGuildConstraint (eb_match c) \<and> hasRolesConstraint (eb_match c))\<rparr>,
          \<lparr>tier_matchedBy = ByGuild, tier_enabled = (guildId \<noteq> []), tier_scopePeer = peer,
           tier_candidates = (if guildId \<noteq> [] then lookup_list (ix_byGuild ix) guildId else []),
           tier_predicate = (\<lambda>c. hasGuildConstraint (eb_match c) \<and> \<not> hasRolesConstraint (eb_match c))\<rparr>,
          \<lparr>tier_matchedBy = ByTeam, tier_enabled = (teamId \<noteq> []), tier_scopePeer = peer,
           tier_candidates = (if teamId \<noteq> [] then lookup_list (ix_byTeam ix) teamId else []),
           tier_predicate = (\<lambda>c. hasTeamConstraint (eb_match c))\<rparr>,
          \<lparr>tier_matchedBy = ByAccount, tier_enabled = True, tier_scopePeer = peer,
           tier_candidates = ix_byAccount ix,
           tier_predicate = (\<lambda>c. accountPattern (eb_match c) \<noteq> ''*'')\<rparr>,
          \<lparr>tier_matchedBy = ByChannel, tier_enabled = True, tier_scopePeer = peer,
           tier_candidates = ix_byChannel ix,
           tier_predicate = (\<lambda>c. accountPattern (eb_match c) = ''*'')\<rparr>])"

fun first_tier_match :: "scope_base \<Rightarrow> tier list \<Rightarrow> (matched_by \<times> evaluated_binding) option" where
  "first_tier_match scope [] = None"
| "first_tier_match scope (t # ts) =
     (if \<not> tier_enabled t then first_tier_match scope ts
      else case find (\<lambda>c. tier_predicate t c \<and> matchesBindingScope (eb_match c) (tier_scopePeer t) scope)
             (tier_candidates t) of
          Some c \<Rightarrow> Some (tier_matchedBy t, c)
        | None \<Rightarrow> first_tier_match scope ts)"

definition norm_peer :: "route_peer option \<Rightarrow> route_peer option" where
  "norm_peer peer = map_option (\<lambda>p. \<lparr>peer_kind = peer_kind p, peer_id = normalizeId (Some (peer_id p))\<rparr>) peer"

definition input_scope :: "route_input \<Rightarrow> scope_base" where
  "input_scope input = \<lparr>sc_guildId = normalizeId (ri_guildId input), sc_teamId = normalizeId (ri_teamId input),
     sc_memberRoleIds = (case ri_memberRoleIds input of Some ms \<Rightarrow> ms | None \<Rightarrow> [])\<rparr>"

definition match_route :: "route_config \<Rightarrow> route_input \<Rightarrow> (matched_by \<times> evaluated_binding) option" where
  "match_route cfg input =
     (let channel = normalizeToken (Some (ri_channel input));
          accountId = normalizeAccountId (ri_accountId input);
          bindings = getEvaluatedBindingsForChannelAccount cfg channel accountId;
          ix = buildEvaluatedBindingsIndex bindings;
          scope = input_scope input
      in first_tier_match scope
           (route_tiers ix (norm_peer (ri_peer input)) (norm_peer (ri_parentPeer input)) scope))"

definition choose_route ::
    "route_config \<Rightarrow> route_input \<Rightarrow> string \<Rightarrow> matched_by \<Rightarrow> dm_scope option \<Rightarrow> agent_route" where
  "choose_route cfg input agentId matchedBy override =
     (let channel = normalizeToken (Some (ri_channel input));
          accountId = normalizeAccountId (ri_accountId input);
          agent = pickFirstExistingAgentId cfg agentId;
          scope = (case override of Some d \<Rightarrow> d
                   | None \<Rightarrow> (case cfg_dmScope cfg of Some d \<Rightarrow> d | None \<Rightarrow> DmMain));
          sessionKey = buildAgentSessionKey agent (cfg_mainKey cfg) channel (Some accountId)
            (norm_peer (ri_peer input)) (Some scope) (cfg_identityLinks cfg);
          mainKey = normalizeLowercaseStringOrEmpty (Some (buildAgentMainSessionKey (Some agent) (cfg_mainKey cfg)))
      in \<lparr>route_agentId = agent, route_channel = channel, route_accountId = accountId,
          route_dmScope = scope, route_sessionKey = sessionKey, route_mainSessionKey = mainKey,
          route_lastRoutePolicy = deriveLastRoutePolicy sessionKey mainKey, route_matchedBy = matchedBy\<rparr>)"

definition resolveAgentRoute :: "route_config \<Rightarrow> route_input \<Rightarrow> agent_route" where
  "resolveAgentRoute cfg input = (case match_route cfg input of
     Some (by, c) \<Rightarrow> choose_route cfg input (b_agentId (eb_binding c)) by (b_dmScope (eb_binding c))
   | None \<Rightarrow> choose_route cfg input (resolveDefaultAgentId cfg) ByDefault None)"

section \<open>The reference: a scan in configuration order\<close>

definition evaluate_from :: "nat \<Rightarrow> route_binding list \<Rightarrow> evaluated_binding list" where
  "evaluate_from n bs = map (\<lambda>(i, b). \<lparr>eb_binding = b, eb_match = normalizeBindingMatch b, eb_order = i\<rparr>)
     (enumerate n (filter (\<lambda>b. normalizeToken (b_channel b) \<noteq> []) bs))"

definition on_channel :: "string \<Rightarrow> evaluated_binding \<Rightarrow> bool" where
  "on_channel channel e \<longleftrightarrow> normalizeToken (b_channel (eb_binding e)) = channel"

definition any_account :: "evaluated_binding \<Rightarrow> bool" where
  "any_account e \<longleftrightarrow> accountPattern (eb_match e) = ''*''"

definition for_account :: "string \<Rightarrow> evaluated_binding \<Rightarrow> bool" where
  "for_account accountId e \<longleftrightarrow> \<not> any_account e \<and>
     resolveAccountPatternKey (accountPattern (eb_match e)) = accountId"

definition scan_bindings :: "route_config \<Rightarrow> string \<Rightarrow> string \<Rightarrow> evaluated_binding list" where
  "scan_bindings cfg channel accountId =
     filter (\<lambda>e. on_channel channel e \<and> (any_account e \<or> for_account accountId e))
       (evaluate_from 0 (listBindings cfg))"

text \<open>What a binding constrains decides the tier it belongs to.\<close>

definition tier_class :: "binding_match \<Rightarrow> matched_by" where
  "tier_class m = (case match_peer m of
     PeerValid _ _ \<Rightarrow> ByPeer
   | PeerWildcard _ \<Rightarrow> ByWildcard
   | _ \<Rightarrow> if match_guildId m \<noteq> None \<and> match_roles m \<noteq> None then ByGuildRoles
          else if match_guildId m \<noteq> None then ByGuild
          else if match_teamId m \<noteq> None then ByTeam
          else if accountPattern m \<noteq> ''*'' then ByAccount
          else ByChannel)"

fun scan_tiers ::
    "evaluated_binding list \<Rightarrow> scope_base \<Rightarrow> (matched_by \<times> matched_by \<times> route_peer option) list \<Rightarrow>
     (matched_by \<times> evaluated_binding) option" where
  "scan_tiers bs scope [] = None"
| "scan_tiers bs scope ((by, cls, p) # ts) =
     (case find (\<lambda>c. tier_class (eb_match c) = cls \<and> matchesBindingScope (eb_match c) p scope) bs of
        Some c \<Rightarrow> Some (by, c)
      | None \<Rightarrow> scan_tiers bs scope ts)"

definition scan_route :: "route_config \<Rightarrow> route_input \<Rightarrow> (matched_by \<times> evaluated_binding) option" where
  "scan_route cfg input =
     (let bs = scan_bindings cfg (normalizeToken (Some (ri_channel input))) (normalizeAccountId (ri_accountId input));
          peer = norm_peer (ri_peer input);
          parent = (case norm_peer (ri_parentPeer input) of
              Some p \<Rightarrow> if peer_id p \<noteq> [] then Some p else None | None \<Rightarrow> None)
      in scan_tiers bs (input_scope input)
           [(ByPeer, ByPeer, peer), (ByParent, ByPeer, parent), (ByWildcard, ByWildcard, peer),
            (ByGuildRoles, ByGuildRoles, peer), (ByGuild, ByGuild, peer), (ByTeam, ByTeam, peer),
            (ByAccount, ByAccount, peer), (ByChannel, ByChannel, peer)])"

section \<open>Grouping by channel and account\<close>

lemma merge_by_order_filter:
  assumes "sorted_wrt (\<lambda>a b. eb_order a < eb_order b) xs" "\<forall>x \<in> set xs. \<not> (P x \<and> Q x)"
  shows "merge_by_order (filter P xs) (filter Q xs) = filter (\<lambda>x. P x \<or> Q x) xs"
  using assms
proof (induction xs)
  case (Cons x xs)
  have nil: "merge_by_order zs [] = zs" for zs by (cases zs) auto
  have IH: "merge_by_order (filter P xs) (filter Q xs) = filter (\<lambda>x. P x \<or> Q x) xs"
    using Cons by simp
  consider (p) "P x" "\<not> Q x" | (q) "Q x" "\<not> P x" | (none) "\<not> P x" "\<not> Q x"
    using Cons.prems(2) by auto
  then show ?case
  proof cases
    case p
    have "eb_order x \<le> eb_order y" if "filter Q xs = y # ys" for y ys
    proof -
      have "y \<in> set xs" using that by (metis filter_is_subset list.set_intros(1) subsetD)
      with Cons.prems(1) show ?thesis by (auto intro: less_imp_le)
    qed
    then have "merge_by_order (x # filter P xs) (filter Q xs) = x # merge_by_order (filter P xs) (filter Q xs)"
      by (cases "filter Q xs") (auto simp: nil)
    with p IH show ?thesis by simp
  next
    case q
    have "eb_order x < eb_order y" if "filter P xs = y # ys" for y ys
    proof -
      have "y \<in> set xs" using that by (metis filter_is_subset list.set_intros(1) subsetD)
      with Cons.prems(1) show ?thesis by auto
    qed
    then have "merge_by_order (filter P xs) (x # filter Q xs) = x # merge_by_order (filter P xs) (filter Q xs)"
      by (cases "filter P xs") (auto simp: not_le)
    with q IH show ?thesis by simp
  next
    case none
    with IH show ?thesis by simp
  qed
qed simp

lemma merge_bindings_eq:
  "mergeEvaluatedBindingsInSourceOrder xs ys = merge_by_order xs ys"
  by (cases xs; cases ys) (auto simp: mergeEvaluatedBindingsInSourceOrder_def)

definition bucket_ok :: "evaluated_binding list \<Rightarrow> (string, channel_bindings) js_map \<Rightarrow> bool" where
  "bucket_ok evs m \<longleftrightarrow> (\<forall>ch.
     (case map_of m ch of
        None \<Rightarrow> filter (on_channel ch) evs = []
      | Some k \<Rightarrow> byAnyAccount k = filter (\<lambda>e. on_channel ch e \<and> any_account e) evs \<and>
          (\<forall>acc. lookup_list (byAccount k) acc = filter (\<lambda>e. on_channel ch e \<and> for_account acc e) evs)))"

lemma evaluate_from_Cons:
  "evaluate_from n (b # bs) = (if normalizeToken (b_channel b) = [] then evaluate_from n bs
     else \<lparr>eb_binding = b, eb_match = normalizeBindingMatch b, eb_order = n\<rparr> # evaluate_from (Suc n) bs)"
  by (simp add: evaluate_from_def)

lemma filter_none_sub: "filter P xs = [] \<Longrightarrow> filter (\<lambda>e. P e \<and> Q e) xs = []"
  by (auto simp: filter_empty_conv)

definition bucket_of :: "(string, channel_bindings) js_map \<Rightarrow> string \<Rightarrow> channel_bindings" where
  "bucket_of m ch = (case map_of m ch of Some k \<Rightarrow> k | None \<Rightarrow> \<lparr>byAccount = [], byAnyAccount = []\<rparr>)"

lemma bucket_okD:
  assumes "bucket_ok evs m"
  shows "byAnyAccount (bucket_of m ch) = filter (\<lambda>e. on_channel ch e \<and> any_account e) evs"
    "lookup_list (byAccount (bucket_of m ch)) acc = filter (\<lambda>e. on_channel ch e \<and> for_account acc e) evs"
proof -
  have "case map_of m ch of
        None \<Rightarrow> filter (on_channel ch) evs = []
      | Some k \<Rightarrow> byAnyAccount k = filter (\<lambda>e. on_channel ch e \<and> any_account e) evs \<and>
          (\<forall>acc. lookup_list (byAccount k) acc = filter (\<lambda>e. on_channel ch e \<and> for_account acc e) evs)"
    using assms by (simp add: bucket_ok_def)
  then show "byAnyAccount (bucket_of m ch) = filter (\<lambda>e. on_channel ch e \<and> any_account e) evs"
    "lookup_list (byAccount (bucket_of m ch)) acc = filter (\<lambda>e. on_channel ch e \<and> for_account acc e) evs"
    by (cases "map_of m ch"; simp add: bucket_of_def filter_none_sub lookup_list_def [of "[]"])+
qed

lemma add_binding_ok:
  assumes "bucket_ok evs m" "normalizeToken (b_channel b) \<noteq> []"
    and "add_binding b (n, m) = (n', m')"
  shows "n' = Suc n \<and> bucket_ok (evs @ [\<lparr>eb_binding = b, eb_match = normalizeBindingMatch b, eb_order = n\<rparr>]) m'"
proof -
  let ?ch = "normalizeToken (b_channel b)"
  let ?ev = "\<lparr>eb_binding = b, eb_match = normalizeBindingMatch b, eb_order = n\<rparr>"
  let ?k = "bucket_of m ?ch"
  have on: "on_channel ch ?ev \<longleftrightarrow> ch = ?ch" for ch by (auto simp: on_channel_def)
  note k = bucket_okD [OF assms(1), of ?ch]
  obtain k' where k': "n' = Suc n" "m' = map_set ?ch k' m"
    "byAnyAccount k' = byAnyAccount ?k @ (if any_account ?ev then [?ev] else [])"
    "\<And>acc. lookup_list (byAccount k') acc = lookup_list (byAccount ?k) acc @ (if for_account acc ?ev then [?ev] else [])"
    using assms(2,3)
    by (cases "any_account ?ev")
       (auto simp: add_binding_def Let_def any_account_def for_account_def lookup_list_def bucket_of_def)
  have "bucket_ok (evs @ [?ev]) m'"
    unfolding bucket_ok_def
  proof
    fix ch
    show "case map_of m' ch of
        None \<Rightarrow> filter (on_channel ch) (evs @ [?ev]) = []
      | Some k \<Rightarrow> byAnyAccount k = filter (\<lambda>e. on_channel ch e \<and> any_account e) (evs @ [?ev]) \<and>
          (\<forall>acc. lookup_list (byAccount k) acc = filter (\<lambda>e. on_channel ch e \<and> for_account acc e) (evs @ [?ev]))"
    proof (cases "ch = ?ch")
      case True
      then show ?thesis using k k' by (auto simp: on_channel_def)
    next
      case False
      have "case map_of m ch of
        None \<Rightarrow> filter (on_channel ch) evs = []
      | Some k \<Rightarrow> byAnyAccount k = filter (\<lambda>e. on_channel ch e \<and> any_account e) evs \<and>
          (\<forall>acc. lookup_list (byAccount k) acc = filter (\<lambda>e. on_channel ch e \<and> for_account acc e) evs)"
        using assms(1) unfolding bucket_ok_def by (rule spec)
      then show ?thesis using k'(2) on [of ch] False by (cases "map_of m ch") simp_all
    qed
  qed
  with k'(1) show ?thesis by simp
qed

lemma fold_add_binding_ok:
  "bucket_ok evs m \<Longrightarrow> bucket_ok (evs @ evaluate_from n bs) (snd (fold add_binding bs (n, m)))"
proof (induction bs arbitrary: evs m n)
  case Nil
  then show ?case by (simp add: evaluate_from_def)
next
  case (Cons b bs)
  show ?case
  proof (cases "normalizeToken (b_channel b) = []")
    case True
    then have "add_binding b (n, m) = (n, m)" by (simp add: add_binding_def)
    with Cons True show ?thesis by (simp add: evaluate_from_Cons)
  next
    case False
    obtain n' m' where a: "add_binding b (n, m) = (n', m')" by fastforce
    from add_binding_ok [OF Cons.prems False a] have
      "n' = Suc n" "bucket_ok (evs @ [\<lparr>eb_binding = b, eb_match = normalizeBindingMatch b, eb_order = n\<rparr>]) m'"
      by auto
    from Cons.IH [OF this(2), of "Suc n"] this(1) False a show ?thesis
      by (simp add: evaluate_from_Cons)
  qed
qed

lemma evaluate_from_bound:
  "e \<in> set (evaluate_from n bs) \<Longrightarrow> n \<le> eb_order e \<and> eb_match e = normalizeBindingMatch (eb_binding e)"
  by (auto simp: evaluate_from_def in_set_enumerate_eq)

lemma evaluate_from_order: "sorted_wrt (\<lambda>a b. eb_order a < eb_order b) (evaluate_from n bs)"
proof (induction bs arbitrary: n)
  case (Cons b bs)
  have "eb_order \<lparr>eb_binding = b, eb_match = normalizeBindingMatch b, eb_order = n\<rparr> < eb_order e"
    if "e \<in> set (evaluate_from (Suc n) bs)" for e
    using evaluate_from_bound [OF that] by simp
  with Cons.IH show ?case by (simp add: evaluate_from_Cons)
qed (simp add: evaluate_from_def)

lemma bindings_scan:
  "getEvaluatedBindingsForChannelAccount cfg channel accountId = scan_bindings cfg channel accountId"
proof -
  let ?evs = "evaluate_from 0 (listBindings cfg)"
  have "bucket_ok [] []" by (simp add: bucket_ok_def)
  from fold_add_binding_ok [OF this, of 0 "listBindings cfg"]
  have ok: "bucket_ok ?evs (buildEvaluatedBindingsByChannel cfg)"
    by (simp add: buildEvaluatedBindingsByChannel_def)
  have "merge_by_order (filter (\<lambda>e. on_channel channel e \<and> for_account accountId e) ?evs)
      (filter (\<lambda>e. on_channel channel e \<and> any_account e) ?evs) =
      filter (\<lambda>e. (on_channel channel e \<and> for_account accountId e) \<or> (on_channel channel e \<and> any_account e)) ?evs"
    using evaluate_from_order by (intro merge_by_order_filter) (auto simp: for_account_def)
  also have "\<dots> = scan_bindings cfg channel accountId"
    by (auto simp: scan_bindings_def intro!: filter_cong)
  finally have merged: "merge_by_order (filter (\<lambda>e. on_channel channel e \<and> for_account accountId e) ?evs)
      (filter (\<lambda>e. on_channel channel e \<and> any_account e) ?evs) = scan_bindings cfg channel accountId" .
  have "getEvaluatedBindingsForChannelAccount cfg channel accountId =
      merge_by_order (lookup_list (byAccount (bucket_of (buildEvaluatedBindingsByChannel cfg) channel)) accountId)
        (byAnyAccount (bucket_of (buildEvaluatedBindingsByChannel cfg) channel))"
    by (simp add: getEvaluatedBindingsForChannelAccount_def merge_bindings_eq bucket_of_def lookup_list_def
        split: option.split)
  then show ?thesis unfolding bucket_okD [OF ok] merged .
qed

section \<open>The index against the scan\<close>

definition guild_key :: "matched_by \<Rightarrow> binding_match \<Rightarrow> string option" where
  "guild_key cls m = (if tier_class m \<noteq> cls then None
     else if cls = ByTeam then match_teamId m else match_guildId m)"

lemma lookup_push:
  "k \<noteq> [] \<Longrightarrow> lookup_list (pushToIndexMap (Some k) b m) k' =
     lookup_list m k' @ (if k' = k then [b] else [])"
  by (auto simp: pushToIndexMap_def lookup_list_def)

definition ids_ok :: "binding_match \<Rightarrow> bool" where
  "ids_ok m \<longleftrightarrow> match_guildId m \<noteq> Some [] \<and> match_teamId m \<noteq> Some []"

text \<open>What the index holds after indexing a list.\<close>

definition index_ok :: "evaluated_binding list \<Rightarrow> bindings_index \<Rightarrow> bool" where
  "index_ok bs ix \<longleftrightarrow>
     (\<forall>key. lookup_list (ix_byPeer ix) key =
        filter (\<lambda>b. case match_peer (eb_match b) of PeerValid k i \<Rightarrow> key \<in> set (peerLookupKeys k i) | _ \<Rightarrow> False) bs) \<and>
     ix_byPeerWildcard ix = filter (\<lambda>b. tier_class (eb_match b) = ByWildcard) bs \<and>
     (\<forall>g. lookup_list (ix_byGuildWithRoles ix) g = filter (\<lambda>b. guild_key ByGuildRoles (eb_match b) = Some g) bs) \<and>
     (\<forall>g. lookup_list (ix_byGuild ix) g = filter (\<lambda>b. guild_key ByGuild (eb_match b) = Some g) bs) \<and>
     (\<forall>g. lookup_list (ix_byTeam ix) g = filter (\<lambda>b. guild_key ByTeam (eb_match b) = Some g) bs) \<and>
     ix_byAccount ix = filter (\<lambda>b. tier_class (eb_match b) = ByAccount) bs \<and>
     ix_byChannel ix = filter (\<lambda>b. tier_class (eb_match b) = ByChannel) bs"

lemma lookup_peer_pushes:
  "lookup_list (fold (\<lambda>key. pushToIndexMap (Some key) b) (peerLookupKeys k i) m) key =
     lookup_list m key @ (if key \<in> set (peerLookupKeys k i) then [b] else [])"
  by (cases k) (auto simp: peerLookupKeys_def lookup_push)

lemma index_unpeered_ok:
  assumes "index_ok bs ix" "ids_ok (eb_match b)" "match_peer (eb_match b) = PeerNone \<or> match_peer (eb_match b) = PeerInvalid"
  shows "index_ok (bs @ [b]) (index_binding b ix)"
proof -
  let ?m = "eb_match b"
  note peer = assms(3)
  have not_valid: "\<not> (case match_peer ?m of PeerValid k i \<Rightarrow> P k i | _ \<Rightarrow> False)" for P using peer by auto
  consider (roles) g r where "match_guildId ?m = Some g" "match_roles ?m = Some r"
    | (guild) g where "match_guildId ?m = Some g" "match_roles ?m = None"
    | (team) t where "match_guildId ?m = None" "match_teamId ?m = Some t"
    | (rest) "match_guildId ?m = None" "match_teamId ?m = None"
    by (cases "match_guildId ?m"; cases "match_roles ?m"; cases "match_teamId ?m") auto
  then show ?thesis
  proof cases
    case (roles g r)
    with peer have c: "tier_class ?m = ByGuildRoles" by (auto simp: tier_class_def)
    from roles peer have "index_binding b ix =
        ix\<lparr>ix_byGuildWithRoles := pushToIndexMap (Some g) b (ix_byGuildWithRoles ix)\<rparr>" by (auto simp: index_binding_def)
    moreover from roles assms(2) have "g \<noteq> []" by (auto simp: ids_ok_def)
    ultimately show ?thesis using assms(1) c roles
      by (simp add: index_ok_def guild_key_def lookup_push not_valid)
  next
    case (guild g)
    with peer have c: "tier_class ?m = ByGuild" by (auto simp: tier_class_def)
    from guild peer have "index_binding b ix = ix\<lparr>ix_byGuild := pushToIndexMap (Some g) b (ix_byGuild ix)\<rparr>"
      by (auto simp: index_binding_def)
    moreover from guild assms(2) have "g \<noteq> []" by (auto simp: ids_ok_def)
    ultimately show ?thesis using assms(1) c guild
      by (simp add: index_ok_def guild_key_def lookup_push not_valid)
  next
    case (team t)
    with peer have c: "tier_class ?m = ByTeam" by (auto simp: tier_class_def)
    from team peer have "index_binding b ix = ix\<lparr>ix_byTeam := pushToIndexMap (Some t) b (ix_byTeam ix)\<rparr>"
      by (auto simp: index_binding_def)
    moreover from team assms(2) have "t \<noteq> []" by (auto simp: ids_ok_def)
    ultimately show ?thesis using assms(1) c team
      by (simp add: index_ok_def guild_key_def lookup_push not_valid)
  next
    case rest
    with peer have c: "tier_class ?m = (if accountPattern ?m \<noteq> ''*'' then ByAccount else ByChannel)"
      by (auto simp: tier_class_def)
    from rest peer have "index_binding b ix = (if accountPattern ?m \<noteq> ''*'' then ix\<lparr>ix_byAccount := ix_byAccount ix @ [b]\<rparr>
        else ix\<lparr>ix_byChannel := ix_byChannel ix @ [b]\<rparr>)" by (auto simp: index_binding_def)
    then show ?thesis using assms(1) c rest
      by (cases "accountPattern ?m = ''*''") (simp_all add: index_ok_def guild_key_def not_valid)
  qed
qed

lemma index_binding_ok:
  assumes "index_ok bs ix" "ids_ok (eb_match b)"
  shows "index_ok (bs @ [b]) (index_binding b ix)"
proof -
  show ?thesis
  proof (cases "match_peer (eb_match b)")
    case (PeerValid k i)
    then have "tier_class (eb_match b) = ByPeer" by (simp add: tier_class_def)
    with PeerValid assms(1) show ?thesis
      by (simp add: index_ok_def index_binding_def Let_def lookup_peer_pushes guild_key_def)
  next
    case (PeerWildcard k)
    then have "tier_class (eb_match b) = ByWildcard" by (simp add: tier_class_def)
    with PeerWildcard assms(1) show ?thesis
      by (simp add: index_ok_def index_binding_def Let_def guild_key_def)
  next
    case PeerNone
    then show ?thesis by (intro index_unpeered_ok assms) simp
  next
    case PeerInvalid
    then show ?thesis by (intro index_unpeered_ok assms) simp
  qed
qed

lemma index_built:
  "\<forall>b \<in> set bs. ids_ok (eb_match b) \<Longrightarrow> index_ok bs (buildEvaluatedBindingsIndex bs)"
proof -
  have "index_ok (as @ bs) (fold index_binding bs ix)"
    if "index_ok as ix" "\<forall>b \<in> set bs. ids_ok (eb_match b)" for as ix
    using that
  proof (induction bs arbitrary: as ix)
    case (Cons b bs)
    from Cons.IH [OF index_binding_ok [OF Cons.prems(1)]] Cons.prems(2) show ?case by simp
  qed simp
  moreover have "index_ok [] empty_index"
    by (simp add: index_ok_def empty_index_def lookup_list_def)
  moreover assume "\<forall>b \<in> set bs. ids_ok (eb_match b)"
  ultimately show ?thesis by (fastforce simp: buildEvaluatedBindingsIndex_def)
qed

lemma peer_keys_match:
  "(key \<in> set (peerLookupKeys k i) \<and> key \<in> set (peerLookupKeys k' i')) \<Longrightarrow> peerKindMatches k k' \<and> i = i'"
  "peerKindMatches k k' \<Longrightarrow> set (peerLookupKeys k i) = set (peerLookupKeys k' i)"
  by (cases k; cases k'; auto simp: peerLookupKeys_def peerKindMatches_def)+

lemma collect_peer:
  assumes "index_ok bs ix" "distinct bs"
  shows "collectPeerIndexedBindings ix (Some p) =
    filter (\<lambda>b. case match_peer (eb_match b) of
       PeerValid k i \<Rightarrow> peerKindMatches k (peer_kind p) \<and> i = peer_id p | _ \<Rightarrow> False) bs"
proof -
  let ?want = "filter (\<lambda>b. case match_peer (eb_match b) of
       PeerValid k i \<Rightarrow> peerKindMatches k (peer_kind p) \<and> i = peer_id p | _ \<Rightarrow> False) bs"
  have lk: "lookup_list (ix_byPeer ix) key = ?want" if "key \<in> set (peerLookupKeys (peer_kind p) (peer_id p))" for key
  proof -
    have eq: "(case match_peer (eb_match b) of PeerValid k i \<Rightarrow> key \<in> set (peerLookupKeys k i) | _ \<Rightarrow> False) \<longleftrightarrow>
        (case match_peer (eb_match b) of PeerValid k i \<Rightarrow> peerKindMatches k (peer_kind p) \<and> i = peer_id p | _ \<Rightarrow> False)" for b
    proof (cases "match_peer (eb_match b)")
      case (PeerValid k i)
      have "key \<in> set (peerLookupKeys k i) \<longleftrightarrow> peerKindMatches k (peer_kind p) \<and> i = peer_id p"
        using that peer_keys_match(1) [of key k i "peer_kind p" "peer_id p"]
          peer_keys_match(2) [of k "peer_kind p" "peer_id p"] by auto
      with PeerValid show ?thesis by simp
    qed simp_all
    have "lookup_list (ix_byPeer ix) key = filter (\<lambda>b. case match_peer (eb_match b) of
        PeerValid k i \<Rightarrow> key \<in> set (peerLookupKeys k i) | _ \<Rightarrow> False) bs"
      using assms(1) unfolding index_ok_def by blast
    also have "\<dots> = ?want" by (rule filter_cong [OF refl]) (rule eq)
    finally show ?thesis .
  qed
  have d: "distinct ?want" using assms(2) by simp
  have again: "fold set_add ys xs = xs" if "set ys \<subseteq> set xs" for xs ys :: "evaluated_binding list"
    using that by (induction ys) (auto simp: set_add_def)
  have first: "fold set_add ?want [] = ?want" using d fold_set_add_distinct [of "[]" ?want] by simp
  show ?thesis
    using lk first again [of ?want ?want]
    by (cases "peer_kind p") (simp_all add: collectPeerIndexedBindings_def peerLookupKeys_def flip: lookup_list_def)
qed

lemma scan_ids_ok: "e \<in> set (scan_bindings cfg ch acc) \<Longrightarrow> ids_ok (eb_match e)"
  using evaluate_from_bound [of e 0 "listBindings cfg"]
  by (auto simp: scan_bindings_def ids_ok_def normalizeBindingMatch_def or_null_def)

lemma scan_distinct: "distinct (scan_bindings cfg ch acc)"
proof -
  have "distinct (map eb_order (evaluate_from 0 (listBindings cfg)))"
    using evaluate_from_order [of 0 "listBindings cfg"]
    by (simp add: strict_sorted_iff sorted_wrt_map flip: sorted_wrt_map)
  then show ?thesis by (simp add: scan_bindings_def distinct_map)
qed

text \<open>Bindings that match the scope also satisfy the constraint their index is keyed by.\<close>

lemma scope_guild:
  "matchesBindingScope m p scope \<Longrightarrow> ids_ok m \<Longrightarrow> match_guildId m = Some g \<Longrightarrow>
     g = js_trim (sc_guildId scope) \<and> g \<noteq> []"
  by (auto simp: matchesBindingScope_def routeBindingScopeMatches_def scopeIdMatches_def ids_ok_def
      normalizeRouteBindingId_def Let_def js_trim_def split: peer_constraint.splits option.splits if_splits)

lemma scope_team:
  "matchesBindingScope m p scope \<Longrightarrow> ids_ok m \<Longrightarrow> match_teamId m = Some g \<Longrightarrow>
     g = js_trim (sc_teamId scope) \<and> g \<noteq> []"
  by (auto simp: matchesBindingScope_def routeBindingScopeMatches_def scopeIdMatches_def ids_ok_def
      normalizeRouteBindingId_def Let_def js_trim_def split: peer_constraint.splits option.splits if_splits)

lemma scope_roles:
  "matchesBindingScope m p scope \<Longrightarrow> match_roles m = Some (r # rs) \<Longrightarrow> sc_memberRoleIds scope \<noteq> []"
  by (auto simp: matchesBindingScope_def routeBindingScopeMatches_def hasAnyRouteBindingRole_def
      normalizeRouteBindingRoles_def list_ex_iff Let_def split: peer_constraint.splits option.splits if_splits)

lemma input_scope_trim: "js_trim (sc_guildId (input_scope i)) = sc_guildId (input_scope i)"
  "js_trim (sc_teamId (input_scope i)) = sc_teamId (input_scope i)"
  by (auto simp: input_scope_def normalizeId_def normalizeRouteBindingId_def js_trim_idem
      split: option.split)

lemma find_none_of_set: "(\<And>x. x \<in> set xs \<Longrightarrow> \<not> P x) \<Longrightarrow> find P xs = None"
  by (simp add: find_None_all)

definition tier_agrees ::
    "evaluated_binding list \<Rightarrow> scope_base \<Rightarrow> tier \<Rightarrow> matched_by \<times> matched_by \<times> route_peer option \<Rightarrow> bool" where
  "tier_agrees bs scope t = (\<lambda>(by, cls, p).
     tier_matchedBy t = by \<and>
     (if tier_enabled t
      then find (\<lambda>c. tier_predicate t c \<and> matchesBindingScope (eb_match c) (tier_scopePeer t) scope) (tier_candidates t)
      else None) = find (\<lambda>c. tier_class (eb_match c) = cls \<and> matchesBindingScope (eb_match c) p scope) bs)"

lemma tiers_agree:
  "list_all2 (tier_agrees bs scope) ts rs \<Longrightarrow> first_tier_match scope ts = scan_tiers bs scope rs"
proof (induction rule: list_all2_induct)
  case (Cons t ts r rs)
  then show ?case by (cases r) (auto simp: tier_agrees_def split: option.split if_splits)
qed simp

lemma find_filter_eq:
  assumes "cands = filter C bs" "\<And>x. x \<in> set bs \<Longrightarrow> C x \<and> P x \<longleftrightarrow> Q x"
  shows "find P cands = find Q bs"
  unfolding assms(1) find_filter using assms(2) by (rule find_cong_set)

lemma plain_tier:
  assumes "cands = filter (\<lambda>b. tier_class (eb_match b) = cls) bs"
    and "\<And>b. tier_class (eb_match b) = cls \<Longrightarrow> pred b"
  shows "find (\<lambda>c. pred c \<and> matchesBindingScope (eb_match c) p scope) cands =
    find (\<lambda>c. tier_class (eb_match c) = cls \<and> matchesBindingScope (eb_match c) p scope) bs"
  by (rule find_filter_eq [OF assms(1)]) (use assms(2) in blast)

lemma keyed_tier:
  assumes "cands = filter (\<lambda>b. guild_key cls (eb_match b) = Some g) bs"
    and "\<And>b. b \<in> set bs \<Longrightarrow> tier_class (eb_match b) = cls \<Longrightarrow> matchesBindingScope (eb_match b) p scope \<Longrightarrow>
      pred b \<and> guild_key cls (eb_match b) = Some g"
  shows "find (\<lambda>c. pred c \<and> matchesBindingScope (eb_match c) p scope) cands =
    find (\<lambda>c. tier_class (eb_match c) = cls \<and> matchesBindingScope (eb_match c) p scope) bs"
  by (rule find_filter_eq [OF assms(1)])
     (use assms(2) in \<open>auto simp: guild_key_def split: if_splits\<close>)

lemma class_facts:
  "tier_class m = ByWildcard \<Longrightarrow> is_wildcard_peer m"
  "tier_class m = ByGuildRoles \<Longrightarrow> match_guildId m \<noteq> None \<and> match_roles m \<noteq> None"
  "tier_class m = ByGuild \<Longrightarrow> match_guildId m \<noteq> None \<and> match_roles m = None"
  "tier_class m = ByTeam \<Longrightarrow> match_teamId m \<noteq> None"
  "tier_class m = ByAccount \<Longrightarrow> accountPattern m \<noteq> ''*''"
  "tier_class m = ByChannel \<Longrightarrow> accountPattern m = ''*''"
  by (auto simp: tier_class_def is_wildcard_peer_def split: peer_constraint.splits if_splits)

lemma scan_roles: "e \<in> set (scan_bindings cfg ch acc) \<Longrightarrow> match_roles (eb_match e) \<noteq> Some []"
  using evaluate_from_bound [of e 0 "listBindings cfg"]
  by (auto simp: scan_bindings_def normalizeBindingMatch_def normalizeRouteBindingRoles_def
      split: option.splits list.splits if_splits)

lemma scan_guild:
  assumes "b \<in> set (scan_bindings cfg ch acc)" "matchesBindingScope (eb_match b) p (input_scope i)"
    "match_guildId (eb_match b) \<noteq> None"
  shows "match_guildId (eb_match b) = Some (sc_guildId (input_scope i)) \<and> sc_guildId (input_scope i) \<noteq> []"
  using scope_guild [OF assms(2) scan_ids_ok [OF assms(1)]] assms(3) input_scope_trim(1) [of i] by fastforce

lemma scan_team:
  assumes "b \<in> set (scan_bindings cfg ch acc)" "matchesBindingScope (eb_match b) p (input_scope i)"
    "match_teamId (eb_match b) \<noteq> None"
  shows "match_teamId (eb_match b) = Some (sc_teamId (input_scope i)) \<and> sc_teamId (input_scope i) \<noteq> []"
  using scope_team [OF assms(2) scan_ids_ok [OF assms(1)]] assms(3) input_scope_trim(2) [of i] by fastforce

lemma scan_has_roles:
  assumes "b \<in> set (scan_bindings cfg ch acc)" "matchesBindingScope (eb_match b) p scope"
    "match_roles (eb_match b) \<noteq> None"
  shows "sc_memberRoleIds scope \<noteq> []"
proof -
  from assms(3) scan_roles [OF assms(1)] obtain r rs where "match_roles (eb_match b) = Some (r # rs)"
    by (cases "match_roles (eb_match b)"; cases "the (match_roles (eb_match b))") auto
  then show ?thesis by (rule scope_roles [OF assms(2)])
qed

text \<open>Each keyed tier of the index selects what the scan selects.\<close>

lemma scan_keys:
  assumes b: "b \<in> set (scan_bindings cfg ch acc)" and m: "matchesBindingScope (eb_match b) p (input_scope i)"
  shows "tier_class (eb_match b) = ByGuildRoles \<Longrightarrow>
      (hasGuildConstraint (eb_match b) \<and> hasRolesConstraint (eb_match b)) \<and>
      guild_key ByGuildRoles (eb_match b) = Some (sc_guildId (input_scope i)) \<and>
      sc_guildId (input_scope i) \<noteq> [] \<and> sc_memberRoleIds (input_scope i) \<noteq> []" (is "?r \<Longrightarrow> ?R")
    and "tier_class (eb_match b) = ByGuild \<Longrightarrow>
      (hasGuildConstraint (eb_match b) \<and> \<not> hasRolesConstraint (eb_match b)) \<and>
      guild_key ByGuild (eb_match b) = Some (sc_guildId (input_scope i)) \<and> sc_guildId (input_scope i) \<noteq> []" (is "?g \<Longrightarrow> ?G")
    and "tier_class (eb_match b) = ByTeam \<Longrightarrow>
      hasTeamConstraint (eb_match b) \<and> guild_key ByTeam (eb_match b) = Some (sc_teamId (input_scope i)) \<and>
      sc_teamId (input_scope i) \<noteq> []" (is "?t \<Longrightarrow> ?T")
proof -
  { assume c: ?r
    from class_facts(2) [OF c] have "match_guildId (eb_match b) \<noteq> None" "match_roles (eb_match b) \<noteq> None" by auto
    with scan_guild [OF b m] scan_has_roles [OF b m] c show ?R
      by (simp add: hasGuildConstraint_def hasRolesConstraint_def guild_key_def) }
  { assume c: ?g
    from class_facts(3) [OF c] have "match_guildId (eb_match b) \<noteq> None" "match_roles (eb_match b) = None" by auto
    with scan_guild [OF b m] c show ?G
      by (simp add: hasGuildConstraint_def hasRolesConstraint_def guild_key_def) }
  { assume c: ?t
    with scan_team [OF b m class_facts(4) [OF c]] show ?T
      by (simp add: hasTeamConstraint_def guild_key_def) }
qed

lemma index_tiers:
  assumes ix: "index_ok bs ix" and bs: "bs = scan_bindings cfg ch acc" and scope: "scope = input_scope i"
  shows "find (\<lambda>c. is_wildcard_peer (eb_match c) \<and> matchesBindingScope (eb_match c) p scope) (ix_byPeerWildcard ix)
      = find (\<lambda>c. tier_class (eb_match c) = ByWildcard \<and> matchesBindingScope (eb_match c) p scope) bs"
    and "find (\<lambda>c. (hasGuildConstraint (eb_match c) \<and> hasRolesConstraint (eb_match c)) \<and>
        matchesBindingScope (eb_match c) p scope) (lookup_list (ix_byGuildWithRoles ix) (sc_guildId scope))
      = find (\<lambda>c. tier_class (eb_match c) = ByGuildRoles \<and> matchesBindingScope (eb_match c) p scope) bs"
    and "find (\<lambda>c. (hasGuildConstraint (eb_match c) \<and> \<not> hasRolesConstraint (eb_match c)) \<and>
        matchesBindingScope (eb_match c) p scope) (lookup_list (ix_byGuild ix) (sc_guildId scope))
      = find (\<lambda>c. tier_class (eb_match c) = ByGuild \<and> matchesBindingScope (eb_match c) p scope) bs"
    and "find (\<lambda>c. hasTeamConstraint (eb_match c) \<and> matchesBindingScope (eb_match c) p scope)
        (lookup_list (ix_byTeam ix) (sc_teamId scope))
      = find (\<lambda>c. tier_class (eb_match c) = ByTeam \<and> matchesBindingScope (eb_match c) p scope) bs"
    and "find (\<lambda>c. accountPattern (eb_match c) \<noteq> ''*'' \<and> matchesBindingScope (eb_match c) p scope) (ix_byAccount ix)
      = find (\<lambda>c. tier_class (eb_match c) = ByAccount \<and> matchesBindingScope (eb_match c) p scope) bs"
    and "find (\<lambda>c. accountPattern (eb_match c) = ''*'' \<and> matchesBindingScope (eb_match c) p scope) (ix_byChannel ix)
      = find (\<lambda>c. tier_class (eb_match c) = ByChannel \<and> matchesBindingScope (eb_match c) p scope) bs"
proof -
  note ix' = ix [unfolded index_ok_def]
  show "find (\<lambda>c. is_wildcard_peer (eb_match c) \<and> matchesBindingScope (eb_match c) p scope) (ix_byPeerWildcard ix)
      = find (\<lambda>c. tier_class (eb_match c) = ByWildcard \<and> matchesBindingScope (eb_match c) p scope) bs"
    by (rule plain_tier) (use ix' class_facts(1) in blast)+
  show "find (\<lambda>c. (hasGuildConstraint (eb_match c) \<and> hasRolesConstraint (eb_match c)) \<and>
        matchesBindingScope (eb_match c) p scope) (lookup_list (ix_byGuildWithRoles ix) (sc_guildId scope))
      = find (\<lambda>c. tier_class (eb_match c) = ByGuildRoles \<and> matchesBindingScope (eb_match c) p scope) bs"
    by (rule keyed_tier [where g = "sc_guildId scope"]) (use ix' scan_keys(1) [of _ cfg ch acc p i] bs scope in blast)+
  show "find (\<lambda>c. (hasGuildConstraint (eb_match c) \<and> \<not> hasRolesConstraint (eb_match c)) \<and>
        matchesBindingScope (eb_match c) p scope) (lookup_list (ix_byGuild ix) (sc_guildId scope))
      = find (\<lambda>c. tier_class (eb_match c) = ByGuild \<and> matchesBindingScope (eb_match c) p scope) bs"
    by (rule keyed_tier [where g = "sc_guildId scope"]) (use ix' scan_keys(2) [of _ cfg ch acc p i] bs scope in blast)+
  show "find (\<lambda>c. hasTeamConstraint (eb_match c) \<and> matchesBindingScope (eb_match c) p scope)
        (lookup_list (ix_byTeam ix) (sc_teamId scope))
      = find (\<lambda>c. tier_class (eb_match c) = ByTeam \<and> matchesBindingScope (eb_match c) p scope) bs"
    by (rule keyed_tier [where g = "sc_teamId scope"]) (use ix' scan_keys(3) [of _ cfg ch acc p i] bs scope in blast)+
  show "find (\<lambda>c. accountPattern (eb_match c) \<noteq> ''*'' \<and> matchesBindingScope (eb_match c) p scope) (ix_byAccount ix)
      = find (\<lambda>c. tier_class (eb_match c) = ByAccount \<and> matchesBindingScope (eb_match c) p scope) bs"
    by (rule plain_tier) (use ix' class_facts(5) in blast)+
  show "find (\<lambda>c. accountPattern (eb_match c) = ''*'' \<and> matchesBindingScope (eb_match c) p scope) (ix_byChannel ix)
      = find (\<lambda>c. tier_class (eb_match c) = ByChannel \<and> matchesBindingScope (eb_match c) p scope) bs"
    by (rule plain_tier) (use ix' class_facts(6) in blast)+
qed

text \<open>A tier that is switched off could not have selected anything.\<close>

lemma disabled_tiers:
  "find (\<lambda>c. tier_class (eb_match c) = ByPeer \<and> matchesBindingScope (eb_match c) None scope) bs = None"
  "find (\<lambda>c. tier_class (eb_match c) = ByWildcard \<and> matchesBindingScope (eb_match c) None scope) bs = None"
  by (rule find_none_of_set; force simp: tier_class_def matchesBindingScope_def split: peer_constraint.splits if_splits)+

lemma disabled_keyed_tiers:
  "sc_guildId (input_scope i) = [] \<or> sc_memberRoleIds (input_scope i) = [] \<Longrightarrow>
    find (\<lambda>c. tier_class (eb_match c) = ByGuildRoles \<and> matchesBindingScope (eb_match c) p (input_scope i))
      (scan_bindings cfg ch acc) = None"
  "sc_guildId (input_scope i) = [] \<Longrightarrow>
    find (\<lambda>c. tier_class (eb_match c) = ByGuild \<and> matchesBindingScope (eb_match c) p (input_scope i))
      (scan_bindings cfg ch acc) = None"
  "sc_teamId (input_scope i) = [] \<Longrightarrow>
    find (\<lambda>c. tier_class (eb_match c) = ByTeam \<and> matchesBindingScope (eb_match c) p (input_scope i))
      (scan_bindings cfg ch acc) = None"
  by (rule find_none_of_set, use scan_keys in blast)+

lemma peer_tier:
  assumes "index_ok bs ix" "distinct bs"
  shows "find (\<lambda>c. is_valid_peer (eb_match c) \<and> matchesBindingScope (eb_match c) p scope)
      (collectPeerIndexedBindings ix p) =
    find (\<lambda>c. tier_class (eb_match c) = ByPeer \<and> matchesBindingScope (eb_match c) p scope) bs"
proof (cases p)
  case None
  then show ?thesis by (simp add: collectPeerIndexedBindings_def disabled_tiers(1))
next
  case (Some q)
  show ?thesis unfolding Some
    by (rule find_filter_eq [OF collect_peer [OF assms]])
       (auto simp: is_valid_peer_def tier_class_def matchesBindingScope_def split: peer_constraint.split)
qed

lemma match_route_scan: "match_route cfg input = scan_route cfg input"
proof -
  let ?ch = "normalizeToken (Some (ri_channel input))" and ?acc = "normalizeAccountId (ri_accountId input)"
  let ?bs = "scan_bindings cfg ?ch ?acc"
  define pp where "pp = norm_peer (ri_parentPeer input)"
  define parent where "parent = (case pp of Some p \<Rightarrow> if peer_id p \<noteq> [] then Some p else None | None \<Rightarrow> None)"
  have ix: "index_ok ?bs (buildEvaluatedBindingsIndex ?bs)" using scan_ids_ok by (intro index_built) blast
  note tiers = index_tiers [OF ix refl refl, unfolded conj_assoc] disabled_tiers disabled_keyed_tiers
    peer_tier [OF ix scan_distinct]
  have parent: "parent = None \<or> pp = parent" by (auto simp: parent_def split: option.splits)
  show ?thesis
    unfolding match_route_def scan_route_def route_tiers_def Let_def bindings_scan
      pp_def [symmetric] parent_def [symmetric]
    by (rule tiers_agree, use parent in \<open>elim disjE\<close>)
       (simp_all add: tier_agrees_def tiers)
qed

text \<open>C3: The router's grouping by channel, merging of account bindings
  and index per constraint compute exactly a plain scan of the configuration: the tiers from the
  most to the least specific (peer, parent peer, peer wildcard, guild with roles, guild, team,
  account, channel), and within a tier the first binding in configuration order that matches.\<close>

theorem routing_is_first_match: "match_route cfg input = scan_route cfg input"
  by (rule match_route_scan)

section \<open>The agent of a route\<close>

lemma lower_id_chars:
  "alnum_char c \<Longrightarrow> alnum_char (lower_char c)" "id_char_ci c \<Longrightarrow> id_char_ci (lower_char c)"
  by (auto simp: id_char_ci_def alnum_char_def id_char_def lower_char_def Let_def)

lemma valid_agent_id:
  assumes "isValidAgentId (Some i)"
  shows "normalizeAgentId (Some i) = js_lower (js_trim i)"
    "normalizeAgentId (Some (normalizeAgentId (Some i))) = normalizeAgentId (Some i)"
proof -
  from assms have v: "valid_id (js_trim i)" "js_trim i \<noteq> []" by (auto simp: isValidAgentId_def Let_def)
  then show n: "normalizeAgentId (Some i) = js_lower (js_trim i)"
    by (simp add: normalizeAgentId_def Let_def normalizeLowercaseStringOrEmpty_Some)
  have t: "js_trim (js_lower (js_trim i)) = js_lower (js_trim i)" by (simp add: js_trim_lower)
  have "valid_id (js_lower (js_trim i))"
    using v(1) unfolding valid_id_def
    by (auto simp: js_lower_def list_all_iff lower_id_chars split: list.splits)
  with n t v(2) show "normalizeAgentId (Some (normalizeAgentId (Some i))) = normalizeAgentId (Some i)"
    by (simp add: normalizeAgentId_def Let_def normalizeLowercaseStringOrEmpty_Some)
qed

definition agent_ids :: "route_config \<Rightarrow> string list" where
  "agent_ids cfg = map (\<lambda>a. normalizeAgentId (Some (ag_id a))) (cfg_agents cfg)"

lemma normalizeAgentId_trim: "normalizeAgentId (Some (js_trim i)) = normalizeAgentId (Some i)"
  by (simp add: normalizeAgentId_def)

lemma agents_map:
  assumes "\<forall>a \<in> set (cfg_agents cfg). isValidAgentId (Some (ag_id a))"
  shows "map_of (agents_by_normalized_id cfg) k = (if k \<in> set (agent_ids cfg) then Some k else None)"
proof -
  have "map_of (fold (\<lambda>agent m. let rawId = js_trim (ag_id agent) in
        if rawId = [] then m
        else map_set (normalizeAgentId (Some rawId)) (sanitizeAgentId (Some rawId)) m) as m) k =
      (if k \<in> (\<lambda>a. normalizeAgentId (Some (ag_id a))) ` set as then Some k else map_of m k)"
    if "\<forall>a \<in> set as. isValidAgentId (Some (ag_id a))" for as m
    using that
  proof (induction as arbitrary: m)
    case (Cons a as)
    then have "js_trim (ag_id a) \<noteq> []" by (auto simp: isValidAgentId_def Let_def)
    with Cons show ?case by (auto simp: Let_def sanitizeAgentId_def normalizeAgentId_trim)
  qed simp
  from this [OF assms, of "[]"] show ?thesis
    by (simp add: agents_by_normalized_id_def agent_ids_def)
qed

lemma default_agent_member:
  assumes "cfg_agents cfg \<noteq> []" "\<forall>a \<in> set (cfg_agents cfg). isValidAgentId (Some (ag_id a))"
  shows "\<exists>a \<in> set (cfg_agents cfg). resolveDefaultAgentId cfg = normalizeAgentId (Some (ag_id a))"
proof -
  obtain first rest where c: "cfg_agents cfg = first # rest" using assms(1) by (cases "cfg_agents cfg") auto
  let ?a = "case filter ag_default (cfg_agents cfg) of d # _ \<Rightarrow> d | [] \<Rightarrow> first"
  have "set (filter ag_default (cfg_agents cfg)) \<subseteq> set (cfg_agents cfg)" by auto
  then have mem: "?a \<in> set (cfg_agents cfg)"
    using c by (cases "filter ag_default (cfg_agents cfg)") (simp_all del: filter.simps set_filter)
  with assms(2) have "js_trim (ag_id ?a) \<noteq> []" by (auto simp: isValidAgentId_def Let_def)
  with mem c show ?thesis by (intro bexI [of _ ?a]) (auto simp: resolveDefaultAgentId_def Let_def normalizeAgentId_trim)
qed

text \<open>When the configuration lists agents and their ids are valid, every
  message is routed to a listed agent: to the one the matching binding names when it is listed,
  and otherwise (no binding, an unknown or a blank name) to the default agent.\<close>

theorem routed_agent_is_configured:
  assumes "cfg_agents cfg \<noteq> []" "\<forall>a \<in> set (cfg_agents cfg). isValidAgentId (Some (ag_id a))"
  shows "route_agentId (resolveAgentRoute cfg input) \<in> set (agent_ids cfg) \<and>
    route_agentId (resolveAgentRoute cfg input) =
      (case match_route cfg input of
         Some (by, c) \<Rightarrow>
           if js_trim (b_agentId (eb_binding c)) \<noteq> [] \<and> normalizeAgentId (Some (b_agentId (eb_binding c))) \<in> set (agent_ids cfg)
           then normalizeAgentId (Some (b_agentId (eb_binding c))) else resolveDefaultAgentId cfg
       | None \<Rightarrow> resolveDefaultAgentId cfg)"
proof -
  obtain d where d: "d \<in> set (cfg_agents cfg)" "resolveDefaultAgentId cfg = normalizeAgentId (Some (ag_id d))"
    using default_agent_member [OF assms] by blast
  have fallback: "sanitizeAgentId (Some (resolveDefaultAgentId cfg)) = resolveDefaultAgentId cfg"
    "resolveDefaultAgentId cfg \<in> set (agent_ids cfg)"
    using d assms(2) valid_agent_id(2) [of "ag_id d"] by (auto simp: sanitizeAgentId_def agent_ids_def)
  have "set (agent_ids cfg) \<noteq> {}" using fallback(2) by auto
  then obtain k where "map_of (agents_by_normalized_id cfg) k = Some k" using agents_map [OF assms(2)] by (metis all_not_in_conv)
  then have size: "length (agents_by_normalized_id cfg) \<noteq> 0" by auto
  have nonempty: "x \<noteq> []" if "x \<in> set (agent_ids cfg)" for x
    using that agent_id_safe by (auto simp: agent_ids_def safe_id_def)
  have pick: "pickFirstExistingAgentId cfg n =
      (if js_trim n \<noteq> [] \<and> normalizeAgentId (Some n) \<in> set (agent_ids cfg) then normalizeAgentId (Some n)
       else resolveDefaultAgentId cfg)" for n
    using size nonempty [of "normalizeAgentId (Some n)"]
    by (simp add: pickFirstExistingAgentId_def Let_def fallback(1) agents_map [OF assms(2)] normalizeAgentId_trim)
  have def: "pickFirstExistingAgentId cfg (resolveDefaultAgentId cfg) = resolveDefaultAgentId cfg"
    using fallback by (auto simp: pick sanitizeAgentId_def)
  show ?thesis
    using fallback(2) def
    by (auto simp: resolveAgentRoute_def choose_route_def Let_def pick split: option.split)
qed

definition two_agents :: route_config where
  "two_agents = \<lparr>cfg_agents = [\<lparr>ag_id = ''Main'', ag_default = False\<rparr>, \<lparr>ag_id = ''ops'', ag_default = True\<rparr>],
     cfg_bindings = [\<lparr>b_isAcp = False, b_agentId = ''main'', b_channel = Some ''Slack'', b_accountId = Some ''*'',
       b_peer = None, b_guildId = None, b_teamId = Some ''T1'', b_roles = None, b_dmScope = None\<rparr>],
     cfg_mainKey = None, cfg_dmScope = None, cfg_identityLinks = None\<rparr>"

definition team_input :: route_input where
  "team_input = \<lparr>ri_channel = ''slack'', ri_accountId = None, ri_peer = None, ri_parentPeer = None, ri_guildId = None,
     ri_teamId = Some ''T1'', ri_memberRoleIds = None\<rparr>"

theorem routed_agent_is_configured_witness:
  "route_agentId (resolveAgentRoute two_agents team_input) = ''main''"
proof -
  have "cfg_agents two_agents \<noteq> []" "\<forall>a \<in> set (cfg_agents two_agents). isValidAgentId (Some (ag_id a))"
    by code_simp+
  from routed_agent_is_configured [OF this, of team_input]
  have "route_agentId (resolveAgentRoute two_agents team_input) = (case match_route two_agents team_input of
         Some (by, c) \<Rightarrow>
           if js_trim (b_agentId (eb_binding c)) \<noteq> [] \<and> normalizeAgentId (Some (b_agentId (eb_binding c))) \<in> set (agent_ids two_agents)
           then normalizeAgentId (Some (b_agentId (eb_binding c))) else resolveDefaultAgentId two_agents
       | None \<Rightarrow> resolveDefaultAgentId two_agents)" by blast
  also have "\<dots> = ''main''" by code_simp
  finally show ?thesis .
qed

end
