(* ===== verification/RouteCache.thy ===== *)
theory RouteCache
  imports RouteResolve
begin

text \<open>
  The table of resolved routes that \<open>resolveAgentRoute\<close> of
  \<^verbatim>\<open>src/src/routing/resolve-route.ts\<close> keeps per configuration object: the string key, the
  lookup through it, the bound of 4000 keys, and the conditions under which answers from the
  table are the answers the router would compute. One configuration is fixed: the source starts a
  new table when the bindings, agents or session settings are replaced.
\<close>

section \<open>Keys\<close>

fun str_le :: "string \<Rightarrow> string \<Rightarrow> bool" where
  "str_le [] b = True"
| "str_le (x # xs) [] = False"
| "str_le (x # xs) (y # ys) =
     (if (of_char x :: nat) < of_char y then True else if x = y then str_le xs ys else False)"

definition str_cmp :: "string \<Rightarrow> string \<Rightarrow> int" where
  "str_cmp a b = (if a = b then 0 else if str_le a b then - 1 else 1)"

definition MAX_RESOLVED_ROUTE_CACHE_KEYS :: nat where
  "MAX_RESOLVED_ROUTE_CACHE_KEYS = 4000"

definition formatRouteCachePeer :: "route_peer option \<Rightarrow> string" where
  "formatRouteCachePeer peer = (case peer of
     None \<Rightarrow> ''-''
   | Some p \<Rightarrow> if peer_id p = [] then ''-'' else chat_type_name (peer_kind p) @ '':'' @ peer_id p)"

definition formatRoleIdsCacheKey :: "string list \<Rightarrow> string" where
  "formatRoleIdsCacheKey roleIds = (case roleIds of
     [] \<Rightarrow> ''-''
   | [a] \<Rightarrow> a
   | [a, b] \<Rightarrow> if str_le a b then a @ '','' @ b else b @ '','' @ a
   | _ \<Rightarrow> js_join '','' (to_sorted str_cmp roleIds))"

fun dm_scope_name :: "dm_scope \<Rightarrow> string" where
  "dm_scope_name DmMain = ''main''"
| "dm_scope_name PerPeer = ''per-peer''"
| "dm_scope_name PerChannelPeer = ''per-channel-peer''"
| "dm_scope_name PerAccountChannelPeer = ''per-account-channel-peer''"

definition tab :: string where
  "tab = [CHR 0x09]"

definition or_dash :: "string \<Rightarrow> string" where
  "or_dash s = (if s = [] then ''-'' else s)"

definition buildResolvedRouteCacheKey ::
    "string \<Rightarrow> string \<Rightarrow> route_peer option \<Rightarrow> route_peer option \<Rightarrow> string \<Rightarrow> string \<Rightarrow> string list \<Rightarrow> dm_scope \<Rightarrow> string" where
  "buildResolvedRouteCacheKey channel accountId peer parentPeer guildId teamId memberRoleIds dmScope =
     js_join tab [channel, accountId, formatRouteCachePeer peer, formatRouteCachePeer parentPeer,
       or_dash guildId, or_dash teamId, formatRoleIdsCacheKey memberRoleIds, dm_scope_name dmScope]"

section \<open>Resolution through the table\<close>

type_synonym route_cache = "(string, agent_route) js_map"

definition cache_key :: "route_config \<Rightarrow> route_input \<Rightarrow> string" where
  "cache_key cfg input = buildResolvedRouteCacheKey
     (normalizeToken (Some (ri_channel input))) (normalizeAccountId (ri_accountId input))
     (norm_peer (ri_peer input)) (norm_peer (ri_parentPeer input))
     (normalizeId (ri_guildId input)) (normalizeId (ri_teamId input))
     (case ri_memberRoleIds input of Some ms \<Rightarrow> ms | None \<Rightarrow> [])
     (case cfg_dmScope cfg of Some d \<Rightarrow> d | None \<Rightarrow> DmMain)"

definition store_route :: "string \<Rightarrow> agent_route \<Rightarrow> route_cache \<Rightarrow> route_cache" where
  "store_route key route cache =
     (let cache' = map_set key route cache
      in if length cache' > MAX_RESOLVED_ROUTE_CACHE_KEYS then map_set key route [] else cache')"

definition resolve_cached :: "bool \<Rightarrow> route_config \<Rightarrow> route_cache \<Rightarrow> route_input \<Rightarrow> route_cache \<times> agent_route" where
  "resolve_cached shouldLogDebug cfg cache input =
     (if shouldLogDebug \<or> cfg_identityLinks cfg \<noteq> None then (cache, resolveAgentRoute cfg input)
      else let key = cache_key cfg input in
        case map_of cache key of
          Some route \<Rightarrow> (cache, route)
        | None \<Rightarrow> let route = resolveAgentRoute cfg input in (store_route key route cache, route))"

fun resolve_all :: "bool \<Rightarrow> route_config \<Rightarrow> route_cache \<Rightarrow> route_input list \<Rightarrow> route_cache \<times> agent_route list" where
  "resolve_all dbg cfg cache [] = (cache, [])"
| "resolve_all dbg cfg cache (i # is) =
     (let (cache', r) = resolve_cached dbg cfg cache i; (cache'', rs) = resolve_all dbg cfg cache' is
      in (cache'', r # rs))"

section \<open>Joined strings\<close>



section \<open>Inputs whose key determines them\<close>















section \<open>Answers from the table\<close>















definition plain_config :: route_config where
  "plain_config = \<lparr>cfg_agents = [], cfg_bindings = [], cfg_mainKey = None, cfg_dmScope = None, cfg_identityLinks = None\<rparr>"

definition group_input :: "string \<Rightarrow> route_input" where
  "group_input i = \<lparr>ri_channel = ''Slack'', ri_accountId = None, ri_peer = Some \<lparr>peer_kind = GroupChat, peer_id = i\<rparr>,
     ri_parentPeer = None, ri_guildId = Some ''G1'', ri_teamId = None, ri_memberRoleIds = Some [''mod'', ''adm'']\<rparr>"


text \<open>A peer whose id is blank and no peer at all have the same key, so
  after a message with a blank peer id the table answers a message without a peer with the route
  of the former, whatever the router would compute for the latter.\<close>

theorem blank_peer_shares_key:
  assumes "normalizeId (Some (peer_id p)) = []" "cfg_identityLinks cfg = None"
  shows "snd (resolve_all False cfg [] [i\<lparr>ri_peer := Some p\<rparr>, i\<lparr>ri_peer := None\<rparr>]) =
    [resolveAgentRoute cfg (i\<lparr>ri_peer := Some p\<rparr>), resolveAgentRoute cfg (i\<lparr>ri_peer := Some p\<rparr>)]"
proof -
  have "cache_key cfg (i\<lparr>ri_peer := None\<rparr>) = cache_key cfg (i\<lparr>ri_peer := Some p\<rparr>)"
    using assms(1) by (simp add: cache_key_def norm_peer_def buildResolvedRouteCacheKey_def formatRouteCachePeer_def)
  then show ?thesis
    using assms(2)
    by (simp add: resolve_cached_def store_route_def Let_def MAX_RESOLVED_ROUTE_CACHE_KEYS_def)
qed

theorem blank_peer_shares_key_witness:
  "route_sessionKey (snd (resolve_all False plain_config [] [group_input '' '', (group_input '' '')\<lparr>ri_peer := None\<rparr>]) ! 1) =
     ''agent:main:slack:group:unknown'' \<and>
   route_sessionKey (resolveAgentRoute plain_config ((group_input '' '')\<lparr>ri_peer := None\<rparr>)) = ''agent:main:main''"
proof -
  have i: "group_input '' '' = (group_input '' '')\<lparr>ri_peer := Some \<lparr>peer_kind = GroupChat, peer_id = '' ''\<rparr>\<rparr>"
    by (simp add: group_input_def)
  have blank: "normalizeId (Some (peer_id \<lparr>peer_kind = GroupChat, peer_id = '' ''\<rparr>)) = []" "cfg_identityLinks plain_config = None"
    by code_simp+
  have "route_sessionKey (resolveAgentRoute plain_config ((group_input '' '')\<lparr>ri_peer := Some \<lparr>peer_kind = GroupChat, peer_id = '' ''\<rparr>\<rparr>)) =
      ''agent:main:slack:group:unknown''"
    "route_sessionKey (resolveAgentRoute plain_config ((group_input '' '')\<lparr>ri_peer := None\<rparr>)) = ''agent:main:main''"
    by code_simp+
  with blank_peer_shares_key [OF blank, of "group_input '' ''"] show ?thesis using i by simp
qed

end
