(* ===== verification/SessionKeys.thy ===== *)
theory SessionKeys
  imports RouteIds
begin

text \<open>
  Stored session keys, \<^verbatim>\<open>src/src/sessions/session-key-utils.ts\<close> and the readers of
  \<^verbatim>\<open>src/src/routing/session-key.ts\<close>: the case folding that keeps the opaque peer ids of some
  channels, the parsers of agent keys, thread suffixes and delivery routes, and the round trip
  with the keys the router builds. Regular expressions become scanners that report the spans they
  match; the table of normalised keys stores the result under the whole key and is left out.
\<close>

section \<open>Case folding\<close>

record preserved_span =
  sp_start :: nat
  sp_end :: nat
  sp_trim :: bool

text \<open>The body of a key behind any number of ownership wrappers, and whether there was one.\<close>

fun strip_wrappers :: "string list \<Rightarrow> bool \<times> string list" where
  "strip_wrappers (a # b # c # rest) =
     (if normalizeOptionalLowercaseString (Some a) = Some ''agent''
      then (True, snd (strip_wrappers (c # rest))) else (False, a # b # c # rest))"
| "strip_wrappers parts = (False, parts)"

definition part_at :: "nat \<Rightarrow> string list \<Rightarrow> string option" where
  "part_at i parts = (if i < length parts then Some (parts ! i) else None)"

definition requiresFoldedSessionKeyAliasProof :: "string option \<Rightarrow> bool" where
  "requiresFoldedSessionKeyAliasProof sessionKey = (case normalizeOptionalString sessionKey of
     None \<Rightarrow> False
   | Some raw \<Rightarrow>
      let (hasAgentWrapper, parts) = strip_wrappers (js_split CHR '':'' raw);
          body = (if hasAgentWrapper then dropWhile (\<lambda>p. normalizeOptionalString (Some p) = None) parts else parts)
      in case findCasePreservingPeerDescriptor (part_at 0 body) (part_at 1 body) of
           None \<Rightarrow> False | Some d \<Rightarrow> pd_span d = Tail)"

definition mayContainCasePreservingPeer :: "string \<Rightarrow> bool" where
  "mayContainCasePreservingPeer raw \<longleftrightarrow>
     list_ex (\<lambda>d. contains (pd_channel d @ '':'') (js_lower raw)) CASE_PRESERVING_PEERS"

text \<open>What follows \<open>head\<close> up to the next colon, if the text starts with \<open>head\<close> in any case and
  that segment is not empty.\<close>

definition segment_after :: "string \<Rightarrow> string \<Rightarrow> string option" where
  "segment_after head s = (if starts_with head (js_lower s)
     then let g = takeWhile (\<lambda>c. c \<noteq> CHR '':'') (drop (length head) s) in if g \<noteq> [] then Some g else None
     else None)"

text \<open>The matches of \<^verbatim>\<open>(^|:)head([^:]+)\<close> in what remains of the key at position \<open>i\<close>.\<close>

function segment_spans :: "string \<Rightarrow> nat \<Rightarrow> string \<Rightarrow> preserved_span list" where
  "segment_spans head i [] = []"
| "segment_spans head i (c # s) =
     (case (if i = 0 then segment_after head (c # s) else None) of
        Some g \<Rightarrow> \<lparr>sp_start = i + length head, sp_end = i + length head + length g, sp_trim = True\<rparr> #
          segment_spans head (i + length head + length g) (drop (length head + length g) (c # s))
      | None \<Rightarrow>
        (case (if c = CHR '':'' then segment_after head s else None) of
           Some g \<Rightarrow> \<lparr>sp_start = i + 1 + length head, sp_end = i + 1 + length head + length g, sp_trim = True\<rparr> #
             segment_spans head (i + 1 + length head + length g) (drop (length head + length g) s)
         | None \<Rightarrow> segment_spans head (i + 1) s))"
  by pat_completeness auto
termination
  by (relation "measure (\<lambda>(head, i, s). length s)") (auto simp: segment_after_def Let_def split: if_splits)

text \<open>The text after \<^verbatim>\<open>(?:agent:[^:]*:)+:*\<close>, if there is an owner. No registered channel starts
  with \<open>agent:\<close> or a colon, so the scan need not backtrack.\<close>

function after_owner :: "string \<Rightarrow> string option" where
  "after_owner s =
     (if starts_with ''agent:'' (js_lower s)
      then (case dropWhile (\<lambda>c. c \<noteq> CHR '':'') (drop 6 s) of
              [] \<Rightarrow> None
            | _ # r \<Rightarrow> if starts_with ''agent:'' (js_lower r) then after_owner r else Some (dropWhile (\<lambda>c. c = CHR '':'') r))
      else None)"
  by pat_completeness auto
termination
proof (relation "measure length", goal_cases)
  case (2 s c r)
  have "length (c # r) \<le> length (drop 6 s)" using length_dropWhile_le [of _ "drop 6 s"] 2(2) by metis
  then show ?case by simp
qed simp

declare after_owner.simps [simp del]

text \<open>The spans of an opaque tail: all of it but the marker of its thread.\<close>

definition tail_spans :: "string \<Rightarrow> nat \<Rightarrow> preserved_span list" where
  "tail_spans raw tailStart =
     (if tailStart \<ge> length raw then []
      else case last_index '':thread:'' (normalizeLowercaseStringOrEmpty (Some (drop tailStart raw))) of
        None \<Rightarrow> [\<lparr>sp_start = tailStart, sp_end = length raw, sp_trim = False\<rparr>]
      | Some markerIndex \<Rightarrow>
          \<lparr>sp_start = tailStart, sp_end = tailStart + markerIndex, sp_trim = False\<rparr> #
          (let threadIdStart = tailStart + markerIndex + length '':thread:''
           in if threadIdStart < length raw then [\<lparr>sp_start = threadIdStart, sp_end = length raw, sp_trim = False\<rparr>] else []))"

definition descriptor_spans :: "string \<Rightarrow> peer_descriptor \<Rightarrow> string \<Rightarrow> preserved_span list" where
  "descriptor_spans raw d kind =
     (let head = pd_channel d @ '':'' @ kind @ '':'' in
      case pd_span d of
        Segment \<Rightarrow> segment_spans head 0 raw
      | Tail \<Rightarrow>
         (case after_owner raw of
            Some t \<Rightarrow> if starts_with head (js_lower t) then tail_spans raw (length raw - length t + length head)
              else if pd_unscoped d \<and> starts_with head (js_lower raw) then tail_spans raw (length head) else []
          | None \<Rightarrow> if pd_unscoped d \<and> starts_with head (js_lower raw) then tail_spans raw (length head) else []))"

definition collectCasePreservedSpans :: "string \<Rightarrow> preserved_span list" where
  "collectCasePreservedSpans raw =
     concat (map (\<lambda>d. concat (map (descriptor_spans raw d) (pd_peerKinds d))) CASE_PRESERVING_PEERS)"

fun emit_spans :: "string \<Rightarrow> nat \<Rightarrow> preserved_span list \<Rightarrow> string" where
  "emit_spans raw cursor [] = normalizeLowercaseStringOrEmpty (Some (drop cursor raw))"
| "emit_spans raw cursor (span # spans) =
     (if sp_start span < cursor then emit_spans raw cursor spans
      else
        let preserved = drop (sp_start span) (take (sp_end span) raw)
        in normalizeLowercaseStringOrEmpty (Some (drop cursor (take (sp_start span) raw))) @
           (if sp_trim span then js_trim preserved else preserved) @ emit_spans raw (sp_end span) spans)"

definition normalizeSessionKeyPreservingOpaquePeerIds :: "string option \<Rightarrow> string" where
  "normalizeSessionKeyPreservingOpaquePeerIds sessionKey = (case normalizeOptionalString sessionKey of
     None \<Rightarrow> []
   | Some raw \<Rightarrow>
      if \<not> mayContainCasePreservingPeer raw then js_lower raw
      else emit_spans raw 0 (sort_key sp_start (filter (\<lambda>span. sp_end span > sp_start span) (collectCasePreservedSpans raw))))"

section \<open>Parsers\<close>

record parsed_agent_key =
  pk_agentId :: string
  pk_rest :: string

definition parseAgentSessionKey :: "string option \<Rightarrow> parsed_agent_key option" where
  "parseAgentSessionKey sessionKey = (case js_split CHR '':'' (normalizeSessionKeyPreservingOpaquePeerIds sessionKey) of
     a # b # c # parts \<Rightarrow>
       if b = [] \<or> c = [] \<or> a \<noteq> ''agent'' then None
       else (case normalizeOptionalString (Some b) of
           None \<Rightarrow> None
         | Some agentId \<Rightarrow> Some \<lparr>pk_agentId = agentId, pk_rest = js_join '':'' (c # parts)\<rparr>)
   | _ \<Rightarrow> None)"

definition parsed_rest :: "string option \<Rightarrow> string option" where
  "parsed_rest sessionKey = map_option pk_rest (parseAgentSessionKey sessionKey)"

definition lower_starts :: "string \<Rightarrow> string option \<Rightarrow> bool" where
  "lower_starts p value \<longleftrightarrow> (case normalizeOptionalLowercaseString value of Some v \<Rightarrow> starts_with p v | None \<Rightarrow> False)"

text \<open>\<^verbatim>\<open>/^cron:[^:]+:run:[^:]+(?::|$)/\<close> on the rest of the key.\<close>

definition isCronRunSessionKey :: "string option \<Rightarrow> bool" where
  "isCronRunSessionKey sessionKey \<longleftrightarrow> (case parsed_rest sessionKey of
     None \<Rightarrow> False
   | Some rest \<Rightarrow> (case js_split CHR '':'' rest of
       a # b # c # d # _ \<Rightarrow> a = ''cron'' \<and> b \<noteq> [] \<and> c = ''run'' \<and> d \<noteq> []
     | _ \<Rightarrow> False))"

definition isCronSessionKey :: "string option \<Rightarrow> bool" where
  "isCronSessionKey sessionKey \<longleftrightarrow> lower_starts ''cron:'' (parsed_rest sessionKey)"

definition isSubagentSessionKey :: "string option \<Rightarrow> bool" where
  "isSubagentSessionKey sessionKey \<longleftrightarrow> (case normalizeOptionalString sessionKey of
     None \<Rightarrow> False
   | Some raw \<Rightarrow> lower_starts ''subagent:'' (Some raw) \<or> lower_starts ''subagent:'' (parsed_rest (Some raw)))"

text \<open>The number of matches of \<^verbatim>\<open>(^|:)p\<close>; the flag holds at the start of the key.\<close>

function count_marked :: "string \<Rightarrow> bool \<Rightarrow> string \<Rightarrow> nat" where
  "count_marked p atStart [] = 0"
| "count_marked p atStart (c # s) =
     (if atStart \<and> p \<noteq> [] \<and> starts_with p (c # s) then Suc (count_marked p False (drop (length p) (c # s)))
      else if c = CHR '':'' \<and> starts_with p s then Suc (count_marked p False (drop (length p) s))
      else count_marked p False s)"
  by pat_completeness auto
termination by (relation "measure (\<lambda>(p, b, s). length s)") auto

definition getSubagentDepth :: "string option \<Rightarrow> nat" where
  "getSubagentDepth sessionKey = (case normalizeOptionalLowercaseString sessionKey of
     None \<Rightarrow> 0
   | Some raw \<Rightarrow> count_marked ''subagent:'' True (js_lower (case parsed_rest (Some raw) of Some r \<Rightarrow> r | None \<Rightarrow> raw)))"

definition isAcpSessionKey :: "string option \<Rightarrow> bool" where
  "isAcpSessionKey sessionKey \<longleftrightarrow> (case normalizeOptionalString sessionKey of
     None \<Rightarrow> False
   | Some raw \<Rightarrow> starts_with ''acp:'' (normalizeLowercaseStringOrEmpty (Some raw)) \<or> lower_starts ''acp:'' (parsed_rest (Some raw)))"

record thread_suffix =
  ts_baseSessionKey :: "string option"
  ts_threadId :: "string option"

definition parseThreadSessionSuffix :: "string option \<Rightarrow> thread_suffix" where
  "parseThreadSessionSuffix sessionKey = (case normalizeOptionalString sessionKey of
     None \<Rightarrow> \<lparr>ts_baseSessionKey = None, ts_threadId = None\<rparr>
   | Some raw \<Rightarrow> (case last_index '':thread:'' (normalizeLowercaseStringOrEmpty (Some raw)) of
       None \<Rightarrow> \<lparr>ts_baseSessionKey = Some raw, ts_threadId = None\<rparr>
     | Some markerIndex \<Rightarrow> \<lparr>ts_baseSessionKey = Some (take markerIndex raw),
         ts_threadId = normalizeOptionalString (Some (drop (markerIndex + length '':thread:'') raw))\<rparr>))"

record delivery_route =
  dr_accountId :: "string option"
  dr_channel :: string
  dr_peerId :: string
  dr_peerKind :: string
  dr_threadId :: "string option"

definition SESSION_DELIVERY_PEER_KINDS :: "string list" where
  "SESSION_DELIVERY_PEER_KINDS = [''channel'', ''direct'', ''dm'', ''group'']"

definition parseSessionDeliveryRoute :: "string option \<Rightarrow> delivery_route option" where
  "parseSessionDeliveryRoute sessionKey =
     (let parsedThread = parseThreadSessionSuffix sessionKey in
      case parseAgentSessionKey (case ts_baseSessionKey parsedThread of Some b \<Rightarrow> Some b | None \<Rightarrow> sessionKey) of
        None \<Rightarrow> None
      | Some parsed \<Rightarrow>
         (let parts = js_split CHR '':'' (pk_rest parsed) in
          if parts ! 0 = ''agent'' \<or> length parts < 3 then None
          else (case normalizeOptionalLowercaseString (Some (parts ! 0)) of
              None \<Rightarrow> None
            | Some channel \<Rightarrow>
               if length parts \<ge> 4 \<and> (parts ! 2 = ''direct'' \<or> parts ! 2 = ''dm'') then
                 (case (normalizeOptionalString (Some (parts ! 1)), normalizeOptionalString (Some (parts ! 3)),
                        normalizeOptionalString (Some (js_join '':'' (drop 3 parts)))) of
                    (Some accountId, Some _, Some peerId) \<Rightarrow>
                      Some \<lparr>dr_accountId = Some accountId, dr_channel = channel, dr_peerId = peerId,
                            dr_peerKind = parts ! 2, dr_threadId = ts_threadId parsedThread\<rparr>
                  | _ \<Rightarrow> None)
               else if parts ! 1 \<notin> set SESSION_DELIVERY_PEER_KINDS then None
               else
                 (case (normalizeOptionalString (Some (parts ! 2)), normalizeOptionalString (Some (js_join '':'' (drop 2 parts)))) of
                    (Some _, Some peerId) \<Rightarrow>
                      Some \<lparr>dr_accountId = None, dr_channel = channel, dr_peerId = peerId,
                            dr_peerKind = parts ! 1, dr_threadId = ts_threadId parsedThread\<rparr>
                  | _ \<Rightarrow> None))))"

record conversation_ref =
  cr_channel :: string
  cr_kind :: string
  cr_rawId :: string
  cr_prefix :: string

definition parseRawSessionConversationRef :: "string option \<Rightarrow> conversation_ref option" where
  "parseRawSessionConversationRef sessionKey = (case normalizeOptionalString sessionKey of
     None \<Rightarrow> None
   | Some raw \<Rightarrow>
      let rawParts = js_split CHR '':'' raw;
          lower = (\<lambda>p. normalizeOptionalLowercaseString p);
          hasAgentWrapper = (lower (part_at 0 rawParts) = Some ''agent'')
      in if hasAgentWrapper \<and> (normalizeOptionalString (part_at 1 rawParts) = None \<or> length rawParts < 3) then None
         else
           let bodyStartIndex = (if hasAgentWrapper then 2 else 0); parts = drop bodyStartIndex rawParts
           in if lower (part_at 0 parts) = Some ''agent'' then None
              else if length parts < 3 \<or> normalizeOptionalString (part_at 2 parts) = None then None
              else (case (lower (part_at 0 parts), lower (part_at 1 parts)) of
                  (Some channel, Some kind) \<Rightarrow>
                    if kind \<noteq> ''group'' \<and> kind \<noteq> ''channel'' then None
                    else (case (normalizeOptionalString (Some (js_join '':'' (drop 2 parts))),
                                normalizeOptionalString (Some (js_join '':'' (take (bodyStartIndex + 2) rawParts)))) of
                        (Some rawId, Some prefix) \<Rightarrow>
                          Some \<lparr>cr_channel = channel, cr_kind = kind, cr_rawId = rawId, cr_prefix = prefix\<rparr>
                      | _ \<Rightarrow> None)
                | _ \<Rightarrow> None))"

section \<open>Readers of the router\<close>

datatype session_key_shape = MissingKey | AgentKey | LegacyKey | MalformedAgentKey

definition or_empty :: "string option \<Rightarrow> string" where
  "or_empty value = (case value of Some v \<Rightarrow> v | None \<Rightarrow> [])"

datatype wake_target = WakeUnscoped | WakeSession string | WakeAgent string

text \<open>What \<^verbatim>\<open>scopedHeartbeatWakeOptions\<close> adds to the options.\<close>

definition scopedHeartbeatWakeOptions :: "string \<Rightarrow> string option \<Rightarrow> bool \<Rightarrow> wake_target" where
  "scopedHeartbeatWakeOptions sessionKey mainKey globalScope = (case parseAgentSessionKey (Some sessionKey) of
     None \<Rightarrow> WakeUnscoped
   | Some parsed \<Rightarrow>
      if isCronRunSessionKey (Some sessionKey) then
        if globalScope then WakeAgent (pk_agentId parsed)
        else WakeSession (buildAgentMainSessionKey (Some (pk_agentId parsed)) mainKey)
      else WakeSession sessionKey)"

definition resolveEventSessionKey :: "string \<Rightarrow> string option \<Rightarrow> bool \<Rightarrow> string" where
  "resolveEventSessionKey sessionKey mainKey globalScope = (case parseAgentSessionKey (Some sessionKey) of
     None \<Rightarrow> sessionKey
   | Some parsed \<Rightarrow>
      if \<not> isCronRunSessionKey (Some sessionKey) then sessionKey
      else if globalScope then ''global''
      else buildAgentMainSessionKey (Some (pk_agentId parsed)) mainKey)"

definition toAgentRequestSessionKey :: "string option \<Rightarrow> string option" where
  "toAgentRequestSessionKey storeKey =
     (let raw = js_trim (or_empty storeKey) in
      if raw = [] then None else Some (case parsed_rest (Some raw) of Some r \<Rightarrow> r | None \<Rightarrow> raw))"

definition agentSessionKeysMatchByRequestKey :: "string option \<Rightarrow> string option \<Rightarrow> bool" where
  "agentSessionKeysMatchByRequestKey left right \<longleftrightarrow>
     (let leftRaw = js_trim (or_empty left); rightRaw = js_trim (or_empty right) in
      leftRaw \<noteq> [] \<and> rightRaw \<noteq> [] \<and>
      (leftRaw = rightRaw \<or> toAgentRequestSessionKey (Some leftRaw) = toAgentRequestSessionKey (Some rightRaw)))"

definition toAgentStoreSessionKey :: "string \<Rightarrow> string option \<Rightarrow> string option \<Rightarrow> string" where
  "toAgentStoreSessionKey agentId requestKey mainKey =
     (let raw = js_trim (or_empty requestKey); lowered = normalizeLowercaseStringOrEmpty (Some raw) in
      if raw = [] \<or> lowered = DEFAULT_MAIN_KEY then buildAgentMainSessionKey (Some agentId) mainKey
      else case parseAgentSessionKey (Some raw) of
          Some parsed \<Rightarrow> ''agent:'' @ pk_agentId parsed @ '':'' @ pk_rest parsed
        | None \<Rightarrow>
           let normalized = normalizeSessionKeyPreservingOpaquePeerIds (Some raw)
           in if starts_with ''agent:'' lowered then normalized
              else ''agent:'' @ normalizeAgentId (Some agentId) @ '':'' @ normalized)"

definition resolveAgentIdFromSessionKey :: "string option \<Rightarrow> string" where
  "resolveAgentIdFromSessionKey sessionKey = normalizeAgentId
     (Some (case parseAgentSessionKey sessionKey of Some parsed \<Rightarrow> pk_agentId parsed | None \<Rightarrow> DEFAULT_AGENT_ID))"

definition classifySessionKeyShape :: "string option \<Rightarrow> session_key_shape" where
  "classifySessionKeyShape sessionKey =
     (let raw = js_trim (or_empty sessionKey) in
      if raw = [] then MissingKey
      else if parseAgentSessionKey (Some raw) \<noteq> None then AgentKey
      else if starts_with ''agent:'' (normalizeLowercaseStringOrEmpty (Some raw)) then MalformedAgentKey else LegacyKey)"

definition isUnscopedSessionKeySentinel :: "string option \<Rightarrow> bool" where
  "isUnscopedSessionKeySentinel sessionKey \<longleftrightarrow> normalizeLowercaseStringOrEmpty sessionKey \<in> set [''global'', ''unknown'']"

definition scopeLegacySessionKeyToAgent :: "string option \<Rightarrow> string option \<Rightarrow> string option \<Rightarrow> string option" where
  "scopeLegacySessionKeyToAgent agentId sessionKey mainKey =
     (let raw = js_trim (or_empty sessionKey); agent = js_trim (or_empty agentId) in
      if raw = [] then None
      else if agent = [] \<or> classifySessionKeyShape (Some raw) \<noteq> LegacyKey then Some raw
      else Some (toAgentStoreSessionKey agent (Some raw) mainKey))"

definition normalizeOptionalAgentId :: "string option \<Rightarrow> string option" where
  "normalizeOptionalAgentId value = map_option (\<lambda>trimmed. normalizeAgentId (Some trimmed)) (normalizeOptionalString value)"

section \<open>Folding a routed key\<close>

declare starts_with_self [simp]

lemma lower_char_colon [simp]: "lower_char c = CHR '':'' \<longleftrightarrow> c = CHR '':''" "lower_char CHR '':'' = CHR '':''"
proof -
  have "(of_char c :: nat) < 256" by (rule nat_of_char_less_256)
  have colon: "d = CHR '':'' \<longleftrightarrow> (of_char d :: nat) = 58" for d
    by (simp flip: of_char_eq_iff [where 'a = nat])
  show "lower_char c = CHR '':'' \<longleftrightarrow> c = CHR '':''"
    using \<open>(of_char c :: nat) < 256\<close> by (auto simp: lower_char_def Let_def colon)
qed (simp add: lower_char_def)

lemma lower_Cons [simp]: "js_lower (c # s) = lower_char c # js_lower s"
  by (simp add: js_lower_def)

lemma colon_lower [simp]: "CHR '':'' \<in> set (js_lower s) \<longleftrightarrow> CHR '':'' \<in> set s"
  by (auto simp: js_lower_def image_iff) (metis lower_char_colon(1))+

lemma no_later_segments:
  "\<not> contains (CHR '':'' # head) (js_lower s) \<Longrightarrow> i > 0 \<Longrightarrow> segment_spans head i s = []"
proof (induction s arbitrary: i)
  case (Cons c s)
  then have "c = CHR '':'' \<Longrightarrow> segment_after head s = None" by (simp add: segment_after_def)
  with Cons show ?case by auto
qed simp

lemma no_segments:
  assumes "\<not> contains (CHR '':'' # head) (js_lower s)" "\<not> starts_with head (js_lower s)"
  shows "segment_spans head 0 s = []"
proof (cases s)
  case (Cons c t)
  with assms have "c = CHR '':'' \<Longrightarrow> segment_after head t = None" "segment_after head (c # t) = None"
    by (simp_all add: segment_after_def)
  with Cons assms no_later_segments [of head t 1] show ?thesis by simp
qed simp

declare segment_spans.simps [simp del]

lemma lower_letters [simp]:
  "lower_char CHR ''a'' = CHR ''a''" "lower_char CHR ''g'' = CHR ''g''" "lower_char CHR ''e'' = CHR ''e''"
  "lower_char CHR ''n'' = CHR ''n''" "lower_char CHR ''t'' = CHR ''t''" "lower_char CHR ''h'' = CHR ''h''"
  "lower_char CHR ''r'' = CHR ''r''" "lower_char CHR ''d'' = CHR ''d''"
  by (simp_all add: lower_char_def)

lemma marker_signal: "CHR '':'' \<notin> set x \<Longrightarrow> starts_with ''signal:group:'' (x @ CHR '':'' # y) \<longleftrightarrow> x = ''signal'' \<and> starts_with ''group:'' y"
  using starts_with_parts [of "CHR '':''" "''signal''" x "''group:''" y] by simp

lemma marker_group: "CHR '':'' \<notin> set x \<Longrightarrow> starts_with ''group:'' (x @ CHR '':'' # y) \<longleftrightarrow> x = ''group''"
  using starts_with_parts [of "CHR '':''" "''group''" x "''''" y] by simp

lemma marker_channel: "CHR '':'' \<notin> set x \<Longrightarrow> starts_with ''channel:'' (x @ CHR '':'' # y) \<longleftrightarrow> x = ''channel''"
  using starts_with_parts [of "CHR '':''" "''channel''" x "''''" y] by simp

lemma marker_matrix_group: "CHR '':'' \<notin> set x \<Longrightarrow> starts_with ''matrix:group:'' (x @ CHR '':'' # y) \<longleftrightarrow> x = ''matrix'' \<and> starts_with ''group:'' y"
  using starts_with_parts [of "CHR '':''" "''matrix''" x "''group:''" y] by simp

lemma marker_matrix_channel: "CHR '':'' \<notin> set x \<Longrightarrow> starts_with ''matrix:channel:'' (x @ CHR '':'' # y) \<longleftrightarrow> x = ''matrix'' \<and> starts_with ''channel:'' y"
  using starts_with_parts [of "CHR '':''" "''matrix''" x "''channel:''" y] by simp

lemma marker_thread: "CHR '':'' \<notin> set x \<Longrightarrow> starts_with ''thread:'' (x @ CHR '':'' # y) \<longleftrightarrow> x = ''thread''"
  using starts_with_parts [of "CHR '':''" "''thread''" x "''''" y] by simp

lemma marker_agent: "CHR '':'' \<notin> set x \<Longrightarrow> starts_with ''agent:'' (x @ CHR '':'' # y) \<longleftrightarrow> x = ''agent''"
  using starts_with_parts [of "CHR '':''" "''agent''" x "''''" y] by simp

lemmas marker_parts = marker_signal marker_group marker_channel marker_matrix_group marker_matrix_channel marker_thread marker_agent

text \<open>A part of a key that folding and trimming leave alone.\<close>

definition plain_part :: "string \<Rightarrow> bool" where
  "plain_part x \<longleftrightarrow> x \<noteq> [] \<and> CHR '':'' \<notin> set x \<and> js_lower x = x \<and> js_trim x = x"

lemma dropWhile_colon [simp]:
  "CHR '':'' \<notin> set x \<Longrightarrow> dropWhile (\<lambda>c. c \<noteq> CHR '':'') (x @ CHR '':'' # s) = CHR '':'' # s"
  "CHR '':'' \<notin> set x \<Longrightarrow> x \<noteq> [] \<Longrightarrow> dropWhile (\<lambda>c. c = CHR '':'') (x @ s) = x @ s"
  "CHR '':'' \<notin> set x \<Longrightarrow> takeWhile (\<lambda>c. c \<noteq> CHR '':'') (x @ CHR '':'' # s) = x"
  "CHR '':'' \<notin> set x \<Longrightarrow> takeWhile (\<lambda>c. c \<noteq> CHR '':'') x = x"
  by (induction x) auto

lemma key_trim:
  assumes "q \<noteq> []" "js_trim q = q"
  shows "js_trim (''agent:'' @ r @ q) = ''agent:'' @ r @ q"
proof -
  have "\<not> is_ws (last q)" using js_trim_ends [of q] assms by simp
  then show ?thesis using assms(1) by (intro js_trim_fixed) (simp add: is_ws_def)
qed

lemma optional_trimmed: "js_trim s = s \<Longrightarrow> s \<noteq> [] \<Longrightarrow> normalizeOptionalString (Some s) = Some s"
  by (simp add: string_coerce_defs)

lemma owner_of_key:
  assumes "plain_part a" "plain_part ch" "ch \<noteq> ''agent''"
  shows "after_owner (''agent:'' @ a @ CHR '':'' # ch @ CHR '':'' # t) = Some (ch @ CHR '':'' # t)"
  using assms by (subst after_owner.simps) (simp add: plain_part_def js_lower_append marker_parts)

lemma fold_no_span:
  "js_trim key = key \<Longrightarrow> js_lower key = key \<Longrightarrow> key \<noteq> [] \<Longrightarrow> collectCasePreservedSpans key = [] \<Longrightarrow>
   normalizeSessionKeyPreservingOpaquePeerIds (Some key) = key"
  by (simp add: normalizeSessionKeyPreservingOpaquePeerIds_def optional_trimmed normalizeLowercaseStringOrEmpty_Some)

lemma fold_plain_key:
  assumes "plain_part a" "plain_part ch" "plain_part k" "ch \<notin> {''agent'', ''group''}"
    and "q \<noteq> []" "js_trim q = q" "js_lower q = q"
    and "\<not> contains '':signal:group:'' (CHR '':'' # k @ CHR '':'' # q)"
    and "\<not> (ch = ''signal'' \<and> k = ''group'')" "\<not> (ch = ''matrix'' \<and> k \<in> {''channel'', ''group''})"
  shows "normalizeSessionKeyPreservingOpaquePeerIds (Some (''agent:'' @ a @ CHR '':'' # ch @ CHR '':'' # k @ CHR '':'' # q)) =
    ''agent:'' @ a @ CHR '':'' # ch @ CHR '':'' # k @ CHR '':'' # q"
proof -
  let ?key = "''agent:'' @ a @ CHR '':'' # ch @ CHR '':'' # k @ CHR '':'' # q"
  have parts: "CHR '':'' \<notin> set a" "CHR '':'' \<notin> set ch" "CHR '':'' \<notin> set k" using assms(1-3) by (simp_all add: plain_part_def)
  have trim: "js_trim ?key = ?key" using key_trim [OF assms(5,6), of "a @ CHR '':'' # ch @ CHR '':'' # k @ CHR '':'' # []"] by simp
  have low: "js_lower ?key = ?key" using assms by (simp add: plain_part_def js_lower_append lower_char_def)
  have "\<not> contains '':signal:group:'' ?key"
    using assms(4,8,9) parts by (simp add: contains_skip marker_parts)
  with low have seg: "segment_spans ''signal:group:'' 0 ?key = []" by (intro no_segments) simp_all
  have own: "after_owner ?key = Some (ch @ CHR '':'' # k @ CHR '':'' # q)" using owner_of_key assms(1,2,4) by simp
  have lowch: "js_lower (ch @ CHR '':'' # k @ CHR '':'' # q) = ch @ CHR '':'' # k @ CHR '':'' # q"
    using assms by (simp add: plain_part_def js_lower_append)
  have spans: "collectCasePreservedSpans ?key = []"
    unfolding collectCasePreservedSpans_def CASE_PRESERVING_PEERS_def descriptor_spans_def Let_def
    using seg own low lowch assms(10) parts by (auto simp: marker_parts)
  show ?thesis by (rule fold_no_span [OF trim low _ spans]) simp
qed

lemma emit_one_span:
  assumes "js_lower h = h" "js_trim h = h" "js_trim q = q" "q \<noteq> []"
  shows "emit_spans (h @ q) 0 [\<lparr>sp_start = length h, sp_end = length h + length q, sp_trim = b\<rparr>] = h @ q"
  using assms by (simp add: normalizeLowercaseStringOrEmpty_Some)

lemma fold_with_span:
  assumes "js_lower h = h" "js_trim h = h" "js_trim q = q" "js_trim (h @ q) = h @ q" "q \<noteq> []"
    and "contains c (js_lower (h @ q))" "c \<in> {''signal:'', ''matrix:''}"
    and "collectCasePreservedSpans (h @ q) = [\<lparr>sp_start = length h, sp_end = length h + length q, sp_trim = b\<rparr>]"
  shows "normalizeSessionKeyPreservingOpaquePeerIds (Some (h @ q)) = h @ q"
proof -
  have "mayContainCasePreservingPeer (h @ q)"
    using assms(6,7) by (auto simp: mayContainCasePreservingPeer_def CASE_PRESERVING_PEERS_def)
  moreover have "normalizeOptionalString (Some (h @ q)) = Some (h @ q)" using optional_trimmed [OF assms(4)] assms(5) by simp
  ultimately show ?thesis
    using emit_one_span [OF assms(1-3,5)] assms(5,8) by (simp add: normalizeSessionKeyPreservingOpaquePeerIds_def)
qed

lemma owned_head:
  assumes "plain_part a" "plain_part ch" "plain_part k"
  defines "h \<equiv> ''agent:'' @ a @ CHR '':'' # ch @ CHR '':'' # k @ '':''"
  shows "js_lower h = h" "js_trim h = h"
  using assms js_trim_fixed [of h] by (simp_all add: h_def plain_part_def js_lower_append is_ws_def)

lemma segments_start:
  "\<not> starts_with head (js_lower (c # s)) \<Longrightarrow> c \<noteq> CHR '':'' \<Longrightarrow> segment_spans head 0 (c # s) = segment_spans head 1 s"
  by (simp add: segment_spans.simps segment_after_def)

lemma segments_colon:
  "i > 0 \<Longrightarrow> segment_spans head i (CHR '':'' # s) = (case segment_after head s of
     Some g \<Rightarrow> \<lparr>sp_start = i + 1 + length head, sp_end = i + 1 + length head + length g, sp_trim = True\<rparr> #
       segment_spans head (i + 1 + length head + length g) (drop (length head + length g) s)
   | None \<Rightarrow> segment_spans head (i + 1) s)"
  by (simp add: segment_spans.simps)

lemma segments_skip:
  "CHR '':'' \<notin> set x \<Longrightarrow> i > 0 \<Longrightarrow> segment_spans head i (x @ s) = segment_spans head (i + length x) s"
  by (induction x arbitrary: i) (auto simp: segment_spans.simps)

lemma fold_signal_group:
  assumes "plain_part a" "q \<noteq> []" "js_trim q = q" "CHR '':'' \<notin> set q"
  shows "normalizeSessionKeyPreservingOpaquePeerIds (Some (''agent:'' @ a @ CHR '':'' # ''signal:group:'' @ q)) =
    ''agent:'' @ a @ CHR '':'' # ''signal:group:'' @ q"
proof -
  let ?h = "''agent:'' @ a @ CHR '':'' # ''signal'' @ CHR '':'' # ''group'' @ '':''" and ?spans = "segment_spans ''signal:group:''"
  have plain: "plain_part ''signal''" "plain_part ''group''" by code_simp+
  have a: "CHR '':'' \<notin> set a" using assms(1) by (simp add: plain_part_def)
  have own: "after_owner (?h @ q) = Some (''signal'' @ CHR '':'' # ''group'' @ CHR '':'' # q)"
    using owner_of_key [OF assms(1) plain(1), of "''group'' @ CHR '':'' # q"] by simp
  have no: "segment_after ''signal:group:'' (a @ CHR '':'' # ''signal:group:'' @ q) = None"
    using marker_signal [of "js_lower a"] a by (simp add: segment_after_def js_lower_append lower_char_def)
  have yes: "segment_after ''signal:group:'' (''signal:group:'' @ q) = Some q"
    using assms(2,4) by (simp add: segment_after_def lower_char_def)
  have "?spans 0 (?h @ q) = ?spans 1 (''gent'' @ CHR '':'' # a @ CHR '':'' # ''signal:group:'' @ q)"
    using segments_start [of "''signal:group:''" "CHR ''a''"] by simp
  also have "\<dots> = ?spans 5 (CHR '':'' # a @ CHR '':'' # ''signal:group:'' @ q)"
    using segments_skip [of "''gent''" 1 "''signal:group:''" "CHR '':'' # a @ CHR '':'' # ''signal:group:'' @ q"]
    by (simp add: eval_nat_numeral)
  also have "\<dots> = ?spans (6 + length a) (CHR '':'' # ''signal:group:'' @ q)"
    by (simp only: segments_colon [of 5] no option.case segments_skip [OF a]) simp
  also have "\<dots> = [\<lparr>sp_start = length ?h, sp_end = length ?h + length q, sp_trim = True\<rparr>]"
    by (subst segments_colon) (simp_all only: yes option.case, simp_all add: segment_spans.simps)
  finally have "collectCasePreservedSpans (?h @ q) = [\<lparr>sp_start = length ?h, sp_end = length ?h + length q, sp_trim = True\<rparr>]"
    using own by (simp add: collectCasePreservedSpans_def CASE_PRESERVING_PEERS_def descriptor_spans_def lower_char_def)
  moreover have "contains ''signal:'' (js_lower (?h @ q))"
    using contains_append [of "''signal:''" "''agent:'' @ js_lower a @ '':''" "''group:'' @ js_lower q"]
    by (simp add: js_lower_append lower_char_def)
  moreover have "js_trim (?h @ q) = ?h @ q" using key_trim [OF assms(2,3), of "a @ '':signal:group:''"] by simp
  ultimately show ?thesis
    using fold_with_span [OF owned_head [OF assms(1) plain] assms(3), of "''signal:''"] assms(2) by simp
qed

lemma tail_whole:
  "q \<noteq> [] \<Longrightarrow> js_trim q = q \<Longrightarrow> \<not> contains '':thread:'' (js_lower q) \<Longrightarrow>
   tail_spans (h @ q) (length h) = [\<lparr>sp_start = length h, sp_end = length h + length q, sp_trim = False\<rparr>]"
  by (simp add: tail_spans_def normalizeLowercaseStringOrEmpty_Some last_index_None [THEN iffD2])

lemma fold_matrix_tail:
  assumes "plain_part a" "k \<in> {''channel'', ''group''}" "q \<noteq> []" "js_trim q = q"
    and "\<not> contains '':thread:'' (js_lower q)" "\<not> contains '':signal:group:'' (js_lower (CHR '':'' # q))"
  shows "normalizeSessionKeyPreservingOpaquePeerIds (Some (''agent:'' @ a @ CHR '':'' # ''matrix'' @ CHR '':'' # k @ CHR '':'' # q)) =
    ''agent:'' @ a @ CHR '':'' # ''matrix'' @ CHR '':'' # k @ CHR '':'' # q"
proof -
  let ?h = "''agent:'' @ a @ CHR '':'' # ''matrix'' @ CHR '':'' # k @ '':''"
  have plain: "plain_part ''matrix''" "plain_part k" using assms(2) by (auto; code_simp)+
  have parts: "CHR '':'' \<notin> set a" "CHR '':'' \<notin> set k" "js_lower a = a" "js_lower k = k"
    using assms(1) plain by (simp_all add: plain_part_def)
  have own: "after_owner (?h @ q) = Some (''matrix'' @ CHR '':'' # k @ CHR '':'' # q)"
    using owner_of_key [OF assms(1) plain(1), of "k @ CHR '':'' # q"] by simp
  have low: "js_lower ?h = ?h" by (rule owned_head(1) [OF assms(1) plain])
  have "\<not> contains '':signal:group:'' (js_lower ?h @ js_lower q)"
    using assms(6) parts assms(2) unfolding low by (auto simp: contains_skip marker_parts)
  then have seg: "segment_spans ''signal:group:'' 0 (?h @ q) = []"
    by (intro no_segments) (simp_all add: js_lower_append)
  have tail: "tail_spans (?h @ q) (length ?h) = [\<lparr>sp_start = length ?h, sp_end = length ?h + length q, sp_trim = False\<rparr>]"
    by (rule tail_whole) (use assms(3-5) in auto)
  have "collectCasePreservedSpans (?h @ q) = [\<lparr>sp_start = length ?h, sp_end = length ?h + length q, sp_trim = False\<rparr>]"
    using own seg tail assms(2) parts
    by (auto simp: collectCasePreservedSpans_def CASE_PRESERVING_PEERS_def descriptor_spans_def js_lower_append lower_char_def marker_parts eval_nat_numeral)
  moreover have "contains ''matrix:'' (js_lower (?h @ q))"
    using contains_append [of "''matrix:''" "''agent:'' @ js_lower a @ '':''" "js_lower (k @ CHR '':'' # q)"]
    by (simp add: js_lower_append lower_char_def)
  moreover have "js_trim (?h @ q) = ?h @ q" using key_trim [OF assms(3,4), of "a @ '':matrix:'' @ k @ '':''"] by simp
  ultimately show ?thesis
    using fold_with_span [OF owned_head [OF assms(1) plain] assms(4), of "''matrix:''"] assms(3) by simp
qed

section \<open>The round trip\<close>

lemma plain_part_id: "safe_id s \<Longrightarrow> plain_part s"
proof -
  assume s: "safe_id s"
  have char: "id_char c \<Longrightarrow> lower_char c = c \<and> \<not> is_ws c" for c
    by (auto simp: id_char_def lower_char_def is_ws_def Let_def)
  with s have "map lower_char s = s" by (auto simp: safe_id_def list_all_iff intro: map_idI)
  moreover have "js_trim s = s" using s char by (intro js_trim_fixed) (auto simp: safe_id_def list_all_iff)
  ultimately show ?thesis using s safe_id_no_colon by (simp add: plain_part_def js_lower_def safe_id_def)
qed

text \<open>The peer id a key holds, and the conditions under which the key is read as it was meant: the
  parts in front are not markers of the syntax, the peer id has a first segment, contains no marker
  of a thread or of a Signal group, and does not look like an account or a direct peer.\<close>

definition key_peer :: "string \<Rightarrow> chat_type \<Rightarrow> string \<Rightarrow> string" where
  "key_peer channel kind peerId = (if kind = DirectChat then normalizeLowercaseStringOrEmpty (Some peerId)
     else normalizeSessionPeerId (Some channel) (Some (chat_type_name kind)) (Some peerId))"

definition unmarked_peer :: "string \<Rightarrow> bool" where
  "unmarked_peer p \<longleftrightarrow> js_trim (takeWhile (\<lambda>c. c \<noteq> CHR '':'') p) \<noteq> [] \<and>
     takeWhile (\<lambda>c. c \<noteq> CHR '':'') p \<notin> {''direct'', ''dm''} \<and>
     \<not> contains '':thread:'' (js_lower (CHR '':'' # p)) \<and> \<not> contains '':signal:group:'' (js_lower (CHR '':'' # p))"

definition unmarked_key :: "string \<Rightarrow> string \<Rightarrow> string \<Rightarrow> chat_type \<Rightarrow> string \<Rightarrow> bool" where
  "unmarked_key agent ch account kind p \<longleftrightarrow> agent \<noteq> ''thread'' \<and>
     ch \<noteq> [] \<and> CHR '':'' \<notin> set ch \<and> ch \<notin> {''agent'', ''group'', ''thread''} \<and>
     account \<notin> {''thread'', ''group'', ''channel''} \<and>
     unmarked_peer p \<and> (ch = ''signal'' \<longrightarrow> kind = GroupChat \<longrightarrow> CHR '':'' \<notin> set p)"

lemma key_peer_trimmed: "js_trim (key_peer channel kind peerId) = key_peer channel kind peerId"
  by (auto simp: key_peer_def normalizeSessionPeerId_def normalizeLowercaseStringOrEmpty_Some js_trim_lower Let_def)

lemma chat_type_name_plain: "plain_part (chat_type_name kind)"
  by (cases kind; simp; code_simp)

lemma case_preserving_iff:
  "isCasePreservingPeer (Some channel) (Some (chat_type_name kind)) \<longleftrightarrow>
     normalizeLowercaseStringOrEmpty (Some channel) = ''signal'' \<and> kind = GroupChat \<or>
     normalizeLowercaseStringOrEmpty (Some channel) = ''matrix'' \<and> kind \<noteq> DirectChat"
proof -
  have "normalizeLowercaseStringOrEmpty (Some (chat_type_name kind)) = chat_type_name kind"
    using chat_type_name_plain [of kind] by (simp add: normalizeLowercaseStringOrEmpty_Some plain_part_def)
  then show ?thesis
    by (cases kind) (auto simp: isCasePreservingPeer_def findCasePreservingPeerDescriptor_def CASE_PRESERVING_PEERS_def
        normalizeLowercaseStringOrEmpty_idem Let_def split: if_splits)
qed

lemma key_peer_lower:
  assumes "kind = DirectChat \<or> normalizeLowercaseStringOrEmpty (Some channel) \<noteq> ''matrix'' \<and>
    (normalizeLowercaseStringOrEmpty (Some channel) = ''signal'' \<longrightarrow> kind \<noteq> GroupChat)"
  shows "js_lower (key_peer channel kind peerId) = key_peer channel kind peerId"
  using assms by (auto simp: key_peer_def normalizeSessionPeerId_def case_preserving_iff normalizeLowercaseStringOrEmpty_Some Let_def)

lemma built_key:
  assumes "key_peer channel kind peerId \<noteq> []" "normalizeLowercaseStringOrEmpty (Some channel) = ch" "ch \<noteq> []"
    and "kind = DirectChat \<Longrightarrow> scope \<in> {PerChannelPeer, PerAccountChannelPeer} \<and>
      resolveLinkedPeerId links channel (js_trim peerId) = None"
  shows "buildAgentPeerSessionKey agentId mainKey channel accountId (Some kind) (Some peerId) links (Some scope) =
    ''agent:'' @ normalizeAgentId (Some agentId) @ CHR '':'' # ch @ CHR '':'' #
    (if kind = DirectChat \<and> scope = PerAccountChannelPeer
     then normalizeAccountId accountId @ '':direct:'' @ key_peer channel kind peerId
     else chat_type_name kind @ CHR '':'' # key_peer channel kind peerId)"
proof (cases "kind = DirectChat")
  case True
  then have "scope = PerChannelPeer \<or> scope = PerAccountChannelPeer" "resolveLinkedPeerId links channel (js_trim peerId) = None"
    using assms(4) by auto
  then show ?thesis using True assms(1-3)
    by (elim disjE) (simp_all add: buildAgentPeerSessionKey_def key_peer_def or_unknown_def Let_def normalizeLowercaseStringOrEmpty_Some)
next
  case False
  then show ?thesis using assms(1-3) by (simp add: buildAgentPeerSessionKey_def key_peer_def or_unknown_def Let_def)
qed

lemma fold_built_key:
  assumes "unmarked_key a ch account kind p" "plain_part a" "plain_part ch" "safe_id account"
    and "p \<noteq> []" "js_trim p = p"
    and "kind = DirectChat \<or> ch \<noteq> ''matrix'' \<and> (ch = ''signal'' \<longrightarrow> kind \<noteq> GroupChat) \<Longrightarrow> js_lower p = p"
  defines "key r \<equiv> ''agent:'' @ a @ CHR '':'' # ch @ CHR '':'' # r"
  shows "normalizeSessionKeyPreservingOpaquePeerIds (Some (key (chat_type_name kind @ CHR '':'' # p))) = key (chat_type_name kind @ CHR '':'' # p)"
    "kind = DirectChat \<Longrightarrow> normalizeSessionKeyPreservingOpaquePeerIds (Some (key (account @ '':direct:'' @ p))) = key (account @ '':direct:'' @ p)"
proof -
  have peer: "\<not> contains '':thread:'' (js_lower (CHR '':'' # p))" "\<not> contains '':signal:group:'' (js_lower (CHR '':'' # p))"
    and ch: "ch \<notin> {''agent'', ''group''}" and acc: "account \<notin> {''thread'', ''group'', ''channel''}"
    using assms(1) by (simp_all add: unmarked_key_def unmarked_peer_def)
  have kind: "plain_part (chat_type_name kind)" by (rule chat_type_name_plain)
  consider (signal) "ch = ''signal''" "kind = GroupChat" | (matrix) "ch = ''matrix''" "kind \<noteq> DirectChat"
    | (plain) "kind = DirectChat \<or> ch \<noteq> ''matrix'' \<and> (ch = ''signal'' \<longrightarrow> kind \<noteq> GroupChat)" by blast
  then show "normalizeSessionKeyPreservingOpaquePeerIds (Some (key (chat_type_name kind @ CHR '':'' # p))) = key (chat_type_name kind @ CHR '':'' # p)"
  proof cases
    case signal
    with assms(1) have "CHR '':'' \<notin> set p" by (simp add: unmarked_key_def)
    from fold_signal_group [OF assms(2,5,6) this] signal show ?thesis by (simp add: key_def)
  next
    case matrix
    then have "chat_type_name kind \<in> {''channel'', ''group''}" by (cases kind) auto
    from fold_matrix_tail [OF assms(2) this assms(5,6) _ peer(2)] peer(1) matrix show ?thesis by (simp add: key_def)
  next
    case plain
    from assms(7) [OF this] have low: "js_lower p = p" .
    have "chat_type_name kind \<noteq> ''signal''" by (cases kind) simp_all
    then have "\<not> contains '':signal:group:'' (CHR '':'' # chat_type_name kind @ CHR '':'' # p)"
      using peer(2) low kind by (simp add: contains_skip marker_parts plain_part_def)
    from fold_plain_key [OF assms(2,3) kind ch assms(5,6) low this] plain show ?thesis
      unfolding key_def by (cases kind) auto
  qed
  assume direct: "kind = DirectChat"
  then have low: "js_lower (''direct:'' @ p) = ''direct:'' @ p" using assms(7) by (simp add: lower_char_def)
  have account: "plain_part account" using assms(4) by (rule plain_part_id)
  have trim: "js_trim (''direct:'' @ p) = ''direct:'' @ p"
    using js_trim_ends [of p] assms(5,6) by (intro js_trim_fixed) (simp add: is_ws_def)
  have "\<not> contains '':signal:group:'' (CHR '':'' # account @ CHR '':'' # ''direct:'' @ p)"
    using peer(2) low account marker_parts(1) [of account "''direct:'' @ p"] by (simp add: contains_skip plain_part_def)
  from fold_plain_key [OF assms(2,3) account ch _ trim low this] acc
  show "normalizeSessionKeyPreservingOpaquePeerIds (Some (key (account @ '':direct:'' @ p))) = key (account @ '':direct:'' @ p)"
    by (auto simp: key_def)
qed

lemma thread_of_key:
  assumes "plain_part a" "plain_part ch" "plain_part k" "a \<noteq> ''thread''" "ch \<noteq> ''thread''" "k \<noteq> ''thread''"
    and "q \<noteq> []" "js_trim q = q" "\<not> contains '':thread:'' (js_lower (CHR '':'' # q))"
  defines "key \<equiv> ''agent:'' @ a @ CHR '':'' # ch @ CHR '':'' # k @ CHR '':'' # q"
  shows "parseThreadSessionSuffix (Some key) = \<lparr>ts_baseSessionKey = Some key, ts_threadId = None\<rparr>"
    "js_trim t = t \<Longrightarrow> t \<noteq> [] \<Longrightarrow> js_lower t = t \<Longrightarrow> \<not> contains '':thread:'' (CHR '':'' # t) \<Longrightarrow>
     parseThreadSessionSuffix (Some (key @ '':thread:'' @ t)) = \<lparr>ts_baseSessionKey = Some key, ts_threadId = Some t\<rparr>"
proof -
  have parts: "CHR '':'' \<notin> set a" "CHR '':'' \<notin> set ch" "CHR '':'' \<notin> set k" "js_lower a = a" "js_lower ch = ch" "js_lower k = k"
    using assms(1-3) by (simp_all add: plain_part_def)
  have low: "js_lower key = ''agent'' @ CHR '':'' # a @ CHR '':'' # ch @ CHR '':'' # k @ CHR '':'' # js_lower q"
    by (simp add: key_def js_lower_append parts)
  have no: "\<not> contains '':thread:'' (js_lower key)"
    unfolding low using assms(4-6,9) parts by (simp add: contains_skip marker_parts)
  have trim: "js_trim key = key" using key_trim [OF assms(7,8), of "a @ CHR '':'' # ch @ CHR '':'' # k @ '':''"] by (simp add: key_def)
  have "normalizeOptionalString (Some key) = Some key" by (rule optional_trimmed [OF trim]) (simp add: key_def)
  then show "parseThreadSessionSuffix (Some key) = \<lparr>ts_baseSessionKey = Some key, ts_threadId = None\<rparr>"
    using no trim by (simp add: parseThreadSessionSuffix_def normalizeLowercaseStringOrEmpty_Some last_index_None [THEN iffD2])
  assume t: "js_trim t = t" "t \<noteq> []" "js_lower t = t" "\<not> contains '':thread:'' (CHR '':'' # t)"
  have trim': "js_trim (key @ '':thread:'' @ t) = key @ '':thread:'' @ t"
    using key_trim [OF t(2,1), of "a @ CHR '':'' # ch @ CHR '':'' # k @ CHR '':'' # q @ '':thread:''"] by (simp add: key_def)
  have "last_index '':thread:'' (js_lower key @ '':thread:'' @ t) = Some (length (js_lower key))"
    by (rule last_index_append) (use t(4) in simp_all)
  moreover have "js_lower (key @ '':thread:'' @ t) = js_lower key @ '':thread:'' @ t" by (simp add: js_lower_append t(3))
  moreover have "normalizeOptionalString (Some (key @ '':thread:'' @ t)) = Some (key @ '':thread:'' @ t)"
    by (rule optional_trimmed [OF trim']) simp
  ultimately show "parseThreadSessionSuffix (Some (key @ '':thread:'' @ t)) = \<lparr>ts_baseSessionKey = Some key, ts_threadId = Some t\<rparr>"
    using trim' t(1,2) by (simp add: parseThreadSessionSuffix_def normalizeLowercaseStringOrEmpty_Some optional_trimmed)
qed

lemma agent_of_key:
  fixes q
  assumes "plain_part a" "plain_part ch" "plain_part k"
  defines "key \<equiv> ''agent:'' @ a @ CHR '':'' # ch @ CHR '':'' # k @ CHR '':'' # q"
  assumes "normalizeSessionKeyPreservingOpaquePeerIds (Some key) = key"
  shows "parseAgentSessionKey (Some key) = Some \<lparr>pk_agentId = a, pk_rest = ch @ CHR '':'' # k @ CHR '':'' # q\<rparr>"
proof -
  have key: "key = ''agent'' @ CHR '':'' # a @ CHR '':'' # ch @ CHR '':'' # k @ CHR '':'' # q" by (simp add: key_def)
  have "js_split CHR '':'' key = ''agent'' # a # ch # k # js_split CHR '':'' q"
    unfolding key using assms(1-3) by (subst js_split_part) (simp_all add: plain_part_def)
  then show ?thesis
    using assms(1-3,5) by (simp add: parseAgentSessionKey_def optional_trimmed plain_part_def js_join_Cons)
qed

lemma rest_parts:
  assumes "plain_part ch" "plain_part k"
  shows "js_split CHR '':'' (ch @ CHR '':'' # k @ CHR '':'' # q) = ch # k # js_split CHR '':'' q"
  using assms by (simp add: plain_part_def)

lemma first_part: "js_split CHR '':'' q ! 0 = takeWhile (\<lambda>c. c \<noteq> CHR '':'') q"
  using hd_js_split [of "CHR '':''" q] by (simp add: hd_conv_nth)

lemma account_route:
  assumes "plain_part ch" "plain_part account" "ch \<noteq> ''agent''"
    and "p \<noteq> []" "js_trim p = p" "js_trim (takeWhile (\<lambda>c. c \<noteq> CHR '':'') p) \<noteq> []"
    and "parseThreadSessionSuffix key = \<lparr>ts_baseSessionKey = Some base, ts_threadId = t\<rparr>"
    and "parseAgentSessionKey (Some base) = Some \<lparr>pk_agentId = a, pk_rest = ch @ CHR '':'' # account @ CHR '':'' # ''direct:'' @ p\<rparr>"
  shows "parseSessionDeliveryRoute key = Some \<lparr>dr_accountId = Some account, dr_channel = ch, dr_peerId = p,
    dr_peerKind = ''direct'', dr_threadId = t\<rparr>"
proof -
  have "js_split CHR '':'' (''direct:'' @ p) = ''direct'' # js_split CHR '':'' p"
    using js_split_part [of "CHR '':''" "''direct''" p] by simp
  then have parts: "js_split CHR '':'' (ch @ CHR '':'' # account @ CHR '':'' # ''direct:'' @ p) = ch # account # ''direct'' # js_split CHR '':'' p"
    using rest_parts [OF assms(1,2), of "''direct:'' @ p"] by simp
  have len: "length (js_split CHR '':'' p) \<ge> 1" by (simp add: Suc_le_eq)
  have lower: "normalizeOptionalLowercaseString (Some ch) = Some ch"
    using assms(1) by (simp add: normalizeOptionalLowercaseString_def optional_trimmed plain_part_def)
  have first: "normalizeOptionalString (Some (js_split CHR '':'' p ! 0)) \<noteq> None"
    using assms(6) by (simp add: first_part string_coerce_defs)
  then obtain x where "normalizeOptionalString (Some (js_split CHR '':'' p ! 0)) = Some x" by blast
  then show ?thesis
    using assms len lower optional_trimmed [of account] optional_trimmed [of p]
    by (simp add: parseSessionDeliveryRoute_def parts plain_part_def numeral_3_eq_3)
qed

lemma peer_route:
  assumes "plain_part ch" "ch \<noteq> ''agent''" "p \<noteq> []" "js_trim p = p" "unmarked_peer p"
    and "parseThreadSessionSuffix key = \<lparr>ts_baseSessionKey = Some base, ts_threadId = t\<rparr>"
    and "parseAgentSessionKey (Some base) = Some \<lparr>pk_agentId = a, pk_rest = ch @ CHR '':'' # chat_type_name kind @ CHR '':'' # p\<rparr>"
  shows "parseSessionDeliveryRoute key = Some \<lparr>dr_accountId = None, dr_channel = ch, dr_peerId = p,
    dr_peerKind = chat_type_name kind, dr_threadId = t\<rparr>"
proof -
  note parts = rest_parts [OF assms(1) chat_type_name_plain [of kind], of p]
  have len: "length (js_split CHR '':'' p) \<ge> 1" by (simp add: Suc_le_eq)
  have lower: "normalizeOptionalLowercaseString (Some ch) = Some ch"
    using assms(1) by (simp add: normalizeOptionalLowercaseString_def optional_trimmed plain_part_def)
  have first: "js_split CHR '':'' p ! 0 \<noteq> ''direct''" "js_split CHR '':'' p ! 0 \<noteq> ''dm''"
    "normalizeOptionalString (Some (js_split CHR '':'' p ! 0)) \<noteq> None"
    using assms(5) by (simp_all add: first_part string_coerce_defs unmarked_peer_def)
  then obtain x where "normalizeOptionalString (Some (js_split CHR '':'' p ! 0)) = Some x" by blast
  moreover have "chat_type_name kind \<in> set SESSION_DELIVERY_PEER_KINDS"
    by (cases kind) (simp_all add: SESSION_DELIVERY_PEER_KINDS_def)
  ultimately show ?thesis
    using assms len lower first optional_trimmed [of p]
    by (simp add: parseSessionDeliveryRoute_def parts plain_part_def numeral_2_eq_2)
qed

lemma threaded_key:
  "fst (resolveThreadSessionKeys key threadId parent None None) =
     (let t = normalizeLowercaseStringOrEmpty threadId in if t = [] then key else key @ '':thread:'' @ t)"
  by (cases threadId) (auto simp: resolveThreadSessionKeys_def normalizeLowercaseStringOrEmpty_Some Let_def,
      simp_all add: string_coerce_defs)

lemma thread_suffix_of_key:
  assumes "plain_part a" "plain_part ch" "plain_part k" "a \<noteq> ''thread''" "ch \<noteq> ''thread''" "k \<noteq> ''thread''"
    and "q \<noteq> []" "js_trim q = q" "\<not> contains '':thread:'' (js_lower (CHR '':'' # q))"
    and "\<not> contains '':thread:'' (CHR '':'' # normalizeLowercaseStringOrEmpty threadId)"
  shows "parseThreadSessionSuffix (Some (fst (resolveThreadSessionKeys (''agent:'' @ a @ CHR '':'' # ch @ CHR '':'' # k @ CHR '':'' # q)
      threadId parent None None))) =
    \<lparr>ts_baseSessionKey = Some (''agent:'' @ a @ CHR '':'' # ch @ CHR '':'' # k @ CHR '':'' # q),
     ts_threadId = (let t = normalizeLowercaseStringOrEmpty threadId in if t = [] then None else Some t)\<rparr>"
proof -
  let ?t = "normalizeLowercaseStringOrEmpty threadId"
  have "js_lower ?t = ?t" "js_trim ?t = ?t"
    by (cases threadId; simp add: normalizeLowercaseStringOrEmpty_Some js_trim_lower; simp add: string_coerce_defs)+
  then show ?thesis
    using thread_of_key(1) [OF assms(1-9)] thread_of_key(2) [OF assms(1-9), of ?t] assms(10) by (simp add: threaded_key Let_def)
qed

lemma route_of_built_key:
  assumes "unmarked_key (normalizeAgentId (Some agentId)) (normalizeLowercaseStringOrEmpty (Some channel))
      (normalizeAccountId accountId) kind (key_peer channel kind peerId)"
    and "kind = DirectChat \<Longrightarrow> scope \<in> {PerChannelPeer, PerAccountChannelPeer} \<and>
      resolveLinkedPeerId links channel (js_trim peerId) = None"
    and "\<not> contains '':thread:'' (CHR '':'' # normalizeLowercaseStringOrEmpty threadId)"
  shows "parseSessionDeliveryRoute (Some (fst (resolveThreadSessionKeys
      (buildAgentPeerSessionKey agentId mainKey channel accountId (Some kind) (Some peerId) links (Some scope)) threadId None None None))) =
    Some \<lparr>dr_accountId = (if kind = DirectChat \<and> scope = PerAccountChannelPeer then Some (normalizeAccountId accountId) else None),
      dr_channel = normalizeLowercaseStringOrEmpty (Some channel), dr_peerId = key_peer channel kind peerId,
      dr_peerKind = chat_type_name kind,
      dr_threadId = (let t = normalizeLowercaseStringOrEmpty threadId in if t = [] then None else Some t)\<rparr>"
proof -
  let ?a = "normalizeAgentId (Some agentId)" and ?ch = "normalizeLowercaseStringOrEmpty (Some channel)"
    and ?acc = "normalizeAccountId accountId" and ?p = "key_peer channel kind peerId"
  note key = assms(1)
  have ch: "plain_part ?ch" "?ch \<noteq> ''agent''" "?ch \<noteq> ''thread''"
    using key by (auto simp: unmarked_key_def plain_part_def normalizeLowercaseStringOrEmpty_Some js_trim_lower)
  have ids: "plain_part ?a" "plain_part ?acc" "?a \<noteq> ''thread''" "?acc \<noteq> ''thread''"
    using key agent_id_safe account_id_safe plain_part_id by (auto simp: unmarked_key_def)
  have kind: "plain_part (chat_type_name kind)" "chat_type_name kind \<noteq> ''thread''"
    using chat_type_name_plain by (auto, cases kind, simp_all)
  have p: "unmarked_peer ?p" "js_trim ?p = ?p" "\<not> contains '':thread:'' (js_lower (CHR '':'' # ?p))"
    using key key_peer_trimmed by (simp_all add: unmarked_key_def unmarked_peer_def)
  then have ne: "?p \<noteq> []" by (auto simp: unmarked_peer_def)
  have built: "buildAgentPeerSessionKey agentId mainKey channel accountId (Some kind) (Some peerId) links (Some scope) =
    ''agent:'' @ ?a @ CHR '':'' # ?ch @ CHR '':'' # (if kind = DirectChat \<and> scope = PerAccountChannelPeer
      then ?acc @ '':direct:'' @ ?p else chat_type_name kind @ CHR '':'' # ?p)"
    by (rule built_key [OF ne refl _ assms(2)]) (use ch in \<open>simp_all add: plain_part_def\<close>)
  note fold = fold_built_key [OF key ids(1) ch(1) account_id_safe ne p(2)]
  have lower: "kind = DirectChat \<or> ?ch \<noteq> ''matrix'' \<and> (?ch = ''signal'' \<longrightarrow> kind \<noteq> GroupChat) \<Longrightarrow> js_lower ?p = ?p"
    by (rule key_peer_lower) blast
  show ?thesis
  proof (cases "kind = DirectChat \<and> scope = PerAccountChannelPeer")
    case True
    have trim: "js_trim (''direct:'' @ ?p) = ''direct:'' @ ?p"
      using js_trim_ends [of ?p] p(2) ne by (intro js_trim_fixed) (simp add: is_ws_def)
    have "\<not> contains '':thread:'' (js_lower (CHR '':'' # ''direct:'' @ ?p))" using p(3) by (simp add: lower_char_def)
    from thread_suffix_of_key [OF ids(1) ch(1) ids(2,3) ch(3) ids(4) _ trim this assms(3)]
    have "parseThreadSessionSuffix (Some (fst (resolveThreadSessionKeys (''agent:'' @ ?a @ CHR '':'' # ?ch @ CHR '':'' # ?acc @ '':direct:'' @ ?p)
      threadId None None None))) = \<lparr>ts_baseSessionKey = Some (''agent:'' @ ?a @ CHR '':'' # ?ch @ CHR '':'' # ?acc @ '':direct:'' @ ?p),
     ts_threadId = (let t = normalizeLowercaseStringOrEmpty threadId in if t = [] then None else Some t)\<rparr>" by simp
    moreover from agent_of_key [OF ids(1) ch(1) ids(2), of "''direct:'' @ ?p"] fold(2) [OF lower] True
    have "parseAgentSessionKey (Some (''agent:'' @ ?a @ CHR '':'' # ?ch @ CHR '':'' # ?acc @ '':direct:'' @ ?p)) =
      Some \<lparr>pk_agentId = ?a, pk_rest = ?ch @ CHR '':'' # ?acc @ CHR '':'' # ''direct:'' @ ?p\<rparr>" by simp
    moreover have "js_trim (takeWhile (\<lambda>c. c \<noteq> CHR '':'') ?p) \<noteq> []" using p(1) by (simp add: unmarked_peer_def)
    ultimately show ?thesis
      unfolding built using account_route [OF ch(1) ids(2) ch(2) ne p(2)] True by simp
  next
    case False
    from thread_suffix_of_key [OF ids(1) ch(1) kind(1) ids(3) ch(3) kind(2) ne p(2,3) assms(3)]
      agent_of_key [OF ids(1) ch(1) kind(1), of ?p] fold(1) [OF lower]
    have "parseThreadSessionSuffix (Some (fst (resolveThreadSessionKeys (''agent:'' @ ?a @ CHR '':'' # ?ch @ CHR '':'' # chat_type_name kind @ CHR '':'' # ?p)
      threadId None None None))) = \<lparr>ts_baseSessionKey = Some (''agent:'' @ ?a @ CHR '':'' # ?ch @ CHR '':'' # chat_type_name kind @ CHR '':'' # ?p),
     ts_threadId = (let t = normalizeLowercaseStringOrEmpty threadId in if t = [] then None else Some t)\<rparr>"
      "parseAgentSessionKey (Some (''agent:'' @ ?a @ CHR '':'' # ?ch @ CHR '':'' # chat_type_name kind @ CHR '':'' # ?p)) =
      Some \<lparr>pk_agentId = ?a, pk_rest = ?ch @ CHR '':'' # chat_type_name kind @ CHR '':'' # ?p\<rparr>" by simp_all
    from peer_route [OF ch(1,2) ne p(2,1) this] show ?thesis
      unfolding built using False by auto
  qed
qed

text \<open>C24: A session key that names its chat can be read back: the key the router
  builds for a group or a channel, or for a direct chat under the scope per channel and peer or per
  account, channel and peer whose peer no identity link replaces, parses to the delivery route it
  was built from (channel, peer kind, peer id, the account where the scope names it, the thread),
  so a reply goes to the chat the message came from. The conditions on the parts: after
  normalisation the agent is not called thread, the channel is not empty, has no colon and is not
  agent, group or thread, the account is not thread, group or channel, and the peer id has a first
  segment that is neither direct nor dm, contains no marker of a thread or of a Signal group, and
  has no colon in a Signal group; the thread id contains no marker of a thread.\<close>

theorem delivery_route_roundtrip:
  assumes "unmarked_key (normalizeAgentId (Some agentId)) (normalizeLowercaseStringOrEmpty (Some channel))
      (normalizeAccountId accountId) kind (key_peer channel kind peerId)"
    and "kind = DirectChat \<Longrightarrow> scope \<in> {PerChannelPeer, PerAccountChannelPeer} \<and>
      resolveLinkedPeerId links channel (js_trim peerId) = None"
    and "\<not> contains '':thread:'' (CHR '':'' # normalizeLowercaseStringOrEmpty threadId)"
  shows "parseSessionDeliveryRoute (Some (fst (resolveThreadSessionKeys
      (buildAgentPeerSessionKey agentId mainKey channel accountId (Some kind) (Some peerId) links (Some scope)) threadId None None None))) =
    Some \<lparr>dr_accountId = (if kind = DirectChat \<and> scope = PerAccountChannelPeer then Some (normalizeAccountId accountId) else None),
      dr_channel = normalizeLowercaseStringOrEmpty (Some channel), dr_peerId = key_peer channel kind peerId,
      dr_peerKind = chat_type_name kind,
      dr_threadId = (let t = normalizeLowercaseStringOrEmpty threadId in if t = [] then None else Some t)\<rparr>"
  using assms by (rule route_of_built_key)

theorem delivery_route_roundtrip_witness:
  "parseSessionDeliveryRoute (Some (fst (resolveThreadSessionKeys
      (buildAgentPeerSessionKey ''main'' None ''Matrix'' None (Some ChannelChat) (Some ''!Room:Server.org'') None (Some DmMain))
      (Some '' $Event '') None None None))) =
    Some \<lparr>dr_accountId = None, dr_channel = ''matrix'', dr_peerId = ''!Room:Server.org'', dr_peerKind = ''channel'',
      dr_threadId = Some ''$event''\<rparr>"
proof -
  have "unmarked_key (normalizeAgentId (Some ''main'')) (normalizeLowercaseStringOrEmpty (Some ''Matrix''))
      (normalizeAccountId None) ChannelChat (key_peer ''Matrix'' ChannelChat ''!Room:Server.org'')"
    and "\<not> contains '':thread:'' (CHR '':'' # normalizeLowercaseStringOrEmpty (Some '' $Event ''))"
    by code_simp+
  moreover have "normalizeLowercaseStringOrEmpty (Some ''Matrix'') = ''matrix''" "key_peer ''Matrix'' ChannelChat ''!Room:Server.org'' = ''!Room:Server.org''"
    "normalizeLowercaseStringOrEmpty (Some '' $Event '') = ''$event''" by code_simp+
  ultimately show ?thesis
    using delivery_route_roundtrip [of "''main''" "''Matrix''" None ChannelChat "''!Room:Server.org''" DmMain None "Some '' $Event ''" None]
    by simp
qed

text \<open>An agent called thread: its keys contain the marker of a thread, so that the id of the agent is
  cut off and no delivery route is found.\<close>

theorem agent_named_thread:
  "parseSessionDeliveryRoute (Some (buildAgentPeerSessionKey ''thread'' None ''telegram'' None (Some GroupChat) (Some ''42'') None None)) = None"
  "parseThreadSessionSuffix (Some (buildAgentMainSessionKey (Some ''thread'') None)) =
     \<lparr>ts_baseSessionKey = Some ''agent'', ts_threadId = Some ''main''\<rparr>"
  by code_simp+

end
