(* ===== verification/JsValue.thy ===== *)
theory JsValue
  imports JsText JsNumber
begin

text \<open>
  Untyped JavaScript values, for code that inspects stored or model-supplied data: the tests and
  updates it makes on them, and the recogniser of \<open>JSON.parse\<close> as far as the source uses it
  (does a text parse, and to an object). Objects are insertion-ordered maps of their own
  properties; a property that is absent reads as \<open>undefined\<close>.
\<close>

datatype js_value =
    JUndef
  | JNull
  | JBool bool
  | JNum rat
  | JStr string
  | JArr "js_value list"
  | JObj "(string, js_value) js_map"

definition is_object :: "js_value \<Rightarrow> bool" where
  "is_object v \<longleftrightarrow> (case v of JArr _ \<Rightarrow> True | JObj _ \<Rightarrow> True | _ \<Rightarrow> False)"

definition truthy :: "js_value \<Rightarrow> bool" where
  "truthy v \<longleftrightarrow> (case v of
     JUndef \<Rightarrow> False | JNull \<Rightarrow> False | JBool b \<Rightarrow> b | JNum n \<Rightarrow> n \<noteq> 0 | JStr s \<Rightarrow> s \<noteq> []
   | JArr _ \<Rightarrow> True | JObj _ \<Rightarrow> True)"

definition field :: "js_value \<Rightarrow> string \<Rightarrow> js_value" where
  "field v k = (case v of JObj m \<Rightarrow> (case map_of m k of Some x \<Rightarrow> x | None \<Rightarrow> JUndef) | _ \<Rightarrow> JUndef)"

definition has_field :: "js_value \<Rightarrow> string \<Rightarrow> bool" where
  "has_field v k \<longleftrightarrow> (case v of JObj m \<Rightarrow> map_of m k \<noteq> None | _ \<Rightarrow> False)"

text \<open>\<^verbatim>\<open>{ ...v, [k]: x }\<close> and \<^verbatim>\<open>delete\<close> on a copy.\<close>

definition with_field :: "js_value \<Rightarrow> string \<Rightarrow> js_value \<Rightarrow> js_value" where
  "with_field v k x = (case v of JObj m \<Rightarrow> JObj (map_set k x m) | _ \<Rightarrow> JObj [(k, x)])"

definition without_field :: "js_value \<Rightarrow> string \<Rightarrow> js_value" where
  "without_field v k = (case v of JObj m \<Rightarrow> JObj (map_delete k m) | _ \<Rightarrow> v)"

definition string_of :: "js_value \<Rightarrow> string option" where
  "string_of v = (case v of JStr s \<Rightarrow> Some s | _ \<Rightarrow> None)"

definition elements :: "js_value \<Rightarrow> js_value list" where
  "elements v = (case v of JArr xs \<Rightarrow> xs | _ \<Rightarrow> [])"

definition is_array :: "js_value \<Rightarrow> bool" where
  "is_array v \<longleftrightarrow> (case v of JArr _ \<Rightarrow> True | _ \<Rightarrow> False)"

lemma field_with_field [simp, js_simps]:
  "is_object v \<Longrightarrow> \<not> is_array v \<Longrightarrow> field (with_field v k x) k' = (if k' = k then x else field v k')"
  by (cases v) (simp_all add: field_def with_field_def is_object_def is_array_def)

lemma is_object_with_field [simp, js_simps]: "is_object (with_field v k x)"
  by (cases v) (simp_all add: with_field_def is_object_def)

lemma field_defined_object: "field v k \<noteq> JUndef \<Longrightarrow> is_object v \<and> \<not> is_array v"
  by (cases v) (simp_all add: field_def is_object_def is_array_def)

section \<open>JSON texts\<close>

text \<open>
  A recogniser for the grammar of JSON over 8-bit characters: each function returns what is left
  of the text after one phrase, or \<open>None\<close>. The fuel bounds the number of calls; every call
  below a value is given the text after at least one consumed character, so the length of the
  text is enough.
\<close>

definition json_ws :: "char \<Rightarrow> bool" where
  "json_ws c \<longleftrightarrow> c = CHR '' '' \<or> c = CHR 0x09 \<or> c = CHR 0x0A \<or> c = CHR 0x0D"

definition skip_ws :: "string \<Rightarrow> string" where
  "skip_ws s = dropWhile json_ws s"

definition digit :: "char \<Rightarrow> bool" where
  "digit c \<longleftrightarrow> 48 \<le> (of_char c :: nat) \<and> (of_char c :: nat) \<le> 57"

definition hex_digit :: "char \<Rightarrow> bool" where
  "hex_digit c \<longleftrightarrow> digit c \<or> (let n = (of_char c :: nat) in (97 \<le> n \<and> n \<le> 102) \<or> (65 \<le> n \<and> n \<le> 70))"

fun json_string :: "string \<Rightarrow> string option" where
  "json_string [] = None"
| "json_string (c # s) =
     (if c = CHR 0x22 then Some s
      else if (of_char c :: nat) < 32 then None
      else if c \<noteq> CHR 0x5C then json_string s
      else case s of
          e # s' \<Rightarrow> if e \<in> set [CHR 0x22, CHR 0x5C, CHR ''/'', CHR ''b'', CHR ''f'', CHR ''n'', CHR ''r'', CHR ''t'']
                    then json_string s'
                    else if e = CHR ''u'' \<and> length (take 4 s') = 4 \<and> list_all hex_digit (take 4 s')
                    then json_string (drop 4 s') else None
        | [] \<Rightarrow> None)"

definition json_digits :: "string \<Rightarrow> string option" where
  "json_digits s = (case s of c # _ \<Rightarrow> if digit c then Some (dropWhile digit s) else None | [] \<Rightarrow> None)"

definition json_number :: "string \<Rightarrow> string option" where
  "json_number s =
     (let s1 = (case s of c # r \<Rightarrow> if c = CHR ''-'' then r else s | [] \<Rightarrow> s);
          int_part = (case s1 of c # r \<Rightarrow> if c = CHR ''0'' then Some r else json_digits s1 | [] \<Rightarrow> None);
          frac = (\<lambda>t. case t of c # r \<Rightarrow> if c = CHR ''.'' then json_digits r else Some t | [] \<Rightarrow> Some t);
          expo = (\<lambda>t. case t of
             c # r \<Rightarrow> if c = CHR ''e'' \<or> c = CHR ''E'' then
                 json_digits (case r of d # q \<Rightarrow> if d = CHR ''+'' \<or> d = CHR ''-'' then q else r | [] \<Rightarrow> r)
               else Some t
           | [] \<Rightarrow> Some t)
      in Option.bind (Option.bind int_part frac) expo)"

text \<open>The phrases of the grammar: a value, the members after \<open>{\<close>, the elements after \<open>[\<close>.\<close>

datatype json_phrase = PValue | PMembers | PElements

fun json_parse :: "nat \<Rightarrow> json_phrase \<Rightarrow> string \<Rightarrow> string option" where
  "json_parse 0 p s = None"
| "json_parse (Suc n) PValue s = (case skip_ws s of
     [] \<Rightarrow> None
   | c # r \<Rightarrow>
      if c = CHR ''{'' then
        (case skip_ws r of d # q \<Rightarrow> if d = CHR ''}'' then Some q else json_parse n PMembers r | [] \<Rightarrow> None)
      else if c = CHR ''['' then
        (case skip_ws r of d # q \<Rightarrow> if d = CHR '']'' then Some q else json_parse n PElements r | [] \<Rightarrow> None)
      else if c = CHR 0x22 then json_string r
      else if starts_with ''true'' (c # r) then Some (drop 4 (c # r))
      else if starts_with ''false'' (c # r) then Some (drop 5 (c # r))
      else if starts_with ''null'' (c # r) then Some (drop 4 (c # r))
      else json_number (c # r))"
| "json_parse (Suc n) PMembers s = (case skip_ws s of
     [] \<Rightarrow> None
   | c # r \<Rightarrow>
      if c \<noteq> CHR 0x22 then None
      else case map_option skip_ws (json_string r) of
          Some (d # q) \<Rightarrow>
            if d \<noteq> CHR '':'' then None
            else (case map_option skip_ws (json_parse n PValue q) of
                Some (e # t) \<Rightarrow> if e = CHR '','' then json_parse n PMembers t
                                else if e = CHR ''}'' then Some t else None
              | _ \<Rightarrow> None)
        | _ \<Rightarrow> None)"
| "json_parse (Suc n) PElements s = (case map_option skip_ws (json_parse n PValue s) of
     Some (e # t) \<Rightarrow> if e = CHR '','' then json_parse n PElements t
                     else if e = CHR '']'' then Some t else None
   | _ \<Rightarrow> None)"

text \<open>\<open>JSON.parse\<close> succeeds with an object that is not an array.\<close>

definition isCompleteJsonObject :: "string \<Rightarrow> bool" where
  "isCompleteJsonObject s \<longleftrightarrow>
     (case skip_ws s of c # _ \<Rightarrow> c = CHR ''{'' | [] \<Rightarrow> False) \<and>
     (case json_parse (Suc (2 * length s)) PValue s of Some r \<Rightarrow> skip_ws r = [] | None \<Rightarrow> False)"

text \<open>The fuel is enough: a phrase consumes text, and more fuel never changes an answer.\<close>

lemma json_string_length: "json_string s = Some r \<Longrightarrow> length r < length s"
proof (induction s arbitrary: r rule: json_string.induct)
  case (2 c s)
  then show ?case by (fastforce split: if_splits list.splits)
qed simp

lemma json_digits_length: "json_digits s = Some r \<Longrightarrow> length r < length s"
  using length_dropWhile_le [of digit] by (fastforce simp: json_digits_def less_Suc_eq_le split: list.splits if_splits)

lemma json_number_length:
  assumes "json_number s = Some r"
  shows "length r < length s"
proof -
  define s1 where "s1 = (case s of c # r \<Rightarrow> if c = CHR ''-'' then r else s | [] \<Rightarrow> s)"
  have s1: "length s1 \<le> length s" by (auto simp: s1_def split: list.split)
  obtain a b where a: "(case s1 of c # r \<Rightarrow> if c = CHR ''0'' then Some r else json_digits s1 | [] \<Rightarrow> None) = Some a"
    and b: "(case a of c # r \<Rightarrow> if c = CHR ''.'' then json_digits r else Some a | [] \<Rightarrow> Some a) = Some b"
    and r: "(case b of c # r \<Rightarrow> if c = CHR ''e'' \<or> c = CHR ''E'' then
                 json_digits (case r of d # q \<Rightarrow> if d = CHR ''+'' \<or> d = CHR ''-'' then q else r | [] \<Rightarrow> r)
               else Some b | [] \<Rightarrow> Some b) = Some r"
    using assms unfolding json_number_def Let_def s1_def [symmetric]
    by (auto simp: bind_eq_Some_conv simp del: not_None_eq)
  have "length a < length s1" using a by (auto split: list.splits if_splits dest: json_digits_length)
  moreover have "length b \<le> length a" using b by (fastforce split: list.splits if_splits dest: json_digits_length)
  moreover have "length r \<le> length b" using r by (fastforce split: list.splits if_splits dest: json_digits_length)
  ultimately show ?thesis using s1 by linarith
qed

lemma skip_ws_length: "skip_ws s = c # r \<Longrightarrow> length r < length s"
  using length_dropWhile_le [of json_ws s] by (simp add: skip_ws_def)

lemma json_parse_length: "json_parse n p s = Some r \<Longrightarrow> length r < length s"
proof (induction n arbitrary: p s r)
  case (Suc n)
  note IH = Suc.IH
  show ?case
  proof (cases p)
    case PValue
    with Suc.prems obtain c t where t: "skip_ws s = c # t" by (auto split: list.splits)
    have sub: "length r < length t" if "skip_ws t = d # q" "r = q \<or> json_parse n p' t = Some r" for d q p'
      using that skip_ws_length [of t d q] IH by auto
    from Suc.prems t PValue have "length r < length (c # t)"
      using json_string_length [of t r] json_number_length [of "c # t" r]
      by (auto split: if_splits list.splits dest: sub)
    then show ?thesis using skip_ws_length [OF t] by simp
  next
    case PMembers
    with Suc.prems obtain t where t: "skip_ws s = CHR 0x22 # t" by (auto split: list.splits if_splits)
    with Suc.prems PMembers obtain u q where u: "json_string t = Some u" "skip_ws u = CHR '':'' # q"
      by (auto split: option.splits list.splits if_splits)
    with Suc.prems PMembers t obtain v e w where v: "json_parse n PValue q = Some v" "skip_ws v = e # w"
      "r = w \<or> json_parse n PMembers w = Some r"
      by (auto split: option.splits list.splits if_splits)
    show ?thesis
      using v(3) IH [OF v(1)] IH [of PMembers w r] skip_ws_length [OF t(1)] json_string_length [OF u(1)]
        skip_ws_length [OF u(2)] skip_ws_length [OF v(2)] by auto
  next
    case PElements
    with Suc.prems obtain v e w where v: "json_parse n PValue s = Some v" "skip_ws v = e # w"
      "r = w \<or> json_parse n PElements w = Some r"
      by (auto split: option.splits list.splits if_splits)
    show ?thesis using v(3) IH [OF v(1)] IH [of PElements w r] skip_ws_length [OF v(2)] by auto
  qed
qed simp

lemma json_parse_fuel:
  "2 * length s + (if p = PElements then 1 else 0) < n \<Longrightarrow> json_parse (Suc n) p s = json_parse n p s"
proof (induction n arbitrary: p s)
  case (Suc n)
  have IH: "json_parse (Suc n) p' t = json_parse n p' t" if "length t < length s" for p' t
    using Suc.prems that by (intro Suc.IH) (cases p'; simp)
  show ?case
  proof (cases p)
    case PValue
    show ?thesis
    proof (cases "skip_ws s")
      case (Cons c r)
      with skip_ws_length [OF Cons] show ?thesis
        unfolding PValue json_parse.simps(2) by (simp only: IH list.case)
    qed (simp add: PValue)
  next
    case PMembers
    have v: "json_parse (Suc n) PValue q = json_parse n PValue q"
      if "skip_ws s = c # t" "json_string t = Some u" "skip_ws u = d # q" for c t u d q
      using skip_ws_length [OF that(1)] json_string_length [OF that(2)] skip_ws_length [OF that(3)] by (intro IH) linarith
    have m: "json_parse (Suc n) PMembers w = json_parse n PMembers w"
      if "skip_ws s = c # t" "json_string t = Some u" "skip_ws u = d # q" "json_parse n PValue q = Some x" "skip_ws x = e # w"
      for c t u d q x e w
      using skip_ws_length [OF that(1)] json_string_length [OF that(2)] skip_ws_length [OF that(3)]
        json_parse_length [OF that(4)] skip_ws_length [OF that(5)] by (intro IH) linarith
    show ?thesis unfolding PMembers json_parse.simps(3) [of "Suc n" s] json_parse.simps(3) [of n s]
      by (auto simp: v m split: list.split option.split simp del: json_parse.simps)
  next
    case PElements
    then have v: "json_parse (Suc n) PValue s = json_parse n PValue s" using Suc.prems by (intro Suc.IH) simp
    have m: "json_parse (Suc n) PElements w = json_parse n PElements w"
      if "json_parse n PValue s = Some x" "skip_ws x = e # w" for x e w
      using json_parse_length [OF that(1)] skip_ws_length [OF that(2)] by (intro IH) linarith
    show ?thesis unfolding PElements json_parse.simps(4) [of "Suc n" s] json_parse.simps(4) [of n s] v
      by (auto simp: m split: list.split option.split simp del: json_parse.simps)
  qed
qed simp

end
