(* ===== verification/TranscriptRepair.thy ===== *)
theory TranscriptRepair
  imports JsValue
begin

text \<open>
  The repair of stored transcripts before they are sent to a model,
  \<^verbatim>\<open>src/src/agents/session-transcript-repair.ts\<close> with the id and name helpers of
  \<^verbatim>\<open>src/src/agents/tool-call-id.ts\<close> and \<^verbatim>\<open>tool-call-shared.ts\<close>. Messages are untyped values,
  as the code treats them. Where the code compares object identity to learn whether a helper
  returned a new object, the helper here returns the value with a flag that says so. The clock
  read for a synthetic result is an argument, constant during one repair.
\<close>

section \<open>Roles, ids and names\<close>

record tool_call =
  tc_id :: string
  tc_name :: "string option"

definition TOOL_CALL_TYPES :: "string list" where
  "TOOL_CALL_TYPES = [''toolCall'', ''toolUse'', ''functionCall'']"

definition RAW_TOOL_CALL_BLOCK_TYPES :: "string list" where
  "RAW_TOOL_CALL_BLOCK_TYPES = [''toolCall'', ''toolUse'', ''functionCall'', ''tool_call'', ''tool_use'', ''function_call'']"

definition has_role :: "string \<Rightarrow> js_value \<Rightarrow> bool" where
  "has_role r msg \<longleftrightarrow> is_object msg \<and> field msg ''role'' = JStr r"

definition extractToolCallsFromAssistant :: "js_value \<Rightarrow> tool_call list" where
  "extractToolCallsFromAssistant msg = (case field msg ''content'' of
     JArr blocks \<Rightarrow> concat (map (\<lambda>block. case (field block ''id'', field block ''type'') of
         (JStr i, JStr t) \<Rightarrow> if i \<noteq> [] \<and> t \<in> set TOOL_CALL_TYPES
            then [\<lparr>tc_id = i, tc_name = string_of (field block ''name'')\<rparr>] else []
       | _ \<Rightarrow> []) blocks)
   | _ \<Rightarrow> [])"

definition RESULT_ID_KEYS :: "string list" where
  "RESULT_ID_KEYS = [''toolCallId'', ''toolUseId'', ''tool_call_id'', ''tool_use_id'', ''callId'', ''call_id'']"

definition extractToolResultIds :: "js_value \<Rightarrow> string list" where
  "extractToolResultIds msg = fold (\<lambda>k ids. case field msg k of
       JStr v \<Rightarrow> (let i = js_trim v in if i \<noteq> [] \<and> i \<notin> set ids then ids @ [i] else ids)
     | _ \<Rightarrow> ids) RESULT_ID_KEYS []"

definition extractToolResultId :: "js_value \<Rightarrow> string option" where
  "extractToolResultId msg = (case extractToolResultIds msg of i # _ \<Rightarrow> Some i | [] \<Rightarrow> None)"

definition assistantHasToolCalls :: "js_value \<Rightarrow> bool" where
  "assistantHasToolCalls message \<longleftrightarrow>
     has_role ''assistant'' message \<and> length (extractToolCallsFromAssistant message) > 0"

definition normalizeAllowedToolNames :: "string list option \<Rightarrow> string list option" where
  "normalizeAllowedToolNames allowed = (case allowed of
     None \<Rightarrow> None
   | Some names \<Rightarrow>
      let normalized = fold (\<lambda>name acc. if js_trim name = [] then acc
            else set_add (normalizeLowercaseStringOrEmpty (Some (js_trim name))) acc) names []
      in if length normalized > 0 then Some normalized else None)"

definition tool_name_char :: "char \<Rightarrow> bool" where
  "tool_name_char c \<longleftrightarrow> (let n = (of_char c :: nat) in
     (65 \<le> n \<and> n \<le> 90) \<or> (97 \<le> n \<and> n \<le> 122) \<or> digit c \<or> c \<in> set ''_:.-'')"

definition isAllowedToolCallName :: "js_value \<Rightarrow> string list option \<Rightarrow> bool" where
  "isAllowedToolCallName name allowed = (case name of
     JStr n \<Rightarrow> (let trimmed = js_trim n in
        trimmed \<noteq> [] \<and> length trimmed \<le> 64 \<and> list_all tool_name_char trimmed \<and>
        (case allowed of None \<Rightarrow> True
         | Some names \<Rightarrow> normalizeLowercaseStringOrEmpty (Some trimmed) \<in> set names))
   | _ \<Rightarrow> False)"

definition isThinkingLikeBlock :: "js_value \<Rightarrow> bool" where
  "isThinkingLikeBlock block \<longleftrightarrow> is_object block \<and>
     (field block ''type'' = JStr ''thinking'' \<or> field block ''type'' = JStr ''redacted_thinking'')"

section \<open>Synthetic results\<close>

definition DEFAULT_MISSING_TOOL_RESULT_TEXT :: string where
  "DEFAULT_MISSING_TOOL_RESULT_TEXT = ''[openclaw] missing tool result in session history; inserted synthetic error result for transcript repair.''"

definition SYNTHETIC_MISSING_TOOL_RESULT_DETAIL_KEY :: string where
  "SYNTHETIC_MISSING_TOOL_RESULT_DETAIL_KEY = ''openclawSyntheticMissingToolResult''"

definition makeMissingToolResult :: "rat \<Rightarrow> string \<Rightarrow> string option \<Rightarrow> string option \<Rightarrow> js_value" where
  "makeMissingToolResult now toolCallId toolName txt = JObj
     [(''role'', JStr ''toolResult''), (''toolCallId'', JStr toolCallId),
      (''toolName'', JStr (case toolName of Some n \<Rightarrow> n | None \<Rightarrow> ''unknown'')),
      (''content'', JArr [JObj [(''type'', JStr ''text''),
         (''text'', JStr (case txt of Some t \<Rightarrow> t | None \<Rightarrow> DEFAULT_MISSING_TOOL_RESULT_TEXT))]]),
      (''details'', JObj [(SYNTHETIC_MISSING_TOOL_RESULT_DETAIL_KEY, JBool True)]),
      (''isError'', JBool True), (''timestamp'', JNum now)]"

definition isSyntheticMissingToolResult :: "js_value \<Rightarrow> bool" where
  "isSyntheticMissingToolResult msg \<longleftrightarrow> truthy (field msg ''isError'') \<and>
     ((is_object (field msg ''details'') \<and>
       field (field msg ''details'') SYNTHETIC_MISSING_TOOL_RESULT_DETAIL_KEY = JBool True) \<or>
      list_ex (\<lambda>block. field block ''type'' = JStr ''text'' \<and>
         field block ''text'' = JStr DEFAULT_MISSING_TOOL_RESULT_TEXT) (elements (field msg ''content'')))"

definition normalizeToolResultName :: "js_value \<Rightarrow> string option \<Rightarrow> js_value \<times> bool" where
  "normalizeToolResultName message fallbackName =
     (let rawToolName = field message ''toolName'' in
      case normalizeOptionalString (string_of rawToolName) of
        Some n \<Rightarrow> if rawToolName = JStr n then (message, False) else (with_field message ''toolName'' (JStr n), True)
      | None \<Rightarrow> (case normalizeOptionalString fallbackName of
            Some f \<Rightarrow> (with_field message ''toolName'' (JStr f), True)
          | None \<Rightarrow> if string_of rawToolName \<noteq> None
                    then (with_field message ''toolName'' (JStr ''unknown''), True) else (message, False)))"

definition normalizeLegacyToolResultId :: "js_value \<Rightarrow> tool_call list \<Rightarrow> js_value \<times> bool" where
  "normalizeLegacyToolResultId message toolCalls =
     (if extractToolResultId message \<noteq> None then (message, False)
      else case toolCalls of
        [toolCall] \<Rightarrow>
          (case (normalizeOptionalString (string_of (field message ''toolName'')), normalizeOptionalString (tc_name toolCall)) of
             (Some r, Some c) \<Rightarrow> if r \<noteq> c then (message, False)
               else (with_field (with_field message ''toolCallId'' (JStr (tc_id toolCall))) ''isError'' (JBool True), True)
           | _ \<Rightarrow> (with_field (with_field message ''toolCallId'' (JStr (tc_id toolCall))) ''isError'' (JBool True), True))
      | _ \<Rightarrow> (message, False))"

definition stripToolResultDetails :: "js_value list \<Rightarrow> js_value list" where
  "stripToolResultDetails messages = map (\<lambda>msg.
     if has_role ''toolResult'' msg \<and> has_field msg ''details'' then without_field msg ''details'' else msg) messages"

section \<open>Pairing calls with results\<close>

record pairing_options =
  po_dropErrored :: bool
  po_missingText :: "string option"

record pairing_state =
  ps_out :: "js_value list"
  ps_added :: "js_value list"
  ps_seen :: "string list"
  ps_positions :: "(string, nat) js_map"
  ps_droppedDuplicates :: nat
  ps_droppedOrphans :: nat
  ps_moved :: bool
  ps_changed :: bool

definition drop_duplicate :: "pairing_state \<Rightarrow> pairing_state" where
  "drop_duplicate s = s\<lparr>ps_droppedDuplicates := ps_droppedDuplicates s + 1, ps_changed := True\<rparr>"

definition drop_orphan :: "pairing_state \<Rightarrow> pairing_state" where
  "drop_orphan s = s\<lparr>ps_droppedOrphans := ps_droppedOrphans s + 1, ps_changed := True\<rparr>"

fun remove_first :: "('a \<Rightarrow> bool) \<Rightarrow> 'a list \<Rightarrow> 'a list" where
  "remove_first P [] = []"
| "remove_first P (x # xs) = (if P x then xs else x # remove_first P xs)"

definition pushToolResult :: "js_value \<Rightarrow> pairing_state \<Rightarrow> pairing_state" where
  "pushToolResult msg s = (case extractToolResultId msg of
     None \<Rightarrow> s\<lparr>ps_out := ps_out s @ [msg]\<rparr>
   | Some i \<Rightarrow>
      if i \<in> set (ps_seen s) then
        (case map_of (ps_positions s) i of
           Some p \<Rightarrow>
             if p < length (ps_out s) \<and> isSyntheticMissingToolResult (ps_out s ! p) \<and> \<not> isSyntheticMissingToolResult msg
             then drop_duplicate (s\<lparr>ps_out := (ps_out s)[p := msg],
                    ps_added := remove_first (\<lambda>a. extractToolResultId a = Some i) (ps_added s)\<rparr>)
             else drop_duplicate s
         | None \<Rightarrow> drop_duplicate s)
      else s\<lparr>ps_seen := set_add i (ps_seen s), ps_positions := map_set i (length (ps_out s)) (ps_positions s),
             ps_out := ps_out s @ [msg]\<rparr>)"

definition push_message :: "js_value \<Rightarrow> pairing_state \<Rightarrow> pairing_state" where
  "push_message msg s = s\<lparr>ps_out := ps_out s @ [msg]\<rparr>"

text \<open>The tool results of a transcript with their indices: those with an id by id, and the rest.\<close>

type_synonym indexed_message = "js_value \<times> nat"

definition index_tool_results ::
    "js_value list \<Rightarrow> (string, indexed_message list) js_map \<times> indexed_message list" where
  "index_tool_results messages = fold (\<lambda>(idx, msg) (explicit, legacy).
     if has_role ''toolResult'' msg then
       (case extractToolResultId msg of
          Some i \<Rightarrow> (map_set i ((case map_of explicit i of Some l \<Rightarrow> l | None \<Rightarrow> []) @ [(msg, idx)]) explicit, legacy)
        | None \<Rightarrow> (explicit, legacy @ [(msg, idx)]))
     else (explicit, legacy)) (enumerate 0 messages) ([], [])"

definition tool_names_by_id :: "tool_call list \<Rightarrow> (string, string) js_map" where
  "tool_names_by_id toolCalls = fold (\<lambda>c m. case tc_name c of Some n \<Rightarrow> map_set (tc_id c) n m | None \<Rightarrow> m) toolCalls []"

definition collectLaterMatchingToolResults ::
    "nat \<Rightarrow> tool_call list \<Rightarrow> (string, string) js_map \<Rightarrow> string list \<Rightarrow>
     (string, indexed_message list) js_map \<Rightarrow> indexed_message list \<Rightarrow> (string, js_value) js_map" where
  "collectLaterMatchingToolResults startIndex toolCalls names seen explicit legacy = fold (\<lambda>call results.
     if tc_id call \<in> set seen \<or> map_of results (tc_id call) \<noteq> None then results
     else
       case find (\<lambda>(m, idx). startIndex \<le> idx) (case map_of explicit (tc_id call) of Some l \<Rightarrow> l | None \<Rightarrow> []) of
         Some (m, _) \<Rightarrow> map_set (tc_id call) (fst (normalizeToolResultName m (map_of names (tc_id call)))) results
       | None \<Rightarrow>
          if length toolCalls = 1 then
            (case find (\<lambda>(m, idx). startIndex \<le> idx \<and>
                   (case extractToolResultId (fst (normalizeLegacyToolResultId m toolCalls)) of
                      Some i \<Rightarrow> i \<notin> set seen | None \<Rightarrow> False)) legacy of
               Some (m, _) \<Rightarrow>
                 let normalized = fst (normalizeLegacyToolResultId m toolCalls)
                 in if extractToolResultId normalized = Some (tc_id call)
                    then map_set (tc_id call) (fst (normalizeToolResultName normalized (map_of names (tc_id call)))) results
                    else results
             | None \<Rightarrow> results)
          else results) toolCalls []"

text \<open>One message of the span after an assistant turn with calls, up to the next such turn.\<close>

type_synonym span_state = "(string, js_value) js_map \<times> js_value list \<times> pairing_state"

definition span_step :: "tool_call list \<Rightarrow> js_value \<Rightarrow> span_state \<Rightarrow> span_state" where
  "span_step toolCalls next_msg = (\<lambda>(spanResults, remainder, s).
     if \<not> has_role ''toolResult'' next_msg then (spanResults, remainder @ [next_msg], s)
     else
       let (toolResult, fresh) = normalizeLegacyToolResultId next_msg toolCalls;
           names = tool_names_by_id toolCalls
       in case extractToolResultId toolResult of
            None \<Rightarrow> (spanResults, remainder, drop_orphan s)
          | Some i \<Rightarrow>
             if i \<in> set (ps_seen s) then
               (spanResults, remainder, pushToolResult (fst (normalizeToolResultName toolResult (map_of names i))) s)
             else if i \<in> tc_id ` set toolCalls then
               let (normalized, renamed) = normalizeToolResultName toolResult (map_of names i);
                   s1 = s\<lparr>ps_changed := (ps_changed s \<or> fresh \<or> renamed)\<rparr>
               in case map_of spanResults i of
                    None \<Rightarrow> (map_set i normalized spanResults, remainder, s1)
                  | Some existing \<Rightarrow>
                      if isSyntheticMissingToolResult existing \<and> \<not> isSyntheticMissingToolResult normalized
                      then (map_set i normalized spanResults, remainder, drop_duplicate s1)
                      else (spanResults, remainder, drop_duplicate s1)
             else (spanResults, remainder, drop_orphan s))"

definition errored_turn :: "js_value \<Rightarrow> bool" where
  "errored_turn msg \<longleftrightarrow> field msg ''stopReason'' = JStr ''error'' \<or> field msg ''stopReason'' = JStr ''aborted''"

text \<open>The result of one call: from the span, from later in the transcript, or synthetic.\<close>

definition push_call_result ::
    "rat \<Rightarrow> string option \<Rightarrow> (string, js_value) js_map \<Rightarrow> tool_call \<Rightarrow>
     (string, js_value) js_map \<times> pairing_state \<Rightarrow> (string, js_value) js_map \<times> pairing_state" where
  "push_call_result now missingText spanResults call = (\<lambda>(later, s).
     case map_of spanResults (tc_id call) of
       Some existing \<Rightarrow> (later, pushToolResult existing s)
     | None \<Rightarrow> (case map_of later (tc_id call) of
           Some laterResult \<Rightarrow> (map_delete (tc_id call) later,
              pushToolResult laterResult (s\<lparr>ps_moved := True, ps_changed := True\<rparr>))
         | None \<Rightarrow>
             let missing = makeMissingToolResult now (tc_id call) (tc_name call) missingText
             in (later, pushToolResult missing (s\<lparr>ps_added := ps_added s @ [missing], ps_changed := True\<rparr>))))"

definition repair_turn ::
    "rat \<Rightarrow> pairing_options \<Rightarrow> (string, indexed_message list) js_map \<Rightarrow> indexed_message list \<Rightarrow>
     nat \<Rightarrow> js_value \<Rightarrow> js_value list \<Rightarrow> pairing_state \<Rightarrow> pairing_state" where
  "repair_turn now opts explicit legacy j msg turn_span s =
     (let toolCalls = extractToolCallsFromAssistant msg;
          (spanResults, remainder, s1) = fold (span_step toolCalls) turn_span ([], [], s)
      in if errored_turn msg then
           (let s2 = (if po_dropErrored opts then s1\<lparr>ps_changed := True\<rparr>
                      else fold (\<lambda>call s. case map_of spanResults (tc_id call) of
                             Some result \<Rightarrow> pushToolResult result s | None \<Rightarrow> s) toolCalls (push_message msg s1))
            in fold push_message remainder s2)
         else
           let s2 = push_message msg s1;
               s3 = (if length spanResults > 0 \<and> length remainder > 0
                     then s2\<lparr>ps_moved := True, ps_changed := True\<rparr> else s2);
               later = collectLaterMatchingToolResults j toolCalls (tool_names_by_id toolCalls) (ps_seen s3) explicit legacy;
               (_, s4) = fold (push_call_result now (po_missingText opts) spanResults) toolCalls (later, s3)
           in fold push_message remainder s4)"

function repair_loop ::
    "rat \<Rightarrow> pairing_options \<Rightarrow> (string, indexed_message list) js_map \<Rightarrow> indexed_message list \<Rightarrow>
     nat \<Rightarrow> js_value list \<Rightarrow> pairing_state \<Rightarrow> pairing_state" where
  "repair_loop now opts explicit legacy i [] s = s"
| "repair_loop now opts explicit legacy i (msg # rest) s =
     (if \<not> is_object msg then repair_loop now opts explicit legacy (i + 1) rest (push_message msg s)
      else if field msg ''role'' \<noteq> JStr ''assistant'' then
        repair_loop now opts explicit legacy (i + 1) rest
          (if field msg ''role'' \<noteq> JStr ''toolResult'' then push_message msg s else drop_orphan s)
      else if length (extractToolCallsFromAssistant msg) = 0 then
        repair_loop now opts explicit legacy (i + 1) rest (push_message msg s)
      else
        let turn_span = takeWhile (\<lambda>m. \<not> assistantHasToolCalls m) rest;
            j = i + 1 + length turn_span
        in repair_loop now opts explicit legacy j (dropWhile (\<lambda>m. \<not> assistantHasToolCalls m) rest)
             (repair_turn now opts explicit legacy j msg turn_span s))"
  by pat_completeness auto
termination
  by (relation "measure (\<lambda>(_, _, _, _, _, ms, _). length ms)")
     (auto simp: less_Suc_eq_le length_dropWhile_le)

declare repair_loop.simps [simp del]

record pairing_report =
  pr_messages :: "js_value list"
  pr_added :: "js_value list"
  pr_droppedDuplicates :: nat
  pr_droppedOrphans :: nat
  pr_moved :: bool

definition empty_pairing :: pairing_state where
  "empty_pairing = \<lparr>ps_out = [], ps_added = [], ps_seen = [], ps_positions = [], ps_droppedDuplicates = 0,
     ps_droppedOrphans = 0, ps_moved = False, ps_changed = False\<rparr>"

definition repairToolUseResultPairing :: "rat \<Rightarrow> pairing_options \<Rightarrow> js_value list \<Rightarrow> pairing_report" where
  "repairToolUseResultPairing now opts messages =
     (let (explicit, legacy) = index_tool_results messages;
          s = repair_loop now opts explicit legacy 0 messages empty_pairing;
          changedOrMoved = (ps_changed s \<or> ps_moved s)
      in \<lparr>pr_messages = (if changedOrMoved then ps_out s else messages), pr_added = ps_added s,
          pr_droppedDuplicates = ps_droppedDuplicates s, pr_droppedOrphans = ps_droppedOrphans s,
          pr_moved = changedOrMoved\<rparr>)"

definition sanitizeToolUseResultPairing :: "rat \<Rightarrow> pairing_options \<Rightarrow> js_value list \<Rightarrow> js_value list" where
  "sanitizeToolUseResultPairing now opts messages = pr_messages (repairToolUseResultPairing now opts messages)"

section \<open>What a message shows\<close>

abbreviation tool_result :: "js_value \<Rightarrow> bool" where
  "tool_result \<equiv> has_role ''toolResult''"

text \<open>A tool result is seen through its id, any other message as itself.\<close>

definition view :: "js_value \<Rightarrow> js_value + string option" where
  "view m = (if tool_result m then Inr (extractToolResultId m) else Inl m)"

abbreviation views :: "pairing_state \<Rightarrow> (js_value + string option) list" where
  "views s \<equiv> map view (ps_out s)"

lemma has_role_object: "has_role r m \<Longrightarrow> is_object m \<and> \<not> is_array m"
  using field_defined_object [of m "''role''"] by (simp add: has_role_def)

lemma view_result: "tool_result m \<Longrightarrow> view m = Inr (extractToolResultId m)"
  "\<not> tool_result m \<Longrightarrow> view m = Inl m"
  by (simp_all add: view_def)

lemma has_role_with_field:
  "has_role r m \<Longrightarrow> k \<noteq> ''role'' \<Longrightarrow> has_role r (with_field m k x)"
  using has_role_object [of r m] by (simp add: has_role_def)

lemma result_id_other_field:
  assumes "tool_result m" "k \<notin> set RESULT_ID_KEYS"
  shows "extractToolResultId (with_field m k x) = extractToolResultId m"
proof -
  have "field (with_field m k x) k' = field m k'" if "k' \<in> set RESULT_ID_KEYS" for k'
    using that assms has_role_object [OF assms(1)] by auto
  then have "extractToolResultIds (with_field m k x) = extractToolResultIds m"
    unfolding extractToolResultIds_def by (intro fold_cong) simp_all
  then show ?thesis by (simp add: extractToolResultId_def)
qed

lemma tool_name_no_id: "''toolName'' \<notin> set RESULT_ID_KEYS" "''toolName'' \<noteq> ''role''" "''toolCallId'' \<noteq> ''role''" "''isError'' \<noteq> ''role''"
  by (simp_all add: RESULT_ID_KEYS_def)

lemma result_fields:
  assumes "tool_result m"
  shows "tool_result (with_field m ''toolName'' x)" "tool_result (with_field m ''toolCallId'' x)"
    "tool_result (with_field m ''isError'' x)"
    "extractToolResultId (with_field m ''toolName'' x) = extractToolResultId m"
  using assms tool_name_no_id by (auto intro!: has_role_with_field result_id_other_field)

lemma normalize_name_cases:
  "fst (normalizeToolResultName m f) = m \<or> (\<exists>x. fst (normalizeToolResultName m f) = with_field m ''toolName'' x)"
  by (auto simp: normalizeToolResultName_def Let_def split: option.split)

lemma normalize_name_result:
  assumes "tool_result m"
  shows "tool_result (fst (normalizeToolResultName m f))"
    "extractToolResultId (fst (normalizeToolResultName m f)) = extractToolResultId m"
  using normalize_name_cases [of m f] result_fields [OF assms] assms by auto

lemma normalize_legacy_cases:
  "fst (normalizeLegacyToolResultId m cs) = m \<or>
   (\<exists>x y. fst (normalizeLegacyToolResultId m cs) = with_field (with_field m ''toolCallId'' x) ''isError'' y)"
  by (auto simp: normalizeLegacyToolResultId_def split: option.split list.split)

lemma normalize_legacy_result:
  "tool_result m \<Longrightarrow> tool_result (fst (normalizeLegacyToolResultId m cs))"
  using normalize_legacy_cases [of m cs] result_fields by auto

lemma missing_result:
  "tool_result (makeMissingToolResult now i n t)"
  "extractToolResultId (makeMissingToolResult now i n t) = (if js_trim i = [] then None else Some (js_trim i))"
  by (simp_all add: makeMissingToolResult_def has_role_def is_object_def field_def
      extractToolResultId_def extractToolResultIds_def RESULT_ID_KEYS_def Let_def)

section \<open>Positions of results\<close>

definition positions_ok :: "pairing_state \<Rightarrow> bool" where
  "positions_ok s \<longleftrightarrow>
     (\<forall>i p. map_of (ps_positions s) i = Some p \<longleftrightarrow> p < length (ps_out s) \<and> view (ps_out s ! p) = Inr (Some i)) \<and>
     (\<forall>i. i \<in> set (ps_seen s) \<longleftrightarrow> map_of (ps_positions s) i \<noteq> None)"

definition pushed :: "js_value \<Rightarrow> pairing_state \<Rightarrow> string option list" where
  "pushed m s = (case extractToolResultId m of
     None \<Rightarrow> [None] | Some i \<Rightarrow> if i \<in> set (ps_seen s) then [] else [Some i])"

lemma positions_append:
  assumes "positions_ok s" "view m = Inl m \<or> view m = Inr None"
  shows "positions_ok (s\<lparr>ps_out := ps_out s @ [m]\<rparr>)"
  using assms unfolding positions_ok_def
  by (auto simp: nth_append less_Suc_eq split: if_splits)

lemma push_message_ok:
  assumes "positions_ok s" "\<not> tool_result m"
  shows "positions_ok (push_message m s)" "views (push_message m s) = views s @ [Inl m]"
    "ps_seen (push_message m s) = ps_seen s"
  using positions_append [OF assms(1), of m] assms(2) by (simp_all add: push_message_def view_result)

lemma drop_simps [simp]:
  "ps_out (drop_duplicate s) = ps_out s" "ps_seen (drop_duplicate s) = ps_seen s"
  "ps_positions (drop_duplicate s) = ps_positions s" "ps_changed (drop_duplicate s)" "ps_moved (drop_duplicate s) = ps_moved s"
  "ps_out (drop_orphan s) = ps_out s" "ps_seen (drop_orphan s) = ps_seen s"
  "ps_positions (drop_orphan s) = ps_positions s" "ps_changed (drop_orphan s)" "ps_moved (drop_orphan s) = ps_moved s"
  "ps_added (drop_duplicate s) = ps_added s" "ps_added (drop_orphan s) = ps_added s"
  by (simp_all add: drop_duplicate_def drop_orphan_def)

lemma positions_cong:
  "ps_out s = ps_out t \<Longrightarrow> ps_seen s = ps_seen t \<Longrightarrow> ps_positions s = ps_positions t \<Longrightarrow> positions_ok s = positions_ok t"
  by (simp add: positions_ok_def)

lemma push_result_ok:
  assumes ok: "positions_ok s" and m: "tool_result m"
  shows "positions_ok (pushToolResult m s)" (is ?pos)
    and "views (pushToolResult m s) = views s @ map Inr (pushed m s)" (is ?view)
    and "set (ps_seen (pushToolResult m s)) = set (ps_seen s) \<union> {i. Some i \<in> set (pushed m s)}" (is ?seen)
proof -
  have "?pos \<and> ?view \<and> ?seen"
  proof (cases "extractToolResultId m")
    case None
    then show ?thesis
      using positions_append [OF ok, of m] m by (simp add: pushToolResult_def pushed_def view_result)
  next
    case (Some i)
    show ?thesis
    proof (cases "i \<in> set (ps_seen s)")
      case True
      with ok obtain p where p: "map_of (ps_positions s) i = Some p" by (auto simp: positions_ok_def)
      with ok have at: "p < length (ps_out s)" "view (ps_out s ! p) = Inr (Some i)" by (auto simp: positions_ok_def)
      have v: "map view ((ps_out s)[p := m]) = views s"
        using at m Some by (simp add: map_update view_result list_update_same_conv)
      have "positions_ok (s\<lparr>ps_out := (ps_out s)[p := m]\<rparr>)"
      proof -
        have "view ((ps_out s)[p := m] ! q) = view (ps_out s ! q)" if "q < length (ps_out s)" for q
          using v that by (metis length_list_update nth_map)
        with ok show ?thesis by (auto simp: positions_ok_def)
      qed
      then show ?thesis
        using True p v ok Some
        by (auto simp: pushToolResult_def pushed_def positions_cong [of "drop_duplicate _" "s\<lparr>ps_out := _\<rparr>"]
            positions_cong [of "drop_duplicate s" s])
    next
      case False
      with ok have none: "map_of (ps_positions s) i = None" unfolding positions_ok_def by metis
      have nomatch: "view (ps_out s ! p) \<noteq> Inr (Some i)" if "p < length (ps_out s)" for p
    proof
      assume "view (ps_out s ! p) = Inr (Some i)"
      with that ok have "map_of (ps_positions s) i = Some p" unfolding positions_ok_def by blast
      with none show False by simp
    qed
    from False Some m ok none nomatch show ?thesis
        by (auto simp: pushToolResult_def pushed_def view_result positions_ok_def nth_append less_Suc_eq split: if_splits)
    qed
  qed
  then show ?pos ?view ?seen by blast+
qed

section \<open>One turn\<close>

text \<open>A table of results by call id that holds results of exactly that id.\<close>

definition results_ok :: "(string, js_value) js_map \<Rightarrow> bool" where
  "results_ok r \<longleftrightarrow> distinct (map_keys r) \<and>
     (\<forall>i m. map_of r i = Some m \<longrightarrow> tool_result m \<and> extractToolResultId m = Some i)"

lemma results_ok_set:
  "results_ok r \<Longrightarrow> tool_result m \<Longrightarrow> extractToolResultId m = Some i \<Longrightarrow> results_ok (map_set i m r)"
  using js_store.wf_put by (auto simp: results_ok_def)

lemma results_ok_Nil [simp]: "results_ok []"
  by (simp add: results_ok_def)

text \<open>What every step of the span keeps: the messages written so far as they are seen, and the
  ids seen; the flags only rise.\<close>

definition same_view :: "pairing_state \<Rightarrow> pairing_state \<Rightarrow> bool" where
  "same_view s t \<longleftrightarrow> positions_ok t \<and> views t = views s \<and> set (ps_seen t) = set (ps_seen s) \<and>
     (ps_changed s \<longrightarrow> ps_changed t) \<and> (ps_moved s \<longrightarrow> ps_moved t)"

lemma same_view_refl: "positions_ok s \<Longrightarrow> same_view s s"
  by (simp add: same_view_def)

lemma same_view_trans: "same_view s t \<Longrightarrow> same_view t u \<Longrightarrow> same_view s u"
  by (simp add: same_view_def)

lemma same_view_flags:
  "positions_ok s \<Longrightarrow> same_view s (drop_duplicate s)" "positions_ok s \<Longrightarrow> same_view s (drop_orphan s)"
  "positions_ok s \<Longrightarrow> same_view s (s\<lparr>ps_changed := ps_changed s \<or> b\<rparr>)"
  "positions_ok s \<Longrightarrow> same_view s (drop_duplicate (s\<lparr>ps_changed := ps_changed s \<or> b\<rparr>))"
  by (simp_all add: same_view_def positions_ok_def)

lemma push_changed:
  "ps_changed s \<Longrightarrow> ps_changed (pushToolResult m s)" "ps_moved (pushToolResult m s) = ps_moved s"
  "extractToolResultId m = Some i \<Longrightarrow> i \<in> set (ps_seen s) \<Longrightarrow> ps_changed (pushToolResult m s)"
  "pushed m s \<noteq> [] \<Longrightarrow> ps_changed (pushToolResult m s) = ps_changed s"
  by (auto simp: pushToolResult_def pushed_def split: option.split if_splits)

lemma push_seen_same:
  assumes "positions_ok s" "tool_result m" "extractToolResultId m = Some i" "i \<in> set (ps_seen s)"
  shows "same_view s (pushToolResult m s)"
  using push_result_ok [OF assms(1,2)] push_changed(1) [of s m] push_changed(2) [of m s] assms(3,4) by (simp add: same_view_def pushed_def)

lemma map_set_pair: "(a, b) \<in> set (map_set k v m) \<Longrightarrow> a = k \<or> a \<in> fst ` set m"
  using map_set_keys [of k v m] by (metis Un_iff fst_conv image_eqI list.set_map set_ConsD set_append empty_set empty_iff list.set(1))

lemma span_step_ok:
  assumes "positions_ok s" "results_ok r" "span_step cs m (r, rem, s) = (r', rem', s')"
  shows "same_view s s' \<and> results_ok r' \<and> rem' = rem @ (if tool_result m then [] else [m]) \<and>
    set (map_keys r') \<subseteq> set (map_keys r) \<union> tc_id ` set cs"
proof (cases "tool_result m")
  case False
  with assms show ?thesis by (simp add: span_step_def same_view_refl)
next
  case True
  let ?n = "fst (normalizeLegacyToolResultId m cs)"
  have n: "tool_result ?n" by (rule normalize_legacy_result [OF True])
  show ?thesis
  proof (cases "extractToolResultId ?n")
    case None
    with assms True show ?thesis
      by (auto simp: span_step_def Let_def case_prod_beta same_view_flags)
  next
    case (Some i)
    let ?f = "map_of (tool_names_by_id cs) i"
    let ?nn = "fst (normalizeToolResultName ?n ?f)"
    have nn: "tool_result ?nn" "extractToolResultId ?nn = Some i" using normalize_name_result [OF n] Some by simp_all
    from True Some assms nn results_ok_set [OF assms(2) nn] show ?thesis
      using push_seen_same [OF assms(1) nn]
      by (auto simp: span_step_def Let_def case_prod_beta same_view_flags split: if_splits option.splits dest!: map_set_pair intro: rev_image_eqI)
  qed
qed

lemma span_ok:
  assumes "positions_ok s" "results_ok r" "fold (span_step cs) ms (r, rem, s) = (r', rem', s')"
  shows "same_view s s' \<and> results_ok r' \<and> rem' = rem @ filter (\<lambda>m. \<not> tool_result m) ms \<and>
    set (map_keys r') \<subseteq> set (map_keys r) \<union> tc_id ` set cs"
  using assms
proof (induction ms arbitrary: r rem s)
  case Nil
  then show ?case by (simp add: same_view_refl)
next
  case (Cons m ms)
  obtain r1 rem1 s1 where st: "span_step cs m (r, rem, s) = (r1, rem1, s1)" by (metis prod_cases3)
  note one = span_step_ok [OF Cons.prems(1,2) st]
  have "positions_ok s1" using one by (simp add: same_view_def)
  moreover have "fold (span_step cs) ms (r1, rem1, s1) = (r', rem', s')" using Cons.prems(3) st by simp
  ultimately have rest: "same_view s1 s' \<and> results_ok r' \<and> rem' = rem1 @ filter (\<lambda>m. \<not> tool_result m) ms \<and>
      set (map_keys r') \<subseteq> set (map_keys r1) \<union> tc_id ` set cs"
    using Cons.IH [of s1 r1 rem1] one by blast
  have "set (map_keys r') \<subseteq> set (map_keys r) \<union> tc_id ` set cs" using one rest by blast
  moreover have "same_view s s'" using one rest same_view_trans by blast
  ultimately show ?case using one rest by simp
qed

text \<open>The index of tool results holds tool results of the transcript under their ids.\<close>

definition index_sound :: "js_value set \<Rightarrow> (string, indexed_message list) js_map \<Rightarrow> indexed_message list \<Rightarrow> bool" where
  "index_sound S explicit legacy \<longleftrightarrow>
     (\<forall>i l. map_of explicit i = Some l \<longrightarrow> (\<forall>(m, idx) \<in> set l. m \<in> S \<and> tool_result m \<and> extractToolResultId m = Some i)) \<and>
     (\<forall>(m, idx) \<in> set legacy. m \<in> S \<and> tool_result m)"

lemma index_soundD:
  assumes "index_sound S explicit legacy"
  shows "map_of explicit i = Some l \<Longrightarrow> (m, k) \<in> set l \<Longrightarrow> m \<in> S \<and> tool_result m \<and> extractToolResultId m = Some i"
    and "(m, k) \<in> set legacy \<Longrightarrow> m \<in> S \<and> tool_result m"
  using assms unfolding index_sound_def by fast+

lemma index_soundI:
  assumes "\<And>i l m k. map_of explicit i = Some l \<Longrightarrow> (m, k) \<in> set l \<Longrightarrow> m \<in> S \<and> tool_result m \<and> extractToolResultId m = Some i"
    and "\<And>m k. (m, k) \<in> set legacy \<Longrightarrow> m \<in> S \<and> tool_result m"
  shows "index_sound S explicit legacy"
  using assms unfolding index_sound_def by fast

lemma index_results_sound:
  assumes "index_tool_results messages = (explicit, legacy)"
  shows "index_sound (set messages) explicit legacy"
proof -
  let ?step = "\<lambda>(idx, msg) (explicit, legacy). if tool_result msg then
       (case extractToolResultId msg of
          Some i \<Rightarrow> (map_set i ((case map_of explicit i of Some l \<Rightarrow> l | None \<Rightarrow> []) @ [(msg, idx)]) explicit, legacy)
        | None \<Rightarrow> (explicit, legacy @ [(msg, idx)]))
     else (explicit, legacy)"
  have key: "index_sound S e' l'" if "index_sound S e l" "\<forall>(idx, m) \<in> set xs. m \<in> S" "fold ?step xs (e, l) = (e', l')" for xs S e l e' l'
    using that
  proof (induction xs arbitrary: e l)
    case (Cons x xs)
    obtain idx m where x: "x = (idx, m)" by (cases x)
    obtain e1 l1 where st: "?step x (e, l) = (e1, l1)" by (cases "?step x (e, l)")
    have m: "m \<in> S" using Cons.prems(2) x by simp
    consider "\<not> tool_result m" | "tool_result m" "extractToolResultId m = None"
      | i where "tool_result m" "extractToolResultId m = Some i" by (cases "extractToolResultId m") auto
    then have "index_sound S e1 l1"
    proof cases
      case 1
      with st x Cons.prems(1) show ?thesis by simp
    next
      case 2
      with st x have "e1 = e" "l1 = l @ [(m, idx)]" by simp_all
      with 2 m Cons.prems(1) show ?thesis unfolding index_sound_def by auto
    next
      case (3 i)
      with st x have "l1 = l" "e1 = map_set i ((case map_of e i of Some l \<Rightarrow> l | None \<Rightarrow> []) @ [(m, idx)]) e" by simp_all
      then show ?thesis
        using 3 m index_soundD [OF Cons.prems(1)]
        by (intro index_soundI; cases "map_of e i") (auto split: if_splits)
    qed
    from Cons.IH [OF this] Cons.prems(2,3) st show ?case by simp
  qed simp
  have start: "index_sound (set messages) [] []" by (simp add: index_sound_def)
  have mem: "\<forall>(idx, m) \<in> set (enumerate 0 messages). m \<in> set messages"
    by (auto simp: in_set_enumerate_eq)
  show ?thesis by (rule key [OF start mem assms [unfolded index_tool_results_def]])
qed

lemma later_results_ok:
  assumes "index_sound S explicit legacy"
  shows "results_ok (collectLaterMatchingToolResults j cs names seen explicit legacy)"
proof -
  have explicit: "tool_result m" "extractToolResultId m = Some i"
    if "map_of explicit i = Some l" "find (\<lambda>(m, idx). j \<le> idx) l = Some (m, k)" for m k i l
    using find_Some_mem [OF that(2)] index_soundD(1) [OF assms that(1)] by auto
  have legacy: "tool_result (fst (normalizeLegacyToolResultId m cs))" if "find P legacy = Some (m, k)" for P m k
    using find_Some_mem [OF that] index_soundD(2) [OF assms] by (auto intro: normalize_legacy_result)
  have keep: "results_ok (fold f xs r)" if "results_ok r" "\<And>c r. results_ok r \<Longrightarrow> results_ok (f c r)"
    for f :: "tool_call \<Rightarrow> (string, js_value) js_map \<Rightarrow> (string, js_value) js_map" and xs r
    using that by (induction xs arbitrary: r) auto
  show ?thesis unfolding collectLaterMatchingToolResults_def
    by (rule keep) (auto simp: Let_def explicit legacy normalize_name_result split: option.split intro!: results_ok_set)
qed

text \<open>The results of one turn.\<close>

definition turn_result :: "(string, js_value) js_map \<Rightarrow> (string, js_value) js_map \<Rightarrow> rat \<Rightarrow> string option \<Rightarrow> tool_call \<Rightarrow> js_value" where
  "turn_result r later now t call = (case map_of r (tc_id call) of
     Some m \<Rightarrow> m
   | None \<Rightarrow> (case map_of later (tc_id call) of Some m \<Rightarrow> m | None \<Rightarrow> makeMissingToolResult now (tc_id call) (tc_name call) t))"

lemma push_result_flags:
  assumes "positions_ok s" "tool_result m" "ps_out u = ps_out s" "ps_seen u = ps_seen s" "ps_positions u = ps_positions s"
  shows "positions_ok (pushToolResult m u) \<and> views (pushToolResult m u) = views s @ map Inr (pushed m s) \<and>
     set (ps_seen (pushToolResult m u)) = set (ps_seen s) \<union> {i. Some i \<in> set (pushed m s)}"
proof -
  have "pushed m u = pushed m s" by (simp add: pushed_def assms(4) split: option.split)
  with push_result_ok [of u m] positions_cong [OF assms(3-5)] assms show ?thesis by simp
qed

lemma push_call_ok:
  assumes "positions_ok s" "results_ok r" "results_ok later"
    "push_call_result now t r c (later, s) = (later', s')"
  shows "\<exists>ids. positions_ok s' \<and> results_ok later' \<and> views s' = views s @ map Inr ids \<and>
    set (ps_seen s') = set (ps_seen s) \<union> {i. Some i \<in> set ids} \<and>
    (js_trim (tc_id c) = tc_id c \<and> tc_id c \<noteq> [] \<longrightarrow>
       ids = (if tc_id c \<in> set (ps_seen s) then [] else [Some (tc_id c)]))"
proof -
  let ?m = "turn_result r later now t c"
  have m: "tool_result ?m" using assms(2,3) missing_result(1)
    by (auto simp: turn_result_def results_ok_def split: option.split)
  have i: "js_trim (tc_id c) = tc_id c \<and> tc_id c \<noteq> [] \<Longrightarrow> extractToolResultId ?m = Some (tc_id c)"
    using assms(2,3) missing_result(2) by (auto simp: turn_result_def results_ok_def split: option.split)
  obtain u where u: "s' = pushToolResult ?m u" "ps_out u = ps_out s" "ps_seen u = ps_seen s" "ps_positions u = ps_positions s"
    and l: "later' = later \<or> later' = map_delete (tc_id c) later"
    using assms(4) by (auto simp: push_call_result_def turn_result_def Let_def split: option.splits)
  have "results_ok later'"
    using l assms(3) js_store.wf_del by (auto simp: results_ok_def split: if_splits)
  then show ?thesis
    using push_result_flags [OF assms(1) m u(2-4)] i u(1)
    by (intro exI [of _ "pushed ?m s"]) (auto simp: pushed_def)
qed

definition plain_call :: "tool_call \<Rightarrow> bool" where
  "plain_call c \<longleftrightarrow> js_trim (tc_id c) = tc_id c \<and> tc_id c \<noteq> []"

lemma push_calls_ok:
  assumes "positions_ok s" "results_ok r" "results_ok later"
    "fold (push_call_result now t r) cs (later, s) = (later', s')"
  shows "\<exists>ids. positions_ok s' \<and> views s' = views s @ map Inr ids \<and>
    set (ps_seen s') = set (ps_seen s) \<union> {i. Some i \<in> set ids} \<and>
    ((\<forall>c \<in> set cs. plain_call c) \<longrightarrow> {i. Some i \<in> set ids} \<subseteq> tc_id ` set cs \<and>
       (distinct (map tc_id cs) \<and> tc_id ` set cs \<inter> set (ps_seen s) = {} \<longrightarrow> ids = map (Some \<circ> tc_id) cs))"
  using assms
proof (induction cs arbitrary: later s)
  case (Cons c cs)
  obtain l1 s1 where st: "push_call_result now t r c (later, s) = (l1, s1)" by (cases "push_call_result now t r c (later, s)")
  from push_call_ok [OF Cons.prems(1-3) st] obtain ids1 where one: "positions_ok s1" "results_ok l1"
    "views s1 = views s @ map Inr ids1" "set (ps_seen s1) = set (ps_seen s) \<union> {i. Some i \<in> set ids1}"
    "plain_call c \<Longrightarrow> ids1 = (if tc_id c \<in> set (ps_seen s) then [] else [Some (tc_id c)])"
    unfolding plain_call_def by blast
  from Cons.prems(4) st have "fold (push_call_result now t r) cs (l1, s1) = (later', s')" by simp
  from Cons.IH [OF one(1) Cons.prems(2) one(2) this] obtain ids2 where two: "positions_ok s'"
    "views s' = views s1 @ map Inr ids2" "set (ps_seen s') = set (ps_seen s1) \<union> {i. Some i \<in> set ids2}"
    "(\<forall>c \<in> set cs. plain_call c) \<Longrightarrow> {i. Some i \<in> set ids2} \<subseteq> tc_id ` set cs \<and>
       (distinct (map tc_id cs) \<and> tc_id ` set cs \<inter> set (ps_seen s1) = {} \<longrightarrow> ids2 = map (Some \<circ> tc_id) cs)"
    by blast
  show ?case
  proof (intro exI [of _ "ids1 @ ids2"] conjI impI)
    assume plain: "\<forall>c \<in> set (c # cs). plain_call c"
    then have p: "\<forall>c \<in> set cs. plain_call c" "plain_call c" by simp_all
    show "{i. Some i \<in> set (ids1 @ ids2)} \<subseteq> tc_id ` set (c # cs)"
      using two(4) [OF p(1)] one(5) [OF p(2)] by (auto split: if_splits)
    assume d: "distinct (map tc_id (c # cs)) \<and> tc_id ` set (c # cs) \<inter> set (ps_seen s) = {}"
    then have "ids1 = [Some (tc_id c)]" using one(5) [OF p(2)] by simp
    moreover from this d one(4) have "distinct (map tc_id cs) \<and> tc_id ` set cs \<inter> set (ps_seen s1) = {}" by auto
    ultimately show "ids1 @ ids2 = map (Some \<circ> tc_id) (c # cs)" using two(4) [OF p(1)] by simp
  qed (use one two in auto)
qed (intro exI [of _ "[]"]; simp)

lemma push_messages_ok:
  "positions_ok s \<Longrightarrow> \<forall>m \<in> set ms. \<not> tool_result m \<Longrightarrow>
     positions_ok (fold push_message ms s) \<and> views (fold push_message ms s) = views s @ map Inl ms \<and>
     ps_seen (fold push_message ms s) = ps_seen s"
  by (induction ms arbitrary: s) (simp_all add: push_message_ok)

lemma push_existing_ok:
  assumes "positions_ok s" "results_ok r"
  shows "\<exists>ids. positions_ok (fold (\<lambda>call s. case map_of r (tc_id call) of Some m \<Rightarrow> pushToolResult m s | None \<Rightarrow> s) cs s) \<and>
    views (fold (\<lambda>call s. case map_of r (tc_id call) of Some m \<Rightarrow> pushToolResult m s | None \<Rightarrow> s) cs s) = views s @ map Inr ids \<and>
    set (ps_seen (fold (\<lambda>call s. case map_of r (tc_id call) of Some m \<Rightarrow> pushToolResult m s | None \<Rightarrow> s) cs s)) =
      set (ps_seen s) \<union> {i. Some i \<in> set ids} \<and> {i. Some i \<in> set ids} \<subseteq> tc_id ` set cs"
  (is "\<exists>ids. ?P cs s ids")
  using assms(1)
proof (induction cs arbitrary: s)
  case Nil
  then show ?case by (intro exI [of _ "[]"]) simp
next
  case (Cons c cs)
  show ?case
  proof (cases "map_of r (tc_id c)")
    case None
    with Cons.IH [OF Cons.prems] obtain ids where "?P cs s ids" by blast
    with None show ?thesis by (intro exI [of _ ids]) auto
  next
    case (Some m)
    with assms(2) have m: "tool_result m" "extractToolResultId m = Some (tc_id c)" by (auto simp: results_ok_def)
    note one = push_result_ok [OF Cons.prems m(1)]
    from Cons.IH [OF one(1)] obtain ids where ids: "?P cs (pushToolResult m s) ids" by blast
    have "{i. Some i \<in> set (pushed m s)} \<subseteq> {tc_id c}" using m(2) by (auto simp: pushed_def split: if_splits)
    with ids one Some show ?thesis by (intro exI [of _ "pushed m s @ ids"]) auto
  qed
qed

lemma turn_ok:
  assumes "positions_ok s" "index_sound S explicit legacy" "\<not> tool_result msg"
    and s': "s' = repair_turn now opts explicit legacy j msg sp s"
    and cs: "cs = extractToolCallsFromAssistant msg"
  shows "\<exists>ids. positions_ok s' \<and>
    views s' = views s @ (if errored_turn msg \<and> po_dropErrored opts then [] else Inl msg # map Inr ids) @
      map Inl (filter (\<lambda>m. \<not> tool_result m) sp) \<and>
    set (ps_seen s') \<subseteq> set (ps_seen s) \<union> {i. Some i \<in> set ids} \<and>
    ((\<forall>c \<in> set cs. plain_call c) \<longrightarrow> {i. Some i \<in> set ids} \<subseteq> tc_id ` set cs \<and>
       (\<not> errored_turn msg \<and> distinct (map tc_id cs) \<and> tc_id ` set cs \<inter> set (ps_seen s) = {} \<longrightarrow>
          ids = map (Some \<circ> tc_id) cs))"
proof -
  obtain r rem s1 where sp: "fold (span_step cs) sp ([], [], s) = (r, rem, s1)" by (metis prod_cases3)
  from span_ok [OF assms(1) results_ok_Nil sp] have one: "positions_ok s1" "views s1 = views s"
    "set (ps_seen s1) = set (ps_seen s)" "results_ok r" "rem = filter (\<lambda>m. \<not> tool_result m) sp"
    by (auto simp: same_view_def)
  have rem: "\<forall>m \<in> set rem. \<not> tool_result m" using one(5) by simp
  note msg = push_message_ok [OF one(1) assms(3)]
  show ?thesis
  proof (cases "errored_turn msg")
    case True
    show ?thesis
    proof (cases "po_dropErrored opts")
      case drop: True
      have c: "positions_ok (s1\<lparr>ps_changed := True\<rparr>)" using one(1) by (simp add: positions_ok_def)
      show ?thesis
        using True drop push_messages_ok [OF c rem] one sp
        by (intro exI [of _ "[]"]) (simp add: s' repair_turn_def flip: cs)
    next
      case False
      define u where "u = fold (\<lambda>call s. case map_of r (tc_id call) of Some m \<Rightarrow> pushToolResult m s | None \<Rightarrow> s) cs (push_message msg s1)"
      from push_existing_ok [OF msg(1) one(4), of cs, folded u_def] obtain ids where ids: "positions_ok u"
        "views u = views (push_message msg s1) @ map Inr ids"
        "set (ps_seen u) = set (ps_seen (push_message msg s1)) \<union> {i. Some i \<in> set ids}" "{i. Some i \<in> set ids} \<subseteq> tc_id ` set cs"
        by blast
      have "s' = fold push_message rem u"
        unfolding s' repair_turn_def cs [symmetric] Let_def sp prod.case u_def by (simp add: True False)
      then show ?thesis
        using True False push_messages_ok [OF ids(1) rem] ids(2-4) msg(2,3) one
        by (intro exI [of _ ids]) simp
    qed
  next
    case False
    define s3 where "s3 = (if length r > 0 \<and> length rem > 0
       then (push_message msg s1)\<lparr>ps_moved := True, ps_changed := True\<rparr> else push_message msg s1)"
    have s3: "positions_ok s3" "views s3 = views s @ [Inl msg]" "set (ps_seen s3) = set (ps_seen s)"
      using msg one by (auto simp: s3_def positions_ok_def)
    define later where "later = collectLaterMatchingToolResults j cs (tool_names_by_id cs) (ps_seen s3) explicit legacy"
    obtain l4 s4 where s4: "fold (push_call_result now (po_missingText opts) r) cs (later, s3) = (l4, s4)"
      by (metis surj_pair)
    have "results_ok later" unfolding later_def by (rule later_results_ok [OF assms(2)])
    from push_calls_ok [OF s3(1) one(4) this s4] obtain ids where ids: "positions_ok s4"
      "views s4 = views s3 @ map Inr ids" "set (ps_seen s4) = set (ps_seen s3) \<union> {i. Some i \<in> set ids}"
      "(\<forall>c \<in> set cs. plain_call c) \<longrightarrow> {i. Some i \<in> set ids} \<subseteq> tc_id ` set cs \<and>
       (distinct (map tc_id cs) \<and> tc_id ` set cs \<inter> set (ps_seen s3) = {} \<longrightarrow> ids = map (Some \<circ> tc_id) cs)"
      by blast
    have s'4: "s' = fold push_message rem s4"
      unfolding s' repair_turn_def cs [symmetric] Let_def sp prod.case
      by (simp only: False if_False s3_def [symmetric] later_def [symmetric] s4 prod.case)
    show ?thesis
      using False push_messages_ok [OF ids(1) rem] ids s3 one(5)
      by (intro exI [of _ ids]) (simp add: s'4)
  qed
qed

section \<open>Transcripts that are left alone\<close>

lemma legacy_same: "\<not> snd (normalizeLegacyToolResultId m cs) \<Longrightarrow> fst (normalizeLegacyToolResultId m cs) = m"
  by (auto simp: normalizeLegacyToolResultId_def split: option.splits list.splits if_splits)

lemma span_step_changed:
  assumes "span_step cs m (r, rem, s) = (r', rem', s')" "ps_changed s"
  shows "ps_changed s'"
  using assms push_changed(1) [OF assms(2)]
  by (auto simp: span_step_def Let_def case_prod_beta split: if_splits option.splits)

lemma span_changed: "fold (span_step cs) ms (r, rem, s) = (r', rem', s') \<Longrightarrow> ps_changed s \<Longrightarrow> ps_changed s'"
proof (induction ms arbitrary: r rem s)
  case (Cons m ms)
  obtain r1 rem1 s1 where st: "span_step cs m (r, rem, s) = (r1, rem1, s1)" by (metis prod_cases3)
  from Cons.IH [of r1 rem1 s1] Cons.prems st span_step_changed [OF st] show ?case by simp
qed simp

lemma span_step_unchanged:
  assumes "span_step cs m (r, rem, s) = (r', rem', s')" "\<not> ps_changed s'" "tool_result m"
  shows "\<exists>i. view m = Inr (Some i) \<and> map_keys r' = map_keys r @ [i] \<and> s' = s"
proof -
  let ?n = "fst (normalizeLegacyToolResultId m cs)"
  obtain i where i: "extractToolResultId ?n = Some i"
    using assms by (cases "extractToolResultId ?n") (auto simp: span_step_def Let_def case_prod_beta)
  let ?nn = "normalizeToolResultName ?n (map_of (tool_names_by_id cs) i)"
  have nn: "extractToolResultId (fst ?nn) = Some i"
    using i normalize_name_result(2) [OF normalize_legacy_result [OF assms(3)]] by simp
  have "i \<notin> set (ps_seen s)"
    using assms i push_changed(3) [OF nn, of s] by (auto simp: span_step_def Let_def case_prod_beta)
  with assms i have "i \<in> tc_id ` set cs" "map_of r i = None"
    by (auto simp: span_step_def Let_def case_prod_beta split: if_splits option.splits)
  with assms i \<open>i \<notin> set (ps_seen s)\<close> have r: "r' = map_set i (fst ?nn) r"
    and s: "s' = s\<lparr>ps_changed := ps_changed s \<or> snd (normalizeLegacyToolResultId m cs) \<or> snd ?nn\<rparr>"
    by (auto simp: span_step_def Let_def case_prod_beta)
  from s assms(2) have fl: "\<not> snd (normalizeLegacyToolResultId m cs)" "\<not> ps_changed s" "\<not> snd ?nn" by auto
  have "i \<notin> set (map_keys r)" using \<open>map_of r i = None\<close> by (simp add: map_of_eq_None_iff)
  with r have "map_keys r' = map_keys r @ [i]" by (simp add: map_set_keys)
  moreover have "s' = s" using s fl by simp
  moreover have "view m = Inr (Some i)" using i legacy_same [OF fl(1)] assms(3) by (simp add: view_result)
  ultimately show ?thesis by blast
qed

lemma span_unchanged:
  assumes "fold (span_step cs) ms (r, rem, s) = (r', rem', s')" "\<not> ps_changed s'"
  shows "s' = s \<and> (\<exists>ids. map view (filter tool_result ms) = map (Inr \<circ> Some) ids \<and> map_keys r' = map_keys r @ ids)"
  using assms(1)
proof (induction ms arbitrary: r rem s)
  case (Cons m ms)
  obtain r1 rem1 s1 where st: "span_step cs m (r, rem, s) = (r1, rem1, s1)" by (metis prod_cases3)
  from Cons.IH [of r1 rem1 s1] Cons.prems st obtain ids where rest: "s' = s1"
    "map view (filter tool_result ms) = map (Inr \<circ> Some) ids" "map_keys r' = map_keys r1 @ ids" by auto
  show ?case
  proof (cases "tool_result m")
    case True
    from span_step_unchanged [OF st _ True] rest(1) assms(2) obtain i where
      "view m = Inr (Some i)" "map_keys r1 = map_keys r @ [i]" "s1 = s" by auto
    with rest True show ?thesis by (auto intro!: exI [of _ "i # ids"])
  next
    case False
    with st have "r1 = r" "s1 = s" by (simp_all add: span_step_def)
    with rest False show ?thesis by auto
  qed
qed simp

lemma push_call_unchanged:
  assumes "push_call_result now t r c (later, s) = (later', s')" "\<not> ps_changed s'" "results_ok r"
  shows "\<not> ps_changed s \<and> later' = later \<and> tc_id c \<in> set (map_keys r) \<and> tc_id c \<notin> set (ps_seen s) \<and>
    ps_seen s' = set_add (tc_id c) (ps_seen s) \<and> views s' = views s @ [Inr (Some (tc_id c))]"
proof -
  obtain m where m: "map_of r (tc_id c) = Some m"
    using assms(1,2) push_changed(1) by (fastforce simp: push_call_result_def Let_def split: option.splits)
  then have res: "tool_result m" "extractToolResultId m = Some (tc_id c)" using assms(3) by (auto simp: results_ok_def)
  from m assms(1) have s': "later' = later" "s' = pushToolResult m s" by (simp_all add: push_call_result_def)
  from s' assms(2) push_changed(1) push_changed(3) [OF res(2)] have "\<not> ps_changed s" "tc_id c \<notin> set (ps_seen s)" by auto
  with s' res map_of_in_keys [OF m] show ?thesis by (simp add: pushToolResult_def view_result)
qed

lemma push_call_changed: "push_call_result now t r c (later, s) = (later', s') \<Longrightarrow> ps_changed s \<Longrightarrow> ps_changed s'"
  using push_changed(1) by (auto simp: push_call_result_def Let_def split: option.splits)

lemma push_calls_unchanged:
  assumes "fold (push_call_result now t r) cs (later, s) = (later', s')" "\<not> ps_changed s'" "results_ok r"
  shows "\<not> ps_changed s \<and> views s' = views s @ map (\<lambda>c. Inr (Some (tc_id c))) cs \<and> distinct (map tc_id cs) \<and>
    tc_id ` set cs \<subseteq> set (map_keys r) \<and> tc_id ` set cs \<inter> set (ps_seen s) = {}"
  using assms(1)
proof (induction cs arbitrary: later s)
  case (Cons c cs)
  obtain l1 s1 where st: "push_call_result now t r c (later, s) = (l1, s1)" by (cases "push_call_result now t r c (later, s)")
  from Cons.IH [of l1 s1] Cons.prems st have rest: "\<not> ps_changed s1" "views s' = views s1 @ map (\<lambda>c. Inr (Some (tc_id c))) cs"
    "distinct (map tc_id cs)" "tc_id ` set cs \<subseteq> set (map_keys r)" "tc_id ` set cs \<inter> set (ps_seen s1) = {}" by auto
  from push_call_unchanged [OF st rest(1) assms(3)] rest show ?case by auto
qed (use assms(2) in simp)

lemma push_messages_changed: "ps_changed (fold push_message ms s) = ps_changed s"
  by (induction ms arbitrary: s) (simp_all add: push_message_def)

lemma push_existing_unchanged:
  assumes "\<not> ps_changed (fold (\<lambda>call s. case map_of r (tc_id call) of Some m \<Rightarrow> pushToolResult m s | None \<Rightarrow> s) cs s)" "results_ok r"
  shows "\<not> ps_changed s \<and> (\<exists>ids.
    views (fold (\<lambda>call s. case map_of r (tc_id call) of Some m \<Rightarrow> pushToolResult m s | None \<Rightarrow> s) cs s) =
      views s @ map (Inr \<circ> Some) ids \<and> distinct ids \<and> set ids = tc_id ` set cs \<inter> set (map_keys r) \<and> set ids \<inter> set (ps_seen s) = {})"
  using assms(1)
proof (induction cs arbitrary: s)
  case (Cons c cs)
  show ?case
  proof (cases "map_of r (tc_id c)")
    case None
    then have "tc_id c \<notin> set (map_keys r)" by (simp add: map_of_eq_None_iff)
    with None Cons show ?thesis by auto
  next
    case (Some m)
    with assms(2) have m: "tool_result m" "extractToolResultId m = Some (tc_id c)" by (auto simp: results_ok_def)
    let ?f = "fold (\<lambda>call s. case map_of r (tc_id call) of Some m \<Rightarrow> pushToolResult m s | None \<Rightarrow> s) cs (pushToolResult m s)"
    have "\<not> ps_changed ?f" using Cons.prems Some by simp
    from Cons.IH [OF this] obtain ids where ids: "\<not> ps_changed (pushToolResult m s)"
      "views ?f = views (pushToolResult m s) @ map (Inr \<circ> Some) ids" "distinct ids" "set ids = tc_id ` set cs \<inter> set (map_keys r)"
      "set ids \<inter> set (ps_seen (pushToolResult m s)) = {}" by blast
    from ids(1) push_changed(1) push_changed(3) [OF m(2)] have u: "\<not> ps_changed s" "tc_id c \<notin> set (ps_seen s)" by auto
    from u m have p: "views (pushToolResult m s) = views s @ [Inr (Some (tc_id c))]"
      "ps_seen (pushToolResult m s) = set_add (tc_id c) (ps_seen s)" by (simp_all add: pushToolResult_def view_result)
    have k: "tc_id c \<in> set (map_keys r)" by (rule map_of_in_keys [OF Some])
    have "views ?f = views s @ map (Inr \<circ> Some) (tc_id c # ids)" "distinct (tc_id c # ids)"
      "set (tc_id c # ids) = tc_id ` set (c # cs) \<inter> set (map_keys r)" "set (tc_id c # ids) \<inter> set (ps_seen s) = {}"
      using ids u p k by auto
    with u(1) Some show ?thesis by (metis (no_types, lifting) fold_simps(2) option.simps(5))
  qed
qed (use assms(2) in simp)

lemma push_messages_views: "views (fold push_message ms s) = views s @ map view ms"
  by (induction ms arbitrary: s) (simp_all add: push_message_def)

lemma turn_unchanged:
  assumes "positions_ok s" "\<not> tool_result msg" and cs: "cs = extractToolCallsFromAssistant msg" "cs \<noteq> []"
    and s': "s' = repair_turn now opts explicit legacy j msg sp s" "\<not> ps_changed s'"
  shows "\<not> ps_changed s \<and> mset (views s') = mset (views s) + mset (map view (msg # sp)) \<and>
    (\<not> errored_turn msg \<longrightarrow> mset (map view sp) = mset (map (Inr \<circ> Some \<circ> tc_id) cs))"
proof -
  obtain r rem s1 where sp: "fold (span_step cs) sp ([], [], s) = (r, rem, s1)" by (metis prod_cases3)
  from span_ok [OF assms(1) results_ok_Nil sp] have one: "results_ok r" "rem = filter (\<lambda>m. \<not> tool_result m) sp"
    "set (map_keys r) \<subseteq> tc_id ` set cs" by auto
  have rd: "distinct (map_keys r)" using one(1) by (simp add: results_ok_def)
  have split: "mset (map view sp) = mset (map view (filter tool_result sp)) + mset (map view rem)"
    unfolding one(2) by (induction sp) simp_all
  have unch: "s1 = s" "mset (map view sp) = mset (map (Inr \<circ> Some) (map_keys r)) + mset (map view rem)" if "\<not> ps_changed s1"
    using span_unchanged [OF sp that] split by auto
  show ?thesis
  proof (cases "errored_turn msg")
    case True
    have keep: "\<not> po_dropErrored opts"
      using s' True by (auto simp: repair_turn_def sp push_messages_changed simp flip: cs)
    let ?u = "fold (\<lambda>call s. case map_of r (tc_id call) of Some m \<Rightarrow> pushToolResult m s | None \<Rightarrow> s) cs (push_message msg s1)"
    have u: "s' = fold push_message rem ?u"
      unfolding s' repair_turn_def cs(1) [symmetric] Let_def sp prod.case by (simp add: True keep)
    then have "\<not> ps_changed ?u" using s'(2) by (simp add: push_messages_changed)
    from push_existing_unchanged [OF this one(1)] obtain ids where ids: "\<not> ps_changed (push_message msg s1)"
      "views ?u = views (push_message msg s1) @ map (Inr \<circ> Some) ids" "distinct ids" "set ids = tc_id ` set cs \<inter> set (map_keys r)"
      by blast
    then have nc: "\<not> ps_changed s1" by (simp add: push_message_def)
    have "set ids = set (map_keys r)" using ids(4) one(3) by blast
    then have eq: "mset ids = mset (map_keys r)" using ids(3) rd set_eq_iff_mset_eq_distinct by blast
    have "views s' = views ?u @ map view rem" unfolding u by (rule push_messages_views)
    then have "mset (views s') = mset (views s) + {#view msg#} + mset (map (Inr \<circ> Some) ids) + mset (map view rem)"
      using ids(2) unch(1) [OF nc] by (simp add: push_message_def)
    also have "mset (map (Inr \<circ> Some) ids) = mset (map (Inr \<circ> Some) (map_keys r) :: (js_value + string option) list)"
      using eq by (simp only: mset_map)
    finally show ?thesis using True nc unch [OF nc] by simp
  next
    case False
    define s3 where "s3 = (if length r > 0 \<and> length rem > 0
       then (push_message msg s1)\<lparr>ps_moved := True, ps_changed := True\<rparr> else push_message msg s1)"
    define later where "later = collectLaterMatchingToolResults j cs (tool_names_by_id cs) (ps_seen s3) explicit legacy"
    obtain l4 s4 where s4: "fold (push_call_result now (po_missingText opts) r) cs (later, s3) = (l4, s4)"
      by (metis surj_pair)
    have s'4: "s' = fold push_message rem s4"
      unfolding s' repair_turn_def cs(1) [symmetric] Let_def sp prod.case
      by (simp only: False if_False s3_def [symmetric] later_def [symmetric] s4 prod.case)
    then have "\<not> ps_changed s4" using s'(2) by (simp add: push_messages_changed)
    from push_calls_unchanged [OF s4 this one(1)] have calls: "\<not> ps_changed s3"
      "views s4 = views s3 @ map (\<lambda>c. Inr (Some (tc_id c))) cs" "distinct (map tc_id cs)" "tc_id ` set cs \<subseteq> set (map_keys r)"
      by auto
    from calls(4) cs(2) have "r \<noteq> []" by auto
    with calls(1) have rem: "rem = []" "s3 = push_message msg s1" by (auto simp: s3_def split: if_splits)
    with calls(1) have nc: "\<not> ps_changed s1" by (simp add: push_message_def)
    have "set (map tc_id cs) = set (map_keys r)" using calls(4) one(3) by auto
    then have eq: "mset (map tc_id cs) = mset (map_keys r)" using calls(3) rd set_eq_iff_mset_eq_distinct by blast
    have sps: "mset (map view sp) = mset (map (Inr \<circ> Some) (map tc_id cs))"
      using unch(2) [OF nc] rem(1) eq by (simp only: mset_map list.map mset.simps add_0_right)
    have "views s' = views s @ [view msg] @ map (\<lambda>c. Inr (Some (tc_id c))) cs"
      using calls(2) rem unch(1) [OF nc] s'4 by (simp add: push_message_def)
    then show ?thesis using nc unch(1) [OF nc] sps by (simp add: comp_assoc comp_def)
  qed
qed

section \<open>The loop\<close>

abbreviation no_calls :: "js_value \<Rightarrow> bool" where
  "no_calls \<equiv> \<lambda>m. \<not> assistantHasToolCalls m"

lemma loop_plain:
  "no_calls msg \<Longrightarrow> repair_loop now opts explicit legacy i (msg # rest) s =
     repair_loop now opts explicit legacy (i + 1) rest (if tool_result msg then drop_orphan s else push_message msg s)"
  by (auto simp: repair_loop.simps assistantHasToolCalls_def has_role_def)

lemma loop_turn:
  "assistantHasToolCalls msg \<Longrightarrow> repair_loop now opts explicit legacy i (msg # rest) s =
     repair_loop now opts explicit legacy (i + 1 + length (takeWhile no_calls rest)) (dropWhile no_calls rest)
       (repair_turn now opts explicit legacy (i + 1 + length (takeWhile no_calls rest)) msg (takeWhile no_calls rest) s)"
  by (auto simp: repair_loop.simps assistantHasToolCalls_def has_role_def Let_def)

lemma calls_not_result: "assistantHasToolCalls m \<Longrightarrow> \<not> tool_result m \<and> extractToolCallsFromAssistant m \<noteq> []"
  by (auto simp: assistantHasToolCalls_def has_role_def)

text \<open>Induction along the turns of a transcript.\<close>

lemma turns_induct [case_names Nil Plain Turn]:
  assumes "\<And>s i. P [] s i"
    and "\<And>m ms s i. no_calls m \<Longrightarrow> (\<And>s i. P ms s i) \<Longrightarrow> P (m # ms) s i"
    and "\<And>m ms s i. assistantHasToolCalls m \<Longrightarrow> (\<And>s i. P (dropWhile no_calls ms) s i) \<Longrightarrow> P (m # ms) s i"
  shows "P ms s i"
proof (induction ms arbitrary: s i rule: length_induct)
  case (1 ms)
  show ?case
  proof (cases ms)
    case (Cons m rest)
    with 1 have "P rest s i" "P (dropWhile no_calls rest) s i" for s i
      by (simp_all add: less_Suc_eq_le length_dropWhile_le)
    with Cons assms(2,3) show ?thesis by (cases "assistantHasToolCalls m") blast+
  qed (simp add: assms(1))
qed

section \<open>What a repaired transcript is\<close>

text \<open>Every turn with tool calls that ended normally is followed directly by the results of its
  calls, one for each, in some order, and by no other result.\<close>

definition call_ids :: "js_value \<Rightarrow> string list" where
  "call_ids msg = map tc_id (extractToolCallsFromAssistant msg)"

fun answered :: "js_value list \<Rightarrow> bool" where
  "answered [] \<longleftrightarrow> True"
| "answered (m # ms) \<longleftrightarrow>
     (assistantHasToolCalls m \<and> \<not> errored_turn m \<longrightarrow>
        mset (map extractToolResultId (takeWhile tool_result ms)) = mset (map Some (call_ids m))) \<and> answered ms"

fun answered_views :: "(js_value + string option) list \<Rightarrow> bool" where
  "answered_views [] \<longleftrightarrow> True"
| "answered_views (Inr _ # vs) \<longleftrightarrow> answered_views vs"
| "answered_views (Inl m # vs) \<longleftrightarrow>
     (assistantHasToolCalls m \<and> \<not> errored_turn m \<longrightarrow>
        mset (takeWhile (Not \<circ> isl) vs) = mset (map (Inr \<circ> Some) (call_ids m))) \<and> answered_views vs"

lemma view_isl: "isl (view m) \<longleftrightarrow> \<not> tool_result m"
  by (simp add: view_def)

lemma takeWhile_views: "takeWhile (Not \<circ> isl) (map view ms) = map (Inr \<circ> extractToolResultId) (takeWhile tool_result ms)"
  by (induction ms) (simp_all add: view_def)

lemma answered_iff_views: "answered ms \<longleftrightarrow> answered_views (map view ms)"
proof (induction ms)
  case (Cons m ms)
  have inj: "mset (map (Inr \<circ> f) xs) = mset (map (Inr \<circ> Some) ys) \<longleftrightarrow> mset (map f xs) = mset (map Some ys)"
    for f :: "js_value \<Rightarrow> string option" and xs ys
  proof -
    have "A = B" if "image_mset Inr A = image_mset Inr B" for A B :: "string option multiset"
      using arg_cong [OF that, of "image_mset projr"] by (simp add: multiset.map_comp comp_def)
    then have "image_mset Inr A = image_mset Inr B \<longleftrightarrow> A = B" for A B :: "string option multiset" by blast
    then show ?thesis by (metis list.map_comp mset_map)
  qed
  show ?case
  proof (cases "tool_result m")
    case True
    then have "no_calls m" using calls_not_result by blast
    with True Cons show ?thesis by (simp add: view_result)
  next
    case False
    then have "view m = Inl m" by (rule view_result)
    with Cons show ?thesis by (simp add: takeWhile_views inj del: mset_map)
  qed
qed simp

lemma answered_append: "answered_views vs \<Longrightarrow> answered_views ws \<Longrightarrow> ws = [] \<or> isl (hd ws) \<Longrightarrow> answered_views (vs @ ws)"
proof (induction vs rule: answered_views.induct)
  case (3 m vs)
  have "takeWhile (Not \<circ> isl) (vs @ ws) = takeWhile (Not \<circ> isl) vs"
    using 3(4) by (induction vs; cases ws) auto
  with 3 show ?case by simp
qed simp_all

lemma answered_no_calls: "\<forall>m \<in> set ms. no_calls m \<Longrightarrow> answered_views (map view ms)"
  by (induction ms) (auto simp: view_def)

lemma answered_results: "answered_views (map Inr ids @ vs) = answered_views vs"
  by (induction ids) simp_all

text \<open>The messages that are not tool results.\<close>

definition others :: "(js_value + string option) list \<Rightarrow> js_value list" where
  "others vs = map projl (filter isl vs)"

lemma others_simps [simp]:
  "others [] = []" "others (Inl m # vs) = m # others vs" "others (Inr i # vs) = others vs"
  "others (vs @ ws) = others vs @ others ws" "others (map Inr ids) = []" "others (map Inl ms) = ms"
  "others (map view ms) = filter (\<lambda>m. \<not> tool_result m) ms"
proof -
  show "others (map Inr ids) = []" by (induction ids) (simp_all add: others_def)
  show "others (map Inl ms) = ms" by (induction ms) (simp_all add: others_def)
  show "others (map view ms) = filter (\<lambda>m. \<not> tool_result m) ms" by (induction ms) (simp_all add: others_def view_def)
qed (simp_all add: others_def)

definition transcript_call_ids :: "js_value list \<Rightarrow> string list" where
  "transcript_call_ids ms = concat (map call_ids (filter assistantHasToolCalls ms))"

text \<open>Call ids that no earlier call of the transcript has, written without surrounding blanks.\<close>

definition fresh_calls :: "js_value list \<Rightarrow> string list \<Rightarrow> bool" where
  "fresh_calls ms seen \<longleftrightarrow> distinct (transcript_call_ids ms) \<and> set (transcript_call_ids ms) \<inter> set seen = {} \<and>
     (\<forall>i \<in> set (transcript_call_ids ms). js_trim i = i)"

lemma call_ids_nonempty: "c \<in> set (extractToolCallsFromAssistant msg) \<Longrightarrow> tc_id c \<noteq> []"
  by (auto simp: extractToolCallsFromAssistant_def split: js_value.splits if_splits)

lemma transcript_call_ids_simps [simp]:
  "transcript_call_ids [] = []"
  "assistantHasToolCalls m \<Longrightarrow> transcript_call_ids (m # ms) = call_ids m @ transcript_call_ids ms"
  "no_calls m \<Longrightarrow> transcript_call_ids (m # ms) = transcript_call_ids ms"
  "transcript_call_ids (dropWhile no_calls ms) = transcript_call_ids ms"
proof -
  show "transcript_call_ids (dropWhile no_calls ms) = transcript_call_ids ms"
    by (induction ms) (simp_all add: transcript_call_ids_def)
qed (simp_all add: transcript_call_ids_def)

text \<open>The messages the repair keeps: all but tool results, and but the errored turns it is told to drop.\<close>

definition conversation :: "pairing_options \<Rightarrow> js_value \<Rightarrow> bool" where
  "conversation opts m \<longleftrightarrow> \<not> has_role ''toolResult'' m \<and> \<not> (po_dropErrored opts \<and> assistantHasToolCalls m \<and> errored_turn m)"

lemma conversation_turns:
  "no_calls m \<Longrightarrow> conversation opts m = (\<not> tool_result m)"
  "assistantHasToolCalls m \<Longrightarrow> conversation opts m = (\<not> (po_dropErrored opts \<and> errored_turn m))"
  using calls_not_result [of m] by (auto simp: conversation_def)

lemma hd_dropWhile_view: "map view (dropWhile no_calls ms) = [] \<or> isl (hd (map view (dropWhile no_calls ms)))"
  by (induction ms) (auto simp: view_isl dest: calls_not_result)

lemma takeWhile_no_calls: "\<forall>m \<in> set (takeWhile no_calls ms). no_calls m"
  by (auto dest: set_takeWhileD)

lemma others_split: "filter P (takeWhile Q ms) @ filter P (dropWhile Q ms) = filter P ms"
  by (metis filter_append takeWhile_dropWhile_id)

lemma takeWhile_isl_hd: "vs = [] \<or> isl (hd vs) \<Longrightarrow> takeWhile (Not \<circ> isl) vs = []"
  by (cases vs) auto

lemma isl_hd_append: "(vs = [] \<or> isl (hd vs)) \<Longrightarrow> (ws = [] \<or> isl (hd ws)) \<Longrightarrow> vs @ ws = [] \<or> isl (hd (vs @ ws))"
  by (cases vs) auto

lemma loop_ok:
  assumes "index_sound S explicit legacy" "positions_ok s"
  shows "\<exists>vs. positions_ok (repair_loop now opts explicit legacy i ms s) \<and>
    views (repair_loop now opts explicit legacy i ms s) = views s @ vs \<and> (vs = [] \<or> isl (hd vs)) \<and>
    others vs = filter (conversation opts) ms \<and> (fresh_calls ms (ps_seen s) \<longrightarrow> answered_views vs)"
  using assms(2)
proof (induction ms s i rule: turns_induct)
  case (Nil s i)
  then show ?case by (intro exI [of _ "[]"]) (simp add: repair_loop.simps)
next
  case (Plain m ms s i)
  let ?s = "if tool_result m then drop_orphan s else push_message m s"
  have s: "positions_ok ?s" "views ?s = views s @ (if tool_result m then [] else [Inl m])" "ps_seen ?s = ps_seen s"
    using Plain(3) push_message_ok [OF Plain(3), of m] positions_cong [of "drop_orphan s" s] by auto
  from Plain(2) [OF s(1), of "i + 1"] obtain vs where vs:
    "positions_ok (repair_loop now opts explicit legacy (i + 1) ms ?s)"
    "views (repair_loop now opts explicit legacy (i + 1) ms ?s) = views ?s @ vs" "vs = [] \<or> isl (hd vs)"
    "others vs = filter (conversation opts) ms"
    "fresh_calls ms (ps_seen s) \<longrightarrow> answered_views vs" unfolding s(3) by blast
  have fr: "fresh_calls (m # ms) (ps_seen s) = fresh_calls ms (ps_seen s)"
    using Plain(1) by (simp add: fresh_calls_def)
  show ?case unfolding loop_plain [OF Plain(1)] fr
    using vs s(2) Plain(1) by (intro exI [of _ "(if tool_result m then [] else [Inl m]) @ vs"]) (simp add: conversation_turns)
next
  case (Turn m ms s i)
  let ?j = "i + 1 + length (takeWhile no_calls ms)"
  let ?sp = "takeWhile no_calls ms"
  let ?s = "repair_turn now opts explicit legacy ?j m ?sp s"
  let ?cs = "extractToolCallsFromAssistant m"
  from calls_not_result [OF Turn(1)] have m: "\<not> tool_result m" by blast
  from turn_ok [OF Turn(3) assms(1) m refl refl, of now opts ?j ?sp] obtain ids where t: "positions_ok ?s"
    "views ?s = views s @ (if errored_turn m \<and> po_dropErrored opts then [] else Inl m # map Inr ids) @
       map Inl (filter (\<lambda>m. \<not> tool_result m) ?sp)" (is "_ = _ @ ?out @ ?rem")
    "set (ps_seen ?s) \<subseteq> set (ps_seen s) \<union> {i. Some i \<in> set ids}"
    "(\<forall>c \<in> set ?cs. plain_call c) \<Longrightarrow> {i. Some i \<in> set ids} \<subseteq> tc_id ` set ?cs \<and>
       (\<not> errored_turn m \<and> distinct (map tc_id ?cs) \<and> tc_id ` set ?cs \<inter> set (ps_seen s) = {} \<longrightarrow>
          ids = map (Some \<circ> tc_id) ?cs)" by blast
  from Turn(2) [OF t(1), of ?j] obtain vs where vs:
    "positions_ok (repair_loop now opts explicit legacy ?j (dropWhile no_calls ms) ?s)"
    "views (repair_loop now opts explicit legacy ?j (dropWhile no_calls ms) ?s) = views ?s @ vs" "vs = [] \<or> isl (hd vs)"
    "others vs = filter (conversation opts) (dropWhile no_calls ms)"
    "fresh_calls (dropWhile no_calls ms) (ps_seen ?s) \<longrightarrow> answered_views vs" by blast
  have rem: "?rem @ vs = [] \<or> isl (hd (?rem @ vs))"
    by (rule isl_hd_append [OF _ vs(3)]) (cases "filter (\<lambda>m. \<not> tool_result m) ?sp"; simp)
  have hd: "?out @ ?rem @ vs = [] \<or> isl (hd (?out @ ?rem @ vs))" using rem by simp
  have "filter (\<lambda>m. \<not> tool_result m) ?sp = filter (conversation opts) ?sp"
    using takeWhile_no_calls by (intro filter_cong) (auto simp: conversation_turns)
  then have oth: "others (?out @ ?rem @ vs) = filter (conversation opts) (m # ms)"
    using vs(4) m Turn(1) by (auto simp: others_split conversation_turns)
  have ans: "answered_views (?out @ ?rem @ vs)" if f: "fresh_calls (m # ms) (ps_seen s)"
  proof -
    from f Turn(1) have f': "distinct (call_ids m)" "set (call_ids m) \<inter> set (ps_seen s) = {}"
      "set (call_ids m) \<inter> set (transcript_call_ids ms) = {}" "fresh_calls ms (ps_seen s)" "\<forall>i \<in> set (call_ids m). js_trim i = i"
      by (auto simp: fresh_calls_def)
    then have "\<forall>c \<in> set ?cs. plain_call c" by (auto simp: plain_call_def call_ids_def dest: call_ids_nonempty)
    from t(4) [OF this] f'(1,2) have ids: "{i. Some i \<in> set ids} \<subseteq> set (call_ids m)"
      "\<not> errored_turn m \<Longrightarrow> ids = map Some (call_ids m)" by (simp_all add: call_ids_def)
    have "fresh_calls (dropWhile no_calls ms) (ps_seen ?s)"
      using f'(3,4) ids(1) t(3) by (auto simp: fresh_calls_def)
    with vs(5) have "answered_views vs" by blast
    moreover have "answered_views ?rem"
    proof -
      have "answered_views (map view (filter (\<lambda>m. \<not> tool_result m) ?sp))"
        by (rule answered_no_calls) (use takeWhile_no_calls in auto)
      also have "map view (filter (\<lambda>m. \<not> tool_result m) ?sp) = ?rem" by (simp add: view_def)
      finally show ?thesis .
    qed
    ultimately have ar: "answered_views (?rem @ vs)" using answered_append vs(3) by blast
    have tw: "takeWhile (Not \<circ> isl) (map Inr ids @ ?rem @ vs) = map Inr ids"
      using rem by (induction ids) (cases "?rem @ vs"; auto)+
    have "\<not> errored_turn m \<longrightarrow> mset (takeWhile (Not \<circ> isl) (map Inr ids @ ?rem @ vs)) = mset (map (Inr \<circ> Some) (call_ids m))"
      unfolding tw using ids(2) by simp
    then show ?thesis
    proof (cases "errored_turn m \<and> po_dropErrored opts")
      case False
      assume "\<not> errored_turn m \<longrightarrow> mset (takeWhile (Not \<circ> isl) (map Inr ids @ ?rem @ vs)) = mset (map (Inr \<circ> Some) (call_ids m))"
      then show ?thesis using False ar by (simp add: answered_results del: mset_map)
    qed (use ar in simp)
  qed
  show ?case unfolding loop_turn [OF Turn(1)]
    using vs(1,2) t(2) hd oth ans by (intro exI [of _ "?out @ ?rem @ vs"]) simp
qed

lemma loop_unchanged:
  assumes "index_sound S explicit legacy" "positions_ok s" "\<not> ps_changed (repair_loop now opts explicit legacy i ms s)"
  shows "\<not> ps_changed s \<and> mset (views (repair_loop now opts explicit legacy i ms s)) = mset (views s) + mset (map view ms) \<and>
    answered_views (map view ms)"
  using assms(2,3)
proof (induction ms s i rule: turns_induct)
  case (Nil s i)
  then show ?case by (simp add: repair_loop.simps)
next
  case (Plain m ms s i)
  let ?s = "if tool_result m then drop_orphan s else push_message m s"
  have s: "positions_ok ?s"
    using Plain(3) push_message_ok [OF Plain(3), of m] positions_cong [of "drop_orphan s" s] by auto
  from Plain(2) [OF s, of "i + 1"] Plain(4) loop_plain [OF Plain(1)] have ih: "\<not> ps_changed ?s"
    "mset (views (repair_loop now opts explicit legacy i (m # ms) s)) = mset (views ?s) + mset (map view ms)"
    "answered_views (map view ms)" by auto
  from ih(1) have "\<not> tool_result m" by auto
  with ih Plain(1) show ?case by (simp add: push_message_def view_result)
next
  case (Turn m ms s i)
  let ?j = "i + 1 + length (takeWhile no_calls ms)"
  let ?sp = "takeWhile no_calls ms"
  let ?s = "repair_turn now opts explicit legacy ?j m ?sp s"
  from calls_not_result [OF Turn(1)] have m: "\<not> tool_result m" "extractToolCallsFromAssistant m \<noteq> []" by blast+
  from turn_ok [OF Turn(3) assms(1) m(1) refl refl, of now opts ?j ?sp] have "positions_ok ?s" by blast
  from Turn(2) [OF this, of ?j] Turn(4) loop_turn [OF Turn(1)] have ih: "\<not> ps_changed ?s"
    "mset (views (repair_loop now opts explicit legacy i (m # ms) s)) =
       mset (views ?s) + mset (map view (dropWhile no_calls ms))"
    "answered_views (map view (dropWhile no_calls ms))" by auto
  from turn_unchanged [OF Turn(3) m(1) refl m(2) refl ih(1)] have t: "\<not> ps_changed s"
    "mset (views ?s) = mset (views s) + mset (map view (m # ?sp))"
    "\<not> errored_turn m \<Longrightarrow> mset (map view ?sp) = mset (map (Inr \<circ> Some) (call_ids m))"
    by (auto simp: call_ids_def comp_assoc)
  have split: "map view ms = map view ?sp @ map view (dropWhile no_calls ms)"
    by (metis map_append takeWhile_dropWhile_id)
  have "answered_views (map view ms)"
    unfolding split by (rule answered_append [OF answered_no_calls [OF takeWhile_no_calls] ih(3) hd_dropWhile_view])
  moreover have "mset (takeWhile (Not \<circ> isl) (map view ms)) = mset (map (Inr \<circ> Some) (call_ids m))" if "\<not> errored_turn m"
  proof -
    from t(3) [OF that] have "set (map view ?sp) = set (map (Inr \<circ> Some) (call_ids m))" by (metis set_mset_mset)
    then have "\<forall>v \<in> set (map view ?sp). (Not \<circ> isl) v" by auto
    then have "takeWhile (Not \<circ> isl) (map view ms) = map view ?sp @ takeWhile (Not \<circ> isl) (map view (dropWhile no_calls ms))"
      unfolding split by (intro takeWhile_append2) blast
    moreover have "takeWhile (Not \<circ> isl) (map view (dropWhile no_calls ms)) = []"
      by (rule takeWhile_isl_hd [OF hd_dropWhile_view])
    ultimately show ?thesis using t(3) [OF that] by simp
  qed
  moreover have "mset (map view ms) = mset (map view ?sp) + mset (map view (dropWhile no_calls ms))"
    unfolding split by simp
  moreover have "view m = Inl m" by (rule view_result(2) [OF m(1)])
  ultimately show ?case using t(1,2) ih(2) by simp
qed

section \<open>The repair\<close>

lemma positions_ok_empty: "positions_ok empty_pairing"
  by (simp add: positions_ok_def empty_pairing_def)

lemma repair_cases:
  fixes opts :: pairing_options
  obtains explicit legacy s where
    "index_sound (set messages) explicit legacy" "s = repair_loop now opts explicit legacy 0 messages empty_pairing"
    "pr_messages (repairToolUseResultPairing now opts messages) = (if ps_changed s \<or> ps_moved s then ps_out s else messages)"
proof -
  obtain e l where i: "index_tool_results messages = (e, l)" by (metis surj_pair)
  show thesis
    by (rule that [OF index_results_sound [OF i] refl]) (simp add: repairToolUseResultPairing_def i Let_def)
qed

lemma filter_same_length: "(\<And>x. P x \<Longrightarrow> Q x) \<Longrightarrow> length (filter P xs) = length (filter Q xs) \<Longrightarrow> filter P xs = filter Q xs"
proof (induction xs)
  case (Cons x xs)
  have "length (filter P xs) \<le> length (filter Q xs)"
    using Cons(2) by (induction xs) auto
  with Cons show ?case by (cases "P x"; cases "Q x") auto
qed simp

lemma kept_conversation:
  "filter (\<lambda>m. \<not> has_role ''toolResult'' m) (sanitizeToolUseResultPairing now opts messages) =
    filter (conversation opts) messages"
proof -
  obtain e l s where r: "index_sound (set messages) e l" "s = repair_loop now opts e l 0 messages empty_pairing"
    "pr_messages (repairToolUseResultPairing now opts messages) = (if ps_changed s \<or> ps_moved s then ps_out s else messages)"
    by (rule repair_cases)
  from loop_ok [OF r(1) positions_ok_empty, of now opts 0 messages]
  have kept: "others (views s) = filter (conversation opts) messages"
    unfolding r(2) by (auto simp: empty_pairing_def)
  have "filter (conversation opts) messages = filter (\<lambda>m. \<not> tool_result m) messages" if "\<not> ps_changed s"
  proof (rule filter_same_length)
    have "mset (others (views s)) = mset (others (map view messages))"
      using loop_unchanged [OF r(1) positions_ok_empty that [unfolded r(2)]] unfolding r(2)
      by (simp add: others_def empty_pairing_def del: others_simps)
    then have "length (others (views s)) = length (others (map view messages))" by (rule mset_eq_length)
    then show "length (filter (conversation opts) messages) = length (filter (\<lambda>m. \<not> tool_result m) messages)"
      unfolding kept by simp
  qed (simp add: conversation_def)
  with kept show ?thesis by (simp add: sanitizeToolUseResultPairing_def r(3))
qed

text \<open>C22: The repair keeps every message that is not a tool result, unchanged
  and in its order, except that it drops the errored turns with calls when it is told to; else it
  only moves, adds and removes tool results.\<close>

theorem repair_keeps_conversation:
  "filter (\<lambda>m. \<not> has_role ''toolResult'' m) (sanitizeToolUseResultPairing now opts messages) =
    filter (conversation opts) messages"
  by (rule kept_conversation)

definition demo_messages :: "js_value list" where
  "demo_messages =
    [JObj [(''role'', JStr ''user''), (''content'', JStr ''hi'')],
     JObj [(''role'', JStr ''toolResult''), (''toolCallId'', JStr ''z''), (''content'', JArr [])],
     JObj [(''role'', JStr ''assistant''),
           (''content'', JArr [JObj [(''type'', JStr ''toolCall''), (''id'', JStr ''a''), (''name'', JStr ''read'')],
                               JObj [(''type'', JStr ''toolCall''), (''id'', JStr ''b''), (''name'', JStr ''exec'')]])],
     JObj [(''role'', JStr ''user''), (''content'', JStr ''still there?'')],
     JObj [(''role'', JStr ''toolResult''), (''toolCallId'', JStr ''b''), (''toolName'', JStr ''exec''), (''content'', JArr [])]]"

lemma answered_calls:
  assumes "distinct (transcript_call_ids messages)" "\<forall>i \<in> set (transcript_call_ids messages). js_trim i = i"
  shows "answered (sanitizeToolUseResultPairing now opts messages)"
proof -
  obtain e l s where r: "index_sound (set messages) e l" "s = repair_loop now opts e l 0 messages empty_pairing"
    "pr_messages (repairToolUseResultPairing now opts messages) = (if ps_changed s \<or> ps_moved s then ps_out s else messages)"
    by (rule repair_cases)
  have "fresh_calls messages (ps_seen empty_pairing)" using assms by (simp add: fresh_calls_def empty_pairing_def)
  then have "answered_views (views s)"
    using loop_ok [OF r(1) positions_ok_empty, of now opts 0 messages] unfolding r(2) by (auto simp: empty_pairing_def)
  moreover have "answered_views (map view messages)" if "\<not> ps_changed s"
    using loop_unchanged [OF r(1) positions_ok_empty that [unfolded r(2)]] by blast
  ultimately show ?thesis by (simp add: sanitizeToolUseResultPairing_def r(3) answered_iff_views)
qed

text \<open>C5: If the calls of a transcript have ids that no two calls share and that
  carry no surrounding blanks, then in the repaired transcript every assistant turn with tool calls
  that ended normally is followed directly by the results of exactly its calls, one for each.\<close>

theorem repair_answers_calls:
  assumes "distinct (transcript_call_ids messages)" "\<forall>i \<in> set (transcript_call_ids messages). js_trim i = i"
  shows "answered (sanitizeToolUseResultPairing now opts messages)"
  using assms by (rule answered_calls)

theorem repair_answers_calls_witness:
  "answered (sanitizeToolUseResultPairing 7 \<lparr>po_dropErrored = False, po_missingText = None\<rparr> demo_messages)"
  by (rule repair_answers_calls)
     (simp_all add: demo_messages_def transcript_call_ids_def call_ids_def assistantHasToolCalls_def has_role_def is_object_def
        extractToolCallsFromAssistant_def field_def TOOL_CALL_TYPES_def js_trim_def is_ws_def)

text \<open>The ids of the tool results of a transcript.\<close>

definition result_ids :: "js_value list \<Rightarrow> string list" where
  "result_ids ms = List.map_filter extractToolResultId (filter tool_result ms)"

definition view_id :: "js_value + string option \<Rightarrow> string option" where
  "view_id v = (case v of Inr (Some i) \<Rightarrow> Some i | _ \<Rightarrow> None)"

lemma view_id_Some: "view_id v = Some i \<longleftrightarrow> v = Inr (Some i)"
  by (auto simp: view_id_def split: sum.split option.split)

lemma positions_ok_distinct:
  assumes "positions_ok s"
  shows "distinct (List.map_filter view_id (views s))"
proof -
  have uniq: "p = q" if "p < length (views s)" "q < length (views s)" "views s ! p = Inr (Some i)" "views s ! q = Inr (Some i)" for p q i
  proof -
    have "map_of (ps_positions s) i = Some p" "map_of (ps_positions s) i = Some q"
      using that assms by (simp_all add: positions_ok_def)
    then show ?thesis by simp
  qed
  have "distinct (List.map_filter f vs)"
    if "\<And>p q i. p < length vs \<Longrightarrow> q < length vs \<Longrightarrow> f (vs ! p) = Some i \<Longrightarrow> f (vs ! q) = Some i \<Longrightarrow> p = q"
    for f :: "'a \<Rightarrow> string option" and vs :: "'a list"
    using that
  proof (induction vs)
    case (Cons v vs)
    have "f (vs ! p) = Some i \<Longrightarrow> f v = Some i \<Longrightarrow> p < length vs \<Longrightarrow> False" for p i
      using Cons.prems [of "Suc p" 0 i] by simp
    moreover have "distinct (List.map_filter f vs)"
      using Cons.IH Cons.prems [of "Suc _" "Suc _"] by simp
    ultimately show ?case
      by (cases "f v") (auto simp: map_filter_simps, auto simp: List.map_filter_def in_set_conv_nth, blast)
  qed (simp add: map_filter_simps)
  from this [of "views s" view_id] show ?thesis unfolding view_id_Some using uniq by blast
qed

lemma result_ids_views:
  "result_ids ms = List.map_filter view_id (map view ms)"
  by (induction ms) (auto simp: result_ids_def map_filter_simps view_def view_id_def split: option.split)

lemma unique_results: "distinct (result_ids (sanitizeToolUseResultPairing now opts messages))"
proof -
  obtain e l s where r: "index_sound (set messages) e l" "s = repair_loop now opts e l 0 messages empty_pairing"
    "pr_messages (repairToolUseResultPairing now opts messages) = (if ps_changed s \<or> ps_moved s then ps_out s else messages)"
    by (rule repair_cases)
  have "positions_ok s" using loop_ok [OF r(1) positions_ok_empty, of now opts 0 messages] unfolding r(2) by blast
  then have d: "distinct (result_ids (ps_out s))" unfolding result_ids_views by (rule positions_ok_distinct)
  have "distinct (result_ids messages)" if "\<not> ps_changed s"
  proof -
    have "mset (map view messages) = mset (views s)"
      using loop_unchanged [OF r(1) positions_ok_empty that [unfolded r(2)]] unfolding r(2) by (simp add: empty_pairing_def)
    then have "mset (result_ids messages) = mset (result_ids (ps_out s))"
      unfolding result_ids_views List.map_filter_def mset_map mset_filter by simp
    with d show ?thesis by (metis mset_eq_imp_distinct_iff)
  qed
  with d show ?thesis by (simp add: sanitizeToolUseResultPairing_def r(3))
qed

text \<open>No two tool results of a repaired transcript carry the same id, whatever
  the transcript was.\<close>

theorem repair_results_unique: "distinct (result_ids (sanitizeToolUseResultPairing now opts messages))"
  by (rule unique_results)

section \<open>No result is invented\<close>

text \<open>A tool result that comes from one of the given messages with its content as it was, or one
  that says that the result of a call is missing.\<close>

definition genuine :: "rat \<Rightarrow> string option \<Rightarrow> js_value set \<Rightarrow> js_value \<Rightarrow> bool" where
  "genuine now t S m \<longleftrightarrow> (\<exists>m0 \<in> S. has_role ''toolResult'' m0 \<and> field m ''content'' = field m0 ''content'') \<or>
     (\<exists>i n. m = makeMissingToolResult now i n t)"

definition genuine_state :: "rat \<Rightarrow> string option \<Rightarrow> js_value set \<Rightarrow> pairing_state \<Rightarrow> bool" where
  "genuine_state now t S s \<longleftrightarrow> (\<forall>m \<in> set (ps_out s). tool_result m \<longrightarrow> genuine now t S m)"

definition genuine_table :: "rat \<Rightarrow> string option \<Rightarrow> js_value set \<Rightarrow> (string, js_value) js_map \<Rightarrow> bool" where
  "genuine_table now t S r \<longleftrightarrow> (\<forall>i m. map_of r i = Some m \<longrightarrow> genuine now t S m)"

lemma content_kept:
  assumes "tool_result m"
  shows "field (fst (normalizeToolResultName m f)) ''content'' = field m ''content''"
    "field (fst (normalizeLegacyToolResultId m cs)) ''content'' = field m ''content''"
  using normalize_name_cases [of m f] normalize_legacy_cases [of m cs] result_fields [OF assms]
    has_role_object [OF assms] has_role_object [OF result_fields(2) [OF assms]] by auto

lemma genuine_message: "m \<in> S \<Longrightarrow> tool_result m \<Longrightarrow> genuine now t S (fst (normalizeToolResultName m f))"
  "m \<in> S \<Longrightarrow> tool_result m \<Longrightarrow> genuine now t S (fst (normalizeToolResultName (fst (normalizeLegacyToolResultId m cs)) f))"
  using content_kept normalize_legacy_result unfolding genuine_def by metis+

lemma genuine_missing: "genuine now t S (makeMissingToolResult now i n t)"
  by (auto simp: genuine_def)

lemma genuine_push: "genuine_state now t S s \<Longrightarrow> genuine now t S m \<Longrightarrow> genuine_state now t S (pushToolResult m s)"
  using set_update_subset_insert
  by (fastforce simp: genuine_state_def pushToolResult_def split: option.split)

lemma genuine_push_message: "genuine_state now t S s \<Longrightarrow> \<not> tool_result m \<Longrightarrow> genuine_state now t S (push_message m s)"
  by (auto simp: genuine_state_def push_message_def)

lemma genuine_cong: "ps_out s = ps_out u \<Longrightarrow> genuine_state now t S s = genuine_state now t S u"
  by (simp add: genuine_state_def)

lemma genuine_set: "genuine_table now t S r \<Longrightarrow> genuine now t S m \<Longrightarrow> genuine_table now t S (map_set i m r)"
  by (auto simp: genuine_table_def split: if_splits)

lemma genuine_span:
  assumes "set ms \<subseteq> S" "genuine_state now t S s" "genuine_table now t S r"
    "fold (span_step cs) ms (r, rem, s) = (r', rem', s')"
  shows "genuine_state now t S s' \<and> genuine_table now t S r'"
  using assms
proof (induction ms arbitrary: r rem s)
  case (Cons m ms)
  obtain r1 rem1 s1 where st: "span_step cs m (r, rem, s) = (r1, rem1, s1)" by (metis prod_cases3)
  have "genuine_state now t S s1 \<and> genuine_table now t S r1"
  proof (cases "tool_result m")
    case True
    with Cons.prems(1) genuine_message(2) have g: "genuine now t S (fst (normalizeToolResultName (fst (normalizeLegacyToolResultId m cs)) f))" for f
      by simp
    show ?thesis
      using st True genuine_push [OF Cons.prems(2) g] genuine_set [OF Cons.prems(3) g] Cons.prems(2,3)
        genuine_cong [of "drop_orphan s" s] genuine_cong [of "drop_duplicate _" s] genuine_cong [of "s\<lparr>ps_changed := _\<rparr>" s]
      by (auto simp: span_step_def Let_def case_prod_beta split: option.splits if_splits)
  qed (use st Cons.prems in \<open>simp add: span_step_def\<close>)
  with Cons.IH [of s1 r1 rem1] Cons.prems st show ?case by simp
qed simp

lemma genuine_later:
  assumes "index_sound S explicit legacy"
  shows "genuine_table now t S (collectLaterMatchingToolResults j cs names seen explicit legacy)"
proof -
  have explicit: "genuine now t S (fst (normalizeToolResultName m f))"
    if "map_of explicit i = Some l" "find (\<lambda>(m, idx). j \<le> idx) l = Some (m, k)" for m k i l f
    using find_Some_mem [OF that(2)] index_soundD(1) [OF assms that(1)] genuine_message(1) by blast
  have legacy: "genuine now t S (fst (normalizeToolResultName (fst (normalizeLegacyToolResultId m cs)) f))"
    if "find P legacy = Some (m, k)" for P m k f
    using find_Some_mem [OF that] index_soundD(2) [OF assms] genuine_message(2) by blast
  have keep: "genuine_table now t S (fold f xs r)"
    if "genuine_table now t S r" "\<And>c r. genuine_table now t S r \<Longrightarrow> genuine_table now t S (f c r)"
    for f :: "tool_call \<Rightarrow> (string, js_value) js_map \<Rightarrow> (string, js_value) js_map" and xs r
    using that by (induction xs arbitrary: r) auto
  show ?thesis unfolding collectLaterMatchingToolResults_def
    by (rule keep) (auto simp: genuine_table_def [of _ _ _ "[]"] Let_def explicit legacy split: option.split intro!: genuine_set)
qed

lemma genuine_calls:
  assumes "genuine_state now t S s" "genuine_table now t S r" "genuine_table now t S later" "distinct (map_keys later)"
    "fold (push_call_result now t r) cs (later, s) = (later', s')"
  shows "genuine_state now t S s'"
  using assms
proof (induction cs arbitrary: later s)
  case (Cons c cs)
  obtain l1 s1 where st: "push_call_result now t r c (later, s) = (l1, s1)" by (cases "push_call_result now t r c (later, s)")
  have "genuine_state now t S s1 \<and> genuine_table now t S l1 \<and> distinct (map_keys l1)"
    using st Cons.prems(1-4) genuine_missing genuine_cong [of "s\<lparr>ps_moved := True, ps_changed := True\<rparr>" s]
      genuine_cong [of "s\<lparr>ps_added := _, ps_changed := True\<rparr>" s] js_store.wf_del
    by (auto simp: push_call_result_def Let_def genuine_table_def split: option.splits if_splits intro!: genuine_push)
  with Cons.IH [of s1 l1] Cons.prems st show ?case by simp
qed simp

lemma genuine_messages: "genuine_state now t S s \<Longrightarrow> \<forall>m \<in> set ms. \<not> tool_result m \<Longrightarrow> genuine_state now t S (fold push_message ms s)"
  by (induction ms arbitrary: s) (simp_all add: genuine_push_message)

lemma genuine_turn:
  assumes "index_sound S explicit legacy" "set sp \<subseteq> S" "\<not> tool_result msg" "genuine_state now (po_missingText opts) S s" "positions_ok s"
  shows "genuine_state now (po_missingText opts) S (repair_turn now opts explicit legacy j msg sp s)"
proof -
  let ?cs = "extractToolCallsFromAssistant msg" and ?G = "genuine_state now (po_missingText opts) S"
  obtain r rem s1 where sp: "fold (span_step ?cs) sp ([], [], s) = (r, rem, s1)" by (metis prod_cases3)
  have nil: "genuine_table now (po_missingText opts) S []" by (simp add: genuine_table_def)
  from genuine_span [OF assms(2,4) nil sp] have one: "?G s1" "genuine_table now (po_missingText opts) S r" by auto
  have rem: "\<forall>m \<in> set rem. \<not> tool_result m"
    using span_ok [OF assms(5) results_ok_Nil sp] by simp
  define later where "later = collectLaterMatchingToolResults j ?cs (tool_names_by_id ?cs)"
  have later: "genuine_table now (po_missingText opts) S (later seen explicit legacy)" "distinct (map_keys (later seen explicit legacy))" for seen
    using genuine_later [OF assms(1)] later_results_ok [OF assms(1)] by (simp_all add: later_def results_ok_def)
  have msg: "?G (push_message msg s1)" "?G ((push_message msg s1)\<lparr>ps_moved := True, ps_changed := True\<rparr>)" "?G (s1\<lparr>ps_changed := True\<rparr>)"
    using genuine_push_message [OF one(1) assms(3)] one(1) by (simp_all add: genuine_state_def)
  have err: "?G (fold (\<lambda>call s. case map_of r (tc_id call) of Some result \<Rightarrow> pushToolResult result s | None \<Rightarrow> s) cs u)" if "?G u" for cs u
    using that one(2) by (induction cs arbitrary: u) (auto simp: genuine_table_def genuine_push split: option.split)
  have calls: "?G (snd (fold (push_call_result now (po_missingText opts) r) ?cs (later seen explicit legacy, u)))" if "?G u" for seen u
    using genuine_calls [OF that one(2) later] by (metis prod.collapse)
  show ?thesis
    unfolding repair_turn_def Let_def sp prod.case
    using one msg err calls by (auto simp: case_prod_beta simp flip: later_def intro!: genuine_messages [OF _ rem])
qed

lemma genuine_loop:
  assumes "index_sound S explicit legacy" "set ms \<subseteq> S" "genuine_state now (po_missingText opts) S s" "positions_ok s"
  shows "genuine_state now (po_missingText opts) S (repair_loop now opts explicit legacy i ms s)"
  using assms(2-)
proof (induction ms s i rule: turns_induct)
  case (Plain m ms s i)
  let ?s = "if tool_result m then drop_orphan s else push_message m s"
  have "positions_ok ?s" "genuine_state now (po_missingText opts) S ?s"
    using Plain(4,5) push_message_ok [OF Plain(5), of m] positions_cong [of "drop_orphan s" s]
      genuine_cong [of "drop_orphan s" s] genuine_push_message by auto
  with Plain(2,3) loop_plain [OF Plain(1)] show ?case by simp
next
  case (Turn m ms s i)
  have m: "\<not> tool_result m" using calls_not_result [OF Turn(1)] by blast
  have sp: "set (takeWhile no_calls ms) \<subseteq> S" "set (dropWhile no_calls ms) \<subseteq> S"
    using Turn(3) by (auto dest: set_takeWhileD set_dropWhileD)
  have "positions_ok (repair_turn now opts explicit legacy j m (takeWhile no_calls ms) s)" for j
    using turn_ok [OF Turn(5) assms(1) m refl refl] by blast
  with Turn(2) sp genuine_turn [OF assms(1) sp(1) m Turn(4,5)] loop_turn [OF Turn(1)] show ?case by simp
qed (simp add: repair_loop.simps)

text \<open>Every tool result of a repaired transcript has the content of a tool
  result that was there, unaltered, or is the error result that names itself as missing; the
  repair never makes up output of a tool.\<close>

theorem repair_invents_nothing:
  assumes "m \<in> set (sanitizeToolUseResultPairing now opts messages)" "has_role ''toolResult'' m"
  shows "genuine now (po_missingText opts) (set messages) m"
proof -
  obtain e l s where r: "index_sound (set messages) e l" "s = repair_loop now opts e l 0 messages empty_pairing"
    "pr_messages (repairToolUseResultPairing now opts messages) = (if ps_changed s \<or> ps_moved s then ps_out s else messages)"
    by (rule repair_cases)
  have "genuine_state now (po_missingText opts) (set messages) empty_pairing" by (simp add: genuine_state_def empty_pairing_def)
  from genuine_loop [OF r(1) subset_refl this positions_ok_empty, of 0]
  have "m \<in> set (ps_out s) \<Longrightarrow> ?thesis" using assms(2) unfolding r(2) genuine_state_def by blast
  moreover have "m \<in> set messages \<Longrightarrow> ?thesis" using assms(2) unfolding genuine_def by blast
  ultimately show ?thesis using assms(1) by (auto simp: sanitizeToolUseResultPairing_def r(3) split: if_splits)
qed

text \<open>The demonstration transcript: the result of the second call was displaced by a message of
  the user, the first call has none, and a result at the start answers no call.\<close>

definition demo_repaired :: "js_value list" where
  "demo_repaired = [demo_messages ! 0, demo_messages ! 2, makeMissingToolResult 7 ''a'' (Some ''read'') None,
     demo_messages ! 4, demo_messages ! 3]"

definition demo_options :: pairing_options where
  "demo_options = \<lparr>po_dropErrored = False, po_missingText = None\<rparr>"

lemma demo_repair: "sanitizeToolUseResultPairing 7 demo_options demo_messages = demo_repaired"
  by code_simp

theorem repair_invents_nothing_witness:
  "genuine 7 None (set demo_messages) (makeMissingToolResult 7 ''a'' (Some ''read'') None)"
proof -
  have "makeMissingToolResult 7 ''a'' (Some ''read'') None \<in> set (sanitizeToolUseResultPairing 7 demo_options demo_messages)"
    by (simp add: demo_repair demo_repaired_def)
  from repair_invents_nothing [OF this missing_result(1)] show ?thesis by (simp add: demo_options_def)
qed

text \<open>A call id that two turns share: the second call gets no result in the transcript, although
  the report counts one as added.\<close>

definition repeated_id :: "js_value list" where
  "repeated_id = (let turn = JObj [(''role'', JStr ''assistant''),
       (''content'', JArr [JObj [(''type'', JStr ''toolCall''), (''id'', JStr ''a''), (''name'', JStr ''read'')]])]
     in [turn, JObj [(''role'', JStr ''toolResult''), (''toolCallId'', JStr ''a''), (''toolName'', JStr ''read'')], turn])"

lemma repeated_id_unanswered:
  "pr_messages (repairToolUseResultPairing 7 demo_options repeated_id) = repeated_id"
  "length (pr_added (repairToolUseResultPairing 7 demo_options repeated_id)) = 1"
  "\<not> answered repeated_id"
  by code_simp+

text \<open>A turn that was aborted, with the result of its call behind a message of the user: the
  result is not moved to the turn.\<close>

definition aborted_displaced :: "js_value list" where
  "aborted_displaced = [JObj [(''role'', JStr ''assistant''), (''stopReason'', JStr ''aborted''),
       (''content'', JArr [JObj [(''type'', JStr ''toolCall''), (''id'', JStr ''a''), (''name'', JStr ''read'')]])],
     JObj [(''role'', JStr ''user''), (''content'', JStr ''stop'')],
     JObj [(''role'', JStr ''toolResult''), (''toolCallId'', JStr ''a''), (''toolName'', JStr ''read'')]]"

lemma aborted_displaced_stays:
  "pr_messages (repairToolUseResultPairing 7 demo_options aborted_displaced) = aborted_displaced"
  "ps_out (repair_loop 7 demo_options (fst (index_tool_results aborted_displaced)) (snd (index_tool_results aborted_displaced))
     0 aborted_displaced empty_pairing) = [aborted_displaced ! 0, aborted_displaced ! 2, aborted_displaced ! 1]"
  by code_simp+

end
