(* ===== verification/ToolCallInputs.thy ===== *)
theory ToolCallInputs
  imports TranscriptRepair
begin

text \<open>
  The repair of the tool calls themselves, \<^verbatim>\<open>repairToolCallInputs\<close> of
  \<^verbatim>\<open>src/src/agents/session-transcript-repair.ts\<close>: calls that a stream left incomplete, that
  name no allowed tool or carry no id are dropped from their turn, and a turn whose thinking a
  provider signed is kept as it is or dropped as a whole.
\<close>

section \<open>Blocks\<close>

definition isRawToolCallBlock :: "js_value \<Rightarrow> bool" where
  "isRawToolCallBlock block \<longleftrightarrow> is_object block \<and>
     (case field block ''type'' of JStr t \<Rightarrow> t \<in> set RAW_TOOL_CALL_BLOCK_TYPES | _ \<Rightarrow> False)"

definition hasToolCallInput :: "js_value \<Rightarrow> bool" where
  "hasToolCallInput block \<longleftrightarrow>
     (has_field block ''input'' \<and> field block ''input'' \<notin> {JUndef, JNull}) \<or>
     (has_field block ''arguments'' \<and> field block ''arguments'' \<notin> {JUndef, JNull})"

definition hasNonEmptyString :: "js_value \<Rightarrow> bool" where
  "hasNonEmptyString v \<longleftrightarrow> normalizeOptionalString (string_of v) \<noteq> None"

definition hasToolCallId :: "js_value \<Rightarrow> bool" where
  "hasToolCallId block \<longleftrightarrow>
     hasNonEmptyString (field block ''id'') \<or> hasNonEmptyString (field block ''call_id'') \<or>
     hasNonEmptyString (field block ''toolCallId'') \<or> hasNonEmptyString (field block ''toolUseId'') \<or>
     hasNonEmptyString (field block ''tool_call_id'') \<or> hasNonEmptyString (field block ''tool_use_id'')"

definition hasPartialJson :: "js_value \<Rightarrow> bool" where
  "hasPartialJson block \<longleftrightarrow> string_of (field block ''partialJson'') \<noteq> None"

text \<open>\<^verbatim>\<open>indexOf\<close>, with \<open>None\<close> for \<open>-1\<close>.\<close>

fun index_of :: "char \<Rightarrow> string \<Rightarrow> nat option" where
  "index_of c [] = None"
| "index_of c (d # s) = (if d = c then Some 0 else map_option Suc (index_of c s))"

definition isFinalizedOpenAIResponsesToolCall :: "js_value \<Rightarrow> js_value \<Rightarrow> bool" where
  "isFinalizedOpenAIResponsesToolCall message block =
     (case (string_of (field block ''partialJson''), string_of (field block ''id'')) of
        (Some partialJson, Some i) \<Rightarrow>
          if field message ''role'' \<noteq> JStr ''assistant'' \<or> field message ''stopReason'' \<noteq> JStr ''toolUse'' \<or>
             has_field block ''input'' \<or> \<not> is_object (field block ''arguments'') \<or> is_array (field block ''arguments'') \<or>
             (\<not> isCompleteJsonObject partialJson \<and>
              (js_trim partialJson \<noteq> [] \<or> field block ''arguments'' \<noteq> JObj []))
          then False
          else (case index_of CHR 0x7C i of
              Some separator \<Rightarrow> separator > 0 \<and> separator < length i - 1
            | None \<Rightarrow> False)
      | _ \<Rightarrow> False)"

definition sanitizeToolCallBlock :: "js_value \<Rightarrow> js_value \<times> bool" where
  "sanitizeToolCallBlock block = (case field block ''name'' of
     JStr rawName \<Rightarrow>
       if js_trim rawName \<noteq> [] \<and> rawName \<noteq> js_trim rawName
       then (with_field block ''name'' (JStr (js_trim rawName)), True) else (block, False)
   | _ \<Rightarrow> (block, False))"

definition countRawToolCallBlocks :: "js_value list \<Rightarrow> nat" where
  "countRawToolCallBlocks content = fold (\<lambda>block n. if isRawToolCallBlock block then n + 1 else n) content 0"

fun replay_safe_blocks :: "string list option \<Rightarrow> js_value list \<Rightarrow> bool \<Rightarrow> string list \<Rightarrow> bool" where
  "replay_safe_blocks allowed [] sawToolCall seen = sawToolCall"
| "replay_safe_blocks allowed (block # rest) sawToolCall seen =
     (if \<not> isRawToolCallBlock block then replay_safe_blocks allowed rest sawToolCall seen
      else
        let toolCallId = (case field block ''id'' of JStr i \<Rightarrow> js_trim i | _ \<Rightarrow> [])
        in if \<not> hasToolCallInput block \<or> hasPartialJson block \<or> toolCallId = [] \<or> toolCallId \<in> set seen \<or>
              \<not> isAllowedToolCallName (field block ''name'') allowed
           then False
           else if snd (sanitizeToolCallBlock block) then False
           else replay_safe_blocks allowed rest True (set_add toolCallId seen))"

definition isReplaySafeThinkingAssistantTurn :: "js_value list \<Rightarrow> string list option \<Rightarrow> bool" where
  "isReplaySafeThinkingAssistantTurn content allowed = replay_safe_blocks allowed content False []"

definition hasSessionsSpawnAttachmentToolCall :: "js_value list \<Rightarrow> bool" where
  "hasSessionsSpawnAttachmentToolCall content = list_ex (\<lambda>block.
     isRawToolCallBlock block \<and> field block ''name'' = JStr ''sessions_spawn'' \<and>
     elements (field (field block ''input'') ''attachments'') \<noteq> []) content"

section \<open>The results that follow a turn\<close>

text \<open>The reverse pass that gives every message the index of the next turn with calls.\<close>

definition buildNextToolAssistantAfterIndex :: "js_value list \<Rightarrow> nat list" where
  "buildNextToolAssistantAfterIndex messages = fst (foldr (\<lambda>(i, message) (next, nextJ).
     (nextJ # next, if assistantHasToolCalls message then i else nextJ))
     (enumerate 0 messages) ([], length messages))"

record following_results =
  fr_ids :: "string list"
  fr_displaced :: bool

fun scan_following :: "tool_call list \<Rightarrow> js_value list \<Rightarrow> string list \<Rightarrow> bool \<Rightarrow> bool \<Rightarrow> following_results" where
  "scan_following calls [] ids sawNonToolResult displaced = \<lparr>fr_ids = ids, fr_displaced = displaced\<rparr>"
| "scan_following calls (message # rest) ids sawNonToolResult displaced =
     (if \<not> is_object message then scan_following calls rest ids True displaced
      else if assistantHasToolCalls message then \<lparr>fr_ids = ids, fr_displaced = displaced\<rparr>
      else if has_role ''toolResult'' message then
        (let resultIds = extractToolResultIds (fst (normalizeLegacyToolResultId message calls))
         in scan_following calls rest (fold set_add resultIds ids) sawNonToolResult
              (displaced \<or> (length resultIds > 0 \<and> sawNonToolResult)))
      else scan_following calls rest ids True displaced)"

definition collectFollowingToolResults :: "js_value list \<Rightarrow> nat \<Rightarrow> nat option \<Rightarrow> following_results" where
  "collectFollowingToolResults messages index endExclusive =
     (let currentToolCalls = (if index < length messages \<and> has_role ''assistant'' (messages ! index)
                              then extractToolCallsFromAssistant (messages ! index) else []);
          stopAt = (case endExclusive of Some e \<Rightarrow> min (max e (index + 1)) (length messages) | None \<Rightarrow> length messages)
      in scan_following currentToolCalls (take (stopAt - (index + 1)) (drop (index + 1) messages)) [] False False)"

section \<open>The repair of calls\<close>

record input_options =
  io_allowedToolNames :: "string list option"
  io_allowThinkingReplay :: bool

record input_state =
  is_out :: "js_value list"
  is_droppedToolCalls :: nat
  is_droppedAssistantMessages :: nat
  is_changed :: bool
  is_preservedIds :: "string list"
  is_priorIds :: "string list"

text \<open>One block of a turn: \<open>None\<close> if it is dropped, else the block kept and whether it changed.\<close>

definition repair_block :: "string list option \<Rightarrow> js_value \<Rightarrow> js_value \<Rightarrow> (js_value \<times> bool) option" where
  "repair_block allowed msg block =
     (if \<not> isRawToolCallBlock block then Some (block, False)
      else if \<not> hasToolCallInput block \<or> \<not> hasToolCallId block \<or>
              \<not> isAllowedToolCallName (field block ''name'') allowed then None
      else if hasPartialJson block \<and> \<not> isFinalizedOpenAIResponsesToolCall msg block then None
      else
        let (workBlock, stripped) = (if hasPartialJson block then (without_field block ''partialJson'', True) else (block, False));
            (named, renamed) =
              (if normalizeLowercaseStringOrEmpty (map_option js_trim (string_of (field workBlock ''name''))) = ''sessions_spawn''
               then sanitizeToolCallBlock workBlock
               else (case field workBlock ''name'' of
                   JStr rawName \<Rightarrow>
                     if rawName \<noteq> js_trim rawName \<and> js_trim rawName \<noteq> []
                     then (with_field workBlock ''name'' (JStr (js_trim rawName)), True) else (workBlock, False)
                 | _ \<Rightarrow> (workBlock, False)))
        in Some (named, stripped \<or> renamed))"

record content_state =
  cs_next :: "js_value list"
  cs_dropped :: nat
  cs_changed :: bool

definition content_step :: "string list option \<Rightarrow> js_value \<Rightarrow> js_value \<Rightarrow> content_state \<Rightarrow> content_state" where
  "content_step allowed msg block c = (case repair_block allowed msg block of
       None \<Rightarrow> c\<lparr>cs_dropped := cs_dropped c + 1, cs_changed := True\<rparr>
     | Some (b, ch) \<Rightarrow> c\<lparr>cs_next := cs_next c @ [b], cs_changed := (cs_changed c \<or> ch)\<rparr>)"

definition repair_content :: "string list option \<Rightarrow> js_value \<Rightarrow> js_value list \<Rightarrow> content_state" where
  "repair_content allowed msg content = fold (content_step allowed msg) content
     \<lparr>cs_next = [], cs_dropped = 0, cs_changed = False\<rparr>"

definition add_prior :: "js_value \<Rightarrow> input_state \<Rightarrow> input_state" where
  "add_prior msg s = s\<lparr>is_priorIds := fold set_add (map tc_id (extractToolCallsFromAssistant msg)) (is_priorIds s)\<rparr>"

definition input_turn :: "js_value list \<Rightarrow> string list option \<Rightarrow> bool \<Rightarrow> nat list \<Rightarrow> nat \<Rightarrow> js_value \<Rightarrow> js_value list \<Rightarrow>
    input_state \<Rightarrow> input_state" where
  "input_turn messages allowed allowReplay next index msg content s =
     (if allowReplay \<and> list_ex isThinkingLikeBlock content \<and> countRawToolCallBlocks content > 0 then
        let calls = extractToolCallsFromAssistant msg;
            following = collectFollowingToolResults messages index (Some (next ! index))
        in if isReplaySafeThinkingAssistantTurn content allowed \<and>
              list_all (\<lambda>call. tc_id call \<notin> set (is_preservedIds s) \<and>
                 (\<not> hasSessionsSpawnAttachmentToolCall content \<or> tc_id call \<in> set (fr_ids following)) \<and>
                 (\<not> fr_displaced following \<or> tc_id call \<notin> set (is_priorIds s))) calls
           then (add_prior msg s)\<lparr>is_preservedIds := fold set_add (map tc_id calls) (is_preservedIds s),
                  is_changed := (is_changed s \<or> fr_displaced following), is_out := is_out s @ [msg]\<rparr>
           else s\<lparr>is_droppedToolCalls := is_droppedToolCalls s + countRawToolCallBlocks content,
                  is_droppedAssistantMessages := is_droppedAssistantMessages s + 1, is_changed := True\<rparr>
      else
        let c = repair_content allowed msg content;
            s1 = s\<lparr>is_droppedToolCalls := is_droppedToolCalls s + cs_dropped c, is_changed := (is_changed s \<or> cs_changed c)\<rparr>;
            nextMessage = with_field msg ''content'' (JArr (cs_next c))
        in if cs_dropped c > 0 then
             (if length (cs_next c) = 0
              then s1\<lparr>is_droppedAssistantMessages := is_droppedAssistantMessages s1 + 1, is_changed := True\<rparr>
              else (add_prior nextMessage s1)\<lparr>is_out := is_out s1 @ [nextMessage]\<rparr>)
           else if cs_changed c then (add_prior nextMessage s1)\<lparr>is_out := is_out s1 @ [nextMessage]\<rparr>
           else (add_prior msg s1)\<lparr>is_out := is_out s1 @ [msg]\<rparr>)"

definition input_step :: "js_value list \<Rightarrow> string list option \<Rightarrow> bool \<Rightarrow> nat list \<Rightarrow> nat \<times> js_value \<Rightarrow> input_state \<Rightarrow> input_state" where
  "input_step messages allowed allowReplay next = (\<lambda>(index, msg) s.
     if \<not> is_object msg then s\<lparr>is_out := is_out s @ [msg]\<rparr>
     else if field msg ''role'' \<noteq> JStr ''assistant'' \<or> \<not> is_array (field msg ''content'') then s\<lparr>is_out := is_out s @ [msg]\<rparr>
     else input_turn messages allowed allowReplay next index msg (elements (field msg ''content'')) s)"

record input_report =
  ir_messages :: "js_value list"
  ir_droppedToolCalls :: nat
  ir_droppedAssistantMessages :: nat

definition empty_inputs :: input_state where
  "empty_inputs = \<lparr>is_out = [], is_droppedToolCalls = 0, is_droppedAssistantMessages = 0, is_changed = False,
     is_preservedIds = [], is_priorIds = []\<rparr>"

definition repairToolCallInputs :: "input_options \<Rightarrow> js_value list \<Rightarrow> input_report" where
  "repairToolCallInputs opts messages =
     (let s = fold (input_step messages (normalizeAllowedToolNames (io_allowedToolNames opts)) (io_allowThinkingReplay opts)
                     (buildNextToolAssistantAfterIndex messages)) (enumerate 0 messages) empty_inputs
      in \<lparr>ir_messages = (if is_changed s then is_out s else messages),
          ir_droppedToolCalls = is_droppedToolCalls s, ir_droppedAssistantMessages = is_droppedAssistantMessages s\<rparr>)"

definition sanitizeToolCallInputs :: "input_options \<Rightarrow> js_value list \<Rightarrow> js_value list" where
  "sanitizeToolCallInputs opts messages = ir_messages (repairToolCallInputs opts messages)"

section \<open>The bound of the scan\<close>

lemma scan_takeWhile:
  "scan_following calls ms ids saw displaced = scan_following calls (takeWhile no_calls ms) ids saw displaced"
  by (induction calls ms ids saw displaced rule: scan_following.induct)
     (auto simp: Let_def assistantHasToolCalls_def has_role_def)

lemma index_pass:
  "foldr (\<lambda>(i, message) (next, nextJ). (nextJ # next, if assistantHasToolCalls message then i else nextJ))
     (enumerate k ms) ([], k + length ms) =
   (map (\<lambda>i. k + i + 1 + length (takeWhile no_calls (drop (i + 1) ms))) [0..<length ms],
    k + length (takeWhile no_calls ms))"
proof (induction ms arbitrary: k)
  case (Cons m ms)
  have "[0..<length (m # ms)] = 0 # map Suc [0..<length ms]"
    by (metis length_Cons map_Suc_upt upt_conv_Cons zero_less_Suc)
  then show ?case using Cons [of "Suc k"] by (simp add: comp_def)
qed simp

lemma next_assistant_index:
  "i < length ms \<Longrightarrow> buildNextToolAssistantAfterIndex ms ! i = i + 1 + length (takeWhile no_calls (drop (i + 1) ms))"
  using index_pass [of 0 ms] by (simp add: buildNextToolAssistantAfterIndex_def)

text \<open>The table of the reverse pass gives, for every message, the position of
  the next assistant turn with tool calls or the end of the transcript, and bounding the scan for
  the results of a turn by it finds exactly what the scan without a bound finds.\<close>

theorem index_table_is_exact:
  assumes "i < length messages"
  shows "(let j = buildNextToolAssistantAfterIndex messages ! i in
      i < j \<and> j \<le> length messages \<and> (\<forall>k. i < k \<and> k < j \<longrightarrow> \<not> assistantHasToolCalls (messages ! k)) \<and>
      (j < length messages \<longrightarrow> assistantHasToolCalls (messages ! j))) \<and>
    collectFollowingToolResults messages i (Some (buildNextToolAssistantAfterIndex messages ! i)) =
    collectFollowingToolResults messages i None"
proof -
  let ?rest = "drop (i + 1) messages"
  let ?t = "takeWhile no_calls ?rest"
  have j: "buildNextToolAssistantAfterIndex messages ! i = i + 1 + length ?t" by (rule next_assistant_index [OF assms])
  have le: "length ?t \<le> length messages - (i + 1)" by (metis length_drop length_takeWhile_le)
  have stop: "min (max (i + 1 + length ?t) (i + 1)) (length messages) - (i + 1) = length ?t"
    using le assms by simp
  have "take (length ?t) ?rest = ?t" by (metis takeWhile_eq_take)
  then have scan: "scan_following cs (take (length ?t) ?rest) ids a d = scan_following cs ?rest ids a d" for cs ids a d
    by (metis scan_takeWhile)
  have "\<not> assistantHasToolCalls (messages ! k)" if "i < k" "k < i + 1 + length ?t" for k
  proof -
    have "?rest ! (k - (i + 1)) \<in> set ?t"
      using that by (metis (no_types, lifting) add.commute less_diff_conv2 Suc_eq_plus1 Suc_leI nth_mem takeWhile_nth)
    then show ?thesis using that le takeWhile_no_calls [of ?rest] by auto
  qed
  moreover have "assistantHasToolCalls (messages ! (i + 1 + length ?t))" if "i + 1 + length ?t < length messages"
  proof -
    have "length ?t < length ?rest" using that by simp
    from nth_length_takeWhile [OF this] show ?thesis using that by simp
  qed
  ultimately show ?thesis
    using le assms scan by (simp add: collectFollowingToolResults_def Let_def j stop)
qed

theorem index_table_is_exact_witness:
  "(let j = buildNextToolAssistantAfterIndex demo_messages ! 2 in
      2 < j \<and> j \<le> length demo_messages \<and> (\<forall>k. 2 < k \<and> k < j \<longrightarrow> \<not> assistantHasToolCalls (demo_messages ! k)) \<and>
      (j < length demo_messages \<longrightarrow> assistantHasToolCalls (demo_messages ! j))) \<and>
    collectFollowingToolResults demo_messages 2 (Some (buildNextToolAssistantAfterIndex demo_messages ! 2)) =
    collectFollowingToolResults demo_messages 2 None"
  by (rule index_table_is_exact) (simp add: demo_messages_def)

section \<open>What a kept call is\<close>

text \<open>A block that is a tool call has an input, an id and the trimmed name of an allowed tool, and
  nothing of an unfinished stream.\<close>

definition complete_call :: "string list option \<Rightarrow> js_value \<Rightarrow> bool" where
  "complete_call allowed block \<longleftrightarrow> hasToolCallInput block \<and> hasToolCallId block \<and>
     isAllowedToolCallName (field block ''name'') allowed \<and> \<not> hasPartialJson block \<and>
     (\<exists>n. field block ''name'' = JStr n \<and> js_trim n = n)"

definition complete_calls :: "string list option \<Rightarrow> js_value list \<Rightarrow> bool" where
  "complete_calls allowed content \<longleftrightarrow> (\<forall>block \<in> set content. isRawToolCallBlock block \<longrightarrow> complete_call allowed block)"

definition assistant_content :: "js_value \<Rightarrow> js_value list" where
  "assistant_content msg = (if has_role ''assistant'' msg then elements (field msg ''content'') else [])"

lemma field_without [simp]: "field (without_field v k) k' = (if k' = k then JUndef else field v k')"
  by (cases v) (simp_all add: field_def without_field_def)

lemma has_field_updates [simp]:
  "has_field (without_field v k) k' \<longleftrightarrow> k' \<noteq> k \<and> has_field v k'"
  "is_object v \<Longrightarrow> \<not> is_array v \<Longrightarrow> has_field (with_field v k x) k' \<longleftrightarrow> k' = k \<or> has_field v k'"
  by (cases v; auto simp: has_field_def without_field_def with_field_def is_object_def is_array_def)+

lemma is_object_without [simp]: "is_object (without_field v k) = is_object v" "is_array (without_field v k) = is_array v"
  by (cases v; simp add: without_field_def is_object_def is_array_def)+

lemma raw_block_object: "isRawToolCallBlock b \<Longrightarrow> is_object b \<and> \<not> is_array b"
  by (cases b) (simp_all add: isRawToolCallBlock_def is_object_def is_array_def field_def)

lemma raw_block_updates:
  "k \<noteq> ''type'' \<Longrightarrow> isRawToolCallBlock (without_field b k) = isRawToolCallBlock b"
  "k \<noteq> ''type'' \<Longrightarrow> isRawToolCallBlock b \<Longrightarrow> isRawToolCallBlock (with_field b k x)"
  using raw_block_object [of b] by (simp_all add: isRawToolCallBlock_def)

definition same_call :: "js_value \<Rightarrow> js_value \<Rightarrow> bool" where
  "same_call b b' \<longleftrightarrow> (hasToolCallInput b' = hasToolCallInput b) \<and> (hasToolCallId b' = hasToolCallId b) \<and>
     (isRawToolCallBlock b' = isRawToolCallBlock b)"

lemma same_call_partial: "same_call b (without_field b ''partialJson'')" "\<not> hasPartialJson (without_field b ''partialJson'')"
  by (simp_all add: same_call_def hasToolCallInput_def hasToolCallId_def raw_block_updates hasPartialJson_def string_of_def)

lemma same_call_name:
  assumes "isRawToolCallBlock b"
  shows "same_call b (with_field b ''name'' x)" "hasPartialJson (with_field b ''name'' x) = hasPartialJson b"
  using raw_block_object [OF assms] assms
  by (simp_all add: same_call_def hasToolCallInput_def hasToolCallId_def raw_block_updates hasPartialJson_def)

lemma allowed_name_trim: "isAllowedToolCallName (JStr (js_trim n)) allowed = isAllowedToolCallName (JStr n) allowed"
  by (simp add: isAllowedToolCallName_def)

lemma allowed_name_string: "isAllowedToolCallName v allowed \<Longrightarrow> \<exists>n. v = JStr n \<and> js_trim n \<noteq> []"
  by (auto simp: isAllowedToolCallName_def Let_def split: js_value.splits)

text \<open>Both ways the code has of trimming a name do the same.\<close>

lemma rename_block:
  assumes "isRawToolCallBlock b" "field b ''name'' = JStr n" "js_trim n \<noteq> []"
  shows "(if P then sanitizeToolCallBlock b
     else (case field b ''name'' of
         JStr rawName \<Rightarrow> if rawName \<noteq> js_trim rawName \<and> js_trim rawName \<noteq> []
           then (with_field b ''name'' (JStr (js_trim rawName)), True) else (b, False)
       | _ \<Rightarrow> (b, False))) =
   (if n = js_trim n then (b, False) else (with_field b ''name'' (JStr (js_trim n)), True))"
  using assms by (auto simp: sanitizeToolCallBlock_def)

lemma repair_block_ok:
  assumes "repair_block allowed msg b = Some (b', changed)"
  shows "isRawToolCallBlock b' = isRawToolCallBlock b" "isRawToolCallBlock b' \<Longrightarrow> complete_call allowed b'"
    "\<not> changed \<Longrightarrow> b' = b"
proof -
  have "isRawToolCallBlock b' = isRawToolCallBlock b \<and> (isRawToolCallBlock b' \<longrightarrow> complete_call allowed b') \<and> (\<not> changed \<longrightarrow> b' = b)"
  proof (cases "isRawToolCallBlock b")
    case True
    then have ok: "hasToolCallInput b" "hasToolCallId b" "isAllowedToolCallName (field b ''name'') allowed"
      using assms by (auto simp: repair_block_def split: if_splits)
    from allowed_name_string [OF ok(3)] obtain n where n: "field b ''name'' = JStr n" "js_trim n \<noteq> []" by auto
    define w where "w = (if hasPartialJson b then without_field b ''partialJson'' else b)"
    have w: "same_call b w" "\<not> hasPartialJson w" "field w ''name'' = JStr n" "isRawToolCallBlock w"
      using same_call_partial [of b] n True by (auto simp: w_def same_call_def)
    have b': "b' = (if n = js_trim n then w else with_field w ''name'' (JStr (js_trim n)))"
      "changed \<longleftrightarrow> hasPartialJson b \<or> n \<noteq> js_trim n"
    proof -
      have "(if hasPartialJson b then (without_field b ''partialJson'', True) else (b, False)) = (w, hasPartialJson b)"
        by (simp add: w_def)
      then have "repair_block allowed msg b =
        (if hasPartialJson b \<and> \<not> isFinalizedOpenAIResponsesToolCall msg b then None
         else Some (if n = js_trim n then w else with_field w ''name'' (JStr (js_trim n)), hasPartialJson b \<or> n \<noteq> js_trim n))"
        unfolding repair_block_def using True ok by (simp add: rename_block [OF w(4,3) n(2)])
      with assms show "b' = (if n = js_trim n then w else with_field w ''name'' (JStr (js_trim n)))"
        "changed \<longleftrightarrow> hasPartialJson b \<or> n \<noteq> js_trim n" by (auto split: if_splits)
    qed
    have "complete_call allowed b'" "isRawToolCallBlock b'"
      using w ok n same_call_name [OF w(4)] raw_block_object [OF w(4)]
      by (auto simp: b'(1) complete_call_def same_call_def allowed_name_trim)
    then show ?thesis using True b' by (auto simp: w_def)
  qed (use assms in \<open>auto simp: repair_block_def\<close>)
  then show "isRawToolCallBlock b' = isRawToolCallBlock b" "isRawToolCallBlock b' \<Longrightarrow> complete_call allowed b'"
    "\<not> changed \<Longrightarrow> b' = b" by blast+
qed

lemma count_raw: "countRawToolCallBlocks content = length (filter isRawToolCallBlock content)"
proof -
  have "fold (\<lambda>block n. if isRawToolCallBlock block then n + 1 else n) content k = k + length (filter isRawToolCallBlock content)" for k
    by (induction content arbitrary: k) auto
  from this [of 0] show ?thesis by (simp add: countRawToolCallBlocks_def)
qed

lemma repair_block_None: "repair_block allowed msg b = None \<Longrightarrow> isRawToolCallBlock b"
  by (auto simp: repair_block_def split: if_splits prod.splits)

lemma content_steps_ok:
  assumes "complete_calls allowed (cs_next c)" "c' = fold (content_step allowed msg) content c"
  shows "complete_calls allowed (cs_next c') \<and>
    countRawToolCallBlocks (cs_next c') + cs_dropped c' = countRawToolCallBlocks (cs_next c) + cs_dropped c + countRawToolCallBlocks content \<and>
    (\<not> cs_changed c' \<longrightarrow> \<not> cs_changed c \<and> cs_next c' = cs_next c @ content \<and> cs_dropped c' = cs_dropped c)"
  using assms
proof (induction content arbitrary: c)
  case (Cons b content)
  let ?c = "content_step allowed msg b c"
  have one: "complete_calls allowed (cs_next ?c)"
    "countRawToolCallBlocks (cs_next ?c) + cs_dropped ?c = countRawToolCallBlocks (cs_next c) + cs_dropped c + countRawToolCallBlocks [b]"
    "\<not> cs_changed ?c \<Longrightarrow> \<not> cs_changed c \<and> cs_next ?c = cs_next c @ [b] \<and> cs_dropped ?c = cs_dropped c"
  proof (atomize (full), cases "repair_block allowed msg b")
    case None
    then show "complete_calls allowed (cs_next ?c) \<and>
      countRawToolCallBlocks (cs_next ?c) + cs_dropped ?c = countRawToolCallBlocks (cs_next c) + cs_dropped c + countRawToolCallBlocks [b] \<and>
      (\<not> cs_changed ?c \<longrightarrow> \<not> cs_changed c \<and> cs_next ?c = cs_next c @ [b] \<and> cs_dropped ?c = cs_dropped c)"
      using Cons.prems(1) repair_block_None [OF None] by (simp add: content_step_def count_raw)
  next
    case (Some p)
    then obtain b' ch where p: "repair_block allowed msg b = Some (b', ch)" by (cases p) auto
    show "complete_calls allowed (cs_next ?c) \<and>
      countRawToolCallBlocks (cs_next ?c) + cs_dropped ?c = countRawToolCallBlocks (cs_next c) + cs_dropped c + countRawToolCallBlocks [b] \<and>
      (\<not> cs_changed ?c \<longrightarrow> \<not> cs_changed c \<and> cs_next ?c = cs_next c @ [b] \<and> cs_dropped ?c = cs_dropped c)"
      using Cons.prems(1) repair_block_ok [OF p] by (auto simp: content_step_def p count_raw complete_calls_def)
  qed
  have "c' = fold (content_step allowed msg) content ?c" using Cons.prems(2) by simp
  note rest = Cons.IH [OF one(1) this]
  have "countRawToolCallBlocks (b # content) = countRawToolCallBlocks [b] + countRawToolCallBlocks content" by (simp add: count_raw)
  then show ?case using one rest by auto
qed (simp add: count_raw)

lemmas repair_content_ok = content_steps_ok [of _ "\<lparr>cs_next = [], cs_dropped = 0, cs_changed = False\<rparr>", OF _ refl,
  folded repair_content_def, simplified]

lemma replay_safe_complete:
  "replay_safe_blocks allowed content saw seen \<Longrightarrow> complete_calls allowed content"
proof (induction allowed content saw seen rule: replay_safe_blocks.induct)
  case (2 allowed block rest saw seen)
  show ?case
  proof (cases "isRawToolCallBlock block")
    case False
    with 2(1,3) show ?thesis by (simp add: complete_calls_def)
  next
    case True
    let ?i = "case field block ''id'' of JStr i \<Rightarrow> js_trim i | _ \<Rightarrow> []"
    from 2(3) True have h: "hasToolCallInput block" "\<not> hasPartialJson block" "?i \<noteq> []" "?i \<notin> set seen"
      "isAllowedToolCallName (field block ''name'') allowed" "\<not> snd (sanitizeToolCallBlock block)"
      "replay_safe_blocks allowed rest True (set_add ?i seen)"
      by (auto simp: Let_def split: if_splits)
    from allowed_name_string [OF h(5)] obtain n where n: "field block ''name'' = JStr n" "js_trim n \<noteq> []" by auto
    with h(6) have "js_trim n = n" by (auto simp: sanitizeToolCallBlock_def split: if_splits)
    moreover have "hasNonEmptyString (field block ''id'')"
      using h(3) by (cases "field block ''id''") (simp_all add: hasNonEmptyString_def string_of_def string_coerce_defs Let_def)
    then have "hasToolCallId block" by (simp add: hasToolCallId_def)
    ultimately have "complete_call allowed block" using h n by (simp add: complete_call_def)
    moreover have "complete_calls allowed rest" using 2(2) True h by simp
    ultimately show ?thesis by (simp add: complete_calls_def)
  qed
qed (simp add: complete_calls_def)

section \<open>The messages\<close>

definition raw_calls :: "js_value list \<Rightarrow> nat" where
  "raw_calls messages = (\<Sum>msg \<leftarrow> messages. countRawToolCallBlocks (assistant_content msg))"

definition assistant_turn :: "js_value \<Rightarrow> bool" where
  "assistant_turn msg \<longleftrightarrow> has_role ''assistant'' msg"

text \<open>What the treatment of one message adds to the transcript, and how it counts.\<close>

definition accounted :: "string list option \<Rightarrow> js_value list \<Rightarrow> input_state \<Rightarrow> input_state \<Rightarrow> bool" where
  "accounted allowed ms s s' \<longleftrightarrow> (\<exists>new. is_out s' = is_out s @ new \<and>
     (\<forall>m \<in> set new. complete_calls allowed (assistant_content m)) \<and>
     filter (\<lambda>m. \<not> assistant_turn m) new = filter (\<lambda>m. \<not> assistant_turn m) ms \<and>
     raw_calls new + is_droppedToolCalls s' = is_droppedToolCalls s + raw_calls ms \<and>
     length new + is_droppedAssistantMessages s' = is_droppedAssistantMessages s + length ms \<and>
     (\<not> is_changed s' \<longrightarrow> \<not> is_changed s \<and> new = ms \<and> is_droppedToolCalls s' = is_droppedToolCalls s \<and>
        is_droppedAssistantMessages s' = is_droppedAssistantMessages s))"

lemma accounted_trans:
  assumes "accounted allowed ms s s1" "accounted allowed ms' s1 s2"
  shows "accounted allowed (ms @ ms') s s2"
proof -
  from assms obtain n1 n2 where "is_out s1 = is_out s @ n1" "is_out s2 = is_out s1 @ n2"
    and "\<forall>m \<in> set n1. complete_calls allowed (assistant_content m)" "\<forall>m \<in> set n2. complete_calls allowed (assistant_content m)"
    and "filter (\<lambda>m. \<not> assistant_turn m) n1 = filter (\<lambda>m. \<not> assistant_turn m) ms"
      "filter (\<lambda>m. \<not> assistant_turn m) n2 = filter (\<lambda>m. \<not> assistant_turn m) ms'"
    and "raw_calls n1 + is_droppedToolCalls s1 = is_droppedToolCalls s + raw_calls ms"
      "raw_calls n2 + is_droppedToolCalls s2 = is_droppedToolCalls s1 + raw_calls ms'"
    and "length n1 + is_droppedAssistantMessages s1 = is_droppedAssistantMessages s + length ms"
      "length n2 + is_droppedAssistantMessages s2 = is_droppedAssistantMessages s1 + length ms'"
    and "\<not> is_changed s1 \<longrightarrow> \<not> is_changed s \<and> n1 = ms \<and> is_droppedToolCalls s1 = is_droppedToolCalls s \<and>
        is_droppedAssistantMessages s1 = is_droppedAssistantMessages s"
      "\<not> is_changed s2 \<longrightarrow> \<not> is_changed s1 \<and> n2 = ms' \<and> is_droppedToolCalls s2 = is_droppedToolCalls s1 \<and>
        is_droppedAssistantMessages s2 = is_droppedAssistantMessages s1"
    unfolding accounted_def by blast
  moreover from this have "raw_calls (n1 @ n2) + is_droppedToolCalls s2 = is_droppedToolCalls s + raw_calls (ms @ ms')"
    by (simp add: raw_calls_def)
  ultimately show ?thesis unfolding accounted_def by (intro exI [of _ "n1 @ n2"]) auto
qed

lemma accounted_keep:
  assumes "is_out s' = is_out s @ [m]" "complete_calls allowed (assistant_content m)"
    "is_droppedToolCalls s' = is_droppedToolCalls s" "is_droppedAssistantMessages s' = is_droppedAssistantMessages s"
    "is_changed s \<Longrightarrow> is_changed s'"
  shows "accounted allowed [m] s s'"
  unfolding accounted_def using assms by (intro exI [of _ "[m]"]) auto

lemma accounted_replace:
  assumes "is_out s' = is_out s @ [m']" "assistant_turn m" "assistant_turn m'" "complete_calls allowed (assistant_content m')"
    "countRawToolCallBlocks (assistant_content m') + is_droppedToolCalls s' = is_droppedToolCalls s + countRawToolCallBlocks (assistant_content m)"
    "is_droppedAssistantMessages s' = is_droppedAssistantMessages s" "is_changed s'"
  shows "accounted allowed [m] s s'"
  unfolding accounted_def using assms by (intro exI [of _ "[m']"]) (simp add: raw_calls_def)

lemma accounted_drop:
  assumes "is_out s' = is_out s" "assistant_turn m"
    "is_droppedToolCalls s' = is_droppedToolCalls s + countRawToolCallBlocks (assistant_content m)"
    "is_droppedAssistantMessages s' = is_droppedAssistantMessages s + 1" "is_changed s'"
  shows "accounted allowed [m] s s'"
  unfolding accounted_def using assms by (intro exI [of _ "[]"]) (simp add: raw_calls_def)

lemma add_prior_simps [simp]:
  "is_out (add_prior m s) = is_out s" "is_droppedToolCalls (add_prior m s) = is_droppedToolCalls s"
  "is_droppedAssistantMessages (add_prior m s) = is_droppedAssistantMessages s" "is_changed (add_prior m s) = is_changed s"
  by (simp_all add: add_prior_def)

lemma with_content:
  assumes "assistant_turn m"
  shows "assistant_turn (with_field m ''content'' (JArr xs))" "assistant_content (with_field m ''content'' (JArr xs)) = xs"
  using assms has_role_with_field [of "''assistant''" m "''content''"] has_role_object [of "''assistant''" m]
  by (simp_all add: assistant_turn_def assistant_content_def elements_def)

lemma input_turn_ok:
  assumes "assistant_turn msg" "content = assistant_content msg"
  shows "accounted allowed [msg] s (input_turn messages allowed replay next i msg content s)"
proof (cases "replay \<and> list_ex isThinkingLikeBlock content \<and> countRawToolCallBlocks content > 0")
  case True
  note signed = True
  show ?thesis
  proof (cases "isReplaySafeThinkingAssistantTurn content allowed \<and>
      list_all (\<lambda>call. tc_id call \<notin> set (is_preservedIds s) \<and>
         (\<not> hasSessionsSpawnAttachmentToolCall content \<or>
          tc_id call \<in> set (fr_ids (collectFollowingToolResults messages i (Some (next ! i))))) \<and>
         (\<not> fr_displaced (collectFollowingToolResults messages i (Some (next ! i))) \<or> tc_id call \<notin> set (is_priorIds s)))
        (extractToolCallsFromAssistant msg)")
    case True
    then have "complete_calls allowed content"
      unfolding isReplaySafeThinkingAssistantTurn_def using replay_safe_complete by blast
    with signed True show ?thesis unfolding input_turn_def Let_def
      by (intro accounted_keep) (auto simp: assms(2))
  next
    case False
    with signed show ?thesis unfolding input_turn_def Let_def
      by (intro accounted_drop) (simp_all only: if_True if_False, simp_all add: assms)
  qed
next
  case False
  let ?c = "repair_content allowed msg content"
  from repair_content_ok [of allowed msg content] have c: "complete_calls allowed (cs_next ?c)"
    "countRawToolCallBlocks (cs_next ?c) + cs_dropped ?c = countRawToolCallBlocks content"
    "\<not> cs_changed ?c \<Longrightarrow> cs_next ?c = content \<and> cs_dropped ?c = 0"
    by (simp_all add: complete_calls_def countRawToolCallBlocks_def)
  note w = with_content [OF assms(1), of "cs_next ?c"]
  consider "cs_dropped ?c > 0" "cs_next ?c = []" | "cs_dropped ?c > 0" "cs_next ?c \<noteq> []"
    | "cs_dropped ?c = 0" "cs_changed ?c" | "cs_dropped ?c = 0" "\<not> cs_changed ?c" by auto
  then show ?thesis
  proof cases
    case 1
    with False c(2) assms show ?thesis
      by (intro accounted_drop) (auto simp: input_turn_def Let_def countRawToolCallBlocks_def)
  next
    case 2
    then have "cs_changed ?c" using c(3) by auto
    with 2 False c(1,2) assms w show ?thesis
      by (intro accounted_replace [of _ _ "with_field msg ''content'' (JArr (cs_next ?c))"]) (auto simp: input_turn_def Let_def)
  next
    case 3
    with False c(1,2) assms w show ?thesis
      by (intro accounted_replace [of _ _ "with_field msg ''content'' (JArr (cs_next ?c))"]) (auto simp: input_turn_def Let_def)
  next
    case 4
    with False c assms show ?thesis
      by (intro accounted_keep) (auto simp: input_turn_def Let_def)
  qed
qed

lemma input_step_ok: "accounted allowed [msg] s (input_step messages allowed replay next (i, msg) s)"
proof (cases "assistant_turn msg \<and> is_array (field msg ''content'')")
  case True
  then show ?thesis
    using input_turn_ok [of msg "assistant_content msg" allowed s messages replay "next" i]
    by (simp add: input_step_def assistant_turn_def has_role_def assistant_content_def)
next
  case False
  then have "assistant_content msg = []"
    by (cases "field msg ''content''") (auto simp: assistant_content_def assistant_turn_def is_array_def elements_def)
  with False show ?thesis
    by (intro accounted_keep) (auto simp: input_step_def assistant_turn_def has_role_def complete_calls_def)
qed

lemma input_steps_ok: "accounted allowed ms s (fold (input_step messages allowed replay next) (enumerate k ms) s)"
proof (induction ms arbitrary: k s)
  case Nil
  show ?case by (simp add: accounted_def raw_calls_def)
next
  case (Cons m ms)
  from accounted_trans [OF input_step_ok Cons.IH] show ?case by simp
qed

lemma complete_after_repair:
  assumes "msg \<in> set (sanitizeToolCallInputs opts messages)" "block \<in> set (assistant_content msg)" "isRawToolCallBlock block"
  shows "complete_call (normalizeAllowedToolNames (io_allowedToolNames opts)) block"
proof -
  let ?a = "normalizeAllowedToolNames (io_allowedToolNames opts)"
  from input_steps_ok [of ?a messages empty_inputs messages _ _ 0] assms show ?thesis
    by (fastforce simp: accounted_def sanitizeToolCallInputs_def repairToolCallInputs_def Let_def empty_inputs_def complete_calls_def
        split: if_splits)
qed

text \<open>C35: After the repair of the calls, every tool call of an assistant message
  has an input, an id and the trimmed name of a tool that is allowed, and carries no scratch
  buffer of an unfinished stream.\<close>

theorem sent_calls_are_complete:
  assumes "msg \<in> set (sanitizeToolCallInputs opts messages)" "block \<in> set (assistant_content msg)" "isRawToolCallBlock block"
  shows "complete_call (normalizeAllowedToolNames (io_allowedToolNames opts)) block"
  using assms by (rule complete_after_repair)

text \<open>The repair of the calls keeps every message that is no assistant turn, in
  its order, and its report is exact: the calls that were there are those that are left and those
  reported as dropped, and likewise the messages.\<close>

theorem dropped_calls_counted:
  "filter (\<lambda>m. \<not> assistant_turn m) (sanitizeToolCallInputs opts messages) = filter (\<lambda>m. \<not> assistant_turn m) messages \<and>
   raw_calls messages = raw_calls (sanitizeToolCallInputs opts messages) + ir_droppedToolCalls (repairToolCallInputs opts messages) \<and>
   length messages = length (sanitizeToolCallInputs opts messages) + ir_droppedAssistantMessages (repairToolCallInputs opts messages)"
proof -
  let ?a = "normalizeAllowedToolNames (io_allowedToolNames opts)"
  from input_steps_ok [of ?a messages empty_inputs messages _ _ 0] show ?thesis
    by (auto simp: accounted_def sanitizeToolCallInputs_def repairToolCallInputs_def Let_def empty_inputs_def)
qed

text \<open>A turn of a Responses model with three calls: one whose arguments were completed but whose
  scratch buffer was stored, one cut off, and one with blanks around its name.\<close>

definition demo_calls :: "js_value list" where
  "demo_calls = [JObj [(''role'', JStr ''assistant''), (''stopReason'', JStr ''toolUse''), (''content'', JArr
     [JObj [(''type'', JStr ''toolCall''), (''id'', JStr ''c1|f1''), (''name'', JStr ''read''),
            (''arguments'', JObj [(''path'', JStr ''a'')]), (''partialJson'', JStr ''{ }'')],
      JObj [(''type'', JStr ''toolCall''), (''id'', JStr ''c2''), (''name'', JStr ''read''),
            (''arguments'', JObj []), (''partialJson'', JStr ''{'')],
      JObj [(''type'', JStr ''toolCall''), (''id'', JStr ''c3''), (''name'', JStr '' exec ''), (''arguments'', JObj [])]])]]"

definition demo_input_options :: input_options where
  "demo_input_options = \<lparr>io_allowedToolNames = Some [''Read'', ''exec''], io_allowThinkingReplay = True\<rparr>"

definition demo_kept_call :: js_value where
  "demo_kept_call = JObj [(''type'', JStr ''toolCall''), (''id'', JStr ''c1|f1''), (''name'', JStr ''read''),
     (''arguments'', JObj [(''path'', JStr ''a'')])]"

lemma demo_inputs:
  "sanitizeToolCallInputs demo_input_options demo_calls =
     [JObj [(''role'', JStr ''assistant''), (''stopReason'', JStr ''toolUse''), (''content'', JArr [demo_kept_call,
        JObj [(''type'', JStr ''toolCall''), (''id'', JStr ''c3''), (''name'', JStr ''exec''), (''arguments'', JObj [])]])]]"
  by code_simp

theorem sent_calls_are_complete_witness:
  "complete_call (normalizeAllowedToolNames (Some [''Read'', ''exec''])) demo_kept_call"
proof -
  let ?m = "hd (sanitizeToolCallInputs demo_input_options demo_calls)"
  have "?m \<in> set (sanitizeToolCallInputs demo_input_options demo_calls)"
    and "demo_kept_call \<in> set (assistant_content ?m)" and "isRawToolCallBlock demo_kept_call"
    unfolding demo_inputs
    by (simp_all add: assistant_content_def has_role_def is_object_def field_def elements_def demo_kept_call_def
        isRawToolCallBlock_def RAW_TOOL_CALL_BLOCK_TYPES_def)
  from sent_calls_are_complete [OF this] show ?thesis by (simp add: demo_input_options_def)
qed

section \<open>The two repairs in a row\<close>

text \<open>As the replay of a session composes them.\<close>

definition replay_repair :: "rat \<Rightarrow> input_options \<Rightarrow> pairing_options \<Rightarrow> js_value list \<Rightarrow> js_value list" where
  "replay_repair now inputs pairing messages = sanitizeToolUseResultPairing now pairing (sanitizeToolCallInputs inputs messages)"

text \<open>C6: A session replayed through both repairs has only complete tool calls and
  no two results for one call; and if its calls have ids that no two share and that carry no
  surrounding blanks, every turn with calls that ended normally is followed directly by the
  results of exactly its calls.\<close>

theorem replay_is_well_formed:
  fixes messages :: "js_value list" and inputs pairing now
  defines "sent \<equiv> replay_repair now inputs pairing messages"
    and "ids \<equiv> transcript_call_ids (sanitizeToolCallInputs inputs messages)"
  shows "(\<forall>msg \<in> set sent. \<forall>block \<in> set (assistant_content msg).
       isRawToolCallBlock block \<longrightarrow> complete_call (normalizeAllowedToolNames (io_allowedToolNames inputs)) block) \<and>
    distinct (result_ids sent) \<and>
    (distinct ids \<and> (\<forall>i \<in> set ids. js_trim i = i) \<longrightarrow> answered sent)"
proof -
  have "msg \<in> set (sanitizeToolCallInputs inputs messages)" if m: "msg \<in> set sent" "assistant_content msg \<noteq> []" for msg
  proof -
    from m(2) have "\<not> tool_result msg" by (auto simp: assistant_content_def has_role_def split: if_splits)
    with m(1) have "msg \<in> set (filter (\<lambda>m. \<not> tool_result m) sent)" by simp
    then show ?thesis unfolding sent_def replay_repair_def kept_conversation by simp
  qed
  moreover have "distinct (result_ids sent)" unfolding sent_def replay_repair_def by (rule unique_results)
  moreover have "answered sent" if "distinct ids" "\<forall>i \<in> set ids. js_trim i = i"
    using that unfolding sent_def ids_def replay_repair_def by (rule answered_calls)
  ultimately show ?thesis using complete_after_repair by fastforce
qed

theorem replay_is_well_formed_witness:
  "answered (replay_repair 7 demo_input_options demo_options demo_calls)"
proof -
  have "transcript_call_ids (sanitizeToolCallInputs demo_input_options demo_calls) = [''c1|f1'', ''c3'']"
    by code_simp
  moreover have "js_trim ''c1|f1'' = ''c1|f1''" "js_trim ''c3'' = ''c3''" by code_simp+
  ultimately show ?thesis
    using replay_is_well_formed [of 7 demo_input_options demo_options demo_calls] by simp
qed

end
