(* ===== verification/AgentTypes.thy ===== *)
theory AgentTypes
  imports JsValue
begin

text \<open>
  The data of the agent loop, \<^verbatim>\<open>src/packages/agent-core/src/types.ts\<close> and the parts of
  \<^verbatim>\<open>src/packages/llm-core\<close> it uses: messages, tools, events, and the world outside the
  loop. Every callback the loop awaits (the model stream, tools, hooks, event listeners) is a
  function over an arbitrary world that it may change; the abort signal and the clock are read
  from the world. A callback that throws returns \<open>Inl\<close> of the message. What a callback will do
  is determined by the world it is called in, so that one choice of world and environment stands
  for one way the outside behaves, and statements for all of them cover every run.
\<close>

section \<open>Models\<close>

record agent_model =
  md_id :: string
  md_api :: string
  md_provider :: string
  md_canonicalModelId :: "string option"
  md_thinkingOff :: "string option"

fun collapse_separators :: "string \<Rightarrow> bool \<Rightarrow> string" where
  "collapse_separators [] _ = []"
| "collapse_separators (c # s) inRun =
     (if c = CHR ''.'' \<or> c = CHR ''_'' \<or> is_ws c
      then (if inRun then collapse_separators s True else CHR ''-'' # collapse_separators s True)
      else c # collapse_separators s False)"

definition normalizeClaudeModelId :: "string \<Rightarrow> string" where
  "normalizeClaudeModelId modelId =
     (let normalized = js_lower (js_trim modelId);
          unprefixed = (if starts_with ''anthropic/'' normalized then drop (length ''anthropic/'') normalized else normalized)
      in collapse_separators unprefixed False)"

text \<open>The suffix of a text from the first place where \<open>P\<close> holds of the characters before (none at
  the start) and the rest.\<close>

fun first_suffix :: "(char option \<Rightarrow> string \<Rightarrow> bool) \<Rightarrow> char option \<Rightarrow> string \<Rightarrow> string option" where
  "first_suffix P prev [] = (if P prev [] then Some [] else None)"
| "first_suffix P prev (c # s) = (if P prev (c # s) then Some (c # s) else first_suffix P (Some c) s)"

definition resolveClaudeModelIdentity :: "agent_model \<Rightarrow> string" where
  "resolveClaudeModelIdentity ref =
     (let normalized = normalizeClaudeModelId (case md_canonicalModelId ref of Some c \<Rightarrow> c | None \<Rightarrow> md_id ref)
      in case first_suffix (\<lambda>b s. (b = None \<or> b = Some CHR ''-'' \<or> b = Some CHR ''/'') \<and> starts_with ''claude-'' s) None normalized of
           Some s \<Rightarrow> s | None \<Rightarrow> normalized)"

definition alphanumeric :: "char \<Rightarrow> bool" where
  "alphanumeric c \<longleftrightarrow> digit c \<or> (97 \<le> (of_char c :: nat) \<and> (of_char c :: nat) \<le> 122)"

definition family_identity :: "string \<Rightarrow> agent_model \<Rightarrow> string option" where
  "family_identity name ref = first_suffix (\<lambda>b s. (b = None \<or> b = Some CHR ''-'') \<and> starts_with name s \<and>
     (case drop (length name) s of [] \<Rightarrow> True | c # _ \<Rightarrow> \<not> alphanumeric c)) None (resolveClaudeModelIdentity ref)"

definition resolveClaudeFable5ModelIdentity :: "agent_model \<Rightarrow> string option" where
  "resolveClaudeFable5ModelIdentity ref = family_identity ''claude-fable-5'' ref"

definition resolveClaudeSonnet5ModelIdentity :: "agent_model \<Rightarrow> string option" where
  "resolveClaudeSonnet5ModelIdentity ref = family_identity ''claude-sonnet-5'' ref"

definition isEnabledThinkingLevel :: "string option \<Rightarrow> bool" where
  "isEnabledThinkingLevel v \<longleftrightarrow> v \<in> Some ` set [''minimal'', ''low'', ''medium'', ''high'', ''xhigh'', ''max'']"

definition resolveAgentReasoningOption :: "agent_model \<Rightarrow> string \<Rightarrow> string option" where
  "resolveAgentReasoningOption model thinkingLevel =
     (if thinkingLevel \<noteq> ''off'' then Some thinkingLevel
      else
        let offFallback = (case md_thinkingOff model of
              Some l \<Rightarrow> Some l
            | None \<Rightarrow> if (md_api model = ''anthropic-messages'' \<or> md_api model = ''bedrock-converse-stream'') \<and>
                         resolveClaudeFable5ModelIdentity model \<noteq> None then Some ''low'' else None)
        in if isEnabledThinkingLevel offFallback then offFallback
           else if md_api model = ''anthropic-messages'' \<and> resolveClaudeSonnet5ModelIdentity model \<noteq> None
           then Some ''off'' else None)"

section \<open>Messages\<close>

datatype stop_reason = Stop | LengthLimit | ToolUse | ErrorStop | Aborted

record agent_call =
  ag_id :: string
  ag_name :: string
  ag_arguments :: js_value

text \<open>\<open>HoleBlock\<close> is what JavaScript leaves below an index assigned past the end.\<close>

datatype content_block = TextBlock string | ThinkingBlock js_value | CallBlock agent_call | HoleBlock

record assistant_message =
  am_content :: "content_block list"
  am_stopReason :: stop_reason
  am_errorMessage :: "string option"
  am_api :: string
  am_provider :: string
  am_model :: string
  am_usage :: js_value
  am_timestamp :: rat

record result_message =
  rm_toolCallId :: string
  rm_toolName :: string
  rm_content :: js_value
  rm_details :: js_value
  rm_isError :: bool
  rm_timestamp :: rat

text \<open>Messages of any other role (user messages and those of the application) are values.\<close>

datatype agent_message = Assistant assistant_message | ToolResult result_message | Other js_value

definition EMPTY_USAGE :: js_value where
  "EMPTY_USAGE = JObj [(''input'', JNum 0), (''output'', JNum 0), (''cacheRead'', JNum 0), (''cacheWrite'', JNum 0),
     (''totalTokens'', JNum 0), (''cost'', JObj [(''input'', JNum 0), (''output'', JNum 0), (''cacheRead'', JNum 0),
       (''cacheWrite'', JNum 0), (''total'', JNum 0)])]"

section \<open>Tools\<close>

record agent_tool =
  at_name :: string
  at_sequential :: bool
  at_hideFromChannelProgress :: bool
  at_schema :: js_value

record tool_output =
  to_content :: js_value
  to_details :: js_value
  to_progress :: js_value
  to_terminate :: "bool option"

record before_result =
  br_block :: bool
  br_reason :: "string option"

record after_result =
  af_content :: "js_value option"
  af_details :: "js_value option"
  af_isError :: "bool option"
  af_terminate :: "bool option"

record agent_context =
  ac_systemPrompt :: string
  ac_messages :: "agent_message list"
  ac_tools :: "agent_tool list option"

section \<open>Events\<close>

text \<open>Events of a model stream. Only plain text deltas may come without the partial message.\<close>

datatype stream_event =
    StreamStart assistant_message
  | StreamTextDelta nat string "assistant_message option"
  | StreamUpdate string assistant_message
  | StreamDone
  | StreamError

text \<open>A response: its events, what the iteration over them throws, if anything, and its result.\<close>

record stream_response =
  sr_events :: "stream_event list"
  sr_failure :: "string option"
  sr_result :: "string + assistant_message"

text \<open>The flags of a tool execution: hidden from progress; at the end, is it an error, did the tool
  start, did the arguments fail validation, hidden.\<close>

datatype agent_event =
    AgentStart
  | AgentEnd "agent_message list"
  | TurnStart
  | TurnEnd assistant_message "result_message list"
  | MessageStart agent_message
  | MessageUpdate assistant_message stream_event
  | MessageEnd agent_message
  | ToolExecutionStart string string js_value bool
  | ToolExecutionUpdate string string js_value js_value bool
  | ToolExecutionEnd string string tool_output bool bool bool bool

section \<open>The outside\<close>

record turn_update =
  tu_context :: "agent_context option"
  tu_model :: "agent_model option"
  tu_thinkingLevel :: "string option"

record loop_config =
  lc_model :: agent_model
  lc_thinkingLevel :: "string option"
  lc_reasoning :: "string option"
  lc_apiKey :: "string option"
  lc_sequential :: bool

record turn_info =
  ti_message :: assistant_message
  ti_toolResults :: "result_message list"
  ti_context :: agent_context
  ti_newMessages :: "agent_message list"

record model_request =
  mr_config :: loop_config
  mr_systemPrompt :: string
  mr_messages :: js_value
  mr_tools :: "agent_tool list option"
  mr_apiKey :: "string option"

type_synonym ('w, 'a) hook = "'w \<Rightarrow> (string + 'a) \<times> 'w"

record 'w agent_env =
  en_aborted :: "'w \<Rightarrow> bool"
  en_abortReason :: "'w \<Rightarrow> string option"
  en_now :: "'w \<Rightarrow> rat"
  en_emit :: "agent_event \<Rightarrow> 'w \<Rightarrow> 'w"
  en_transformContext :: "(agent_message list \<Rightarrow> ('w, agent_message list) hook) option"
  en_convertToLlm :: "agent_message list \<Rightarrow> ('w, js_value) hook"
  en_getApiKey :: "(string \<Rightarrow> ('w, string option) hook) option"
  en_streamFn :: "(model_request \<Rightarrow> ('w, stream_response) hook) option"
  en_runtimeStream :: "(model_request \<Rightarrow> ('w, stream_response) hook) option"
  en_getSteeringMessages :: "('w, agent_message list) hook option"
  en_getFollowUpMessages :: "('w, agent_message list) hook option"
  en_prepareNextTurn :: "(turn_info \<Rightarrow> ('w, turn_update option) hook) option"
  en_shouldStopAfterTurn :: "(turn_info \<Rightarrow> ('w, bool) hook) option"
  en_resolveDeferredTool :: "(assistant_message \<Rightarrow> agent_call \<Rightarrow> agent_context \<Rightarrow> ('w, agent_tool option) hook) option"
  en_prepareArguments :: "agent_tool \<Rightarrow> (js_value \<Rightarrow> string + js_value) option"
  en_validateToolArguments :: "agent_tool \<Rightarrow> agent_call \<Rightarrow> string + js_value"
  en_beforeToolCall :: "(assistant_message \<Rightarrow> agent_call \<Rightarrow> js_value \<Rightarrow> agent_context \<Rightarrow> ('w, before_result option) hook) option"
  en_execute :: "agent_tool \<Rightarrow> string \<Rightarrow> js_value \<Rightarrow> 'w \<Rightarrow> (js_value list \<times> (string + tool_output)) \<times> 'w"
  en_afterToolCall :: "(assistant_message \<Rightarrow> agent_call \<Rightarrow> js_value \<Rightarrow> tool_output \<Rightarrow> bool \<Rightarrow> agent_context \<Rightarrow>
     ('w, after_result option) hook) option"
  en_schedule :: "'w \<Rightarrow> nat \<times> 'w"

end
