(* ===== verification/AgentLoop.thy ===== *)
theory AgentLoop
  imports AgentTypes
begin

text \<open>
  The model and tool loop of a turn, \<^verbatim>\<open>src/packages/agent-core/src/agent-loop.ts\<close>. A run is
  a record of the loop's variables and of the world outside; each function takes it and returns
  it. An iteration of the inner loop, or the poll for follow-up messages after it, is one
  \<open>run_step\<close>, so that runs that never end are covered as well. Tools of one batch run
  concurrently: which of them moves next is drawn from the world. Event sinks do not throw, as the
  sink of \<^verbatim>\<open>agentLoop\<close> does not.
\<close>

section \<open>The state of a run\<close>

datatype run_status = Running | Finished | Failed string

text \<open>What a run records of its dealings with the outside, beside the variables of the loop. A request
  to the model, with the messages of the run and of the context at that moment. A call that \<^verbatim>\<open>prepareToolCall\<close>
  let pass: the message it is in, its tool and validated arguments, the context, and the world
  before and after the hook that may block it (the same world where there is no hook).\<close>

record asked_request =
  aq_new :: "agent_message list"
  aq_context :: "agent_message list"
  aq_request :: model_request

record 'w prepared_call =
  pc_message :: assistant_message
  pc_call :: agent_call
  pc_tool :: agent_tool
  pc_args :: js_value
  pc_context :: agent_context
  pc_before :: 'w
  pc_after :: 'w

text \<open>The last three fields are these records: every request given to the model, every call that was
  prepared, and every tool that was started with its call and arguments. Nothing reads them.\<close>

record 'w run =
  rn_world :: 'w
  rn_context :: agent_context
  rn_new :: "agent_message list"
  rn_events :: "agent_event list"
  rn_config :: loop_config
  rn_firstTurn :: bool
  rn_turnOpen :: bool
  rn_hasMore :: bool
  rn_pending :: "agent_message list"
  rn_status :: run_status
  rn_asked :: "asked_request list"
  rn_prepared :: "'w prepared_call list"
  rn_executed :: "(agent_tool \<times> agent_call \<times> js_value) list"

definition emit :: "'w agent_env \<Rightarrow> agent_event \<Rightarrow> 'w run \<Rightarrow> 'w run" where
  "emit env event s = s\<lparr>rn_events := rn_events s @ [event], rn_world := en_emit env event (rn_world s)\<rparr>"

definition push_context :: "agent_message \<Rightarrow> 'w run \<Rightarrow> 'w run" where
  "push_context m s = s\<lparr>rn_context := (rn_context s)\<lparr>ac_messages := ac_messages (rn_context s) @ [m]\<rparr>\<rparr>"

definition set_last_context :: "agent_message \<Rightarrow> 'w run \<Rightarrow> 'w run" where
  "set_last_context m s = s\<lparr>rn_context := (rn_context s)\<lparr>ac_messages :=
     (ac_messages (rn_context s))[length (ac_messages (rn_context s)) - 1 := m]\<rparr>\<rparr>"

definition push_new :: "agent_message \<Rightarrow> 'w run \<Rightarrow> 'w run" where
  "push_new m s = s\<lparr>rn_new := rn_new s @ [m]\<rparr>"

text \<open>Awaiting a callback, and going on with its value unless it threw.\<close>

definition call_hook :: "('w, 'a) hook \<Rightarrow> 'w run \<Rightarrow> (string + 'a) \<times> 'w run" where
  "call_hook h s = (let (r, w) = h (rn_world s) in (r, s\<lparr>rn_world := w\<rparr>))"

definition call_optional :: "('w, 'a) hook option \<Rightarrow> 'a \<Rightarrow> 'w run \<Rightarrow> (string + 'a) \<times> 'w run" where
  "call_optional h dflt s = (case h of None \<Rightarrow> (Inr dflt, s) | Some h \<Rightarrow> call_hook h s)"

definition and_then :: "(string + 'a) \<times> 'w run \<Rightarrow> ('a \<Rightarrow> 'w run \<Rightarrow> (string + 'b) \<times> 'w run) \<Rightarrow> (string + 'b) \<times> 'w run" where
  "and_then p f = (case p of (Inl e, s) \<Rightarrow> (Inl e, s) | (Inr a, s) \<Rightarrow> f a s)"

definition or_fail :: "(string + 'a) \<times> 'w run \<Rightarrow> ('a \<Rightarrow> 'w run \<Rightarrow> 'w run) \<Rightarrow> 'w run" where
  "or_fail p f = (case p of (Inl e, s) \<Rightarrow> s\<lparr>rn_status := Failed e\<rparr> | (Inr a, s) \<Rightarrow> f a s)"

definition if_running :: "'w run \<Rightarrow> ('w run \<Rightarrow> 'w run) \<Rightarrow> 'w run" where
  "if_running s f = (if rn_status s = Running then f s else s)"

section \<open>Assistant messages\<close>

definition appendTextDeltaToAssistantMessage :: "assistant_message \<Rightarrow> nat \<Rightarrow> string \<Rightarrow> assistant_message" where
  "appendTextDeltaToAssistantMessage message contentIndex delta =
     (let content = am_content message;
          padded = (if contentIndex < length content then content
                    else content @ replicate (contentIndex + 1 - length content) HoleBlock)
      in message\<lparr>am_content := padded[contentIndex :=
           (case padded ! contentIndex of TextBlock t \<Rightarrow> TextBlock (t @ delta) | _ \<Rightarrow> TextBlock delta)]\<rparr>)"

definition resolveAssistantMessageUpdate :: "stream_event \<Rightarrow> assistant_message \<Rightarrow> assistant_message" where
  "resolveAssistantMessageUpdate event currentMessage = (case event of
     StreamTextDelta contentIndex delta (Some partial) \<Rightarrow> partial
   | StreamTextDelta contentIndex delta None \<Rightarrow> appendTextDeltaToAssistantMessage currentMessage contentIndex delta
   | StreamUpdate _ partial \<Rightarrow> partial
   | _ \<Rightarrow> currentMessage)"

definition message_calls :: "assistant_message \<Rightarrow> agent_call list" where
  "message_calls message = List.map_filter (\<lambda>b. case b of CallBlock c \<Rightarrow> Some c | _ \<Rightarrow> None) (am_content message)"

definition is_call_block :: "content_block \<Rightarrow> bool" where
  "is_call_block b \<longleftrightarrow> (case b of CallBlock _ \<Rightarrow> True | _ \<Rightarrow> False)"

definition removeNonExecutableToolCalls :: "assistant_message \<Rightarrow> assistant_message" where
  "removeNonExecutableToolCalls message =
     (if am_stopReason message = ToolUse then message
      else
        let toolCalls = message_calls message
        in if toolCalls = [] then message
           else if list_all (\<lambda>call. length (js_trim (ag_id call)) > 0 \<and> length (js_trim (ag_name call)) > 0) toolCalls \<and>
                   am_stopReason message = Stop
           then message\<lparr>am_stopReason := ToolUse\<rparr>
           else message\<lparr>am_content := filter (\<lambda>b. \<not> is_call_block b) (am_content message)\<rparr>)"

definition createLoopFailureMessage :: "'w agent_env \<Rightarrow> loop_config \<Rightarrow> string \<Rightarrow> bool \<Rightarrow> 'w \<Rightarrow> assistant_message" where
  "createLoopFailureMessage env config error aborted w =
     \<lparr>am_content = [TextBlock []], am_stopReason = (if aborted then Aborted else ErrorStop), am_errorMessage = Some error,
      am_api = md_api (lc_model config), am_provider = md_provider (lc_model config), am_model = md_id (lc_model config),
      am_usage = EMPTY_USAGE, am_timestamp = en_now env w\<rparr>"

section \<open>The response of the model\<close>

definition finish_response :: "'w agent_env \<Rightarrow> stream_response \<Rightarrow> bool \<Rightarrow> 'w run \<Rightarrow> (string + assistant_message) \<times> 'w run" where
  "finish_response env resp addedPartial s = (case sr_result resp of
     Inl e \<Rightarrow> (Inl e, s)
   | Inr result \<Rightarrow>
      let finalMessage = removeNonExecutableToolCalls result;
          s1 = (if addedPartial then set_last_context (Assistant finalMessage) s
                else emit env (MessageStart (Assistant finalMessage)) (push_context (Assistant finalMessage) s))
      in (Inr finalMessage, emit env (MessageEnd (Assistant finalMessage)) s1))"

fun consume_stream :: "'w agent_env \<Rightarrow> stream_response \<Rightarrow> stream_event list \<Rightarrow> assistant_message option \<Rightarrow> bool \<Rightarrow>
    'w run \<Rightarrow> (string + assistant_message) \<times> 'w run" where
  "consume_stream env resp [] partialMessage addedPartial s =
     (case sr_failure resp of Some e \<Rightarrow> (Inl e, s) | None \<Rightarrow> finish_response env resp addedPartial s)"
| "consume_stream env resp (StreamStart m # rest) partialMessage addedPartial s =
     consume_stream env resp rest (Some m) True (emit env (MessageStart (Assistant m)) (push_context (Assistant m) s))"
| "consume_stream env resp (StreamDone # rest) partialMessage addedPartial s = finish_response env resp addedPartial s"
| "consume_stream env resp (StreamError # rest) partialMessage addedPartial s = finish_response env resp addedPartial s"
| "consume_stream env resp (event # rest) partialMessage addedPartial s = (case partialMessage of
     None \<Rightarrow> consume_stream env resp rest partialMessage addedPartial s
   | Some current \<Rightarrow>
      let message = resolveAssistantMessageUpdate event current
      in consume_stream env resp rest (Some message) addedPartial
           (emit env (MessageUpdate message event) (set_last_context (Assistant message) s)))"

definition resolveAgentCoreStreamFn :: "'w agent_env \<Rightarrow> string + (model_request \<Rightarrow> ('w, stream_response) hook)" where
  "resolveAgentCoreStreamFn env = (case en_streamFn env of
     Some f \<Rightarrow> Inr f
   | None \<Rightarrow> (case en_runtimeStream env of Some f \<Rightarrow> Inr f
       | None \<Rightarrow> Inl (''@openclaw/agent-core runtime dependency '' @ CHR 0x22 # ''streamSimple'' @ CHR 0x22 #
           '' is not configured. Pass an AgentCoreRuntimeDeps instance or a streamFn explicitly.'')))"

definition note_asked :: "agent_message list \<Rightarrow> model_request \<Rightarrow> 'w run \<Rightarrow> 'w run" where
  "note_asked messages request s = s\<lparr>rn_asked := rn_asked s @ [\<lparr>aq_new = rn_new s, aq_context = messages, aq_request = request\<rparr>]\<rparr>"

definition streamAssistantResponse :: "'w agent_env \<Rightarrow> 'w run \<Rightarrow> (string + assistant_message) \<times> 'w run" where
  "streamAssistantResponse env s =
     (let context = rn_context s; config = rn_config s in
      and_then (call_optional (map_option (\<lambda>h. h (ac_messages context)) (en_transformContext env)) (ac_messages context) s)
        (\<lambda>messages s. and_then (call_hook (en_convertToLlm env messages) s)
        (\<lambda>llmMessages s. case resolveAgentCoreStreamFn env of
           Inl e \<Rightarrow> (Inl e, s)
         | Inr streamFunction \<Rightarrow>
            and_then (call_optional (map_option (\<lambda>h. h (md_provider (lc_model config))) (en_getApiKey env)) None s)
            (\<lambda>key s.
              let resolvedApiKey = (case key of Some k \<Rightarrow> if k \<noteq> [] then key else lc_apiKey config | None \<Rightarrow> lc_apiKey config);
                  request = \<lparr>mr_config = config, mr_systemPrompt = ac_systemPrompt context, mr_messages = llmMessages,
                             mr_tools = ac_tools context, mr_apiKey = resolvedApiKey\<rparr>
              in and_then (call_hook (streamFunction request) (note_asked (ac_messages context) request s))
                   (\<lambda>response s. consume_stream env response (sr_events response) None False s)))))"

section \<open>Tool calls\<close>

record finalized_call =
  fz_call :: agent_call
  fz_result :: tool_output
  fz_isError :: bool
  fz_executionStarted :: bool
  fz_argumentValidation :: bool
  fz_hide :: bool

datatype resolution = Resolved "agent_tool option" | ResolutionError string

datatype preparation = Prepared agent_tool js_value | Immediate tool_output bool

type_synonym resolved_calls = "(nat, resolution) js_map"
type_synonym indexed_call = "nat \<times> agent_call"

definition createErrorToolResult :: "string \<Rightarrow> tool_output" where
  "createErrorToolResult message = \<lparr>to_content = JArr [JObj [(''type'', JStr ''text''), (''text'', JStr message)]],
     to_details = JObj [], to_progress = JUndef, to_terminate = None\<rparr>"

definition createToolResultMessage :: "'w agent_env \<Rightarrow> finalized_call \<Rightarrow> 'w \<Rightarrow> result_message" where
  "createToolResultMessage env f w = \<lparr>rm_toolCallId = ag_id (fz_call f), rm_toolName = ag_name (fz_call f),
     rm_content = to_content (fz_result f), rm_details = to_details (fz_result f), rm_isError = fz_isError f,
     rm_timestamp = en_now env w\<rparr>"

definition emitToolExecutionEnd :: "'w agent_env \<Rightarrow> finalized_call \<Rightarrow> 'w run \<Rightarrow> 'w run" where
  "emitToolExecutionEnd env f s = emit env (ToolExecutionEnd (ag_id (fz_call f)) (ag_name (fz_call f)) (fz_result f)
     (fz_isError f) (fz_executionStarted f) (fz_argumentValidation f) (fz_hide f)) s"

definition emitToolResultMessage :: "'w agent_env \<Rightarrow> result_message \<Rightarrow> 'w run \<Rightarrow> 'w run" where
  "emitToolResultMessage env m s = emit env (MessageEnd (ToolResult m)) (emit env (MessageStart (ToolResult m)) s)"

definition shouldTerminateToolBatch :: "finalized_call list \<Rightarrow> bool" where
  "shouldTerminateToolBatch finalizedCalls \<longleftrightarrow> length finalizedCalls > 0 \<and>
     list_all (\<lambda>f. to_terminate (fz_result f) = Some True) finalizedCalls"

definition find_tool :: "agent_context \<Rightarrow> string \<Rightarrow> agent_tool option" where
  "find_tool context name = find (\<lambda>t. at_name t = name) (case ac_tools context of Some ts \<Rightarrow> ts | None \<Rightarrow> [])"

definition hidesToolCallFromChannelProgress :: "agent_context \<Rightarrow> indexed_call \<Rightarrow> resolved_calls \<Rightarrow> bool" where
  "hidesToolCallFromChannelProgress context ic resolved =
     (let tool = (case map_of resolved (fst ic) of
            Some (Resolved t) \<Rightarrow> t
          | _ \<Rightarrow> find_tool context (ag_name (snd ic)))
      in case tool of Some t \<Rightarrow> at_hideFromChannelProgress t | None \<Rightarrow> False)"

definition resolveToolCallTool :: "'w agent_env \<Rightarrow> assistant_message \<Rightarrow> indexed_call \<Rightarrow> resolved_calls \<Rightarrow> 'w run \<Rightarrow>
    resolution \<times> resolved_calls \<times> 'w run" where
  "resolveToolCallTool env message ic resolved s = (case map_of resolved (fst ic) of
     Some r \<Rightarrow> (r, resolved, s)
   | None \<Rightarrow>
      let (r, s1) = (case find_tool (rn_context s) (ag_name (snd ic)) of
            Some t \<Rightarrow> (Resolved (Some t), s)
          | None \<Rightarrow>
             (case call_optional (map_option (\<lambda>h. h message (snd ic) (rn_context s)) (en_resolveDeferredTool env)) None s of
                (Inl e, s1) \<Rightarrow> (ResolutionError e, s1)
              | (Inr None, s1) \<Rightarrow> (Resolved None, s1)
              | (Inr (Some t), s1) \<Rightarrow>
                  if at_name t \<noteq> ag_name (snd ic)
                  then (ResolutionError (''Deferred tool resolver returned '' @ CHR 0x22 # at_name t @ CHR 0x22 # '' for requested '' @
                          CHR 0x22 # ag_name (snd ic) @ [CHR 0x22]), s1)
                  else (Resolved (Some t), s1\<lparr>rn_context := (rn_context s1)\<lparr>ac_tools :=
                          Some ((case ac_tools (rn_context s1) of Some ts \<Rightarrow> ts | None \<Rightarrow> []) @ [t])\<rparr>\<rparr>)))
      in (r, map_set (fst ic) r resolved, s1))"

definition prepareToolCallArguments :: "'w agent_env \<Rightarrow> agent_tool \<Rightarrow> agent_call \<Rightarrow> string + agent_call" where
  "prepareToolCallArguments env tool toolCall = (case en_prepareArguments env tool of
     None \<Rightarrow> Inr toolCall
   | Some prepare \<Rightarrow> (case prepare (ag_arguments toolCall) of
        Inl e \<Rightarrow> Inl e
      | Inr arguments \<Rightarrow> Inr (toolCall\<lparr>ag_arguments := arguments\<rparr>)))"

definition note_prepared :: "assistant_message \<Rightarrow> agent_call \<Rightarrow> agent_tool \<Rightarrow> js_value \<Rightarrow> 'w run \<Rightarrow> 'w run \<Rightarrow> 'w run" where
  "note_prepared message call tool args before after = after\<lparr>rn_prepared := rn_prepared after @
     [\<lparr>pc_message = message, pc_call = call, pc_tool = tool, pc_args = args, pc_context = rn_context before,
       pc_before = rn_world before, pc_after = rn_world after\<rparr>]\<rparr>"

definition prepareToolCall :: "'w agent_env \<Rightarrow> assistant_message \<Rightarrow> indexed_call \<Rightarrow> resolved_calls \<Rightarrow> 'w run \<Rightarrow>
    preparation \<times> resolved_calls \<times> 'w run" where
  "prepareToolCall env message ic resolved s =
     (let (resolution, resolved', s1) = resolveToolCallTool env message ic resolved s; toolCall = snd ic in
      case resolution of
        ResolutionError e \<Rightarrow>
          (Immediate (createErrorToolResult (if en_aborted env (rn_world s1) then ''Operation aborted'' else e)) False, resolved', s1)
      | Resolved None \<Rightarrow>
          (Immediate (createErrorToolResult (''Tool '' @ ag_name toolCall @ '' not found'')) False, resolved', s1)
      | Resolved (Some tool) \<Rightarrow>
          (case prepareToolCallArguments env tool toolCall of
             Inl e \<Rightarrow> (Immediate (createErrorToolResult e) False, resolved', s1)
           | Inr preparedToolCall \<Rightarrow>
              (case en_validateToolArguments env tool preparedToolCall of
                 Inl e \<Rightarrow> (Immediate (createErrorToolResult e) True, resolved', s1)
               | Inr validatedArgs \<Rightarrow>
                  (case call_optional (map_option (\<lambda>h. h message toolCall validatedArgs (rn_context s1)) (en_beforeToolCall env)) None s1 of
                     (Inl e, s2) \<Rightarrow> (Immediate (createErrorToolResult e) False, resolved', s2)
                   | (Inr beforeResult, s2) \<Rightarrow>
                      if en_aborted env (rn_world s2) then
                        (Immediate (createErrorToolResult ''Operation aborted'') False, resolved', s2)
                      else (case beforeResult of
                          Some b \<Rightarrow>
                            if br_block b then
                              (Immediate (createErrorToolResult (case br_reason b of
                                   Some r \<Rightarrow> if r \<noteq> [] then r else ''Tool execution was blocked''
                                 | None \<Rightarrow> ''Tool execution was blocked'')) False, resolved', s2)
                            else (Prepared tool validatedArgs, resolved', note_prepared message toolCall tool validatedArgs s1 s2)
                        | None \<Rightarrow> (Prepared tool validatedArgs, resolved', note_prepared message toolCall tool validatedArgs s1 s2))))))"

text \<open>The two halves of \<^verbatim>\<open>executePreparedToolCall\<close>: starting the tool, which fixes what it will
  do, and what happens once it is done.\<close>

definition start_tool :: "'w agent_env \<Rightarrow> agent_call \<Rightarrow> agent_tool \<Rightarrow> js_value \<Rightarrow> 'w run \<Rightarrow>
    (js_value list \<times> (string + tool_output)) \<times> 'w run" where
  "start_tool env call tool args s =
     (let (r, w) = en_execute env tool (ag_id call) args (rn_world s)
      in (r, s\<lparr>rn_world := w, rn_executed := rn_executed s @ [(tool, call, args)]\<rparr>))"

definition emit_update :: "'w agent_env \<Rightarrow> agent_call \<Rightarrow> agent_tool \<Rightarrow> js_value \<Rightarrow> 'w run \<Rightarrow> 'w run" where
  "emit_update env call tool partialResult s = emit env (ToolExecutionUpdate (ag_id call) (ag_name call) (ag_arguments call)
     partialResult (at_hideFromChannelProgress tool)) s"

definition executed_outcome :: "string + tool_output \<Rightarrow> tool_output \<times> bool" where
  "executed_outcome r = (case r of Inl e \<Rightarrow> (createErrorToolResult e, True) | Inr result \<Rightarrow> (result, False))"

definition executePreparedToolCall :: "'w agent_env \<Rightarrow> agent_call \<Rightarrow> agent_tool \<Rightarrow> js_value \<Rightarrow> 'w run \<Rightarrow>
    (tool_output \<times> bool) \<times> 'w run" where
  "executePreparedToolCall env call tool args s =
     (let ((updates, outcome), s1) = start_tool env call tool args s
      in (executed_outcome outcome, fold (emit_update env call tool) updates s1))"

definition finalizeExecutedToolCall :: "'w agent_env \<Rightarrow> assistant_message \<Rightarrow> agent_call \<Rightarrow> agent_tool \<Rightarrow> js_value \<Rightarrow>
    tool_output \<times> bool \<Rightarrow> 'w run \<Rightarrow> finalized_call \<times> 'w run" where
  "finalizeExecutedToolCall env message call tool args executed s =
     (let (result, isError) = executed;
          (r, s1) = call_optional (map_option (\<lambda>h. h message call args result isError (rn_context s)) (en_afterToolCall env)) None s;
          (result', isError') = (case r of
             Inl e \<Rightarrow> (createErrorToolResult e, True)
           | Inr None \<Rightarrow> (result, isError)
           | Inr (Some a) \<Rightarrow>
              (\<lparr>to_content = (case af_content a of Some c \<Rightarrow> c | None \<Rightarrow> to_content result),
                to_details = (case af_details a of Some d \<Rightarrow> d | None \<Rightarrow> to_details result),
                to_progress = JUndef,
                to_terminate = (case af_terminate a of Some t \<Rightarrow> Some t | None \<Rightarrow> to_terminate result)\<rparr>,
               case af_isError a of Some e \<Rightarrow> e | None \<Rightarrow> isError))
      in (\<lparr>fz_call = call, fz_result = result', fz_isError = isError', fz_executionStarted = True,
           fz_argumentValidation = False, fz_hide = at_hideFromChannelProgress tool\<rparr>, s1))"

definition immediate_call :: "agent_call \<Rightarrow> tool_output \<Rightarrow> bool \<Rightarrow> bool \<Rightarrow> finalized_call" where
  "immediate_call call result argumentValidation hide = \<lparr>fz_call = call, fz_result = result, fz_isError = True,
     fz_executionStarted = False, fz_argumentValidation = argumentValidation, fz_hide = hide\<rparr>"

definition emit_start :: "'w agent_env \<Rightarrow> indexed_call \<Rightarrow> resolved_calls \<Rightarrow> 'w run \<Rightarrow> 'w run" where
  "emit_start env ic resolved s = emit env (ToolExecutionStart (ag_id (snd ic)) (ag_name (snd ic)) (ag_arguments (snd ic))
     (hidesToolCallFromChannelProgress (rn_context s) ic resolved)) s"

section \<open>A batch of calls, one after the other\<close>

fun run_sequential :: "'w agent_env \<Rightarrow> assistant_message \<Rightarrow> indexed_call list \<Rightarrow> resolved_calls \<Rightarrow> finalized_call list \<Rightarrow>
    result_message list \<Rightarrow> 'w run \<Rightarrow> finalized_call list \<times> result_message list \<times> 'w run" where
  "run_sequential env message [] resolved finalizedCalls messages s = (finalizedCalls, messages, s)"
| "run_sequential env message (ic # rest) resolved finalizedCalls messages s =
     (let hide = hidesToolCallFromChannelProgress (rn_context s) ic resolved;
          (preparation, resolved', s1) = prepareToolCall env message ic resolved (emit_start env ic resolved s);
          (finalized, s2) = (case preparation of
             Immediate result validation \<Rightarrow> (immediate_call (snd ic) result validation hide, s1)
           | Prepared tool args \<Rightarrow>
              let (executed, s') = executePreparedToolCall env (snd ic) tool args s1
              in finalizeExecutedToolCall env message (snd ic) tool args executed s');
          s3 = emitToolExecutionEnd env finalized s2;
          toolResultMessage = createToolResultMessage env finalized (rn_world s3);
          s4 = emitToolResultMessage env toolResultMessage s3
      in if en_aborted env (rn_world s4)
         then (finalizedCalls @ [finalized], messages @ [toolResultMessage], s4)
         else run_sequential env message rest resolved' (finalizedCalls @ [finalized]) (messages @ [toolResultMessage]) s4)"

definition executeToolCallsSequential :: "'w agent_env \<Rightarrow> assistant_message \<Rightarrow> indexed_call list \<Rightarrow> resolved_calls \<Rightarrow> 'w run \<Rightarrow>
    (result_message list \<times> bool) \<times> 'w run" where
  "executeToolCallsSequential env message toolCalls resolved s =
     (let (finalizedCalls, messages, s') = run_sequential env message toolCalls resolved [] [] s
      in ((messages, shouldTerminateToolBatch finalizedCalls), s'))"

section \<open>A batch of calls that run concurrently\<close>

datatype call_entry = Settled finalized_call | Unstarted agent_call agent_tool js_value
  | Executing agent_call agent_tool js_value "js_value list" "string + tool_output" | Hooked finalized_call

fun start_parallel :: "'w agent_env \<Rightarrow> assistant_message \<Rightarrow> indexed_call list \<Rightarrow> resolved_calls \<Rightarrow> call_entry list \<Rightarrow>
    'w run \<Rightarrow> call_entry list \<times> 'w run" where
  "start_parallel env message [] resolved entries s = (entries, s)"
| "start_parallel env message (ic # rest) resolved entries s =
     (let hide = hidesToolCallFromChannelProgress (rn_context s) ic resolved;
          (preparation, resolved', s1) = prepareToolCall env message ic resolved (emit_start env ic resolved s);
          (entry, s2) = (case preparation of
             Immediate result validation \<Rightarrow>
               let finalized = immediate_call (snd ic) result validation hide
               in (Settled finalized, emitToolExecutionEnd env finalized s1)
           | Prepared tool args \<Rightarrow> (Unstarted (snd ic) tool args, s1))
      in if en_aborted env (rn_world s2) then (entries @ [entry], s2)
         else start_parallel env message rest resolved' (entries @ [entry]) s2)"

fun launch :: "'w agent_env \<Rightarrow> call_entry list \<Rightarrow> 'w run \<Rightarrow> call_entry list \<times> 'w run" where
  "launch env [] s = ([], s)"
| "launch env (entry # rest) s =
     (let (entry', s1) = (case entry of
            Unstarted call tool args \<Rightarrow>
              let ((updates, outcome), s') = start_tool env call tool args s in (Executing call tool args updates outcome, s')
          | _ \<Rightarrow> (entry, s));
          (rest', s2) = launch env rest s1
      in (entry' # rest', s2))"

text \<open>The next thing one running call does: an update, the hook after the tool, or its end.\<close>

definition advance :: "'w agent_env \<Rightarrow> assistant_message \<Rightarrow> call_entry \<Rightarrow> 'w run \<Rightarrow> call_entry \<times> 'w run" where
  "advance env message entry s = (case entry of
     Executing call tool args (u # updates) outcome \<Rightarrow> (Executing call tool args updates outcome, emit_update env call tool u s)
   | Executing call tool args [] outcome \<Rightarrow>
       (let (f, s') = finalizeExecutedToolCall env message call tool args (executed_outcome outcome) s in (Hooked f, s'))
   | Hooked f \<Rightarrow> (Settled f, emitToolExecutionEnd env f s)
   | _ \<Rightarrow> (entry, s))"

fun remaining_steps :: "call_entry \<Rightarrow> nat" where
  "remaining_steps (Executing call tool args updates outcome) = length updates + 2"
| "remaining_steps (Hooked f) = 1"
| "remaining_steps entry = 0"

definition live_entries :: "call_entry list \<Rightarrow> nat list" where
  "live_entries entries = filter (\<lambda>i. remaining_steps (entries ! i) > 0) [0..<length entries]"

lemma advance_remaining:
  "remaining_steps entry > 0 \<Longrightarrow> remaining_steps (fst (advance env message entry s)) < remaining_steps entry"
  by (cases entry rule: remaining_steps.cases) (auto simp: advance_def case_prod_beta split: list.split)

lemma sum_list_update_less:
  "i < length xs \<Longrightarrow> f y < f (xs ! i) \<Longrightarrow> sum_list (map f (xs[i := y])) < (sum_list (map f xs) :: nat)"
  by (induction xs arbitrary: i) (auto split: nat.split)

function run_parallel :: "'w agent_env \<Rightarrow> assistant_message \<Rightarrow> call_entry list \<Rightarrow> 'w run \<Rightarrow> call_entry list \<times> 'w run" where
  "run_parallel env message entries s =
     (if live_entries entries = [] then (entries, s)
      else
        let (n, w) = en_schedule env (rn_world s);
            i = live_entries entries ! (n mod length (live_entries entries));
            (entry, s') = advance env message (entries ! i) (s\<lparr>rn_world := w\<rparr>)
        in run_parallel env message (entries[i := entry]) s')"
  by pat_completeness auto
termination
proof (relation "measure (\<lambda>(_, _, entries, _). sum_list (map remaining_steps entries))", goal_cases)
  case (2 env message entries s x n w i y entry s')
  have "n mod length (live_entries entries) < length (live_entries entries)" using 2(1) by simp
  then have "i \<in> set (live_entries entries)" using 2 by simp
  then have "i < length entries" "remaining_steps (entries ! i) > 0" by (simp_all add: live_entries_def)
  moreover have "fst (advance env message (entries ! i) (s\<lparr>rn_world := w\<rparr>)) = entry" using 2(5,6) by (metis fst_conv)
  ultimately have "remaining_steps entry < remaining_steps (entries ! i)" using advance_remaining by metis
  then show ?case using \<open>i < length entries\<close> by (simp add: sum_list_update_less)
qed simp

declare run_parallel.simps [simp del]

definition settled_calls :: "call_entry list \<Rightarrow> finalized_call list" where
  "settled_calls entries = List.map_filter (\<lambda>e. case e of Settled f \<Rightarrow> Some f | _ \<Rightarrow> None) entries"

definition emit_results :: "'w agent_env \<Rightarrow> finalized_call list \<Rightarrow> 'w run \<Rightarrow> result_message list \<times> 'w run" where
  "emit_results env calls s = fold (\<lambda>f (messages, s).
     let m = createToolResultMessage env f (rn_world s) in (messages @ [m], emitToolResultMessage env m s)) calls ([], s)"

definition executeToolCallsParallel :: "'w agent_env \<Rightarrow> assistant_message \<Rightarrow> indexed_call list \<Rightarrow> resolved_calls \<Rightarrow> 'w run \<Rightarrow>
    (result_message list \<times> bool) \<times> 'w run" where
  "executeToolCallsParallel env message toolCalls resolved s =
     (let (entries, s1) = start_parallel env message toolCalls resolved [] s;
          (launched, s2) = launch env entries s1;
          (done, s3) = run_parallel env message launched s2;
          orderedFinalizedCalls = settled_calls done;
          (messages, s4) = emit_results env orderedFinalizedCalls s3
      in ((messages, shouldTerminateToolBatch orderedFinalizedCalls), s4))"

section \<open>The batch of a message\<close>

text \<open>Resolving the tools beforehand, to learn whether one of them wants to run alone.\<close>

fun resolve_modes :: "'w agent_env \<Rightarrow> assistant_message \<Rightarrow> indexed_call list \<Rightarrow> resolved_calls \<Rightarrow> 'w run \<Rightarrow>
    bool \<times> resolved_calls \<times> 'w run" where
  "resolve_modes env message [] resolved s = (False, resolved, s)"
| "resolve_modes env message (ic # rest) resolved s =
     (let (resolution, resolved', s1) = resolveToolCallTool env message ic resolved s
      in if (case resolution of Resolved (Some tool) \<Rightarrow> at_sequential tool | _ \<Rightarrow> False) then (True, resolved', s1)
         else if en_aborted env (rn_world s1) then (False, resolved', s1)
         else resolve_modes env message rest resolved' s1)"

definition executeToolCalls :: "'w agent_env \<Rightarrow> assistant_message \<Rightarrow> 'w run \<Rightarrow> (result_message list \<times> bool) \<times> 'w run" where
  "executeToolCalls env message s =
     (let toolCalls = enumerate 0 (message_calls message);
          (hasSequentialToolCall, resolved, s1) =
            (if lc_sequential (rn_config s) then (False, [], s) else resolve_modes env message toolCalls [] s)
      in if lc_sequential (rn_config s) \<or> hasSequentialToolCall
         then executeToolCallsSequential env message toolCalls resolved s1
         else executeToolCallsParallel env message toolCalls resolved s1)"

section \<open>The loop\<close>

definition stopIfAborted :: "'w agent_env \<Rightarrow> 'w run \<Rightarrow> 'w run" where
  "stopIfAborted env s =
     (if \<not> en_aborted env (rn_world s) then s
      else
        let abortedMessage = createLoopFailureMessage env (rn_config s)
              (case en_abortReason env (rn_world s) of Some r \<Rightarrow> r | None \<Rightarrow> ''Agent run aborted'') True (rn_world s);
            s1 = push_new (Assistant abortedMessage) s;
            s2 = (if rn_turnOpen s1 then s1 else (emit env TurnStart s1)\<lparr>rn_turnOpen := True\<rparr>);
            s3 = emit env (MessageEnd (Assistant abortedMessage)) (emit env (MessageStart (Assistant abortedMessage)) s2);
            s4 = (emit env (TurnEnd abortedMessage []) s3)\<lparr>rn_turnOpen := False\<rparr>
        in (emit env (AgentEnd (rn_new s4)) s4)\<lparr>rn_status := Finished\<rparr>)"

definition inject_message :: "'w agent_env \<Rightarrow> agent_message \<Rightarrow> 'w run \<Rightarrow> 'w run" where
  "inject_message env m s = push_new m (push_context m (emit env (MessageEnd m) (emit env (MessageStart m) s)))"

definition open_turn :: "'w agent_env \<Rightarrow> 'w run \<Rightarrow> 'w run" where
  "open_turn env s = (if \<not> rn_firstTurn s then (emit env TurnStart s)\<lparr>rn_turnOpen := True\<rparr> else s\<lparr>rn_firstTurn := False\<rparr>)"

definition info_of :: "assistant_message \<Rightarrow> result_message list \<Rightarrow> 'w run \<Rightarrow> turn_info" where
  "info_of message toolResults s =
     \<lparr>ti_message = message, ti_toolResults = toolResults, ti_context = rn_context s, ti_newMessages = rn_new s\<rparr>"

definition apply_turn_update :: "turn_update option \<Rightarrow> 'w run \<Rightarrow> 'w run" where
  "apply_turn_update update s = (case update of
     None \<Rightarrow> s
   | Some u \<Rightarrow>
      let config = rn_config s;
          nextModel = (case tu_model u of Some m \<Rightarrow> m | None \<Rightarrow> lc_model config);
          nextThinkingLevel = (case tu_thinkingLevel u of Some l \<Rightarrow> Some l | None \<Rightarrow> lc_thinkingLevel config);
          shouldResolveReasoning = (tu_thinkingLevel u \<noteq> None \<or> (tu_model u \<noteq> None \<and> nextThinkingLevel \<noteq> None));
          nextReasoning = (case nextThinkingLevel of
              Some l \<Rightarrow> if shouldResolveReasoning then resolveAgentReasoningOption nextModel l else lc_reasoning config
            | None \<Rightarrow> lc_reasoning config)
      in s\<lparr>rn_context := (case tu_context u of Some c \<Rightarrow> c | None \<Rightarrow> rn_context s),
           rn_config := config\<lparr>lc_model := nextModel, lc_thinkingLevel := nextThinkingLevel, lc_reasoning := nextReasoning\<rparr>\<rparr>)"

definition end_run :: "'w agent_env \<Rightarrow> 'w run \<Rightarrow> 'w run" where
  "end_run env s = (emit env (AgentEnd (rn_new s)) s)\<lparr>rn_status := Finished\<rparr>"

text \<open>After the turn has ended: the hooks that prepare the next turn or stop the run, then steering.\<close>

definition after_turn :: "'w agent_env \<Rightarrow> assistant_message \<Rightarrow> result_message list \<Rightarrow> 'w run \<Rightarrow> 'w run" where
  "after_turn env message toolResults s =
     or_fail (call_optional (map_option (\<lambda>h. h (info_of message toolResults s)) (en_prepareNextTurn env)) None s)
       (\<lambda>update s. if_running (stopIfAborted env (apply_turn_update update s))
         (\<lambda>s. or_fail (call_optional (map_option (\<lambda>h. h (info_of message toolResults s)) (en_shouldStopAfterTurn env)) False s)
           (\<lambda>stop s. if stop then end_run env s
             else or_fail (call_optional (en_getSteeringMessages env) [] s)
               (\<lambda>steering s. stopIfAborted env (s\<lparr>rn_pending := steering\<rparr>)))))"

definition finish_turn :: "'w agent_env \<Rightarrow> assistant_message \<Rightarrow> 'w run \<Rightarrow> 'w run" where
  "finish_turn env message s =
     (if am_stopReason message = ErrorStop \<or> am_stopReason message = Aborted then
        end_run env (emit env (TurnEnd message []) s)
      else
        let ((toolResults, terminate), s1) =
              (if am_stopReason message = ToolUse \<and> message_calls message \<noteq> [] then executeToolCalls env message s
               else (([], True), s));
            s2 = s1\<lparr>rn_hasMore := \<not> terminate\<rparr>;
            s3 = fold (\<lambda>r s. push_new (ToolResult r) (push_context (ToolResult r) s)) toolResults s2;
            s4 = (emit env (TurnEnd message toolResults) s3)\<lparr>rn_turnOpen := False\<rparr>
        in if_running (stopIfAborted env s4) (after_turn env message toolResults))"

definition run_turn :: "'w agent_env \<Rightarrow> 'w run \<Rightarrow> 'w run" where
  "run_turn env s =
     if_running (stopIfAborted env s)
       (\<lambda>s. let s1 = open_turn env s; s2 = fold (inject_message env) (rn_pending s1) s1
            in if_running (stopIfAborted env s2)
                 (\<lambda>s. or_fail (streamAssistantResponse env s)
                   (\<lambda>message s. finish_turn env message (push_new (Assistant message) s))))"

definition poll_follow_ups :: "'w agent_env \<Rightarrow> 'w run \<Rightarrow> 'w run" where
  "poll_follow_ups env s =
     or_fail (call_optional (en_getFollowUpMessages env) [] s)
       (\<lambda>followUpMessages s.
         if length followUpMessages > 0 then s\<lparr>rn_pending := followUpMessages, rn_hasMore := True\<rparr> else end_run env s)"

definition run_step :: "'w agent_env \<Rightarrow> 'w run \<Rightarrow> 'w run" where
  "run_step env s =
     if_running s (\<lambda>s. if rn_hasMore s \<or> length (rn_pending s) > 0 then run_turn env s else poll_follow_ups env s)"

text \<open>The run so far, after the given number of steps.\<close>

definition runLoop :: "'w agent_env \<Rightarrow> nat \<Rightarrow> 'w run \<Rightarrow> 'w run" where
  "runLoop env n s = (run_step env ^^ n) s"

definition new_run :: "agent_context \<Rightarrow> loop_config \<Rightarrow> agent_message list \<Rightarrow> 'w \<Rightarrow> 'w run" where
  "new_run context config prompts w = \<lparr>rn_world = w, rn_context = context\<lparr>ac_messages := ac_messages context @ prompts\<rparr>,
     rn_new = prompts, rn_events = [], rn_config = config, rn_firstTurn = True, rn_turnOpen = True, rn_hasMore = True,
     rn_pending = [], rn_status = Running, rn_asked = [], rn_prepared = [], rn_executed = []\<rparr>"

definition begin_loop :: "'w agent_env \<Rightarrow> 'w run \<Rightarrow> 'w run" where
  "begin_loop env s = or_fail (call_optional (en_getSteeringMessages env) [] s) (\<lambda>steering s. s\<lparr>rn_pending := steering\<rparr>)"

definition start_run :: "'w agent_env \<Rightarrow> agent_context \<Rightarrow> loop_config \<Rightarrow> agent_message list \<Rightarrow> 'w \<Rightarrow> 'w run" where
  "start_run env context config prompts w =
     begin_loop env (fold (\<lambda>prompt s. emit env (MessageEnd prompt) (emit env (MessageStart prompt) s)) prompts
       (emit env TurnStart (emit env AgentStart (new_run context config prompts w))))"

definition runAgentLoop :: "'w agent_env \<Rightarrow> nat \<Rightarrow> agent_message list \<Rightarrow> agent_context \<Rightarrow> loop_config \<Rightarrow> 'w \<Rightarrow> 'w run" where
  "runAgentLoop env n prompts context config w = runLoop env n (start_run env context config prompts w)"

definition not_continuable :: "agent_context \<Rightarrow> string option" where
  "not_continuable context = (if ac_messages context = [] then Some ''Cannot continue: no messages in context''
     else case last (ac_messages context) of Assistant _ \<Rightarrow> Some ''Cannot continue from message role: assistant'' | _ \<Rightarrow> None)"

definition runAgentLoopContinue :: "'w agent_env \<Rightarrow> nat \<Rightarrow> agent_context \<Rightarrow> loop_config \<Rightarrow> 'w \<Rightarrow> string + 'w run" where
  "runAgentLoopContinue env n context config w = (case not_continuable context of
     Some e \<Rightarrow> Inl e
   | None \<Rightarrow> Inr (runLoop env n (start_run env context config [] w)))"

section \<open>The event stream of a run\<close>

text \<open>A stream takes no event after the one that completes it.\<close>

definition stream_push :: "agent_event \<Rightarrow> agent_event list \<Rightarrow> agent_event list" where
  "stream_push event pushed = (if list_ex (\<lambda>e. case e of AgentEnd _ \<Rightarrow> True | _ \<Rightarrow> False) pushed then pushed else pushed @ [event])"

definition pushLoopFailure :: "'w agent_env \<Rightarrow> loop_config \<Rightarrow> string \<Rightarrow> bool \<Rightarrow> 'w \<Rightarrow> agent_event list \<Rightarrow> agent_event list" where
  "pushLoopFailure env config error aborted w pushed =
     (let failureMessage = createLoopFailureMessage env config error aborted w
      in fold stream_push [MessageStart (Assistant failureMessage), MessageEnd (Assistant failureMessage),
           TurnEnd failureMessage [], AgentEnd [Assistant failureMessage]] pushed)"

definition agentLoop :: "'w agent_env \<Rightarrow> nat \<Rightarrow> agent_message list \<Rightarrow> agent_context \<Rightarrow> loop_config \<Rightarrow> 'w \<Rightarrow> agent_event list" where
  "agentLoop env n prompts context config w =
     (let s = runAgentLoop env n prompts context config w; pushed = fold stream_push (rn_events s) []
      in case rn_status s of
           Failed e \<Rightarrow> pushLoopFailure env config e (en_aborted env (rn_world s)) (rn_world s) pushed
         | _ \<Rightarrow> pushed)"

definition agentLoopContinue :: "'w agent_env \<Rightarrow> nat \<Rightarrow> agent_context \<Rightarrow> loop_config \<Rightarrow> 'w \<Rightarrow> string + agent_event list" where
  "agentLoopContinue env n context config w = (case runAgentLoopContinue env n context config w of
     Inl e \<Rightarrow> Inl e
   | Inr s \<Rightarrow> Inr (let pushed = fold stream_push (rn_events s) [] in case rn_status s of
        Failed e \<Rightarrow> pushLoopFailure env config e (en_aborted env (rn_world s)) (rn_world s) pushed | _ \<Rightarrow> pushed))"

end
