(* ===== verification/AgentLoopProps.thy ===== *)
theory AgentLoopProps
  imports AgentLoop "HOL-Library.Multiset"
begin

text \<open>
  What the agent loop guarantees whatever the model, the tools and the hooks do: its events follow
  a protocol, the messages it returns are those it announced, the results of a batch come in the
  order of its calls however the tools interleave, the model is not asked again before its calls
  are answered, a tool only starts after its call was resolved, validated and not blocked, and an
  abort ends the run.
\<close>

section \<open>What the outside must keep\<close>

text \<open>An abort signal that has fired stays so; this is how \<^verbatim>\<open>AbortSignal\<close> is specified.\<close>

definition keeps :: "('w \<Rightarrow> bool) \<Rightarrow> ('w \<Rightarrow> 'a \<times> 'w) \<Rightarrow> bool" where
  "keeps P f \<longleftrightarrow> (\<forall>w. P w \<longrightarrow> P (snd (f w)))"

definition abort_is_final :: "'w agent_env \<Rightarrow> bool" where
  "abort_is_final env \<longleftrightarrow> (let ab = en_aborted env in
     (\<forall>e w. ab w \<longrightarrow> ab (en_emit env e w)) \<and>
     (\<forall>h m. en_transformContext env = Some h \<longrightarrow> keeps ab (h m)) \<and>
     (\<forall>m. keeps ab (en_convertToLlm env m)) \<and>
     (\<forall>h p. en_getApiKey env = Some h \<longrightarrow> keeps ab (h p)) \<and>
     (\<forall>h r. en_streamFn env = Some h \<longrightarrow> keeps ab (h r)) \<and>
     (\<forall>h r. en_runtimeStream env = Some h \<longrightarrow> keeps ab (h r)) \<and>
     (\<forall>h. en_getSteeringMessages env = Some h \<longrightarrow> keeps ab h) \<and>
     (\<forall>h. en_getFollowUpMessages env = Some h \<longrightarrow> keeps ab h) \<and>
     (\<forall>h i. en_prepareNextTurn env = Some h \<longrightarrow> keeps ab (h i)) \<and>
     (\<forall>h i. en_shouldStopAfterTurn env = Some h \<longrightarrow> keeps ab (h i)) \<and>
     (\<forall>h m c x. en_resolveDeferredTool env = Some h \<longrightarrow> keeps ab (h m c x)) \<and>
     (\<forall>h m c a x. en_beforeToolCall env = Some h \<longrightarrow> keeps ab (h m c a x)) \<and>
     (\<forall>t i a. keeps ab (en_execute env t i a)) \<and>
     (\<forall>h m c a r b x. en_afterToolCall env = Some h \<longrightarrow> keeps ab (h m c a r b x)) \<and>
     keeps ab (en_schedule env))"

text \<open>A call that may run: it is a call of the message, its tool has the name called, its prepared
  arguments were validated to those the tool gets, the hook before the call, where there is one, did
  not block it, and when it was let pass the run was not aborted.\<close>

definition passed :: "'w agent_env \<Rightarrow> 'w prepared_call \<Rightarrow> bool" where
  "passed env p \<longleftrightarrow>
     pc_call p \<in> set (message_calls (pc_message p)) \<and> at_name (pc_tool p) = ag_name (pc_call p) \<and>
     (\<exists>prepared. prepareToolCallArguments env (pc_tool p) (pc_call p) = Inr prepared \<and>
        en_validateToolArguments env (pc_tool p) prepared = Inr (pc_args p)) \<and>
     (case en_beforeToolCall env of
        None \<Rightarrow> pc_after p = pc_before p
      | Some h \<Rightarrow> (\<exists>result. h (pc_message p) (pc_call p) (pc_args p) (pc_context p) (pc_before p) = (Inr result, pc_after p) \<and>
          (\<forall>b. result = Some b \<longrightarrow> \<not> br_block b))) \<and>
     \<not> en_aborted env (pc_after p)"

text \<open>A tool that the run started for a call of one of its messages that had passed.\<close>

definition started_of :: "'w prepared_call \<Rightarrow> agent_tool \<times> agent_call \<times> js_value" where
  "started_of p = (pc_tool p, pc_call p, pc_args p)"

definition cleared :: "'w agent_env \<Rightarrow> 'w run \<Rightarrow> agent_tool \<times> agent_call \<times> js_value \<Rightarrow> bool" where
  "cleared env s x \<longleftrightarrow> (\<exists>p \<in> set (rn_prepared s). started_of p = x \<and> passed env p \<and> Assistant (pc_message p) \<in> set (rn_new s))"

section \<open>Steps that only concern tools\<close>

text \<open>The invariant behind it, over the messages of the run, the calls prepared and the tools started.\<close>

definition clear_log :: "'w agent_env \<Rightarrow> agent_message set \<Rightarrow> 'w prepared_call list \<Rightarrow> (agent_tool \<times> agent_call \<times> js_value) list \<Rightarrow> bool" where
  "clear_log env new prepared executed \<longleftrightarrow>
     (\<forall>p \<in> set prepared. passed env p \<and> Assistant (pc_message p) \<in> new) \<and> set executed \<subseteq> started_of ` set prepared"

lemma clear_log_simps [simp]: "clear_log env new [] []"
  by (simp add: clear_log_def)

lemma clear_log_new [intro]:
  "clear_log env new P E \<Longrightarrow> clear_log env (insert m new) P E" "clear_log env new P E \<Longrightarrow> clear_log env (new \<union> ms) P E"
  by (auto simp: clear_log_def)

lemma clear_log_cleared: "clear_log env (set (rn_new s)) (rn_prepared s) (rn_executed s) \<Longrightarrow> list_all (cleared env s) (rn_executed s)"
  by (fastforce simp: clear_log_def cleared_def list_all_iff)

abbreviation clear :: "'w agent_env \<Rightarrow> 'w run \<Rightarrow> bool" where
  "clear env s \<equiv> clear_log env (set (rn_new s)) (rn_prepared s) (rn_executed s)"

definition core :: "'w run \<Rightarrow> _" where
  "core s = (rn_new s, ac_messages (rn_context s), rn_config s, rn_firstTurn s, rn_turnOpen s, rn_hasMore s,
     rn_pending s, rn_status s, rn_asked s)"

fun ended_messages :: "agent_event list \<Rightarrow> agent_message list" where
  "ended_messages [] = []"
| "ended_messages (MessageEnd m # evs) = m # ended_messages evs"
| "ended_messages (_ # evs) = ended_messages evs"

lemma ended_append [simp]: "ended_messages (xs @ ys) = ended_messages xs @ ended_messages ys"
  by (induction xs rule: ended_messages.induct) simp_all

abbreviation still_aborted :: "'w agent_env \<Rightarrow> 'w run \<Rightarrow> 'w run \<Rightarrow> bool" where
  "still_aborted env s s' \<equiv> abort_is_final env \<longrightarrow> en_aborted env (rn_world s) \<longrightarrow> en_aborted env (rn_world s')"

definition quiet :: "'w agent_env \<Rightarrow> 'w run \<Rightarrow> 'w run \<Rightarrow> bool" where
  "quiet env s s' \<longleftrightarrow> core s' = core s \<and> still_aborted env s s' \<and>
     set (rn_prepared s) \<subseteq> set (rn_prepared s') \<and> (clear env s \<longrightarrow> clear env s')"

lemma quiet_refl [simp]: "quiet env s s"
  by (simp add: quiet_def)

lemma quiet_new: "quiet env s s' \<Longrightarrow> rn_new s' = rn_new s"
  by (simp add: quiet_def core_def)

lemma quiet_prepared: "quiet env s s' \<Longrightarrow> x \<in> f ` set (rn_prepared s) \<Longrightarrow> x \<in> f ` set (rn_prepared s')"
  by (auto simp: quiet_def)

lemma quiet_trans [trans]: "quiet env s s1 \<Longrightarrow> quiet env s1 s2 \<Longrightarrow> quiet env s s2"
  unfolding quiet_def by (elim conjE) (intro conjI impI; (blast | simp))

lemma emit_simps [simp]:
  "rn_events (emit env e s) = rn_events s @ [e]" "core (emit env e s) = core s" "rn_executed (emit env e s) = rn_executed s"
  "rn_prepared (emit env e s) = rn_prepared s"
  "rn_context (emit env e s) = rn_context s" "rn_new (emit env e s) = rn_new s" "rn_config (emit env e s) = rn_config s"
  "rn_status (emit env e s) = rn_status s" "rn_turnOpen (emit env e s) = rn_turnOpen s" "rn_firstTurn (emit env e s) = rn_firstTurn s"
  "rn_hasMore (emit env e s) = rn_hasMore s" "rn_pending (emit env e s) = rn_pending s" "rn_asked (emit env e s) = rn_asked s"
  "rn_world (emit env e s) = en_emit env e (rn_world s)"
  by (simp_all add: emit_def core_def)

lemma emit_quiet: "quiet env s (emit env e s)"
  by (simp add: quiet_def abort_is_final_def Let_def)

lemma call_optional_effect:
  assumes "call_optional h d s = (r, s')"
  shows "\<exists>w. s' = s\<lparr>rn_world := w\<rparr> \<and> ((\<forall>f. h = Some f \<longrightarrow> keeps P f) \<longrightarrow> P (rn_world s) \<longrightarrow> P w)"
proof (cases h)
  case None
  with assms show ?thesis by (intro exI [of _ "rn_world s"]) (simp add: call_optional_def)
next
  case (Some f)
  with assms show ?thesis
    by (intro exI [of _ "snd (f (rn_world s))"]) (auto simp: call_optional_def call_hook_def keeps_def case_prod_beta)
qed

lemma quiet_world:
  "(abort_is_final env \<longrightarrow> en_aborted env (rn_world s) \<longrightarrow> en_aborted env w) \<Longrightarrow> quiet env s (s\<lparr>rn_world := w\<rparr>)"
  by (simp add: quiet_def core_def)

lemma call_optional_quiet:
  assumes "call_optional h d s = (r, s')" "abort_is_final env \<longrightarrow> (\<forall>f. h = Some f \<longrightarrow> keeps (en_aborted env) f)"
  shows "quiet env s s' \<and> rn_events s' = rn_events s \<and> rn_context s' = rn_context s"
  using call_optional_effect [OF assms(1), of "en_aborted env"] assms(2) quiet_world by fastforce

lemma resolve_tool_quiet:
  assumes "resolveToolCallTool env m ic res s = (r, res', s')"
  shows "quiet env s s' \<and> rn_events s' = rn_events s"
proof -
  let ?h = "map_option (\<lambda>h. h m (snd ic) (rn_context s)) (en_resolveDeferredTool env)"
  obtain x s1 where x: "call_optional ?h None s = (x, s1)" by (metis surj_pair)
  have one: "quiet env s s1 \<and> rn_events s1 = rn_events s \<and> rn_context s1 = rn_context s"
    by (rule call_optional_quiet [OF x]) (auto simp: abort_is_final_def Let_def)
  have tools: "quiet env s1 (s1\<lparr>rn_context := (rn_context s1)\<lparr>ac_tools := ts\<rparr>\<rparr>)" for ts
    by (simp add: quiet_def core_def)
  consider "s' = s" | "s' = s1" | ts where "s' = s1\<lparr>rn_context := (rn_context s1)\<lparr>ac_tools := ts\<rparr>\<rparr>"
  proof (cases "map_of res (fst ic)")
    case (Some r)
    with assms that(1) show ?thesis by (simp add: resolveToolCallTool_def)
  next
    case none: None
    show ?thesis
    proof (cases "find_tool (rn_context s) (ag_name (snd ic))")
      case (Some t)
      with none assms that(1) show ?thesis by (simp add: resolveToolCallTool_def)
    next
      case None
      consider e where "x = Inl e" | "x = Inr None" | t where "x = Inr (Some t)" by (metis option.exhaust sum.exhaust)
      then show ?thesis
        using none None assms that(2,3)
        by cases (simp_all add: resolveToolCallTool_def x split: if_splits, blast)
    qed
  qed
  then show ?thesis using one quiet_trans [OF _ tools] by cases auto
qed

section \<open>Preparing a call\<close>

definition valid_call :: "agent_call list \<Rightarrow> indexed_call \<Rightarrow> bool" where
  "valid_call calls ic \<longleftrightarrow> fst ic < length calls \<and> calls ! fst ic = snd ic"

definition resolved_sound :: "agent_call list \<Rightarrow> resolved_calls \<Rightarrow> bool" where
  "resolved_sound calls res \<longleftrightarrow>
     (\<forall>i t. map_of res i = Some (Resolved (Some t)) \<longrightarrow> i < length calls \<longrightarrow> at_name t = ag_name (calls ! i))"

lemma find_tool_name: "find_tool ctx name = Some t \<Longrightarrow> at_name t = name"
  by (auto simp: find_tool_def dest: find_Some_mem split: option.splits)

lemma resolve_tool_sound:
  assumes "resolveToolCallTool env m ic res s = (r, res', s')" "valid_call calls ic" "resolved_sound calls res"
  shows "resolved_sound calls res' \<and> (\<forall>t. r = Resolved (Some t) \<longrightarrow> at_name t = ag_name (snd ic))"
proof (cases "map_of res (fst ic)")
  case (Some x)
  with assms show ?thesis by (auto simp: resolveToolCallTool_def resolved_sound_def valid_call_def)
next
  case None
  with assms(1) have "\<forall>t. r = Resolved (Some t) \<longrightarrow> at_name t = ag_name (snd ic)" "res' = map_set (fst ic) r res"
    by (auto simp: resolveToolCallTool_def Let_def find_tool_name split: option.splits sum.splits prod.splits if_splits)
  with assms(2,3) show ?thesis by (auto simp: resolved_sound_def valid_call_def)
qed

lemma note_prepared_simps [simp]:
  "rn_events (note_prepared m c t a s1 s2) = rn_events s2" "rn_new (note_prepared m c t a s1 s2) = rn_new s2"
  "rn_world (note_prepared m c t a s1 s2) = rn_world s2" "rn_executed (note_prepared m c t a s1 s2) = rn_executed s2"
  "core (note_prepared m c t a s1 s2) = core s2"
  by (simp_all add: note_prepared_def core_def)

lemma clear_log_prepared:
  "clear_log env new P E \<Longrightarrow> passed env p \<Longrightarrow> Assistant (pc_message p) \<in> new \<Longrightarrow> clear_log env new (P @ [p]) E"
  by (auto simp: clear_log_def)

lemma note_prepared_quiet:
  assumes "quiet env s s2" "passed env \<lparr>pc_message = m, pc_call = c, pc_tool = t, pc_args = a, pc_context = rn_context s1,
      pc_before = rn_world s1, pc_after = rn_world s2\<rparr>" (is "passed env ?p") and "Assistant m \<in> set (rn_new s)"
  shows "quiet env s (note_prepared m c t a s1 s2) \<and> (t, c, a) \<in> started_of ` set (rn_prepared (note_prepared m c t a s1 s2))"
proof -
  let ?n = "note_prepared m c t a s1 s2"
  have n: "rn_prepared ?n = rn_prepared s2 @ [?p]" by (simp add: note_prepared_def)
  have "clear env s2 \<longrightarrow> clear env ?n"
    using clear_log_prepared [OF _ assms(2)] assms(3) quiet_new [OF assms(1)] by (simp add: n)
  then have "quiet env s2 ?n" unfolding quiet_def n by auto
  then show ?thesis using quiet_trans [OF assms(1)] by (auto simp: n started_of_def)
qed

lemma prepare_quiet:
  assumes "prepareToolCall env m ic res s = (p, res', s')" "valid_call calls ic" "resolved_sound calls res"
    "calls = message_calls m" "Assistant m \<in> set (rn_new s)"
  shows "quiet env s s' \<and> rn_events s' = rn_events s \<and> resolved_sound calls res' \<and>
    (\<forall>t a. p = Prepared t a \<longrightarrow> (t, snd ic, a) \<in> started_of ` set (rn_prepared s'))"
proof -
  obtain r r1 s1 where r: "resolveToolCallTool env m ic res s = (r, r1, s1)" by (metis prod_cases3)
  note one = resolve_tool_quiet [OF r] and sound = resolve_tool_sound [OF r assms(2,3)]
  show ?thesis
  proof (cases "\<exists>t pc a. r = Resolved (Some t) \<and> prepareToolCallArguments env t (snd ic) = Inr pc \<and>
      en_validateToolArguments env t pc = Inr a")
    case False
    consider e where "r = ResolutionError e" | "r = Resolved None" | t where "r = Resolved (Some t)"
      by (metis resolution.exhaust option.exhaust)
    then show ?thesis
    proof cases
      case (3 t)
      with False consider e where "prepareToolCallArguments env t (snd ic) = Inl e"
        | pc e where "prepareToolCallArguments env t (snd ic) = Inr pc" "en_validateToolArguments env t pc = Inl e"
        by (metis sum.exhaust)
      then show ?thesis using assms(1) one sound 3 by cases (auto simp: prepareToolCall_def Let_def r)
    qed (use assms(1) one sound in \<open>auto simp: prepareToolCall_def Let_def r\<close>)
  next
    case True
    then obtain t pc a where t: "r = Resolved (Some t)" "prepareToolCallArguments env t (snd ic) = Inr pc"
      "en_validateToolArguments env t pc = Inr a" by blast
    let ?h = "map_option (\<lambda>h. h m (snd ic) a (rn_context s1)) (en_beforeToolCall env)"
    obtain b s2 where b: "call_optional ?h None s1 = (b, s2)" by (metis surj_pair)
    have two: "quiet env s1 s2 \<and> rn_events s2 = rn_events s1 \<and> rn_context s2 = rn_context s1"
      by (rule call_optional_quiet [OF b]) (auto simp: abort_is_final_def Let_def)
    have eq: "prepareToolCall env m ic res s = (case b of
        Inl e \<Rightarrow> (Immediate (createErrorToolResult e) False, r1, s2)
      | Inr x \<Rightarrow> if en_aborted env (rn_world s2) then (Immediate (createErrorToolResult ''Operation aborted'') False, r1, s2)
          else (case x of
            Some b \<Rightarrow> if br_block b then
                (Immediate (createErrorToolResult (case br_reason b of Some r \<Rightarrow> if r \<noteq> [] then r else ''Tool execution was blocked''
                   | None \<Rightarrow> ''Tool execution was blocked'')) False, r1, s2)
              else (Prepared t a, r1, note_prepared m (snd ic) t a s1 s2)
          | None \<Rightarrow> (Prepared t a, r1, note_prepared m (snd ic) t a s1 s2)))"
      unfolding prepareToolCall_def Let_def r by (simp add: t b)
    have q: "quiet env s s2" "rn_events s2 = rn_events s" using one two quiet_trans [of env s s1 s2] by auto
    consider (refused) x y where "p = Immediate x y" "s' = s2" "res' = r1"
      | (let_pass) x where "b = Inr x" "\<not> en_aborted env (rn_world s2)" "\<forall>y. x = Some y \<longrightarrow> \<not> br_block y"
        "p = Prepared t a" "s' = note_prepared m (snd ic) t a s1 s2" "res' = r1"
      using assms(1) unfolding eq by (cases b) (auto split: if_splits option.splits)
    then show ?thesis
    proof cases
      case refused
      with q sound show ?thesis by simp
    next
      case let_pass
      have "case en_beforeToolCall env of None \<Rightarrow> rn_world s2 = rn_world s1
        | Some h \<Rightarrow> \<exists>result. h m (snd ic) a (rn_context s1) (rn_world s1) = (Inr result, rn_world s2) \<and> (\<forall>b. result = Some b \<longrightarrow> \<not> br_block b)"
      proof (cases "en_beforeToolCall env")
        case None
        with b show ?thesis by (simp add: call_optional_def)
      next
        case (Some h)
        with b let_pass(1) have "h m (snd ic) a (rn_context s1) (rn_world s1) = (Inr x, rn_world s2)"
          by (auto simp: call_optional_def call_hook_def case_prod_beta prod_eq_iff)
        with Some let_pass(3) show ?thesis by auto
      qed
      moreover have "snd ic \<in> set (message_calls m)" using assms(2,4) nth_mem by (fastforce simp: valid_call_def)
      ultimately have "passed env \<lparr>pc_message = m, pc_call = snd ic, pc_tool = t, pc_args = a, pc_context = rn_context s1,
          pc_before = rn_world s1, pc_after = rn_world s2\<rparr>"
        using t sound let_pass(2) by (cases "en_beforeToolCall env") (simp_all add: passed_def)
      from note_prepared_quiet [OF q(1) this assms(5)] let_pass q(2) sound show ?thesis by auto
    qed
  qed
qed

lemma start_tool_quiet:
  assumes "start_tool env call tool args s = (r, s')" "(tool, call, args) \<in> started_of ` set (rn_prepared s)"
  shows "quiet env s s' \<and> rn_events s' = rn_events s"
  using assms by (auto simp: start_tool_def case_prod_beta quiet_def core_def abort_is_final_def Let_def keeps_def clear_log_def)

lemma finalize_quiet:
  assumes "finalizeExecutedToolCall env m call tool args ex s = (f, s')"
  shows "quiet env s s' \<and> rn_events s' = rn_events s \<and> fz_call f = call"
proof -
  obtain result e where ex: "ex = (result, e)" by (cases ex)
  obtain r s1 where r: "call_optional (map_option (\<lambda>h. h m call args result e (rn_context s)) (en_afterToolCall env)) None s = (r, s1)"
    by (metis surj_pair)
  have "quiet env s s1 \<and> rn_events s1 = rn_events s \<and> rn_context s1 = rn_context s"
    by (rule call_optional_quiet [OF r]) (auto simp: abort_is_final_def Let_def)
  with assms show ?thesis by (auto simp: finalizeExecutedToolCall_def ex r case_prod_beta Let_def)
qed

section \<open>The protocol of events\<close>

text \<open>The phase of a run after its events: between turns, within one while the given calls run,
  within a message. A message that a provider announces anew is restarted.\<close>

datatype phase = NotStarted | BetweenTurns | InTurn "string multiset" | InMessage | Ended | Broken

fun protocol :: "phase \<Rightarrow> agent_event \<Rightarrow> phase" where
  "protocol NotStarted AgentStart = BetweenTurns"
| "protocol BetweenTurns TurnStart = InTurn {#}"
| "protocol BetweenTurns (AgentEnd _) = Ended"
| "protocol (InTurn running) (MessageStart _) = (if running = {#} then InMessage else Broken)"
| "protocol (InTurn running) (TurnEnd _ _) = (if running = {#} then BetweenTurns else Broken)"
| "protocol (InTurn running) (ToolExecutionStart i _ _ _) = InTurn (add_mset i running)"
| "protocol (InTurn running) (ToolExecutionUpdate i _ _ _ _) = (if i \<in># running then InTurn running else Broken)"
| "protocol (InTurn running) (ToolExecutionEnd i _ _ _ _ _ _) = (if i \<in># running then InTurn (running - {#i#}) else Broken)"
| "protocol InMessage (MessageStart _) = InMessage"
| "protocol InMessage (MessageUpdate _ _) = InMessage"
| "protocol InMessage (MessageEnd _) = InTurn {#}"
| "protocol _ _ = Broken"

definition phase_of :: "agent_event list \<Rightarrow> phase" where
  "phase_of evs = foldl protocol NotStarted evs"

lemma phase_of_append [simp]: "phase_of (evs @ evs') = foldl protocol (phase_of evs) evs'"
  by (simp add: phase_of_def)

abbreviation phase :: "'w run \<Rightarrow> phase" where
  "phase s \<equiv> phase_of (rn_events s)"

lemma emit_start_effect:
  "phase s = InTurn r \<Longrightarrow> phase (emit_start env ic res s) = InTurn (add_mset (ag_id (snd ic)) r)"
  "quiet env s (emit_start env ic res s)"
  "ended_messages (rn_events (emit_start env ic res s)) = ended_messages (rn_events s)"
  by (simp_all add: emit_start_def emit_quiet)

lemma emit_end_effect:
  "phase s = InTurn (add_mset (ag_id (fz_call f)) r) \<Longrightarrow> phase (emitToolExecutionEnd env f s) = InTurn r"
  "quiet env s (emitToolExecutionEnd env f s)"
  "ended_messages (rn_events (emitToolExecutionEnd env f s)) = ended_messages (rn_events s)"
  by (simp_all add: emitToolExecutionEnd_def emit_quiet)

lemma emit_update_effect:
  "phase s = InTurn r \<Longrightarrow> ag_id call \<in># r \<Longrightarrow> phase (emit_update env call tool u s) = InTurn r"
  "quiet env s (emit_update env call tool u s)"
  "ended_messages (rn_events (emit_update env call tool u s)) = ended_messages (rn_events s)"
  by (simp_all add: emit_update_def emit_quiet)

lemma emit_result_effect:
  "phase s = InTurn {#} \<Longrightarrow> phase (emitToolResultMessage env m s) = InTurn {#}"
  "quiet env s (emitToolResultMessage env m s)"
  "ended_messages (rn_events (emitToolResultMessage env m s)) = ended_messages (rn_events s) @ [ToolResult m]"
  using quiet_trans [OF emit_quiet emit_quiet] by (simp_all add: emitToolResultMessage_def)

lemma emit_updates_effect:
  "quiet env s (fold (emit_update env call tool) us s) \<and>
   ended_messages (rn_events (fold (emit_update env call tool) us s)) = ended_messages (rn_events s) \<and>
   (phase s = InTurn r \<longrightarrow> ag_id call \<in># r \<longrightarrow> phase (fold (emit_update env call tool) us s) = InTurn r)"
proof (induction us arbitrary: s)
  case (Cons u us)
  note one = emit_update_effect [where s = s and env = env and call = call and tool = tool and u = u]
  from Cons [of "emit_update env call tool u s"] one quiet_trans [OF one(2)] show ?case by auto
qed simp

section \<open>Batches\<close>

definition call_key :: "agent_call \<Rightarrow> string \<times> string" where
  "call_key c = (ag_id c, ag_name c)"

definition result_key :: "result_message \<Rightarrow> string \<times> string" where
  "result_key r = (rm_toolCallId r, rm_toolName r)"

lemma result_key_create [simp]: "result_key (createToolResultMessage env f w) = call_key (fz_call f)"
  by (simp add: result_key_def call_key_def createToolResultMessage_def)

text \<open>A batch answers its calls in their order: all of them, or the first ones if it was aborted
  (an abort seen while the calls were prepared is still there at the end if it is final).\<close>

definition answers :: "'w agent_env \<Rightarrow> agent_call list \<Rightarrow> result_message list \<Rightarrow> 'w run \<Rightarrow> bool" where
  "answers env calls results s \<longleftrightarrow> length results \<le> length calls \<and>
     map result_key results = take (length results) (map call_key calls) \<and>
     (abort_is_final env \<longrightarrow> length results < length calls \<longrightarrow> en_aborted env (rn_world s))"

lemma execute_prepared_effect:
  assumes "executePreparedToolCall env call tool args s = (ex, s')" "(tool, call, args) \<in> started_of ` set (rn_prepared s)"
    "phase s = InTurn r" "ag_id call \<in># r"
  shows "quiet env s s' \<and> phase s' = InTurn r \<and> ended_messages (rn_events s') = ended_messages (rn_events s)"
proof -
  obtain us out s1 where st: "start_tool env call tool args s = ((us, out), s1)" by (metis surj_pair)
  from start_tool_quiet [OF st assms(2)] have one: "quiet env s s1" "rn_events s1 = rn_events s" by auto
  have "s' = fold (emit_update env call tool) us s1"
    using assms(1) by (simp add: executePreparedToolCall_def st)
  with emit_updates_effect [of env s1 call tool us r] one assms(3,4) quiet_trans [OF one(1)] show ?thesis by auto
qed

lemma run_sequential_ok:
  assumes "run_sequential env m ics res fs ms s = (fs', ms', s')" "phase s = InTurn {#}"
    "\<forall>ic \<in> set ics. valid_call calls ic" "resolved_sound calls res" "calls = message_calls m" "Assistant m \<in> set (rn_new s)"
  shows "quiet env s s' \<and> phase s' = InTurn {#} \<and> (\<exists>new. ms' = ms @ new \<and> answers env (map snd ics) new s' \<and>
    ended_messages (rn_events s') = ended_messages (rn_events s) @ map ToolResult new)"
  using assms
proof (induction ics arbitrary: res fs ms s)
  case Nil
  then show ?case by (simp add: answers_def)
next
  case (Cons ic ics)
  let ?hide = "hidesToolCallFromChannelProgress (rn_context s) ic res"
  let ?s0 = "emit_start env ic res s"
  note st = emit_start_effect [where s = s and env = env and ic = ic and res = res]
  have s0: "phase ?s0 = InTurn {#ag_id (snd ic)#}" using st(1) [OF Cons.prems(2)] by simp
  obtain p res1 s1 where p: "prepareToolCall env m ic res ?s0 = (p, res1, s1)" by (metis prod_cases3)
  have v: "valid_call calls ic" using Cons.prems(3) by simp
  have new: "Assistant m \<in> set (rn_new ?s0)" using Cons.prems(6) by (simp add: emit_start_def)
  note one = prepare_quiet [OF p v Cons.prems(4,5) new]
  define fin where "fin = (case p of
       Immediate result validation \<Rightarrow> (immediate_call (snd ic) result validation ?hide, s1)
     | Prepared tool args \<Rightarrow>
        let (executed, s') = executePreparedToolCall env (snd ic) tool args s1
        in finalizeExecutedToolCall env m (snd ic) tool args executed s')"
  obtain f s2 where f: "fin = (f, s2)" by (cases fin)
  have two: "quiet env s1 s2 \<and> phase s2 = phase s1 \<and> ended_messages (rn_events s2) = ended_messages (rn_events s1) \<and> fz_call f = snd ic"
  proof (cases p)
    case (Prepared t a)
    obtain ex s'' where ex: "executePreparedToolCall env (snd ic) t a s1 = (ex, s'')" by (metis surj_pair)
    have "phase s1 = InTurn {#ag_id (snd ic)#}" using one s0 by simp
    then have "quiet env s1 s'' \<and> phase s'' = InTurn {#ag_id (snd ic)#} \<and> ended_messages (rn_events s'') = ended_messages (rn_events s1)"
      using execute_prepared_effect [OF ex] one Prepared by simp
    moreover have "finalizeExecutedToolCall env m (snd ic) t a ex s'' = (f, s2)" using f by (simp add: fin_def Prepared ex)
    from finalize_quiet [OF this] have "quiet env s'' s2" "rn_events s2 = rn_events s''" "fz_call f = snd ic" by auto
    ultimately show ?thesis using quiet_trans [of env s1 s'' s2] \<open>phase s1 = _\<close> by simp
  next
    case (Immediate x y)
    with f show ?thesis by (auto simp: fin_def immediate_call_def)
  qed
  let ?s3 = "emitToolExecutionEnd env f s2"
  note en = emit_end_effect [where s = s2 and env = env and f = f]
  let ?r = "createToolResultMessage env f (rn_world ?s3)"
  let ?s4 = "emitToolResultMessage env ?r ?s3"
  note re = emit_result_effect [where s = ?s3 and env = env and m = ?r]
  have "phase s2 = InTurn (add_mset (ag_id (fz_call f)) {#})" using two one s0 by simp
  from re(1) [OF en(1) [OF this]] have ph: "phase ?s4 = InTurn {#}" .
  have q: "quiet env s ?s4"
    using quiet_trans [OF quiet_trans [OF quiet_trans [OF quiet_trans [OF st(2)]]] re(2)] one two en(2) by blast
  have ends: "ended_messages (rn_events ?s4) = ended_messages (rn_events s) @ [ToolResult ?r]"
    using re(3) en(3) one two st(3) by simp
  have step: "run_sequential env m (ic # ics) res fs ms s =
      (if en_aborted env (rn_world ?s4) then (fs @ [f], ms @ [?r], ?s4)
       else run_sequential env m ics res1 (fs @ [f]) (ms @ [?r]) ?s4)"
    using f by (simp add: p fin_def [symmetric] Let_def)
  have key: "result_key ?r = call_key (snd ic)" using two by simp
  show ?case
  proof (cases "en_aborted env (rn_world ?s4)")
    case True
    with Cons.prems(1) step have "ms' = ms @ [?r]" "s' = ?s4" by simp_all
    then show ?thesis using q ph ends key True by (auto simp: answers_def)
  next
    case False
    with Cons.prems(1) step have "run_sequential env m ics res1 (fs @ [f]) (ms @ [?r]) ?s4 = (fs', ms', s')" by simp
    from Cons.IH [OF this ph _ _ Cons.prems(5)] Cons.prems(3,6) one quiet_new [OF q] obtain new where new: "quiet env ?s4 s'" "phase s' = InTurn {#}"
      "ms' = ms @ [?r] @ new" "answers env (map snd ics) new s'"
      "ended_messages (rn_events s') = ended_messages (rn_events ?s4) @ map ToolResult new" by auto
    then have "answers env (map snd (ic # ics)) (?r # new) s'" using key by (simp add: answers_def)
    then show ?thesis using new ends quiet_trans [OF q new(1)] by (intro conjI exI [of _ "?r # new"]) simp_all
  qed
qed

text \<open>Concurrent batches: the calls of the entries, and the ids of those still running.\<close>

fun entry_call :: "call_entry \<Rightarrow> agent_call" where
  "entry_call (Settled f) = fz_call f"
| "entry_call (Unstarted c t a) = c"
| "entry_call (Executing c t a us out) = c"
| "entry_call (Hooked f) = fz_call f"

fun entry_running :: "call_entry \<Rightarrow> string multiset" where
  "entry_running (Settled f) = {#}"
| "entry_running e = {#ag_id (entry_call e)#}"

definition running_ids :: "call_entry list \<Rightarrow> string multiset" where
  "running_ids entries = (\<Sum>e \<leftarrow> entries. entry_running e)"

fun entry_prepared :: "'w run \<Rightarrow> call_entry \<Rightarrow> bool" where
  "entry_prepared s (Settled f) = True"
| "entry_prepared s (Unstarted c t a) \<longleftrightarrow> (t, c, a) \<in> started_of ` set (rn_prepared s)"
| "entry_prepared s e = False"

fun entry_launched :: "call_entry \<Rightarrow> bool" where
  "entry_launched (Unstarted c t a) = False"
| "entry_launched e = True"

lemma entry_prepared_mono: "quiet env s s' \<Longrightarrow> entry_prepared s e \<Longrightarrow> entry_prepared s' e"
  by (cases e) (simp_all add: quiet_prepared)

lemma running_ids_simps [simp]:
  "running_ids [] = {#}" "running_ids (e # es) = entry_running e + running_ids es"
  "running_ids (es @ es') = running_ids es + running_ids es'"
  by (simp_all add: running_ids_def)

lemma running_ids_update:
  assumes "i < length es"
  shows "\<exists>rest. running_ids es = entry_running (es ! i) + rest \<and> running_ids (es[i := e]) = entry_running e + rest"
  using assms
proof (induction es arbitrary: i)
  case (Cons x es)
  show ?case
  proof (cases i)
    case 0
    then show ?thesis by auto
  next
    case (Suc j)
    with Cons obtain rest where "running_ids es = entry_running (es ! j) + rest" "running_ids (es[j := e]) = entry_running e + rest"
      by fastforce
    then have "running_ids (x # es) = entry_running ((x # es) ! i) + (entry_running x + rest)"
      "running_ids ((x # es)[i := e]) = entry_running e + (entry_running x + rest)" using Suc by simp_all
    then show ?thesis by blast
  qed
qed simp

lemma start_parallel_ok:
  assumes "start_parallel env m ics res es s = (es', s')" "phase s = InTurn (running_ids es)"
    "\<forall>ic \<in> set ics. valid_call calls ic" "resolved_sound calls res" "calls = message_calls m" "Assistant m \<in> set (rn_new s)"
    "\<forall>e \<in> set es. entry_prepared s e"
  shows "quiet env s s' \<and> phase s' = InTurn (running_ids es') \<and> ended_messages (rn_events s') = ended_messages (rn_events s) \<and>
    (\<forall>e \<in> set es'. entry_prepared s' e) \<and>
    (\<exists>new. es' = es @ new \<and> length new \<le> length ics \<and> map entry_call new = take (length new) (map snd ics) \<and>
       (length new < length ics \<longrightarrow> en_aborted env (rn_world s')))"
  using assms
proof (induction ics arbitrary: res es s)
  case Nil
  then show ?case by simp
next
  case (Cons ic ics)
  let ?hide = "hidesToolCallFromChannelProgress (rn_context s) ic res"
  let ?s0 = "emit_start env ic res s"
  note st = emit_start_effect [where s = s and env = env and ic = ic and res = res]
  have s0: "phase ?s0 = InTurn (add_mset (ag_id (snd ic)) (running_ids es))" by (rule st(1) [OF Cons.prems(2)])
  obtain p res1 s1 where p: "prepareToolCall env m ic res ?s0 = (p, res1, s1)" by (metis prod_cases3)
  have v: "valid_call calls ic" using Cons.prems(3) by simp
  have new: "Assistant m \<in> set (rn_new ?s0)" using Cons.prems(6) by (simp add: emit_start_def)
  note one = prepare_quiet [OF p v Cons.prems(4,5) new]
  define ent where "ent = (case p of
      Immediate result validation \<Rightarrow>
        let finalized = immediate_call (snd ic) result validation ?hide
        in (Settled finalized, emitToolExecutionEnd env finalized s1)
    | Prepared tool args \<Rightarrow> (Unstarted (snd ic) tool args, s1))"
  obtain e s2 where e: "ent = (e, s2)" by (cases ent)
  have two: "quiet env s1 s2 \<and> phase s2 = InTurn (running_ids (es @ [e])) \<and> entry_prepared s2 e \<and>
    ended_messages (rn_events s2) = ended_messages (rn_events s1) \<and> entry_call e = snd ic"
  proof (cases p)
    case (Prepared t a)
    with e one s0 show ?thesis by (auto simp: ent_def)
  next
    case (Immediate x y)
    then have "e = Settled (immediate_call (snd ic) x y ?hide)" "s2 = emitToolExecutionEnd env (immediate_call (snd ic) x y ?hide) s1"
      using e by (auto simp: ent_def Let_def)
    moreover have "phase s1 = InTurn (add_mset (ag_id (fz_call (immediate_call (snd ic) x y ?hide))) (running_ids es))"
      using one s0 by (simp add: immediate_call_def)
    ultimately show ?thesis using emit_end_effect [where s = s1 and f = "immediate_call (snd ic) x y ?hide"] by (simp add: immediate_call_def)
  qed
  have q: "quiet env s s2" using quiet_trans [OF quiet_trans [OF st(2)]] one two by blast
  have ends: "ended_messages (rn_events s2) = ended_messages (rn_events s)" using st(3) one two by simp
  have step: "start_parallel env m (ic # ics) res es s =
      (if en_aborted env (rn_world s2) then (es @ [e], s2) else start_parallel env m ics res1 (es @ [e]) s2)"
    using e by (simp add: p ent_def [symmetric] Let_def)
  have prep: "\<forall>x \<in> set (es @ [e]). entry_prepared s2 x" using Cons.prems(7) two entry_prepared_mono [OF q] by simp
  show ?case
  proof (cases "en_aborted env (rn_world s2)")
    case True
    with Cons.prems(1) step have "es' = es @ [e]" "s' = s2" by simp_all
    then show ?thesis using q two ends prep True by auto
  next
    case False
    with Cons.prems(1) step have "start_parallel env m ics res1 (es @ [e]) s2 = (es', s')" by simp
    from Cons.IH [OF this _ _ _ Cons.prems(5) _ prep] two one Cons.prems(3,6) quiet_new [OF q] obtain new where new: "quiet env s2 s'" "phase s' = InTurn (running_ids es')"
      "ended_messages (rn_events s') = ended_messages (rn_events s2)" "\<forall>e \<in> set es'. entry_prepared s' e"
      "es' = es @ [e] @ new" "length new \<le> length ics" "map entry_call new = take (length new) (map snd ics)"
      "length new < length ics \<longrightarrow> en_aborted env (rn_world s')" by auto
    then show ?thesis using two ends quiet_trans [OF q new(1)] by (intro conjI exI [of _ "e # new"]) simp_all
  qed
qed

lemma launch_ok:
  assumes "launch env es s = (es', s')" "\<forall>e \<in> set es. entry_prepared s e"
  shows "quiet env s s' \<and> rn_events s' = rn_events s \<and> running_ids es' = running_ids es \<and>
    map entry_call es' = map entry_call es \<and> (\<forall>e \<in> set es'. entry_launched e)"
  using assms
proof (induction es arbitrary: es' s s')
  case (Cons e es)
  define r where "r = (case e of
      Unstarted call tool args \<Rightarrow>
        let ((updates, outcome), s') = start_tool env call tool args s in (Executing call tool args updates outcome, s')
    | _ \<Rightarrow> (e, s))"
  obtain e1 s1 where r1: "r = (e1, s1)" by (cases r)
  obtain es2 s2 where es2: "launch env es s1 = (es2, s2)" by (metis surj_pair)
  have "launch env (e # es) s = (e1 # es2, s2)" using r1 es2 by (simp add: r_def [symmetric] Let_def)
  with Cons.prems(1) have res: "es' = e1 # es2" "s' = s2" by simp_all
  have one: "quiet env s s1 \<and> rn_events s1 = rn_events s \<and> entry_running e1 = entry_running e \<and> entry_call e1 = entry_call e \<and> entry_launched e1"
  proof (cases e)
    case (Unstarted c t a)
    obtain us out s'' where st: "start_tool env c t a s = ((us, out), s'')" by (metis surj_pair)
    have "(t, c, a) \<in> started_of ` set (rn_prepared s)" using Cons.prems(2) Unstarted by simp
    from start_tool_quiet [OF st this] r1 show ?thesis by (auto simp: r_def Unstarted st)
  qed (use r1 Cons.prems(2) in \<open>auto simp: r_def\<close>)
  have "\<forall>e \<in> set es. entry_prepared s1 e" using Cons.prems(2) one entry_prepared_mono by fastforce
  from Cons.IH [OF es2 this] one res quiet_trans [of env s s1 s2] show ?case by auto
qed simp

lemma advance_ok:
  assumes "advance env m e s = (e', s')" "entry_launched e" "remaining_steps e > 0" "phase s = InTurn (entry_running e + rest)"
  shows "quiet env s s' \<and> phase s' = InTurn (entry_running e' + rest) \<and> ended_messages (rn_events s') = ended_messages (rn_events s) \<and>
    entry_call e' = entry_call e \<and> entry_launched e'"
proof (cases e)
  case (Settled f)
  with assms(3) show ?thesis by simp
next
  case (Unstarted c t a)
  with assms(2) show ?thesis by simp
next
  case (Hooked f)
  with assms have "e' = Settled f" "s' = emitToolExecutionEnd env f s" "phase s = InTurn (add_mset (ag_id (fz_call f)) rest)"
    by (simp_all add: advance_def)
  with emit_end_effect [where s = s and f = f and env = env] show ?thesis by (simp add: Hooked)
next
  case (Executing c t a us out)
  show ?thesis
  proof (cases us)
    case Nil
    obtain f s1 where f: "finalizeExecutedToolCall env m c t a (executed_outcome out) s = (f, s1)" by (metis surj_pair)
    with assms(1) have "e' = Hooked f" "s' = s1" by (simp_all add: advance_def Executing Nil)
    with finalize_quiet [OF f] assms(4) show ?thesis by (simp add: Executing)
  next
    case (Cons u us')
    with assms(1) have "e' = Executing c t a us' out" "s' = emit_update env c t u s" by (simp_all add: advance_def Executing)
    with emit_update_effect [where s = s and env = env and call = c and tool = t and u = u] assms(4) show ?thesis
      by (simp add: Executing)
  qed
qed

lemma run_parallel_ok:
  assumes "run_parallel env m es s = (es', s')" "\<forall>e \<in> set es. entry_launched e" "phase s = InTurn (running_ids es)"
  shows "quiet env s s' \<and> phase s' = InTurn {#} \<and> ended_messages (rn_events s') = ended_messages (rn_events s) \<and>
    map fz_call (settled_calls es') = map entry_call es"
  using assms
proof (induction env m es s rule: run_parallel.induct)
  case (1 env m es s)
  show ?case
  proof (cases "live_entries es = []")
    case True
    with "1.prems"(1) have same: "es' = es" "s' = s" by (simp_all add: run_parallel.simps)
    have settled: "\<exists>f. e = Settled f" if "e \<in> set es" for e
    proof -
      from that obtain i where "i < length es" "e = es ! i" by (auto simp: in_set_conv_nth)
      with True have "remaining_steps e = 0" by (auto simp: live_entries_def filter_empty_conv)
      with "1.prems"(2) that show ?thesis by (cases e rule: remaining_steps.cases) auto
    qed
    have "running_ids es = {#} \<and> map fz_call (settled_calls es) = map entry_call es"
      using settled
    proof (induction es)
      case (Cons e es)
      from Cons.prems [of e] obtain f where "e = Settled f" by auto
      with Cons show ?case by (simp add: settled_calls_def map_filter_simps)
    qed (simp add: settled_calls_def map_filter_simps)
    then show ?thesis using same "1.prems"(3) by simp
  next
    case False
    obtain n w where nw: "en_schedule env (rn_world s) = (n, w)" by (cases "en_schedule env (rn_world s)")
    let ?i = "live_entries es ! (n mod length (live_entries es))"
    let ?s = "s\<lparr>rn_world := w\<rparr>"
    obtain e s1 where e: "advance env m (es ! ?i) ?s = (e, s1)" by (metis surj_pair)
    have "?i \<in> set (live_entries es)" using False by (simp add: nth_mem)
    then have i: "?i < length es" "remaining_steps (es ! ?i) > 0" by (simp_all add: live_entries_def)
    obtain rest where rest: "running_ids es = entry_running (es ! ?i) + rest" "running_ids (es[?i := e]) = entry_running e + rest"
      using running_ids_update [OF i(1)] by blast
    have "quiet env s ?s"
      by (rule quiet_world) (use nw in \<open>auto simp: abort_is_final_def Let_def keeps_def\<close>)
    moreover have "phase ?s = InTurn (entry_running (es ! ?i) + rest)" using "1.prems"(3) rest(1) by simp
    moreover have l: "entry_launched (es ! ?i)" using "1.prems"(2) i(1) nth_mem by blast
    ultimately have adv: "quiet env s s1" "phase s1 = InTurn (entry_running e + rest)"
      "ended_messages (rn_events s1) = ended_messages (rn_events s)" "entry_call e = entry_call (es ! ?i)" "entry_launched e"
      using advance_ok [OF e l i(2)] quiet_trans [of env s ?s s1] by auto
    have "run_parallel env m (es[?i := e]) s1 = (es', s')"
      using "1.prems"(1) False by (simp add: run_parallel.simps [of env m es] nw e Let_def)
    moreover have "\<forall>x \<in> set (es[?i := e]). entry_launched x"
      using "1.prems"(2) adv(5) set_update_subset_insert by fastforce
    moreover have "phase s1 = InTurn (running_ids (es[?i := e]))" using adv(2) rest(2) by simp
    moreover have "map entry_call (es[?i := e]) = map entry_call es"
      using i(1) adv(4) by (simp add: map_update list_update_same_conv)
    ultimately show ?thesis
      using "1.IH" [OF False nw [symmetric] _ refl refl e [symmetric]] nw adv(1,3) quiet_trans [OF adv(1)] by simp
  qed
qed

lemma emit_results_ok:
  assumes "fold (\<lambda>f (messages, s). let m = createToolResultMessage env f (rn_world s)
      in (messages @ [m], emitToolResultMessage env m s)) fs (ms, s) = (ms', s')" "phase s = InTurn {#}"
  shows "quiet env s s' \<and> phase s' = InTurn {#} \<and> (\<exists>new. ms' = ms @ new \<and> map result_key new = map (call_key \<circ> fz_call) fs \<and>
    ended_messages (rn_events s') = ended_messages (rn_events s) @ map ToolResult new)"
  using assms
proof (induction fs arbitrary: ms s)
  case (Cons f fs)
  let ?m = "createToolResultMessage env f (rn_world s)"
  note one = emit_result_effect [where s = s and env = env and m = ?m]
  from Cons.IH [of "ms @ [?m]" "emitToolResultMessage env ?m s"] Cons.prems one(1) obtain new where new:
    "quiet env (emitToolResultMessage env ?m s) s'" "phase s' = InTurn {#}" "ms' = ms @ [?m] @ new"
    "map result_key new = map (call_key \<circ> fz_call) fs"
    "ended_messages (rn_events s') = ended_messages (rn_events (emitToolResultMessage env ?m s)) @ map ToolResult new"
    by (auto simp: Let_def)
  then show ?case using one quiet_trans [OF one(2) new(1)] by (intro conjI exI [of _ "?m # new"]) simp_all
qed simp

lemma resolve_modes_ok:
  assumes "resolve_modes env m ics res s = (b, res', s')" "\<forall>ic \<in> set ics. valid_call calls ic" "resolved_sound calls res"
  shows "quiet env s s' \<and> rn_events s' = rn_events s \<and> resolved_sound calls res'"
  using assms
proof (induction ics arbitrary: res s)
  case (Cons ic ics)
  obtain r res1 s1 where r: "resolveToolCallTool env m ic res s = (r, res1, s1)" by (metis prod_cases3)
  have v: "valid_call calls ic" using Cons.prems(2) by simp
  note one = resolve_tool_quiet [OF r] resolve_tool_sound [OF r v Cons.prems(3)]
  from Cons.prems(1) consider "res' = res1" "s' = s1" | "resolve_modes env m ics res1 s1 = (b, res', s')"
    by (auto simp: r Let_def split: if_splits)
  then show ?case
  proof cases
    case 2
    from Cons.IH [OF this] Cons.prems(2) one quiet_trans [of env s s1 s'] show ?thesis by auto
  qed (use one in auto)
qed simp

lemma batch_ok:
  assumes "executeToolCalls env m s = ((results, terminate), s')" "phase s = InTurn {#}" "Assistant m \<in> set (rn_new s)"
  shows "quiet env s s' \<and> phase s' = InTurn {#} \<and> answers env (message_calls m) results s' \<and>
    ended_messages (rn_events s') = ended_messages (rn_events s) @ map ToolResult results"
proof -
  let ?calls = "message_calls m" and ?ics = "enumerate 0 (message_calls m)"
  have valid: "\<forall>ic \<in> set ?ics. valid_call ?calls ic" by (auto simp: valid_call_def in_set_enumerate_eq)
  have snds: "map snd ?ics = ?calls" by simp
  have empty: "resolved_sound ?calls []" by (simp add: resolved_sound_def)
  obtain b res s1 where r: "(if lc_sequential (rn_config s) then (False, [], s) else resolve_modes env m ?ics [] s) = (b, res, s1)"
    by (metis prod_cases3)
  have one: "quiet env s s1 \<and> rn_events s1 = rn_events s \<and> resolved_sound ?calls res"
  proof (cases "lc_sequential (rn_config s)")
    case False
    with r have "resolve_modes env m ?ics [] s = (b, res, s1)" by simp
    from resolve_modes_ok [OF this valid empty] show ?thesis .
  qed (use r empty in simp)
  have ph: "phase s1 = InTurn {#}" using one assms(2) by simp
  have new: "Assistant m \<in> set (rn_new s1)" using one assms(3) quiet_new by metis
  show ?thesis
  proof (cases "lc_sequential (rn_config s) \<or> b")
    case True
    obtain fs ms s2 where f: "run_sequential env m ?ics res [] [] s1 = (fs, ms, s2)" by (metis prod_cases3)
    from assms(1) True r have "results = ms" "s' = s2"
      by (auto simp: executeToolCalls_def Let_def executeToolCallsSequential_def f)
    with run_sequential_ok [OF f ph valid conjunct2 [OF conjunct2 [OF one]] refl new] one quiet_trans [of env s s1 s2]
    show ?thesis unfolding snds by auto
  next
    case False
    obtain es s2 where es: "start_parallel env m ?ics res [] s1 = (es, s2)" by (metis surj_pair)
    obtain ls s3 where ls: "launch env es s2 = (ls, s3)" by (metis surj_pair)
    obtain ds s4 where ds: "run_parallel env m ls s3 = (ds, s4)" by (metis surj_pair)
    obtain ms s5 where ms: "emit_results env (settled_calls ds) s4 = (ms, s5)" by (metis surj_pair)
    from assms(1) False r have res: "results = ms" "s' = s5"
      by (auto simp: executeToolCalls_def Let_def executeToolCallsParallel_def es ls ds ms)
    have "phase s1 = InTurn (running_ids [])" using ph by simp
    from start_parallel_ok [OF es this valid conjunct2 [OF conjunct2 [OF one]] refl new] have two: "quiet env s1 s2"
      "phase s2 = InTurn (running_ids es)" "ended_messages (rn_events s2) = ended_messages (rn_events s1)"
      "\<forall>e \<in> set es. entry_prepared s2 e" "length es \<le> length ?calls" "map entry_call es = take (length es) ?calls"
      "length es < length ?calls \<longrightarrow> en_aborted env (rn_world s2)"
      unfolding snds by auto
    from launch_ok [OF ls two(4)] two(2) have three: "quiet env s2 s3" "phase s3 = InTurn (running_ids ls)" "rn_events s3 = rn_events s2"
      "map entry_call ls = map entry_call es" "\<forall>e \<in> set ls. entry_launched e" by auto
    from run_parallel_ok [OF ds three(5,2)] have four: "quiet env s3 s4" "phase s4 = InTurn {#}"
      "ended_messages (rn_events s4) = ended_messages (rn_events s3)" "map fz_call (settled_calls ds) = map entry_call ls" by auto
    from emit_results_ok [OF ms [unfolded emit_results_def] four(2)] have five: "quiet env s4 s5" "phase s5 = InTurn {#}"
      "map result_key ms = map (call_key \<circ> fz_call) (settled_calls ds)"
      "ended_messages (rn_events s5) = ended_messages (rn_events s4) @ map ToolResult ms" by auto
    have keys: "map result_key ms = take (length es) (map call_key ?calls)"
      using five(3) four(4) three(4) two(6) by (metis list.map_comp take_map)
    then have len: "length ms = length es" using two(5) by (metis length_map length_take min_absorb2)
    have q: "quiet env s s5" "quiet env s2 s5"
      using quiet_trans [OF quiet_trans [OF three(1) four(1)] five(1)] quiet_trans [of env s s1 s2] quiet_trans [of env s s2 s5] one two(1)
      by blast+
    have "answers env ?calls ms s5"
      using keys len two(5,7) q(2) by (auto simp: answers_def quiet_def)
    then show ?thesis using res q(1) five(2,4) four(3) three(3) two(3) one by simp
  qed
qed

section \<open>Turns\<close>

text \<open>The result that answers a call, or \<open>None\<close> for a message of another kind.\<close>

fun answer_key :: "agent_message \<Rightarrow> (string \<times> string) option" where
  "answer_key (ToolResult r) = Some (result_key r)"
| "answer_key _ = None"

text \<open>Every assistant message that stopped to use tools is followed by the results of its calls.\<close>

fun calls_answered :: "agent_message list \<Rightarrow> bool" where
  "calls_answered [] = True"
| "calls_answered (Assistant m # ms) \<longleftrightarrow>
     (am_stopReason m = ToolUse \<longrightarrow>
        map answer_key (take (length (message_calls m)) ms) = map (Some \<circ> call_key) (message_calls m)) \<and> calls_answered ms"
| "calls_answered (_ # ms) = calls_answered ms"

fun is_assistant :: "agent_message \<Rightarrow> bool" where
  "is_assistant (Assistant _) = True"
| "is_assistant _ = False"

text \<open>Messages queued for the agent come from outside: none of them is an assistant message.\<close>

definition delivers_input :: "('w, agent_message list) hook option \<Rightarrow> bool" where
  "delivers_input h \<longleftrightarrow> (\<forall>f w ms w'. h = Some f \<longrightarrow> f w = (Inr ms, w') \<longrightarrow> (\<forall>m \<in> set ms. \<not> is_assistant m))"

definition input_only :: "'w agent_env \<Rightarrow> bool" where
  "input_only env \<longleftrightarrow> delivers_input (en_getSteeringMessages env) \<and> delivers_input (en_getFollowUpMessages env)"

lemma map_take_append: "length xs = n \<Longrightarrow> map f (take n ys) = xs \<Longrightarrow> map f (take n (ys @ zs)) = xs"
  by (metis append_Nil2 append_take_drop_id diff_is_0_eq drop_all length_map length_take linear min_def take_0 take_append)

lemma calls_answered_append:
  "calls_answered ms \<Longrightarrow> calls_answered ms' \<Longrightarrow> calls_answered (ms @ ms')"
proof (induction ms rule: calls_answered.induct)
  case (2 m ms)
  from map_take_append [of "map (Some \<circ> call_key) (message_calls m)" "length (message_calls m)" answer_key ms ms'] 2
  show ?case by (simp del: take_append map_append)
qed simp_all

lemma calls_answered_input: "\<forall>m \<in> set ms. \<not> is_assistant m \<Longrightarrow> calls_answered ms"
  by (induction ms rule: calls_answered.induct) auto

lemma calls_answered_results: "calls_answered (map ToolResult rs)"
  by (rule calls_answered_input) auto

text \<open>A model stream announces its message at most once, before the updates, as the type of its
  events documents.\<close>

definition starts :: "stream_event list \<Rightarrow> nat" where
  "starts evs = length (filter (\<lambda>e. case e of StreamStart _ \<Rightarrow> True | _ \<Rightarrow> False) evs)"

lemma starts_simps [simp]:
  "starts [] = 0" "starts (StreamStart m # evs) = Suc (starts evs)" "starts (StreamTextDelta i d p # evs) = starts evs"
  "starts (StreamUpdate k q # evs) = starts evs" "starts (StreamDone # evs) = starts evs" "starts (StreamError # evs) = starts evs"
  by (simp_all add: starts_def)

definition announces_once :: "'w agent_env \<Rightarrow> bool" where
  "announces_once env \<longleftrightarrow> (\<forall>f req w resp w'. resolveAgentCoreStreamFn env = Inr f \<longrightarrow> f req w = (Inr resp, w') \<longrightarrow>
     starts (sr_events resp) \<le> 1)"

text \<open>The messages of a request come from the messages of the context: transformed, if there is a
  transformation, and converted.\<close>

definition sends :: "'w agent_env \<Rightarrow> agent_message list \<Rightarrow> model_request \<Rightarrow> bool" where
  "sends env context request \<longleftrightarrow> (\<exists>messages w1 w1' w2 w2'.
     (case en_transformContext env of None \<Rightarrow> messages = context | Some h \<Rightarrow> h context w1 = (Inr messages, w1')) \<and>
     en_convertToLlm env messages w2 = (Inr (mr_messages request), w2'))"

text \<open>The hook that prepares the next turn may replace the messages of the context.\<close>

definition replaces_context :: "'w agent_env \<Rightarrow> agent_message list \<Rightarrow> bool" where
  "replaces_context env base \<longleftrightarrow> (\<exists>h info w update w' context. en_prepareNextTurn env = Some h \<and>
     h info w = (Inr (Some update), w') \<and> tu_context update = Some context \<and> ac_messages context = base)"

text \<open>The messages of the context are those the run began with, or those the hook has put there,
  followed by every message of the run since then.\<close>

definition conversation :: "'w agent_env \<Rightarrow> agent_message list \<Rightarrow> agent_message list \<Rightarrow> agent_message list \<Rightarrow> agent_message list \<Rightarrow> bool" where
  "conversation env initial new context since \<longleftrightarrow> (\<exists>base earlier. context = base @ since \<and> new = earlier @ since \<and>
     (base = initial \<and> earlier = [] \<or> replaces_context env base))"

lemma conversation_append: "conversation env C new ctx since \<Longrightarrow> conversation env C (new @ ms) (ctx @ ms) (since @ ms)"
  by (auto simp: conversation_def)

text \<open>A request made with such a conversation, all calls answered: the messages of the run at that
  moment are the first ones of those it has in the end.\<close>

definition informed :: "'w agent_env \<Rightarrow> agent_message list \<Rightarrow> agent_message list \<Rightarrow> asked_request \<Rightarrow> bool" where
  "informed env initial new q \<longleftrightarrow> (\<exists>since later. new = aq_new q @ later \<and>
     conversation env initial (aq_new q) (aq_context q) since \<and> calls_answered since \<and> sends env (aq_context q) (aq_request q))"

lemma informed_append [intro]: "informed env C new q \<Longrightarrow> informed env C (new @ ms) q"
  by (fastforce simp: informed_def)

section \<open>The response\<close>

definition shell :: "'w run \<Rightarrow> _" where
  "shell s = (rn_new s, rn_config s, rn_firstTurn s, rn_turnOpen s, rn_hasMore s, rn_pending s, rn_status s, rn_prepared s, rn_executed s)"

definition steady :: "'w agent_env \<Rightarrow> 'w run \<Rightarrow> 'w run \<Rightarrow> bool" where
  "steady env s s' \<longleftrightarrow> shell s' = shell s \<and> still_aborted env s s'"

lemma steady_refl [simp]: "steady env s s"
  by (simp add: steady_def)

lemma steady_trans: "steady env s s1 \<Longrightarrow> steady env s1 s2 \<Longrightarrow> steady env s s2"
  unfolding steady_def by (metis (no_types))

lemma steady_emit: "steady env s (emit env e s)"
  by (simp add: steady_def shell_def abort_is_final_def Let_def)

lemma steady_context:
  "steady env s (push_context m s)" "steady env s (set_last_context m s)" "steady env s (note_asked ms req s)"
  "rn_events (push_context m s) = rn_events s" "rn_events (set_last_context m s) = rn_events s"
  "rn_asked (push_context m s) = rn_asked s" "rn_asked (set_last_context m s) = rn_asked s"
  by (simp_all add: steady_def shell_def push_context_def set_last_context_def note_asked_def)

lemma note_asked_simps [simp]:
  "rn_events (note_asked ms req s) = rn_events s" "rn_context (note_asked ms req s) = rn_context s"
  "rn_asked (note_asked ms req s) = rn_asked s @ [\<lparr>aq_new = rn_new s, aq_context = ms, aq_request = req\<rparr>]"
  by (simp_all add: note_asked_def)

lemma call_optional_steady:
  assumes "call_optional h d s = (r, s')" "abort_is_final env \<longrightarrow> (\<forall>f. h = Some f \<longrightarrow> keeps (en_aborted env) f)"
  shows "steady env s s' \<and> rn_events s' = rn_events s \<and> rn_asked s' = rn_asked s \<and> rn_context s' = rn_context s"
  using call_optional_effect [OF assms(1), of "en_aborted env"] assms(2) by (auto simp: steady_def shell_def)

lemma call_hook_steady:
  assumes "call_hook h s = (r, s')" "abort_is_final env \<longrightarrow> keeps (en_aborted env) h"
  shows "steady env s s' \<and> rn_events s' = rn_events s \<and> rn_asked s' = rn_asked s \<and> rn_context s' = rn_context s"
  using call_optional_steady [of "Some h" _ s r s' env] assms by (simp add: call_optional_def)

text \<open>What a response leaves: the message announced, or a failure in the middle.\<close>

definition responded :: "'w run \<Rightarrow> string + assistant_message \<Rightarrow> 'w run \<Rightarrow> bool" where
  "responded s r s' \<longleftrightarrow> (case r of
     Inl e \<Rightarrow> phase s' \<noteq> Broken \<and> ended_messages (rn_events s') = ended_messages (rn_events s)
   | Inr m \<Rightarrow> phase s' = InTurn {#} \<and> ended_messages (rn_events s') = ended_messages (rn_events s) @ [Assistant m])"

lemma responded_cong: "rn_events s = rn_events t \<Longrightarrow> responded s r s' = responded t r s'"
  by (cases r) (simp_all add: responded_def)

lemma finish_response_ok:
  assumes "finish_response env resp added s = (r, s')" "phase s = (if added then InMessage else InTurn {#})"
  shows "steady env s s' \<and> rn_asked s' = rn_asked s \<and> responded s r s'"
proof (cases "sr_result resp")
  case (Inl e)
  with assms(1) have "r = Inl e" "s' = s" by (simp_all add: finish_response_def)
  with assms(2) show ?thesis by (simp add: responded_def)
next
  case (Inr m)
  let ?m = "Assistant (removeNonExecutableToolCalls m)"
  define s1 where "s1 = (if added then set_last_context ?m s else emit env (MessageStart ?m) (push_context ?m s))"
  have s1: "steady env s s1" "phase s1 = InMessage" "ended_messages (rn_events s1) = ended_messages (rn_events s)" "rn_asked s1 = rn_asked s"
    using assms(2) steady_context [where s = s] steady_trans [OF steady_context(1) steady_emit] by (auto simp: s1_def)
  have "r = Inr (removeNonExecutableToolCalls m)" "s' = emit env (MessageEnd ?m) s1"
    using assms(1) Inr by (simp_all add: finish_response_def Let_def s1_def)
  then show ?thesis using s1 steady_trans [OF s1(1) steady_emit] by (simp add: responded_def)
qed

lemma stream_update_effect:
  assumes "phase s = InMessage"
  shows "steady env s (emit env (MessageUpdate m event) (set_last_context (Assistant m) s))"
    "phase (emit env (MessageUpdate m event) (set_last_context (Assistant m) s)) = InMessage"
    "ended_messages (rn_events (emit env (MessageUpdate m event) (set_last_context (Assistant m) s))) = ended_messages (rn_events s)"
    "rn_asked (emit env (MessageUpdate m event) (set_last_context (Assistant m) s)) = rn_asked s"
    "rn_new (emit env (MessageUpdate m event) (set_last_context (Assistant m) s)) = rn_new s"
  using assms steady_trans [OF steady_context(2) steady_emit] by (simp_all add: steady_context set_last_context_def)

lemma consume_stream_ok:
  assumes "consume_stream env resp evs part added s = (r, s')" "phase s = (if added then InMessage else InTurn {#})"
    "part \<noteq> None \<longrightarrow> added"
  shows "steady env s s' \<and> rn_asked s' = rn_asked s \<and> responded s r s'"
  using assms
proof (induction env resp evs part added s rule: consume_stream.induct [case_names Close Start Done Error Delta Update])
  case (Close env resp part added s)
  show ?case
  proof (cases "sr_failure resp")
    case None
    with Close(1) have "finish_response env resp added s = (r, s')" by simp
    from finish_response_ok [OF this Close(2)] show ?thesis .
  next
    case (Some e)
    with Close show ?thesis by (auto simp: responded_def split: if_splits)
  qed
next
  case (Start env resp m rest part added s)
  let ?s = "emit env (MessageStart (Assistant m)) (push_context (Assistant m) s)"
  have "phase ?s = InMessage" using Start(3) by (simp add: steady_context split: if_splits)
  moreover have "ended_messages (rn_events ?s) = ended_messages (rn_events s)" by (simp add: steady_context)
  moreover have "steady env s ?s" by (rule steady_trans [OF steady_context(1) steady_emit])
  ultimately show ?case using Start(1) [OF _ _ _] Start(2) steady_trans [of env s ?s s']
    by (auto simp: responded_def steady_context split: sum.splits)
next
  case (Done env resp rest part added s)
  then show ?case using finish_response_ok by simp
next
  case (Error env resp rest part added s)
  then show ?case using finish_response_ok by simp
next
  case (Delta env resp i d p rest part added s)
  show ?case
  proof (cases part)
    case None
    with Delta show ?thesis by simp
  next
    case (Some cur)
    with Delta.prems have "phase s = InMessage" by simp
    from Delta.IH(2) [OF Some refl] Delta.prems Some stream_update_effect [OF this] steady_trans [OF stream_update_effect(1) [OF this], of env _ _ s'] show ?thesis
      by (auto simp: responded_def Let_def split: sum.splits)
  qed
next
  case (Update env resp k p rest part added s)
  show ?case
  proof (cases part)
    case None
    with Update show ?thesis by simp
  next
    case (Some cur)
    with Update.prems have "phase s = InMessage" by simp
    from Update.IH(2) [OF Some refl] Update.prems Some stream_update_effect [OF this] steady_trans [OF stream_update_effect(1) [OF this], of env _ _ s'] show ?thesis
      by (auto simp: responded_def Let_def split: sum.splits)
  qed
qed

text \<open>What a response does to the context: the message of the model is appended.\<close>

lemma finish_context:
  assumes "finish_response env resp added s = (Inr m, s')" "ac_messages (rn_context s) = C @ (if added then [x] else [])"
  shows "ac_messages (rn_context s') = C @ [Assistant m]"
  using assms by (auto simp: finish_response_def Let_def set_last_context_def push_context_def split: sum.splits if_splits)

lemma consume_context:
  assumes "consume_stream env resp evs part added s = (Inr m, s')" "part \<noteq> None \<longrightarrow> added" "starts evs \<le> (if added then 0 else 1)"
    "ac_messages (rn_context s) = C @ (if added then [x] else [])"
  shows "ac_messages (rn_context s') = C @ [Assistant m]"
  using assms
proof (induction evs arbitrary: part added s x)
  case Nil
  then show ?case by (auto split: option.splits intro: finish_context)
next
  case (Cons ev evs)
  have update: "ac_messages (rn_context (emit env (MessageUpdate y ev) (set_last_context (Assistant y) s))) = C @ [Assistant y]"
    if "added" for y using Cons.prems(4) that by (simp add: set_last_context_def)
  show ?case
  proof (cases ev)
    case (StreamStart y)
    with Cons.prems have "\<not> added" "starts evs \<le> 0" by (auto split: if_splits)
    with Cons.prems StreamStart Cons.IH [of "Some y" True "emit env (MessageStart (Assistant y)) (push_context (Assistant y) s)" "Assistant y"]
    show ?thesis by (simp add: push_context_def)
  next
    case (StreamTextDelta i d p)
    show ?thesis
    proof (cases part)
      case None
      with Cons StreamTextDelta show ?thesis by simp
    next
      case (Some cur)
      let ?m = "resolveAssistantMessageUpdate ev cur"
      from Some Cons.prems have "added" by simp
      with Cons.prems Some StreamTextDelta update [of ?m]
        Cons.IH [of "Some ?m" True "emit env (MessageUpdate ?m ev) (set_last_context (Assistant ?m) s)" "Assistant ?m"]
      show ?thesis by (simp add: Let_def)
    qed
  next
    case (StreamUpdate k p)
    show ?thesis
    proof (cases part)
      case None
      with Cons StreamUpdate show ?thesis by simp
    next
      case (Some cur)
      let ?m = "resolveAssistantMessageUpdate ev cur"
      from Some Cons.prems have "added" by simp
      with Cons.prems Some StreamUpdate update [of ?m]
        Cons.IH [of "Some ?m" True "emit env (MessageUpdate ?m ev) (set_last_context (Assistant ?m) s)" "Assistant ?m"]
      show ?thesis by (simp add: Let_def)
    qed
  qed (use Cons.prems in \<open>auto intro: finish_context\<close>)
qed

text \<open>A response: the request made from the context is on record, its message, if there is one, is
  announced and the last one of the context.\<close>

definition answered_to :: "'w agent_env \<Rightarrow> 'w run \<Rightarrow> string + assistant_message \<Rightarrow> 'w run \<Rightarrow> bool" where
  "answered_to env s r s' \<longleftrightarrow> steady env s s' \<and> responded s r s' \<and>
     (rn_asked s' = rn_asked s \<or> (\<exists>req. rn_asked s' = rn_asked s @ [\<lparr>aq_new = rn_new s, aq_context = ac_messages (rn_context s), aq_request = req\<rparr>] \<and>
        sends env (ac_messages (rn_context s)) req)) \<and>
     (announces_once env \<longrightarrow> (\<forall>m. r = Inr m \<longrightarrow> ac_messages (rn_context s') = ac_messages (rn_context s) @ [Assistant m]))"

abbreviation undisturbed :: "'w agent_env \<Rightarrow> 'w run \<Rightarrow> 'w run \<Rightarrow> bool" where
  "undisturbed env s s' \<equiv> steady env s s' \<and> rn_events s' = rn_events s \<and> rn_asked s' = rn_asked s \<and> rn_context s' = rn_context s"

lemma and_then_steady:
  assumes "and_then p f = (r, s')" "undisturbed env s (snd p)" "phase s = InTurn {#}"
    and "\<And>a s1. p = (Inr a, s1) \<Longrightarrow> undisturbed env s s1 \<Longrightarrow> f a s1 = (r, s') \<Longrightarrow> answered_to env s r s'"
  shows "answered_to env s r s'"
proof -
  obtain x s1 where p: "p = (x, s1)" by (cases p)
  show ?thesis
  proof (cases x)
    case (Inl e)
    with assms(1) p have "r = Inl e" "s' = s1" by (simp_all add: and_then_def)
    then show ?thesis using assms(2,3) p by (simp add: responded_def answered_to_def)
  next
    case (Inr a)
    with assms(1) p have "f a s1 = (r, s')" by (simp add: and_then_def)
    from assms(4) [OF _ _ this] assms(2) p Inr show ?thesis by simp
  qed
qed

lemma request_ok:
  assumes "and_then (call_hook (f req) (note_asked (ac_messages (rn_context s)) req s1))
      (\<lambda>response s. consume_stream env response (sr_events response) None False s) = (r, s')"
    and "undisturbed env s s1" "phase s = InTurn {#}" "resolveAgentCoreStreamFn env = Inr f" "sends env (ac_messages (rn_context s)) req"
  shows "answered_to env s r s'"
proof -
  let ?s1 = "note_asked (ac_messages (rn_context s)) req s1"
  obtain x s2 where x: "call_hook (f req) ?s1 = (x, s2)" by (metis surj_pair)
  have final: "abort_is_final env \<longrightarrow> keeps (en_aborted env) (f req)"
    using assms(4) by (auto simp: abort_is_final_def Let_def resolveAgentCoreStreamFn_def split: option.splits)
  note hook = call_hook_steady [OF x final]
  have st: "steady env s s2"
    using steady_trans [OF steady_trans [OF conjunct1 [OF assms(2)] steady_context(3)]] hook by blast
  have eq: "rn_events s2 = rn_events s" "rn_context s2 = rn_context s"
    "rn_asked s2 = rn_asked s @ [\<lparr>aq_new = rn_new s, aq_context = ac_messages (rn_context s), aq_request = req\<rparr>]"
    using hook assms(2) by (simp_all add: steady_def shell_def)
  show ?thesis
  proof (cases x)
    case (Inl e)
    with assms(1) x have "r = Inl e" "s' = s2" by (simp_all add: and_then_def)
    with st eq assms(3,5) show ?thesis by (simp add: responded_def answered_to_def)
  next
    case (Inr resp)
    with assms(1) x have c: "consume_stream env resp (sr_events resp) None False s2 = (r, s')" by (simp add: and_then_def)
    have one: "steady env s2 s' \<and> rn_asked s' = rn_asked s2 \<and> responded s2 r s'"
      using consume_stream_ok [OF c] eq(1) assms(3) by simp
    have "ac_messages (rn_context s') = ac_messages (rn_context s) @ [Assistant m]" if "announces_once env" "r = Inr m" for m
    proof -
      have "f req (rn_world ?s1) = (Inr resp, snd (f req (rn_world ?s1)))"
        using x Inr by (auto simp: call_hook_def case_prod_beta prod_eq_iff)
      with that(1) assms(4) have "starts (sr_events resp) \<le> 1" unfolding announces_once_def by blast
      from consume_context [OF c [unfolded that(2)], of "ac_messages (rn_context s)"] this eq(2) show ?thesis by simp
    qed
    with one st eq assms(5) steady_trans [of env s s2 s'] responded_cong [OF eq(1)] show ?thesis by (simp add: answered_to_def)
  qed
qed

lemma stream_response_ok:
  assumes "streamAssistantResponse env s = (r, s')" "phase s = InTurn {#}"
  shows "answered_to env s r s'"
  using assms(1) unfolding streamAssistantResponse_def Let_def
proof (rule and_then_steady [OF _ _ assms(2)], goal_cases)
  case 1
  obtain x s1 where x: "call_optional (map_option (\<lambda>h. h (ac_messages (rn_context s))) (en_transformContext env))
      (ac_messages (rn_context s)) s = (x, s1)" by (metis surj_pair)
  have "undisturbed env s s1"
    by (rule call_optional_steady [OF x]) (auto simp: abort_is_final_def Let_def)
  with x show ?case by simp
next
  case (2 messages s1)
  have transformed: "\<exists>w w'. case en_transformContext env of None \<Rightarrow> messages = ac_messages (rn_context s)
      | Some h \<Rightarrow> h (ac_messages (rn_context s)) w = (Inr messages, w')"
    using 2(1) by (cases "en_transformContext env") (auto simp: call_optional_def call_hook_def case_prod_beta prod_eq_iff)
  note one = 2(2)
  from 2(3) show ?case
  proof (rule and_then_steady [OF _ _ assms(2)], goal_cases)
    case 1
    obtain x s2 where x: "call_hook (en_convertToLlm env messages) s1 = (x, s2)" by (metis surj_pair)
    have "undisturbed env s1 s2"
      by (rule call_hook_steady [OF x]) (auto simp: abort_is_final_def Let_def)
    with x one steady_trans [of env s s1 s2] show ?case by simp
  next
    case (2 llm s2)
    have "\<exists>w w'. en_convertToLlm env messages w = (Inr llm, w')"
      using 2(1) by (auto simp: call_hook_def case_prod_beta prod_eq_iff)
    with transformed have sends: "mr_messages req = llm \<Longrightarrow> sends env (ac_messages (rn_context s)) req" for req
      unfolding sends_def by blast
    note two = 2(2)
    show ?case
    proof (cases "resolveAgentCoreStreamFn env")
      case (Inl e)
      with 2 assms(2) show ?thesis by (auto simp: responded_def answered_to_def)
    next
      case (Inr f)
      from 2(3) [unfolded Inr sum.case] show ?thesis
      proof (rule and_then_steady [OF _ _ assms(2)], goal_cases)
        case 1
        obtain x s3 where x: "call_optional (map_option (\<lambda>h. h (md_provider (lc_model (rn_config s)))) (en_getApiKey env)) None s2 = (x, s3)"
          by (metis surj_pair)
        have "undisturbed env s2 s3"
          by (rule call_optional_steady [OF x]) (auto simp: abort_is_final_def Let_def)
        with x two steady_trans [of env s s2 s3] show ?case by simp
      next
        case (2 key s3)
        show ?case by (rule request_ok [OF 2(3) 2(2) assms(2) Inr]) (rule sends, simp)
      qed
    qed
  qed
qed

section \<open>The invariant of a run\<close>

text \<open>The flag says that an abort is final, that only input is delivered to the run and that streams
  announce one message; then every request was made with the conversation so far, its calls
  answered, and unless the run is aborted its context is such a conversation.\<close>

definition talk :: "'w agent_env \<Rightarrow> agent_message list \<Rightarrow> agent_message list \<Rightarrow> agent_message list \<Rightarrow> bool" where
  "talk env initial new context \<longleftrightarrow> (\<exists>since. conversation env initial new context since \<and> calls_answered since)"

lemma talk_append: "talk env C new ctx \<Longrightarrow> calls_answered ms \<Longrightarrow> talk env C (new @ ms) (ctx @ ms)"
  unfolding talk_def using conversation_append calls_answered_append by metis

lemma talk_replaced: "replaces_context env ctx \<Longrightarrow> talk env C new ctx"
  unfolding talk_def conversation_def by (rule exI [of _ "[]"]) simp

lemma talk_informed:
  "talk env C (aq_new q) (aq_context q) \<Longrightarrow> sends env (aq_context q) (aq_request q) \<Longrightarrow> informed env C (aq_new q) q"
  unfolding talk_def informed_def by (metis append_Nil2)

definition good :: "bool \<Rightarrow> agent_message list \<Rightarrow> 'w agent_env \<Rightarrow> 'w run \<Rightarrow> bool" where
  "good b C env s \<longleftrightarrow> ended_messages (rn_events s) = rn_new s \<and> clear env s \<and>
     (case rn_status s of
        Running \<Rightarrow> phase s = (if rn_turnOpen s then InTurn {#} else BetweenTurns) | Finished \<Rightarrow> phase s = Ended
      | Failed _ \<Rightarrow> phase s \<noteq> Broken) \<and>
     (b \<longrightarrow> (\<forall>q \<in> set (rn_asked s). informed env C (rn_new s) q) \<and>
        (rn_status s = Running \<longrightarrow> (\<forall>m \<in> set (rn_pending s). \<not> is_assistant m) \<and>
           (\<not> en_aborted env (rn_world s) \<longrightarrow> talk env C (rn_new s) (ac_messages (rn_context s)))))"

definition laws :: "bool \<Rightarrow> 'w agent_env \<Rightarrow> bool" where
  "laws b env \<longleftrightarrow> (b \<longrightarrow> abort_is_final env \<and> input_only env \<and> announces_once env)"

lemma good_world:
  assumes "good b C env s" "b \<longrightarrow> en_aborted env (rn_world s) \<longrightarrow> en_aborted env w"
  shows "good b C env (s\<lparr>rn_world := w\<rparr>)"
  using assms by (cases "rn_status s") (auto simp: good_def)

lemma good_running:
  assumes "good b C env s" "rn_status s = Running"
  shows "phase s = (if rn_turnOpen s then InTurn {#} else BetweenTurns)" "ended_messages (rn_events s) = rn_new s"
    "clear env s" "b \<longrightarrow> (\<forall>q \<in> set (rn_asked s). informed env C (rn_new s) q)"
    "b \<longrightarrow> (\<forall>m \<in> set (rn_pending s). \<not> is_assistant m)"
    "b \<longrightarrow> \<not> en_aborted env (rn_world s) \<longrightarrow> talk env C (rn_new s) (ac_messages (rn_context s))"
  using assms by (auto simp: good_def)

lemma good_optional:
  assumes "good b C env s" "rn_status s = Running" "laws b env"
    and "abort_is_final env \<longrightarrow> (\<forall>f. h = Some f \<longrightarrow> keeps (en_aborted env) f)"
    and "\<And>v w. good b C env (s\<lparr>rn_world := w\<rparr>) \<Longrightarrow> (\<forall>f. h = Some f \<longrightarrow> f (rn_world s) = (Inr v, w)) \<Longrightarrow> (h = None \<Longrightarrow> v = d) \<Longrightarrow>
      good b C env (f v (s\<lparr>rn_world := w\<rparr>)) \<and> P (f v (s\<lparr>rn_world := w\<rparr>))"
    and "\<And>e w. P (s\<lparr>rn_world := w, rn_status := Failed e\<rparr>)"
  shows "good b C env (or_fail (call_optional h d s) f) \<and> P (or_fail (call_optional h d s) f)"
proof (cases h)
  case None
  have "s\<lparr>rn_world := rn_world s\<rparr> = s" by simp
  with assms(1) assms(5) [of "rn_world s" d] None show ?thesis by (simp add: call_optional_def or_fail_def)
next
  case (Some g)
  obtain r w where g: "g (rn_world s) = (r, w)" by (metis surj_pair)
  have w: "good b C env (s\<lparr>rn_world := w\<rparr>)"
    by (rule good_world [OF assms(1)]) (use assms(3,4) Some g in \<open>auto simp: laws_def keeps_def\<close>)
  show ?thesis
  proof (cases r)
    case (Inl e)
    have "good b C env (s\<lparr>rn_world := w, rn_status := Failed e\<rparr>)"
      using good_running [OF assms(1,2)] by (auto simp: good_def)
    with Some g Inl assms(6) show ?thesis by (simp add: call_optional_def call_hook_def or_fail_def)
  next
    case (Inr v)
    with Some g assms(5) [OF w, of v] show ?thesis by (simp add: call_optional_def call_hook_def or_fail_def)
  qed
qed

lemma stop_if_aborted_good:
  assumes "good b C env s" "rn_status s = Running"
  shows "good b C env (stopIfAborted env s)"
    and "rn_status (stopIfAborted env s) = Running \<Longrightarrow> stopIfAborted env s = s \<and> \<not> en_aborted env (rn_world s)"
    and "en_aborted env (rn_world s) \<Longrightarrow> rn_status (stopIfAborted env s) = Finished"
    and "rn_asked (stopIfAborted env s) = rn_asked s" "rn_executed (stopIfAborted env s) = rn_executed s"
proof -
  have "good b C env (stopIfAborted env s) \<and> (rn_status (stopIfAborted env s) = Running \<longrightarrow> stopIfAborted env s = s \<and> \<not> en_aborted env (rn_world s)) \<and>
    (en_aborted env (rn_world s) \<longrightarrow> rn_status (stopIfAborted env s) = Finished) \<and>
    rn_asked (stopIfAborted env s) = rn_asked s \<and> rn_executed (stopIfAborted env s) = rn_executed s"
  proof (cases "en_aborted env (rn_world s)")
    case True
    with good_running [OF assms] show ?thesis by (auto simp: stopIfAborted_def Let_def good_def push_new_def)
  next
    case False
    then have "stopIfAborted env s = s" by (simp add: stopIfAborted_def)
    with False assms show ?thesis by simp
  qed
  then show "good b C env (stopIfAborted env s)"
    and "rn_status (stopIfAborted env s) = Running \<Longrightarrow> stopIfAborted env s = s \<and> \<not> en_aborted env (rn_world s)"
    and "en_aborted env (rn_world s) \<Longrightarrow> rn_status (stopIfAborted env s) = Finished"
    and "rn_asked (stopIfAborted env s) = rn_asked s" "rn_executed (stopIfAborted env s) = rn_executed s" by blast+
qed

lemma end_run_good:
  assumes "good b C env s" "rn_status s = Running" "\<not> rn_turnOpen s"
  shows "good b C env (end_run env s)" "rn_status (end_run env s) = Finished"
  using good_running [OF assms(1,2)] assms(3) by (auto simp: end_run_def good_def)

text \<open>What holds between two steps: a turn is open only before the first one.\<close>

definition between_steps :: "bool \<Rightarrow> agent_message list \<Rightarrow> 'w agent_env \<Rightarrow> 'w run \<Rightarrow> bool" where
  "between_steps b C env s \<longleftrightarrow> good b C env s \<and>
     (rn_status s = Running \<longrightarrow> rn_firstTurn s = rn_turnOpen s \<and> (rn_firstTurn s \<longrightarrow> rn_hasMore s))"

abbreviation closed :: "'w run \<Rightarrow> bool" where
  "closed s \<equiv> rn_status s = Running \<longrightarrow> \<not> rn_firstTurn s \<and> \<not> rn_turnOpen s"

lemma after_turn_good:
  assumes "good b C env s" "rn_status s = Running" "\<not> rn_firstTurn s" "\<not> rn_turnOpen s" "laws b env"
  shows "good b C env (after_turn env m rs s) \<and> closed (after_turn env m rs s)"
  unfolding after_turn_def
proof (rule good_optional [OF assms(1,2,5)], goal_cases)
  case (2 update w)
  let ?s = "apply_turn_update update (s\<lparr>rn_world := w\<rparr>)"
  have fields: "rn_events ?s = rn_events s" "rn_new ?s = rn_new s" "rn_prepared ?s = rn_prepared s" "rn_executed ?s = rn_executed s"
    "rn_asked ?s = rn_asked s" "rn_pending ?s = rn_pending s" "rn_world ?s = w" "rn_turnOpen ?s = rn_turnOpen s"
    "rn_firstTurn ?s = rn_firstTurn s" "rn_status ?s = rn_status s"
    by (simp_all add: apply_turn_update_def Let_def split: option.split)
  have kept: "rn_context ?s = rn_context s \<or> replaces_context env (ac_messages (rn_context ?s))"
  proof (cases "\<exists>u c. update = Some u \<and> tu_context u = Some c")
    case True
    then obtain u c where u: "update = Some u" "tu_context u = Some c" by blast
    then obtain h where h: "en_prepareNextTurn env = Some h" using 2(3) by (cases "en_prepareNextTurn env") auto
    then have "h (info_of m rs s) (rn_world s) = (Inr (Some u), w)" using 2(2) u(1) by simp
    with h u(2) have "replaces_context env (ac_messages c)" unfolding replaces_context_def by blast
    then show ?thesis using u by (simp add: apply_turn_update_def Let_def)
  next
    case False
    then show ?thesis by (auto simp: apply_turn_update_def Let_def split: option.split)
  qed
  have "b \<longrightarrow> \<not> en_aborted env w \<longrightarrow> talk env C (rn_new s) (ac_messages (rn_context ?s))"
    using kept good_running(6) [OF 2(1)] assms(2) talk_replaced by auto
  then have upd: "good b C env ?s" "rn_status ?s = Running" "\<not> rn_firstTurn ?s" "\<not> rn_turnOpen ?s"
    using good_running [OF assms(1,2)] assms(2-4) by (simp_all add: good_def fields)
  show ?case
  proof (cases "rn_status (stopIfAborted env ?s) = Running")
    case False
    then show ?thesis using stop_if_aborted_good(1) [OF upd(1,2)] by (simp add: if_running_def)
  next
    case True
    with stop_if_aborted_good(2) [OF upd(1,2)] have same: "stopIfAborted env ?s = ?s" by simp
    show ?thesis unfolding if_running_def same if_P [OF upd(2)]
    proof (rule good_optional [OF upd(1,2) assms(5)], goal_cases)
      case (2 stop w2)
      let ?t = "?s\<lparr>rn_world := w2\<rparr>"
      have t: "good b C env ?t" "rn_status ?t = Running" "\<not> rn_firstTurn ?t" "\<not> rn_turnOpen ?t"
        using 2(1) upd by simp_all
      show ?case
      proof (cases stop)
        case True
        with end_run_good [OF t(1,2,4)] show ?thesis by simp
      next
        case False
        have "good b C env (or_fail (call_optional (en_getSteeringMessages env) [] ?t)
            (\<lambda>steering s. stopIfAborted env (s\<lparr>rn_pending := steering\<rparr>))) \<and>
          closed (or_fail (call_optional (en_getSteeringMessages env) [] ?t) (\<lambda>steering s. stopIfAborted env (s\<lparr>rn_pending := steering\<rparr>)))"
        proof (rule good_optional [OF t(1,2) assms(5)], goal_cases)
          case (2 steering w3)
          have input: "b \<longrightarrow> (\<forall>m \<in> set steering. \<not> is_assistant m)"
          proof (cases "en_getSteeringMessages env")
            case None
            then show ?thesis using 2(3) by simp
          next
            case (Some f)
            with 2(2) assms(5) show ?thesis unfolding laws_def input_only_def delivers_input_def by blast
          qed
          let ?u = "(?t\<lparr>rn_world := w3\<rparr>)\<lparr>rn_pending := steering\<rparr>"
          have u: "good b C env ?u" "rn_status ?u = Running" "\<not> rn_firstTurn ?u" "\<not> rn_turnOpen ?u"
            using 2(1) t input by (auto simp: good_def)
          have "closed (stopIfAborted env ?u)" using stop_if_aborted_good(2) [OF u(1,2)] u(3,4) by auto
          with stop_if_aborted_good(1) [OF u(1,2)] show ?case by blast
        qed (auto simp: abort_is_final_def Let_def)
        with False show ?thesis by simp
      qed
    qed (auto simp: abort_is_final_def Let_def)
  qed
qed (auto simp: abort_is_final_def Let_def)

lemma push_results_effect:
  fixes s :: "'w run"
  defines "push \<equiv> \<lambda>r s. push_new (ToolResult r) (push_context (ToolResult r) s) :: 'w run"
  shows "rn_new (fold push rs s) = rn_new s @ map ToolResult rs" "rn_events (fold push rs s) = rn_events s"
    "rn_world (fold push rs s) = rn_world s" "rn_executed (fold push rs s) = rn_executed s" "rn_prepared (fold push rs s) = rn_prepared s"
    "ac_messages (rn_context (fold push rs s)) = ac_messages (rn_context s) @ map ToolResult rs" "rn_asked (fold push rs s) = rn_asked s"
    "rn_pending (fold push rs s) = rn_pending s" "rn_status (fold push rs s) = rn_status s" "rn_turnOpen (fold push rs s) = rn_turnOpen s"
    "rn_firstTurn (fold push rs s) = rn_firstTurn s"
  unfolding push_def by (induction rs arbitrary: s) (simp_all add: push_new_def push_context_def)

lemma answer_keys: "map answer_key (map ToolResult rs) = map Some (map result_key rs)"
  by (induction rs) simp_all

text \<open>The turn once the message of the model has been recorded.\<close>

definition replied :: "bool \<Rightarrow> agent_message list \<Rightarrow> 'w agent_env \<Rightarrow> assistant_message \<Rightarrow> 'w run \<Rightarrow> bool" where
  "replied b C env m s \<longleftrightarrow> rn_status s = Running \<and> \<not> rn_firstTurn s \<and> phase s = InTurn {#} \<and>
     ended_messages (rn_events s) = rn_new s \<and> clear env s \<and> Assistant m \<in> set (rn_new s) \<and>
     (b \<longrightarrow> (\<forall>q \<in> set (rn_asked s). informed env C (rn_new s) q) \<and> (\<forall>m \<in> set (rn_pending s). \<not> is_assistant m) \<and>
        (\<exists>since. conversation env C (rn_new s) (ac_messages (rn_context s)) (since @ [Assistant m]) \<and> calls_answered since))"

lemma finish_turn_good:
  assumes "replied b C env m s" "laws b env"
  shows "good b C env (finish_turn env m s) \<and> closed (finish_turn env m s)"
proof (cases "am_stopReason m = ErrorStop \<or> am_stopReason m = Aborted")
  case True
  with assms(1) show ?thesis by (auto simp: finish_turn_def end_run_def good_def replied_def)
next
  case False
  obtain rs t s1 where batch: "(if am_stopReason m = ToolUse \<and> message_calls m \<noteq> [] then executeToolCalls env m s
      else (([], True), s)) = ((rs, t), s1)" by (metis surj_pair)
  have one: "quiet env s s1 \<and> phase s1 = InTurn {#} \<and> ended_messages (rn_events s1) = ended_messages (rn_events s) @ map ToolResult rs \<and>
      (am_stopReason m = ToolUse \<longrightarrow> answers env (message_calls m) rs s1)"
  proof (cases "am_stopReason m = ToolUse \<and> message_calls m \<noteq> []")
    case True
    with batch have "executeToolCalls env m s = ((rs, t), s1)" by simp
    from batch_ok [OF this] assms(1) show ?thesis by (simp add: replied_def)
  next
    case False
    with batch assms(1) show ?thesis by (auto simp: replied_def answers_def)
  qed
  let ?s3 = "fold (\<lambda>r s. push_new (ToolResult r) (push_context (ToolResult r) s)) rs (s1\<lparr>rn_hasMore := \<not> t\<rparr>)"
  let ?s4 = "(emit env (TurnEnd m rs) ?s3)\<lparr>rn_turnOpen := False\<rparr>"
  have eq: "finish_turn env m s = if_running (stopIfAborted env ?s4) (after_turn env m rs)"
    unfolding finish_turn_def Let_def if_not_P [OF False] batch prod.case ..
  have core: "rn_new s1 = rn_new s" "rn_status s1 = rn_status s" "rn_firstTurn s1 = rn_firstTurn s" "rn_pending s1 = rn_pending s"
    "rn_asked s1 = rn_asked s" "clear env s1" "ac_messages (rn_context s1) = ac_messages (rn_context s)"
    using one assms(1) by (auto simp: quiet_def core_def replied_def)
  have answered: "b \<longrightarrow> \<not> en_aborted env (rn_world ?s4) \<longrightarrow> talk env C (rn_new ?s4) (ac_messages (rn_context ?s4))"
  proof (intro impI)
    assume b: "b" and "\<not> en_aborted env (rn_world ?s4)"
    then have na: "\<not> en_aborted env (rn_world s1)"
      using assms(2) by (auto simp: push_results_effect laws_def abort_is_final_def Let_def)
    obtain pre where pre: "conversation env C (rn_new s) (ac_messages (rn_context s)) (pre @ [Assistant m])" "calls_answered pre"
      using assms(1) b by (auto simp: replied_def)
    have "map answer_key (take (length (message_calls m)) (map ToolResult rs)) = map (Some \<circ> call_key) (message_calls m)"
      if "am_stopReason m = ToolUse"
    proof -
      from one that na b assms(2) have "length rs = length (message_calls m)" "map result_key rs = map call_key (message_calls m)"
        by (auto simp: answers_def laws_def)
      then have "map answer_key (map ToolResult rs) = map (Some \<circ> call_key) (message_calls m)"
        unfolding answer_keys by (simp flip: map_map)
      with \<open>length rs = _\<close> show ?thesis by simp
    qed
    then have "calls_answered (Assistant m # map ToolResult rs)" using calls_answered_results by simp
    with calls_answered_append [OF pre(2)] conversation_append [OF pre(1), of "map ToolResult rs"]
    show "talk env C (rn_new ?s4) (ac_messages (rn_context ?s4))"
      unfolding talk_def by (intro exI [of _ "(pre @ [Assistant m]) @ map ToolResult rs"]) (simp add: push_results_effect core)
  qed
  have s4: "good b C env ?s4" "rn_status ?s4 = Running" "\<not> rn_firstTurn ?s4" "\<not> rn_turnOpen ?s4"
  proof -
    have "ended_messages (rn_events ?s4) = rn_new ?s4" "phase ?s4 = BetweenTurns" "rn_asked ?s4 = rn_asked s" "rn_pending ?s4 = rn_pending s"
      "clear env ?s4"
      using one core assms(1) by (auto simp: push_results_effect replied_def)
    moreover show st: "rn_status ?s4 = Running" "\<not> rn_firstTurn ?s4" "\<not> rn_turnOpen ?s4"
      using core assms(1) by (simp_all add: push_results_effect replied_def)
    moreover have "b \<longrightarrow> (\<forall>q \<in> set (rn_asked s). informed env C (rn_new ?s4) q)"
      using assms(1) by (auto simp: push_results_effect replied_def core(1))
    moreover have "b \<longrightarrow> (\<forall>m \<in> set (rn_pending s). \<not> is_assistant m)" using assms(1) by (simp add: replied_def)
    ultimately show "good b C env ?s4" using answered unfolding good_def st(1) run_status.case by simp
  qed
  show ?thesis
  proof (cases "rn_status (stopIfAborted env ?s4) = Running")
    case True
    with stop_if_aborted_good(2) [OF s4(1,2)] have "stopIfAborted env ?s4 = ?s4" by simp
    with after_turn_good [OF s4 assms(2)] show ?thesis unfolding eq if_running_def if_P [OF True] by simp
  next
    case False
    with stop_if_aborted_good(1) [OF s4(1,2)] show ?thesis unfolding eq if_running_def by simp
  qed
qed

lemma inject_messages_good:
  assumes "good b C env s" "rn_status s = Running" "rn_turnOpen s" "laws b env" "b \<longrightarrow> (\<forall>m \<in> set ms. \<not> is_assistant m)"
  shows "good b C env (fold (inject_message env) ms s) \<and> rn_status (fold (inject_message env) ms s) = Running \<and>
    rn_turnOpen (fold (inject_message env) ms s) \<and> rn_firstTurn (fold (inject_message env) ms s) = rn_firstTurn s"
  using assms
proof (induction ms arbitrary: s)
  case (Cons m ms)
  let ?s = "inject_message env m s"
  note run = good_running [OF Cons.prems(1,2)]
  have fields: "rn_new ?s = rn_new s @ [m]" "rn_events ?s = rn_events s @ [MessageStart m, MessageEnd m]" "rn_status ?s = Running"
    "rn_turnOpen ?s" "rn_firstTurn ?s = rn_firstTurn s" "rn_asked ?s = rn_asked s" "rn_pending ?s = rn_pending s" "rn_executed ?s = rn_executed s" "rn_prepared ?s = rn_prepared s"
    "ac_messages (rn_context ?s) = ac_messages (rn_context s) @ [m]"
    "rn_world ?s = en_emit env (MessageEnd m) (en_emit env (MessageStart m) (rn_world s))"
    using Cons.prems(2,3) by (simp_all add: inject_message_def push_new_def push_context_def)
  have "b \<longrightarrow> \<not> en_aborted env (rn_world ?s) \<longrightarrow> talk env C (rn_new ?s) (ac_messages (rn_context ?s))"
  proof (intro impI)
    assume b: "b" and na: "\<not> en_aborted env (rn_world ?s)"
    with Cons.prems(4) fields(11) have "\<not> en_aborted env (rn_world s)" by (auto simp: laws_def abort_is_final_def Let_def)
    with run(6) b have "talk env C (rn_new s) (ac_messages (rn_context s))" by simp
    moreover have "calls_answered [m]" using Cons.prems(5) b by (intro calls_answered_input) simp
    ultimately show "talk env C (rn_new ?s) (ac_messages (rn_context ?s))" using fields(1,10) talk_append by simp
  qed
  then have "good b C env ?s" using run fields Cons.prems(3) by (auto simp: good_def)
  from Cons.IH [OF this fields(3,4) Cons.prems(4)] Cons.prems(5) fields(5) show ?case by simp
qed simp

lemma open_turn_good:
  assumes "between_steps b C env s" "rn_status s = Running" "laws b env"
  shows "good b C env (open_turn env s) \<and> rn_status (open_turn env s) = Running \<and> rn_turnOpen (open_turn env s) \<and>
    \<not> rn_firstTurn (open_turn env s) \<and> rn_pending (open_turn env s) = rn_pending s"
proof -
  have g: "good b C env s" "rn_firstTurn s = rn_turnOpen s" using assms(1,2) by (auto simp: between_steps_def)
  note run = good_running [OF g(1) assms(2)]
  show ?thesis
  proof (cases "rn_firstTurn s")
    case True
    with g run assms(2) show ?thesis by (auto simp: open_turn_def good_def)
  next
    case False
    have "b \<longrightarrow> \<not> en_aborted env (en_emit env TurnStart (rn_world s)) \<longrightarrow> talk env C (rn_new s) (ac_messages (rn_context s))"
      using run(6) assms(3) by (auto simp: laws_def abort_is_final_def Let_def)
    with False g run assms(2) show ?thesis by (auto simp: open_turn_def good_def)
  qed
qed

lemma run_turn_good:
  assumes "between_steps b C env s" "rn_status s = Running" "laws b env"
  shows "between_steps b C env (run_turn env s)"
proof (cases "rn_status (stopIfAborted env s) = Running")
  case False
  have "good b C env s" using assms(1) by (simp add: between_steps_def)
  from stop_if_aborted_good(1) [OF this assms(2)] False show ?thesis
    by (simp add: run_turn_def if_running_def between_steps_def)
next
  case running: True
  have g: "good b C env s" using assms(1) by (simp add: between_steps_def)
  from stop_if_aborted_good(2) [OF g assms(2) running] have same: "stopIfAborted env s = s" by simp
  let ?s1 = "open_turn env s"
  let ?s2 = "fold (inject_message env) (rn_pending ?s1) ?s1"
  note one = open_turn_good [OF assms]
  have "b \<longrightarrow> (\<forall>m \<in> set (rn_pending ?s1). \<not> is_assistant m)" using good_running(5) [OF g assms(2)] one by simp
  with inject_messages_good [of b C env ?s1 "rn_pending ?s1"] one assms(3)
  have two: "good b C env ?s2" "rn_status ?s2 = Running" "rn_turnOpen ?s2" "\<not> rn_firstTurn ?s2" by auto
  have eq: "run_turn env s = if_running (stopIfAborted env ?s2)
      (\<lambda>s. or_fail (streamAssistantResponse env s) (\<lambda>message s. finish_turn env message (push_new (Assistant message) s)))"
    by (simp add: run_turn_def same if_running_def assms(2) Let_def)
  show ?thesis
  proof (cases "rn_status (stopIfAborted env ?s2) = Running")
    case False
    with stop_if_aborted_good(1) [OF two(1,2)] show ?thesis by (simp add: eq if_running_def between_steps_def)
  next
    case True
    from stop_if_aborted_good(2) [OF two(1,2) True] have na: "stopIfAborted env ?s2 = ?s2" "\<not> en_aborted env (rn_world ?s2)" by auto
    note run = good_running [OF two(1,2)]
    have ph: "phase ?s2 = InTurn {#}" using run(1) two(3) by simp
    obtain r s3 where r: "streamAssistantResponse env ?s2 = (r, s3)" by (metis surj_pair)
    note three = stream_response_ok [OF r ph]
    have sh: "rn_new s3 = rn_new ?s2" "rn_firstTurn s3 = rn_firstTurn ?s2" "rn_pending s3 = rn_pending ?s2" "rn_status s3 = Running"
      "rn_executed s3 = rn_executed ?s2" "rn_prepared s3 = rn_prepared ?s2" and resp: "responded ?s2 r s3"
      using three two(2) by (auto simp: answered_to_def steady_def shell_def)
    have asked: "b \<longrightarrow> (\<forall>q \<in> set (rn_asked s3). informed env C (rn_new ?s2) q)"
    proof
      assume b: "b"
      with run(6) na(2) have t: "talk env C (rn_new ?s2) (ac_messages (rn_context ?s2))" by simp
      from three consider "rn_asked s3 = rn_asked ?s2"
        | req where "rn_asked s3 = rn_asked ?s2 @ [\<lparr>aq_new = rn_new ?s2, aq_context = ac_messages (rn_context ?s2), aq_request = req\<rparr>]"
            "sends env (ac_messages (rn_context ?s2)) req" unfolding answered_to_def by blast
      then show "\<forall>q \<in> set (rn_asked s3). informed env C (rn_new ?s2) q"
        using run(4) b t talk_informed [of env C "\<lparr>aq_new = rn_new ?s2, aq_context = ac_messages (rn_context ?s2), aq_request = req\<rparr>" for req]
        by cases auto
    qed
    have eq': "run_turn env s = or_fail (r, s3) (\<lambda>message s. finish_turn env message (push_new (Assistant message) s))"
      by (simp add: eq if_running_def na(1) two(2) r)
    show ?thesis
    proof (cases r)
      case (Inl e)
      then have "run_turn env s = s3\<lparr>rn_status := Failed e\<rparr>" by (simp add: eq' or_fail_def)
      with resp Inl sh asked run(2,3) show ?thesis by (auto simp: between_steps_def good_def responded_def)
    next
      case (Inr m)
      have "replied b C env m (push_new (Assistant m) s3)"
        unfolding replied_def
      proof (intro conjI impI)
        assume b: "b"
        with run(6) na(2) obtain since where since: "conversation env C (rn_new ?s2) (ac_messages (rn_context ?s2)) since" "calls_answered since"
          by (auto simp: talk_def)
        have "ac_messages (rn_context s3) = ac_messages (rn_context ?s2) @ [Assistant m]"
          using three Inr assms(3) b by (auto simp: answered_to_def laws_def)
        with conversation_append [OF since(1), of "[Assistant m]"] since(2)
        show "\<exists>since. conversation env C (rn_new (push_new (Assistant m) s3)) (ac_messages (rn_context (push_new (Assistant m) s3)))
            (since @ [Assistant m]) \<and> calls_answered since"
          by (intro exI [of _ since]) (simp add: push_new_def sh)
        show "\<forall>q \<in> set (rn_asked (push_new (Assistant m) s3)). informed env C (rn_new (push_new (Assistant m) s3)) q"
          using asked b by (auto simp: push_new_def sh)
        show "\<forall>m \<in> set (rn_pending (push_new (Assistant m) s3)). \<not> is_assistant m"
          using run(5) b by (simp add: push_new_def sh)
      qed (use resp Inr sh run two(4) in \<open>auto simp: responded_def push_new_def\<close>)
      from finish_turn_good [OF this assms(3)] Inr show ?thesis
        by (auto simp: eq' or_fail_def between_steps_def)
    qed
  qed
qed

lemma poll_good:
  assumes "between_steps b C env s" "rn_status s = Running" "laws b env" "\<not> rn_hasMore s"
  shows "between_steps b C env (poll_follow_ups env s)"
proof -
  from assms(1,2,4) have g: "good b C env s" "\<not> rn_turnOpen s" "\<not> rn_firstTurn s" by (auto simp: between_steps_def)
  have "good b C env (poll_follow_ups env s) \<and> closed (poll_follow_ups env s)"
    unfolding poll_follow_ups_def
  proof (rule good_optional [OF g(1) assms(2,3)], goal_cases)
    case (2 msgs w)
    let ?s = "s\<lparr>rn_world := w\<rparr>"
    show ?case
    proof (cases "length msgs > 0")
      case True
      have "b \<longrightarrow> (\<forall>m \<in> set msgs. \<not> is_assistant m)"
      proof (cases "en_getFollowUpMessages env")
        case None
        then show ?thesis using 2(3) by simp
      next
        case (Some f)
        with 2(2) assms(3) show ?thesis unfolding laws_def input_only_def delivers_input_def by blast
      qed
      with 2(1) assms(2) g(2,3) True show ?thesis by (auto simp: good_def)
    next
      case False
      with end_run_good [OF 2(1)] assms(2) g(2) show ?thesis by simp
    qed
  qed (auto simp: abort_is_final_def Let_def)
  then show ?thesis by (auto simp: between_steps_def)
qed

lemma run_step_good:
  assumes "between_steps b C env s" "laws b env"
  shows "between_steps b C env (run_step env s)"
proof (cases "rn_status s = Running")
  case True
  then show ?thesis using run_turn_good [OF assms(1) True assms(2)] poll_good [OF assms(1) True assms(2)]
    by (auto simp: run_step_def if_running_def)
qed (use assms in \<open>simp add: run_step_def if_running_def\<close>)

lemma run_loop_good:
  assumes "between_steps b C env s" "laws b env"
  shows "between_steps b C env (runLoop env n s)"
  unfolding runLoop_def by (induction n) (simp_all add: assms run_step_good)

lemma start_run_good:
  assumes "laws b env" "b \<longrightarrow> (\<forall>m \<in> set prompts. \<not> is_assistant m)"
  shows "between_steps b (ac_messages context) env (start_run env context config prompts w)"
proof -
  let ?emits = "\<lambda>ps s. fold (\<lambda>prompt s. emit env (MessageEnd prompt) (emit env (MessageStart prompt) s)) ps s"
  let ?start = "emit env TurnStart (emit env AgentStart (new_run context config prompts w))"
  have emits: "ended_messages (rn_events (?emits ps s)) = ended_messages (rn_events s) @ ps \<and>
    (phase s = InTurn {#} \<longrightarrow> phase (?emits ps s) = InTurn {#}) \<and> core (?emits ps s) = core s \<and> rn_executed (?emits ps s) = rn_executed s \<and>
    rn_prepared (?emits ps s) = rn_prepared s"
    for ps s by (induction ps arbitrary: s) simp_all
  let ?s = "?emits prompts ?start"
  have "phase ?start = InTurn {#}" by (simp add: new_run_def phase_of_def)
  then have ph: "phase ?s = InTurn {#}" using emits by blast
  have "core ?s = core ?start" "rn_executed ?s = rn_executed ?start" "rn_prepared ?s = rn_prepared ?start" "ended_messages (rn_events ?s) = prompts"
    using emits [of prompts ?start] by (simp_all add: new_run_def)
  moreover have "core ?start = core (new_run context config prompts w)" by simp
  ultimately have s: "ended_messages (rn_events ?s) = prompts" "rn_executed ?s = []" "rn_new ?s = prompts"
    "rn_status ?s = Running" "rn_turnOpen ?s" "rn_firstTurn ?s" "rn_hasMore ?s" "rn_asked ?s = []" "rn_pending ?s = []"
    "rn_prepared ?s = []" "ac_messages (rn_context ?s) = ac_messages context @ prompts"
    by (simp_all add: core_def new_run_def)
  have "b \<longrightarrow> talk env (ac_messages context) prompts (ac_messages context @ prompts)"
    using assms(2) calls_answered_input [of prompts] by (auto simp: talk_def conversation_def)
  with s ph have g: "good b (ac_messages context) env ?s" by (simp add: good_def)
  have "good b (ac_messages context) env (begin_loop env ?s) \<and> (rn_status (begin_loop env ?s) = Running \<longrightarrow>
      rn_firstTurn (begin_loop env ?s) \<and> rn_turnOpen (begin_loop env ?s) \<and> rn_hasMore (begin_loop env ?s))"
    unfolding begin_loop_def
  proof (rule good_optional [OF g s(4) assms(1)], goal_cases)
    case (2 steering w)
    have "b \<longrightarrow> (\<forall>m \<in> set steering. \<not> is_assistant m)"
    proof (cases "en_getSteeringMessages env")
      case None
      then show ?thesis using 2(3) by simp
    next
      case (Some f)
      with 2(2) assms(1) show ?thesis unfolding laws_def input_only_def delivers_input_def by blast
    qed
    with 2(1) s show ?case by (auto simp: good_def)
  qed (auto simp: abort_is_final_def Let_def)
  then show ?thesis unfolding start_run_def between_steps_def by blast
qed

lemma run_good:
  assumes "laws b env" "b \<longrightarrow> (\<forall>m \<in> set prompts. \<not> is_assistant m)"
  shows "good b (ac_messages context) env (runAgentLoop env n prompts context config w)"
  using run_loop_good [OF start_run_good [OF assms] assms(1)] by (simp add: runAgentLoop_def between_steps_def)

section \<open>The guarantees\<close>

text \<open>C8: Whatever model, tools and hooks do, the events of a run follow the
  protocol at every moment: turns and messages are opened and closed in order, every update and
  end of a tool execution belongs to one that was started and not ended, no turn ends while a tool
  runs; when the run has finished, its last event is the end of the agent.\<close>

theorem events_follow_protocol:
  "case rn_status (runAgentLoop env n prompts context config w) of
     Running \<Rightarrow> phase_of (rn_events (runAgentLoop env n prompts context config w)) \<in> {InTurn {#}, BetweenTurns}
   | Finished \<Rightarrow> phase_of (rn_events (runAgentLoop env n prompts context config w)) = Ended
   | Failed _ \<Rightarrow> phase_of (rn_events (runAgentLoop env n prompts context config w)) \<noteq> Broken"
proof -
  have "good False (ac_messages context) env (runAgentLoop env n prompts context config w)" by (rule run_good) (simp_all add: laws_def)
  then show ?thesis by (cases "rn_status (runAgentLoop env n prompts context config w)") (simp_all add: good_def)
qed

lemma announced_messages:
  "ended_messages (rn_events (runAgentLoop env n prompts context config w)) = rn_new (runAgentLoop env n prompts context config w)"
proof -
  have "good False (ac_messages context) env (runAgentLoop env n prompts context config w)" by (rule run_good) (simp_all add: laws_def)
  then show ?thesis by (simp add: good_def)
qed

text \<open>The messages a run returns are exactly those whose end it has
  announced, in that order, also when the run is aborted or fails.\<close>

theorem returned_messages_announced:
  "rn_new (runAgentLoop env n prompts context config w) = ended_messages (rn_events (runAgentLoop env n prompts context config w))"
  by (rule announced_messages [symmetric])

text \<open>C12: A tool only ever starts for a call of an assistant message of the run, a
  call that names it, with arguments that passed validation, and only after that call was let pass:
  by the hook before the call, where there is one, which was given this message, this call and these
  arguments and did not block it, and by the check of the signal after it, made with or without a
  hook, which found the run not aborted at that moment.\<close>

theorem tools_start_cleared:
  "list_all (cleared env (runAgentLoop env n prompts context config w)) (rn_executed (runAgentLoop env n prompts context config w))"
proof -
  have "good False (ac_messages context) env (runAgentLoop env n prompts context config w)" by (rule run_good) (simp_all add: laws_def)
  then show ?thesis using clear_log_cleared by (auto simp: good_def)
qed


lemma aborted_run_ends:
  assumes "abort_is_final env" "en_aborted env (rn_world s)"
  shows "rn_status (runLoop env 2 s) \<noteq> Running \<and> rn_asked (runLoop env 2 s) = rn_asked s \<and>
    rn_executed (runLoop env 2 s) = rn_executed s"
proof -
  have two: "runLoop env 2 s = run_step env (run_step env s)" by (simp add: runLoop_def numeral_2_eq_2)
  have ended: "run_step env t = t" if "rn_status t \<noteq> Running" for t
    using that by (simp add: run_step_def if_running_def)
  have turn: "rn_status (run_turn env t) = Finished \<and> rn_asked (run_turn env t) = rn_asked t \<and> rn_executed (run_turn env t) = rn_executed t"
    if "en_aborted env (rn_world t)" for t
    using that by (simp add: run_turn_def stopIfAborted_def Let_def if_running_def push_new_def)
  show ?thesis
  proof (cases "rn_status s = Running")
    case False
    then show ?thesis by (simp add: two ended)
  next
    case True
    show ?thesis
    proof (cases "rn_hasMore s \<or> length (rn_pending s) > 0")
      case more: True
      then have "run_step env s = run_turn env s" by (simp add: run_step_def if_running_def True)
      then show ?thesis using turn [OF assms(2)] by (simp add: two ended)
    next
      case False
      then have poll: "run_step env s = poll_follow_ups env s" using True by (simp add: run_step_def if_running_def)
      obtain r u where r: "call_optional (en_getFollowUpMessages env) [] s = (r, u)" by (metis surj_pair)
      from call_optional_effect [OF r, of "en_aborted env"] assms obtain w where w: "u = s\<lparr>rn_world := w\<rparr>" "en_aborted env w"
        by (auto simp: abort_is_final_def Let_def)
      consider e where "r = Inl e" | "r = Inr []" | m ms where "r = Inr (m # ms)" by (metis list.exhaust sum.exhaust)
      then show ?thesis
      proof cases
        case (3 m ms)
        let ?t = "u\<lparr>rn_pending := m # ms, rn_hasMore := True\<rparr>"
        have one: "run_step env s = ?t" using 3 by (simp add: poll poll_follow_ups_def r or_fail_def)
        have "run_step env ?t = run_turn env ?t" using w True by (simp add: run_step_def if_running_def)
        then show ?thesis using turn [of ?t] w by (simp add: two one)
      qed (use r w in \<open>auto simp: two poll poll_follow_ups_def or_fail_def end_run_def ended\<close>)
    qed
  qed
qed

text \<open>C9: Once the signal of a run has fired, the run is over after at most two steps,
  the poll for follow-up messages and a turn that does not start, and in them neither the model
  is asked nor a tool started.\<close>

theorem abort_stops_run:
  assumes "abort_is_final env" "en_aborted env (rn_world s)"
  shows "rn_status (runLoop env 2 s) \<noteq> Running \<and> rn_asked (runLoop env 2 s) = rn_asked s \<and>
    rn_executed (runLoop env 2 s) = rn_executed s"
  using assms by (rule aborted_run_ends)

section \<open>A small agent\<close>

text \<open>A scripted outside whose world counts the replies of the model: the first one calls two tools,
  the second ends the turn. The run is aborted from the tenth reply on.\<close>

definition demo_reply :: "stop_reason \<Rightarrow> content_block list \<Rightarrow> assistant_message" where
  "demo_reply r content = \<lparr>am_content = content, am_stopReason = r, am_errorMessage = None, am_api = ''x'', am_provider = ''p'',
     am_model = ''m'', am_usage = EMPTY_USAGE, am_timestamp = 0\<rparr>"

definition demo_tool :: "string \<Rightarrow> agent_tool" where
  "demo_tool name = \<lparr>at_name = name, at_sequential = False, at_hideFromChannelProgress = False, at_schema = JUndef\<rparr>"

definition demo_first :: assistant_message where
  "demo_first = demo_reply ToolUse [CallBlock \<lparr>ag_id = ''1'', ag_name = ''read'', ag_arguments = JObj []\<rparr>,
     CallBlock \<lparr>ag_id = ''2'', ag_name = ''exec'', ag_arguments = JObj []\<rparr>]"

definition demo_env :: "nat agent_env" where
  "demo_env = \<lparr>en_aborted = (\<lambda>w. 10 \<le> w), en_abortReason = (\<lambda>w. None), en_now = (\<lambda>w. of_nat w), en_emit = (\<lambda>e w. w),
     en_transformContext = None, en_convertToLlm = (\<lambda>m w. (Inr JUndef, w)), en_getApiKey = None,
     en_streamFn = Some (\<lambda>r w. (Inr \<lparr>sr_events = [StreamDone], sr_failure = None,
        sr_result = Inr (if w = 0 then demo_first else demo_reply Stop [TextBlock ''done''])\<rparr>, w + 1)),
     en_runtimeStream = None, en_getSteeringMessages = None, en_getFollowUpMessages = None, en_prepareNextTurn = None,
     en_shouldStopAfterTurn = None, en_resolveDeferredTool = None, en_prepareArguments = (\<lambda>t. None),
     en_validateToolArguments = (\<lambda>t c. Inr (ag_arguments c)), en_beforeToolCall = None,
     en_execute = (\<lambda>t i a w. (([JStr ''working''], Inr \<lparr>to_content = JArr [], to_details = JUndef, to_progress = JUndef, to_terminate = None\<rparr>), w)),
     en_afterToolCall = None, en_schedule = (\<lambda>w. (1, w))\<rparr>"

definition demo_context :: agent_context where
  "demo_context = \<lparr>ac_systemPrompt = [], ac_messages = [], ac_tools = Some [demo_tool ''read'', demo_tool ''exec'']\<rparr>"

definition demo_config :: loop_config where
  "demo_config = \<lparr>lc_model = \<lparr>md_id = ''m'', md_api = ''x'', md_provider = ''p'', md_canonicalModelId = None, md_thinkingOff = None\<rparr>,
     lc_thinkingLevel = None, lc_reasoning = None, lc_apiKey = None, lc_sequential = False\<rparr>"

definition demo_run :: "nat \<Rightarrow> nat \<Rightarrow> nat run" where
  "demo_run n w = runAgentLoop demo_env n [Other (JStr ''hi'')] demo_context demo_config w"

lemma demo_env_final: "abort_is_final demo_env" "input_only demo_env"
  by (simp_all add: abort_is_final_def demo_env_def keeps_def input_only_def delivers_input_def)










theorem abort_stops_run_witness:
  "rn_status (runLoop demo_env 2 (demo_run 0 10)) \<noteq> Running \<and> rn_asked (runLoop demo_env 2 (demo_run 0 10)) = rn_asked (demo_run 0 10) \<and>
   rn_executed (runLoop demo_env 2 (demo_run 0 10)) = rn_executed (demo_run 0 10)"
proof (rule abort_stops_run [OF demo_env_final(1)])
  show "en_aborted demo_env (rn_world (demo_run 0 10))" by code_simp
qed

end
