(* ===== verification/LoopInvariant.thy ===== *)
theory LoopInvariant
  imports AgentLoopProps
begin

text \<open>
  An induction principle for the agent loop. What ties the events emitted so far to the world
  outside is kept by a whole run if emitting an event and every callback keep it: the locale
  \<open>loop_invariant\<close> has these as its assumptions and follows the loop once, so that a client of
  the loop only states what its callbacks do.
\<close>

definition hooks_keep :: "'w agent_env \<Rightarrow> ('w \<Rightarrow> bool) \<Rightarrow> bool" where
  "hooks_keep env P \<longleftrightarrow>
     (\<forall>h m. en_transformContext env = Some h \<longrightarrow> keeps P (h m)) \<and>
     (\<forall>m. keeps P (en_convertToLlm env m)) \<and>
     (\<forall>h p. en_getApiKey env = Some h \<longrightarrow> keeps P (h p)) \<and>
     (\<forall>h r. en_streamFn env = Some h \<longrightarrow> keeps P (h r)) \<and>
     (\<forall>h r. en_runtimeStream env = Some h \<longrightarrow> keeps P (h r)) \<and>
     (\<forall>h. en_getSteeringMessages env = Some h \<longrightarrow> keeps P h) \<and>
     (\<forall>h. en_getFollowUpMessages env = Some h \<longrightarrow> keeps P h) \<and>
     (\<forall>h i. en_prepareNextTurn env = Some h \<longrightarrow> keeps P (h i)) \<and>
     (\<forall>h i. en_shouldStopAfterTurn env = Some h \<longrightarrow> keeps P (h i)) \<and>
     (\<forall>h m c x. en_resolveDeferredTool env = Some h \<longrightarrow> keeps P (h m c x)) \<and>
     (\<forall>h m c a x. en_beforeToolCall env = Some h \<longrightarrow> keeps P (h m c a x)) \<and>
     (\<forall>t i a. keeps P (en_execute env t i a)) \<and>
     (\<forall>h m c a r b x. en_afterToolCall env = Some h \<longrightarrow> keeps P (h m c a r b x)) \<and>
     keeps P (en_schedule env)"

lemma abort_is_finalI:
  assumes "\<And>e w. en_aborted env w \<Longrightarrow> en_aborted env (en_emit env e w)" "hooks_keep env (en_aborted env)"
  shows "abort_is_final env"
  unfolding abort_is_final_def Let_def using assms by (simp add: hooks_keep_def)

definition holds :: "(agent_event list \<Rightarrow> 'w \<Rightarrow> bool) \<Rightarrow> 'w run \<Rightarrow> bool" where
  "holds I s \<longleftrightarrow> I (rn_events s) (rn_world s)"

lemma holds_frame [simp]:
  "holds I (push_context m s) = holds I s" "holds I (set_last_context m s) = holds I s" "holds I (push_new m s) = holds I s"
  "holds I (s\<lparr>rn_status := st\<rparr>) = holds I s" "holds I (s\<lparr>rn_pending := ms\<rparr>) = holds I s" "holds I (s\<lparr>rn_hasMore := b\<rparr>) = holds I s"
  "holds I (s\<lparr>rn_turnOpen := b\<rparr>) = holds I s" "holds I (s\<lparr>rn_firstTurn := b\<rparr>) = holds I s" "holds I (s\<lparr>rn_asked := a\<rparr>) = holds I s"
  "holds I (s\<lparr>rn_executed := x\<rparr>) = holds I s" "holds I (note_asked ms r s) = holds I s"
  "holds I (note_prepared am call tool args s1 s) = holds I s" "holds I (s\<lparr>rn_context := c\<rparr>) = holds I s" "holds I (s\<lparr>rn_config := g\<rparr>) = holds I s"
  by (simp_all add: holds_def push_context_def set_last_context_def push_new_def note_asked_def note_prepared_def)

lemma fold_holds: "(\<And>x s. holds I s \<Longrightarrow> holds I (f x s)) \<Longrightarrow> holds I s \<Longrightarrow> holds I (fold f xs s)"
  by (induction xs arbitrary: s) auto

lemma and_then_holds: "holds I (snd p) \<Longrightarrow> (\<And>a s. holds I s \<Longrightarrow> holds I (snd (f a s))) \<Longrightarrow> holds I (snd (and_then p f))"
  by (cases p rule: prod.exhaust) (auto simp: and_then_def split: sum.split)

lemma or_fail_holds: "holds I (snd p) \<Longrightarrow> (\<And>a s. holds I s \<Longrightarrow> holds I (f a s)) \<Longrightarrow> holds I (or_fail p f)"
  by (cases p rule: prod.exhaust) (auto simp: or_fail_def split: sum.split)

lemma if_running_holds: "holds I s \<Longrightarrow> (\<And>s. holds I s \<Longrightarrow> holds I (f s)) \<Longrightarrow> holds I (if_running s f)"
  by (simp add: if_running_def)

lemma call_hook_holds: "holds I s \<Longrightarrow> keeps (I (rn_events s)) h \<Longrightarrow> holds I (snd (call_hook h s))"
  by (cases "h (rn_world s)") (auto simp: call_hook_def holds_def keeps_def dest!: spec [of _ "rn_world s"])

definition opt_keeps :: "('w \<Rightarrow> bool) \<Rightarrow> ('w, 'a) hook option \<Rightarrow> bool" where
  "opt_keeps P h \<longleftrightarrow> (case h of None \<Rightarrow> True | Some f \<Rightarrow> keeps P f)"

lemma call_optional_holds:
  "holds I s \<Longrightarrow> opt_keeps (I (rn_events s)) h \<Longrightarrow> holds I (snd (call_optional h d s))"
  by (cases h) (auto simp: call_optional_def opt_keeps_def intro: call_hook_holds)

locale loop_invariant =
  fixes env :: "'w agent_env" and I :: "agent_event list \<Rightarrow> 'w \<Rightarrow> bool"
  assumes on_emit: "I evs w \<Longrightarrow> I (evs @ [e]) (en_emit env e w)"
    and on_hooks: "hooks_keep env (I evs)"
begin

lemma emit_holds [intro]: "holds I s \<Longrightarrow> holds I (emit env e s)"
  by (simp add: holds_def emit_def on_emit)

lemma hook_facts:
  "opt_keeps (I evs) (map_option (\<lambda>h. h m) (en_transformContext env))"
  "keeps (I evs) (en_convertToLlm env m)"
  "opt_keeps (I evs) (map_option (\<lambda>h. h p) (en_getApiKey env))"
  "opt_keeps (I evs) (en_getSteeringMessages env)"
  "opt_keeps (I evs) (en_getFollowUpMessages env)"
  "opt_keeps (I evs) (map_option (\<lambda>h. h i) (en_prepareNextTurn env))"
  "opt_keeps (I evs) (map_option (\<lambda>h. h i) (en_shouldStopAfterTurn env))"
  "opt_keeps (I evs) (map_option (\<lambda>h. h am c x) (en_resolveDeferredTool env))"
  "opt_keeps (I evs) (map_option (\<lambda>h. h am c a x) (en_beforeToolCall env))"
  "opt_keeps (I evs) (map_option (\<lambda>h. h am c a out b x) (en_afterToolCall env))"
  "keeps (I evs) (en_execute env t j a)" "keeps (I evs) (en_schedule env)"
  using on_hooks [of evs] by (auto simp: hooks_keep_def opt_keeps_def split: option.split)

lemma finish_response_holds: "holds I s \<Longrightarrow> holds I (snd (finish_response env resp added s))"
  by (auto simp: finish_response_def Let_def split: sum.split intro!: emit_holds)

lemma consume_stream_holds: "holds I s \<Longrightarrow> holds I (snd (consume_stream env resp evs part added s))"
proof (induction evs arbitrary: part added s)
  case Nil
  then show ?case by (auto simp: finish_response_holds split: option.split)
next
  case (Cons ev evs)
  then show ?case by (cases ev) (auto simp: Let_def finish_response_holds emit_holds split: option.split)
qed

lemma stream_function_holds: "resolveAgentCoreStreamFn env = Inr f \<Longrightarrow> keeps (I evs) (f r)"
  using on_hooks [of evs] by (auto simp: resolveAgentCoreStreamFn_def hooks_keep_def split: option.splits)

lemma stream_response_holds: "holds I s \<Longrightarrow> holds I (snd (streamAssistantResponse env s))"
  by (auto simp: streamAssistantResponse_def Let_def split: sum.split
      intro!: and_then_holds call_optional_holds call_hook_holds consume_stream_holds hook_facts stream_function_holds)

lemma resolve_tool_holds: "holds I s \<Longrightarrow> holds I (snd (snd (resolveToolCallTool env message ic res s)))"
proof -
  let ?p = "call_optional (map_option (\<lambda>h. h message (snd ic) (rn_context s)) (en_resolveDeferredTool env)) None s"
  assume "holds I s"
  then have "holds I (snd ?p)" by (auto intro!: call_optional_holds hook_facts)
  with \<open>holds I s\<close> show ?thesis
    by (cases ?p rule: prod.exhaust)
      (auto simp: resolveToolCallTool_def Let_def split: option.split sum.split)
qed

lemma prepare_holds: "holds I s \<Longrightarrow> holds I (snd (snd (prepareToolCall env message ic res s)))"
proof -
  assume "holds I s"
  obtain r res' s1 where r: "resolveToolCallTool env message ic res s = (r, res', s1)" by (metis prod_cases3)
  with resolve_tool_holds [OF \<open>holds I s\<close>, of message ic res] have s1: "holds I s1" by simp
  have before: "holds I (snd (call_optional (map_option (\<lambda>h. h message (snd ic) args (rn_context s1)) (en_beforeToolCall env)) None s1))" for args
    using s1 by (auto intro!: call_optional_holds hook_facts)
  show ?thesis using s1 before
    by (auto simp: prepareToolCall_def r Let_def case_prod_beta split: resolution.split option.split sum.split)
qed

lemma start_tool_holds: "holds I s \<Longrightarrow> holds I (snd (start_tool env call tool args s))"
  using hook_facts(11) [of "rn_events s" tool "ag_id call" args]
  by (auto simp: start_tool_def case_prod_beta holds_def keeps_def)

lemma emit_update_holds: "holds I s \<Longrightarrow> holds I (emit_update env call tool u s)"
  by (simp add: emit_update_def emit_holds)

lemma execute_holds: "holds I s \<Longrightarrow> holds I (snd (executePreparedToolCall env call tool args s))"
  using start_tool_holds [of s call tool args]
  by (auto simp: executePreparedToolCall_def case_prod_beta intro!: fold_holds emit_update_holds)

lemma finalize_holds: "holds I s \<Longrightarrow> holds I (snd (finalizeExecutedToolCall env message call tool args ex s))"
  by (auto simp: finalizeExecutedToolCall_def case_prod_beta Let_def intro!: call_optional_holds hook_facts)

lemma emit_helpers_hold:
  "holds I s \<Longrightarrow> holds I (emitToolExecutionEnd env f s)" "holds I s \<Longrightarrow> holds I (emitToolResultMessage env m s)"
  "holds I s \<Longrightarrow> holds I (emit_start env ic res s)"
  by (simp_all add: emitToolExecutionEnd_def emitToolResultMessage_def emit_start_def emit_holds)

lemma run_sequential_holds: "holds I s \<Longrightarrow> holds I (snd (snd (run_sequential env message ics res fs ms s)))"
proof (induction ics arbitrary: res fs ms s)
  case (Cons ic ics)
  obtain p res' s1 where p: "prepareToolCall env message ic res (emit_start env ic res s) = (p, res', s1)" by (metis prod_cases3)
  with prepare_holds [OF emit_helpers_hold(3) [OF Cons.prems], of message ic res ic res] have s1: "holds I s1" by simp
  then show ?case by (cases p) (auto simp: p Let_def case_prod_beta intro!: Cons.IH emit_helpers_hold finalize_holds execute_holds)
qed simp

lemma sequential_holds: "holds I s \<Longrightarrow> holds I (snd (executeToolCallsSequential env message ics res s))"
  by (auto simp: executeToolCallsSequential_def case_prod_beta run_sequential_holds)

lemma start_parallel_holds: "holds I s \<Longrightarrow> holds I (snd (start_parallel env message ics res es s))"
proof (induction ics arbitrary: res es s)
  case (Cons ic ics)
  obtain p res' s1 where p: "prepareToolCall env message ic res (emit_start env ic res s) = (p, res', s1)" by (metis prod_cases3)
  with prepare_holds [OF emit_helpers_hold(3) [OF Cons.prems], of message ic res ic res] have s1: "holds I s1" by simp
  then show ?case by (cases p) (auto simp: p Let_def case_prod_beta intro!: Cons.IH emit_helpers_hold)
qed simp

lemma launch_holds: "holds I s \<Longrightarrow> holds I (snd (launch env es s))"
proof (induction es arbitrary: s)
  case (Cons e es)
  show ?case
  proof (cases e)
    case (Unstarted call tool args)
    with Cons start_tool_holds [of s call tool args] show ?thesis by (auto simp: case_prod_beta)
  qed (use Cons in \<open>auto simp: case_prod_beta\<close>)
qed simp

lemma advance_holds: "holds I s \<Longrightarrow> holds I (snd (advance env message e s))"
  by (auto simp: advance_def case_prod_beta finalize_holds emit_update_holds emit_helpers_hold split: call_entry.split list.split)

lemma run_parallel_holds: "holds I s \<Longrightarrow> holds I (snd (run_parallel env message es s))"
proof (induction "sum_list (map remaining_steps es)" arbitrary: es s rule: less_induct)
  case less
  show ?case
  proof (cases "live_entries es = []")
    case True
    then show ?thesis using less.prems by (simp add: run_parallel.simps [of env message es])
  next
    case False
    obtain n w where n: "en_schedule env (rn_world s) = (n, w)" by (metis surj_pair)
    define i where "i = live_entries es ! (n mod length (live_entries es))"
    obtain e s' where e: "advance env message (es ! i) (s\<lparr>rn_world := w\<rparr>) = (e, s')" by (metis surj_pair)
    have "i \<in> set (live_entries es)" using False by (simp add: i_def)
    then have live: "i < length es" "remaining_steps (es ! i) > 0" by (simp_all add: live_entries_def)
    have "I (rn_events s) w" using hook_facts(12) [of "rn_events s"] less.prems n by (auto simp: keeps_def holds_def dest: spec [of _ "rn_world s"])
    then have "holds I (s\<lparr>rn_world := w\<rparr>)" by (simp add: holds_def)
    from advance_holds [OF this, of message "es ! i"] e have s': "holds I s'" by simp
    have "remaining_steps e < remaining_steps (es ! i)"
      using advance_remaining [OF live(2), of env message "s\<lparr>rn_world := w\<rparr>"] e by simp
    then have "sum_list (map remaining_steps (es[i := e])) < sum_list (map remaining_steps es)"
      using live(1) by (rule sum_list_update_less [rotated])
    from less.hyps [OF this s'] show ?thesis
      using False n e by (simp add: run_parallel.simps [of env message es] i_def)
  qed
qed

lemma emit_results_holds: "holds I s \<Longrightarrow> holds I (snd (emit_results env fs s))"
proof -
  have "holds I (snd acc) \<Longrightarrow> holds I (snd (fold (\<lambda>f (messages, s). let m = createToolResultMessage env f (rn_world s)
     in (messages @ [m], emitToolResultMessage env m s)) fs acc))" for acc
    by (induction fs arbitrary: acc) (auto simp: case_prod_beta Let_def emit_helpers_hold)
  from this [of "([], s)"] show "holds I s \<Longrightarrow> ?thesis" by (simp add: emit_results_def)
qed

lemma parallel_holds: "holds I s \<Longrightarrow> holds I (snd (executeToolCallsParallel env message ics res s))"
  by (auto simp: executeToolCallsParallel_def case_prod_beta Let_def intro!: emit_results_holds run_parallel_holds launch_holds start_parallel_holds)

lemma resolve_modes_holds: "holds I s \<Longrightarrow> holds I (snd (snd (resolve_modes env message ics res s)))"
proof (induction ics arbitrary: res s)
  case (Cons ic ics)
  obtain r res' s1 where r: "resolveToolCallTool env message ic res s = (r, res', s1)" by (metis prod_cases3)
  with resolve_tool_holds [OF Cons.prems, of message ic res] have "holds I s1" by simp
  with r Cons.IH show ?case by (auto simp: Let_def)
qed simp

lemma execute_calls_holds: "holds I s \<Longrightarrow> holds I (snd (executeToolCalls env message s))"
  by (auto simp: executeToolCalls_def Let_def case_prod_beta resolve_modes_holds intro!: sequential_holds parallel_holds)

lemma stop_if_aborted_holds: "holds I s \<Longrightarrow> holds I (stopIfAborted env s)"
  by (auto simp: stopIfAborted_def Let_def intro!: emit_holds)

lemma end_run_holds: "holds I s \<Longrightarrow> holds I (end_run env s)"
  by (simp add: end_run_def emit_holds)

lemma update_holds: "holds I s \<Longrightarrow> holds I (apply_turn_update u s)"
  by (simp add: apply_turn_update_def Let_def split: option.split)

lemma after_turn_holds: "holds I s \<Longrightarrow> holds I (after_turn env message rs s)"
  unfolding after_turn_def
  by (intro or_fail_holds if_running_holds call_optional_holds hook_facts stop_if_aborted_holds update_holds;
      simp add: end_run_holds; intro impI or_fail_holds call_optional_holds hook_facts stop_if_aborted_holds; simp)

lemma finish_turn_holds: "holds I s \<Longrightarrow> holds I (finish_turn env message s)"
proof -
  assume s: "holds I s"
  obtain r t s1 where r: "(if am_stopReason message = ToolUse \<and> message_calls message \<noteq> [] then executeToolCalls env message s
    else (([], True), s)) = ((r, t), s1)" by (metis surj_pair)
  have "holds I (snd (if am_stopReason message = ToolUse \<and> message_calls message \<noteq> [] then executeToolCalls env message s
    else (([], True), s)))" using s by (auto intro: execute_calls_holds)
  then have "holds I s1" by (simp add: r)
  then have "holds I (fold (\<lambda>r s. push_new (ToolResult r) (push_context (ToolResult r) s)) r (s1\<lparr>rn_hasMore := \<not> t\<rparr>))"
    by (intro fold_holds) simp_all
  then show ?thesis using s
    by (auto simp: finish_turn_def r Let_def intro!: end_run_holds emit_holds if_running_holds stop_if_aborted_holds after_turn_holds)
qed

lemma run_turn_holds: "holds I s \<Longrightarrow> holds I (run_turn env s)"
  unfolding run_turn_def Let_def open_turn_def inject_message_def
  by (intro if_running_holds or_fail_holds stop_if_aborted_holds stream_response_holds finish_turn_holds fold_holds)
    (auto intro!: emit_holds)

lemma run_step_holds: "holds I s \<Longrightarrow> holds I (run_step env s)"
  unfolding run_step_def poll_follow_ups_def
  by (auto intro!: if_running_holds run_turn_holds or_fail_holds call_optional_holds hook_facts end_run_holds)

lemma run_loop_holds: "holds I s \<Longrightarrow> holds I (runLoop env n s)"
  unfolding runLoop_def by (induction n) (auto intro: run_step_holds)

lemma start_run_holds: "I [] w \<Longrightarrow> holds I (start_run env context config prompts w)"
proof -
  assume "I [] w"
  then have "holds I (new_run context config prompts w)" by (simp add: holds_def new_run_def)
  then show ?thesis unfolding start_run_def begin_loop_def
    by (auto intro!: or_fail_holds call_optional_holds hook_facts fold_holds emit_holds)
qed

lemma run_holds: "I [] w \<Longrightarrow> holds I (runAgentLoop env n prompts context config w)"
  unfolding runAgentLoop_def by (intro run_loop_holds start_run_holds)

end

end
