(* ===== verification/AgentClass.thy ===== *)
theory AgentClass
  imports LoopInvariant
begin

text \<open>
  The stateful wrapper around the agent loop, class \<open>Agent\<close> of
  \<^verbatim>\<open>src/packages/agent-core/src/agent.ts\<close>: the transcript, the two queues of pending messages,
  the reduction of loop events, and the life cycle of a run. The world of the loop is the agent
  itself with whatever lies outside it. A callback (listener, hook, tool, model stream) sees the
  agent, changes the outside, and acts on the agent through its public operations only, which it
  reports as a list; operations of other callers that happen while a callback is awaited are part
  of that list. Listeners do not throw.
\<close>

section \<open>Queues of pending messages\<close>

datatype queue_mode = AllMessages | OneAtATime

record message_queue =
  mq_messages :: "agent_message list"
  mq_mode :: queue_mode

definition enqueue :: "agent_message \<Rightarrow> message_queue \<Rightarrow> message_queue" where
  "enqueue message q = q\<lparr>mq_messages := mq_messages q @ [message]\<rparr>"

definition hasItems :: "message_queue \<Rightarrow> bool" where
  "hasItems q \<longleftrightarrow> length (mq_messages q) > 0"

definition drain :: "message_queue \<Rightarrow> agent_message list \<times> message_queue" where
  "drain q = (case mq_mode q of
     AllMessages \<Rightarrow> (mq_messages q, q\<lparr>mq_messages := []\<rparr>)
   | OneAtATime \<Rightarrow> (case mq_messages q of
       [] \<Rightarrow> ([], q)
     | first # rest \<Rightarrow> ([first], q\<lparr>mq_messages := rest\<rparr>)))"

definition clear :: "message_queue \<Rightarrow> message_queue" where
  "clear q = q\<lparr>mq_messages := []\<rparr>"

section \<open>State\<close>

record agent_state =
  as_systemPrompt :: string
  as_model :: agent_model
  as_thinkingLevel :: string
  as_tools :: "agent_tool list"
  as_messages :: "agent_message list"
  as_isStreaming :: bool
  as_streamingMessage :: "agent_message option"
  as_pendingToolCalls :: "string list"
  as_errorMessage :: "string option"

text \<open>The public operations that change an agent.\<close>

datatype agent_op = Steer agent_message | FollowUp agent_message | ClearSteeringQueue | ClearFollowUpQueue
  | ClearAllQueues | SetSteeringMode queue_mode | SetFollowUpMode queue_mode | Abort | Reset
  | SetMessages "agent_message list" | SetTools "agent_tool list" | SetModel agent_model
  | SetThinkingLevel string | SetSystemPrompt string

text \<open>\<open>agt_activeRun\<close> holds whether the signal of the active run has fired, if there is one,
  \<open>agt_skipPoll\<close> the variable \<^verbatim>\<open>skipInitialSteeringPoll\<close> of its configuration. \<open>agt_log\<close> only
  records the operations since the run began, and \<open>agt_drained\<close> the messages handed to it.\<close>

record 'x agent =
  agt_state :: agent_state
  agt_steeringQueue :: message_queue
  agt_followUpQueue :: message_queue
  agt_activeRun :: "bool option"
  agt_skipPoll :: bool
  agt_outside :: 'x
  agt_log :: "agent_op list"
  agt_drained :: "agent_message list"

definition DEFAULT_MODEL :: agent_model where
  "DEFAULT_MODEL = \<lparr>md_id = ''unknown'', md_api = ''unknown'', md_provider = ''unknown'', md_canonicalModelId = None, md_thinkingOff = None\<rparr>"

definition createMutableAgentState ::
    "string option \<Rightarrow> agent_model option \<Rightarrow> string option \<Rightarrow> agent_tool list option \<Rightarrow> agent_message list option \<Rightarrow> agent_state" where
  "createMutableAgentState systemPrompt model thinkingLevel tools messages =
     \<lparr>as_systemPrompt = (case systemPrompt of Some p \<Rightarrow> p | None \<Rightarrow> []), as_model = (case model of Some m \<Rightarrow> m | None \<Rightarrow> DEFAULT_MODEL),
      as_thinkingLevel = (case thinkingLevel of Some l \<Rightarrow> l | None \<Rightarrow> ''off''),
      as_tools = (case tools of Some ts \<Rightarrow> ts | None \<Rightarrow> []), as_messages = (case messages of Some ms \<Rightarrow> ms | None \<Rightarrow> []),
      as_isStreaming = False, as_streamingMessage = None, as_pendingToolCalls = [], as_errorMessage = None\<rparr>"

definition new_agent :: "agent_state \<Rightarrow> queue_mode option \<Rightarrow> queue_mode option \<Rightarrow> 'x \<Rightarrow> 'x agent" where
  "new_agent state steeringMode followUpMode x =
     (let queue = (\<lambda>m. \<lparr>mq_messages = [], mq_mode = (case m of Some m \<Rightarrow> m | None \<Rightarrow> OneAtATime)\<rparr>)
      in \<lparr>agt_state = state, agt_steeringQueue = queue steeringMode, agt_followUpQueue = queue followUpMode,
          agt_activeRun = None, agt_skipPoll = False, agt_outside = x, agt_log = [], agt_drained = []\<rparr>)"

section \<open>Operations\<close>

abbreviation with_state :: "(agent_state \<Rightarrow> agent_state) \<Rightarrow> 'x agent \<Rightarrow> 'x agent" where
  "with_state f a \<equiv> a\<lparr>agt_state := f (agt_state a)\<rparr>"

abbreviation with_steering :: "(message_queue \<Rightarrow> message_queue) \<Rightarrow> 'x agent \<Rightarrow> 'x agent" where
  "with_steering f a \<equiv> a\<lparr>agt_steeringQueue := f (agt_steeringQueue a)\<rparr>"

abbreviation with_followUps :: "(message_queue \<Rightarrow> message_queue) \<Rightarrow> 'x agent \<Rightarrow> 'x agent" where
  "with_followUps f a \<equiv> a\<lparr>agt_followUpQueue := f (agt_followUpQueue a)\<rparr>"

definition steer :: "agent_message \<Rightarrow> 'x agent \<Rightarrow> 'x agent" where
  "steer message a = with_steering (enqueue message) a"

definition followUp :: "agent_message \<Rightarrow> 'x agent \<Rightarrow> 'x agent" where
  "followUp message a = with_followUps (enqueue message) a"

definition clearSteeringQueue :: "'x agent \<Rightarrow> 'x agent" where
  "clearSteeringQueue a = with_steering clear a"

definition clearFollowUpQueue :: "'x agent \<Rightarrow> 'x agent" where
  "clearFollowUpQueue a = with_followUps clear a"

definition clearAllQueues :: "'x agent \<Rightarrow> 'x agent" where
  "clearAllQueues a = clearFollowUpQueue (clearSteeringQueue a)"

definition hasQueuedMessages :: "'x agent \<Rightarrow> bool" where
  "hasQueuedMessages a \<longleftrightarrow> hasItems (agt_steeringQueue a) \<or> hasItems (agt_followUpQueue a)"

definition abort :: "'x agent \<Rightarrow> 'x agent" where
  "abort a = a\<lparr>agt_activeRun := map_option (\<lambda>_. True) (agt_activeRun a)\<rparr>"

definition reset :: "'x agent \<Rightarrow> 'x agent" where
  "reset a = clearSteeringQueue (clearFollowUpQueue (with_state (\<lambda>st. st\<lparr>as_messages := [], as_isStreaming := False,
     as_streamingMessage := None, as_pendingToolCalls := [], as_errorMessage := None\<rparr>) a))"

fun perform :: "agent_op \<Rightarrow> 'x agent \<Rightarrow> 'x agent" where
  "perform (Steer m) a = steer m a"
| "perform (FollowUp m) a = followUp m a"
| "perform ClearSteeringQueue a = clearSteeringQueue a"
| "perform ClearFollowUpQueue a = clearFollowUpQueue a"
| "perform ClearAllQueues a = clearAllQueues a"
| "perform (SetSteeringMode mode) a = with_steering (\<lambda>q. q\<lparr>mq_mode := mode\<rparr>) a"
| "perform (SetFollowUpMode mode) a = with_followUps (\<lambda>q. q\<lparr>mq_mode := mode\<rparr>) a"
| "perform Abort a = abort a"
| "perform Reset a = reset a"
| "perform (SetMessages ms) a = with_state (\<lambda>st. st\<lparr>as_messages := ms\<rparr>) a"
| "perform (SetTools ts) a = with_state (\<lambda>st. st\<lparr>as_tools := ts\<rparr>) a"
| "perform (SetModel m) a = with_state (\<lambda>st. st\<lparr>as_model := m\<rparr>) a"
| "perform (SetThinkingLevel l) a = with_state (\<lambda>st. st\<lparr>as_thinkingLevel := l\<rparr>) a"
| "perform (SetSystemPrompt p) a = with_state (\<lambda>st. st\<lparr>as_systemPrompt := p\<rparr>) a"

definition operate :: "agent_op \<Rightarrow> 'x agent \<Rightarrow> 'x agent" where
  "operate op a = (perform op a)\<lparr>agt_log := agt_log a @ [op]\<rparr>"

type_synonym ('x, 'a) callback = "'x agent \<Rightarrow> 'a \<times> agent_op list \<times> 'x"

definition await_call :: "('x, 'a) callback \<Rightarrow> 'x agent \<Rightarrow> 'a \<times> 'x agent" where
  "await_call f a = (let (r, ops, x) = f a in (r, fold operate ops (a\<lparr>agt_outside := x\<rparr>)))"

section \<open>Options\<close>

text \<open>\<open>ao_wire\<close> is what the provider makes of a list of messages passed on as they are.\<close>

record 'x agent_options =
  ao_now :: "'x agent \<Rightarrow> rat"
  ao_listen :: "agent_event \<Rightarrow> ('x, unit) callback"
  ao_wire :: "agent_message list \<Rightarrow> js_value"
  ao_convertToLlm :: "(agent_message list \<Rightarrow> ('x, string + js_value) callback) option"
  ao_transformContext :: "(agent_message list \<Rightarrow> ('x, string + agent_message list) callback) option"
  ao_getApiKey :: "(string \<Rightarrow> ('x, string + string option) callback) option"
  ao_streamFn :: "model_request \<Rightarrow> ('x, string + stream_response) callback"
  ao_beforeToolCall :: "(assistant_message \<Rightarrow> agent_call \<Rightarrow> js_value \<Rightarrow> agent_context \<Rightarrow> ('x, string + before_result option) callback) option"
  ao_resolveDeferredTool :: "(assistant_message \<Rightarrow> agent_call \<Rightarrow> agent_context \<Rightarrow> ('x, string + agent_tool option) callback) option"
  ao_afterToolCall :: "(assistant_message \<Rightarrow> agent_call \<Rightarrow> js_value \<Rightarrow> tool_output \<Rightarrow> bool \<Rightarrow> agent_context \<Rightarrow>
    ('x, string + after_result option) callback) option"
  ao_prepareNextTurn :: "('x, string + turn_update option) callback option"
  ao_prepareArguments :: "agent_tool \<Rightarrow> (js_value \<Rightarrow> string + js_value) option"
  ao_validateToolArguments :: "agent_tool \<Rightarrow> agent_call \<Rightarrow> string + js_value"
  ao_execute :: "agent_tool \<Rightarrow> string \<Rightarrow> js_value \<Rightarrow> ('x, js_value list \<times> (string + tool_output)) callback"
  ao_schedule :: "('x, nat) callback"
  ao_sequential :: bool

definition defaultConvertToLlm :: "agent_message list \<Rightarrow> agent_message list" where
  "defaultConvertToLlm messages = filter (\<lambda>m. case m of
     Other v \<Rightarrow> field v ''role'' \<in> set [JStr ''user'', JStr ''assistant'', JStr ''toolResult'']
   | _ \<Rightarrow> True) messages"

section \<open>Events\<close>

definition reduce_event :: "agent_event \<Rightarrow> agent_state \<Rightarrow> agent_state" where
  "reduce_event event st = (case event of
     MessageStart m \<Rightarrow> st\<lparr>as_streamingMessage := Some m\<rparr>
   | MessageUpdate m _ \<Rightarrow> st\<lparr>as_streamingMessage := Some (Assistant m)\<rparr>
   | MessageEnd m \<Rightarrow> st\<lparr>as_streamingMessage := None, as_messages := as_messages st @ [m]\<rparr>
   | ToolExecutionStart i _ _ _ \<Rightarrow> st\<lparr>as_pendingToolCalls := set_add i (as_pendingToolCalls st)\<rparr>
   | ToolExecutionEnd i _ _ _ _ _ _ \<Rightarrow> st\<lparr>as_pendingToolCalls := set_remove i (as_pendingToolCalls st)\<rparr>
   | TurnEnd m _ \<Rightarrow> (case am_errorMessage m of
       Some e \<Rightarrow> if e \<noteq> [] then st\<lparr>as_errorMessage := Some e\<rparr> else st
     | None \<Rightarrow> st)
   | AgentEnd _ \<Rightarrow> st\<lparr>as_streamingMessage := None\<rparr>
   | _ \<Rightarrow> st)"

definition processEvents :: "'x agent_options \<Rightarrow> agent_event \<Rightarrow> 'x agent \<Rightarrow> 'x agent" where
  "processEvents opts event a = snd (await_call (ao_listen opts event) (with_state (reduce_event event) a))"

section \<open>A run\<close>

definition createContextSnapshot :: "'x agent \<Rightarrow> agent_context" where
  "createContextSnapshot a = \<lparr>ac_systemPrompt = as_systemPrompt (agt_state a), ac_messages = as_messages (agt_state a),
     ac_tools = Some (as_tools (agt_state a))\<rparr>"

definition createLoopConfig :: "'x agent_options \<Rightarrow> 'x agent \<Rightarrow> loop_config" where
  "createLoopConfig opts a = (let st = agt_state a in
     \<lparr>lc_model = as_model st, lc_thinkingLevel = Some (as_thinkingLevel st),
      lc_reasoning = resolveAgentReasoningOption (as_model st) (as_thinkingLevel st),
      lc_apiKey = None, lc_sequential = ao_sequential opts\<rparr>)"

definition getSteeringMessages :: "('x agent, agent_message list) hook" where
  "getSteeringMessages a =
     (if agt_skipPoll a then (Inr [], a\<lparr>agt_skipPoll := False\<rparr>)
      else let (ms, q) = drain (agt_steeringQueue a)
           in (Inr ms, a\<lparr>agt_steeringQueue := q, agt_drained := agt_drained a @ ms\<rparr>))"

definition getFollowUpMessages :: "('x agent, agent_message list) hook" where
  "getFollowUpMessages a = (let (ms, q) = drain (agt_followUpQueue a)
     in (Inr ms, a\<lparr>agt_followUpQueue := q, agt_drained := agt_drained a @ ms\<rparr>))"

text \<open>The callbacks of the loop. An abort without a reason carries that of the platform.\<close>

definition agent_environment :: "'x agent_options \<Rightarrow> 'x agent agent_env" where
  "agent_environment opts =
     \<lparr>en_aborted = (\<lambda>a. agt_activeRun a = Some True), en_abortReason = (\<lambda>a. Some ''This operation was aborted''),
      en_now = ao_now opts, en_emit = processEvents opts,
      en_transformContext = map_option (\<lambda>h ms. await_call (h ms)) (ao_transformContext opts),
      en_convertToLlm = (\<lambda>ms. case ao_convertToLlm opts of
          Some h \<Rightarrow> await_call (h ms) | None \<Rightarrow> (\<lambda>a. (Inr (ao_wire opts (defaultConvertToLlm ms)), a))),
      en_getApiKey = map_option (\<lambda>h p. await_call (h p)) (ao_getApiKey opts),
      en_streamFn = Some (\<lambda>r. await_call (ao_streamFn opts r)), en_runtimeStream = None,
      en_getSteeringMessages = Some getSteeringMessages, en_getFollowUpMessages = Some getFollowUpMessages,
      en_prepareNextTurn = map_option (\<lambda>h i. await_call h) (ao_prepareNextTurn opts), en_shouldStopAfterTurn = None,
      en_resolveDeferredTool = map_option (\<lambda>h m c x. await_call (h m c x)) (ao_resolveDeferredTool opts),
      en_prepareArguments = ao_prepareArguments opts, en_validateToolArguments = ao_validateToolArguments opts,
      en_beforeToolCall = map_option (\<lambda>h m c args x. await_call (h m c args x)) (ao_beforeToolCall opts),
      en_execute = (\<lambda>t i args. await_call (ao_execute opts t i args)),
      en_afterToolCall = map_option (\<lambda>h m c args r e x. await_call (h m c args r e x)) (ao_afterToolCall opts),
      en_schedule = await_call (ao_schedule opts)\<rparr>"

definition begin_lifecycle :: "bool \<Rightarrow> 'x agent \<Rightarrow> 'x agent" where
  "begin_lifecycle skipInitialSteeringPoll a = with_state (\<lambda>st. st\<lparr>as_isStreaming := True, as_streamingMessage := None, as_errorMessage := None\<rparr>)
     (a\<lparr>agt_activeRun := Some False, agt_skipPoll := skipInitialSteeringPoll, agt_log := [], agt_drained := []\<rparr>)"

definition failure_message :: "'x agent_options \<Rightarrow> string \<Rightarrow> bool \<Rightarrow> 'x agent \<Rightarrow> assistant_message" where
  "failure_message opts error aborted a = \<lparr>am_content = [TextBlock []], am_stopReason = (if aborted then Aborted else ErrorStop),
     am_errorMessage = Some error, am_api = md_api (as_model (agt_state a)), am_provider = md_provider (as_model (agt_state a)),
     am_model = md_id (as_model (agt_state a)), am_usage = EMPTY_USAGE, am_timestamp = ao_now opts a\<rparr>"

definition handleRunFailure :: "'x agent_options \<Rightarrow> string \<Rightarrow> bool \<Rightarrow> 'x agent \<Rightarrow> 'x agent" where
  "handleRunFailure opts error aborted a =
     (let m = failure_message opts error aborted a
      in fold (processEvents opts) [MessageStart (Assistant m), MessageEnd (Assistant m), TurnEnd m [], AgentEnd [Assistant m]] a)"

definition finishRun :: "'x agent \<Rightarrow> 'x agent" where
  "finishRun a = with_state (\<lambda>st. st\<lparr>as_isStreaming := False, as_streamingMessage := None, as_pendingToolCalls := []\<rparr>)
     (a\<lparr>agt_activeRun := None\<rparr>)"

text \<open>Where a call stands: refused, still at work after the steps it was given, or settled.\<close>

datatype 'x call_state = Refused string | Working "'x agent" | Idle "'x agent"

definition runWithLifecycle :: "'x agent_options \<Rightarrow> 'x agent run \<Rightarrow> 'x call_state" where
  "runWithLifecycle opts s = (case rn_status s of
     Running \<Rightarrow> Working (rn_world s)
   | Finished \<Rightarrow> Idle (finishRun (rn_world s))
   | Failed e \<Rightarrow> Idle (finishRun (handleRunFailure opts e (agt_activeRun (rn_world s) = Some True) (rn_world s))))"

definition prompt_run :: "'x agent_options \<Rightarrow> nat \<Rightarrow> agent_message list \<Rightarrow> bool \<Rightarrow> 'x agent \<Rightarrow> 'x agent run" where
  "prompt_run opts n messages skip a = (let a' = begin_lifecycle skip a in
     runAgentLoop (agent_environment opts) n messages (createContextSnapshot a') (createLoopConfig opts a') a')"

definition runPromptMessages :: "'x agent_options \<Rightarrow> nat \<Rightarrow> agent_message list \<Rightarrow> bool \<Rightarrow> 'x agent \<Rightarrow> 'x call_state" where
  "runPromptMessages opts n messages skip a = runWithLifecycle opts (prompt_run opts n messages skip a)"

definition runContinuation :: "'x agent_options \<Rightarrow> nat \<Rightarrow> 'x agent \<Rightarrow> 'x call_state" where
  "runContinuation opts n a = (let a' = begin_lifecycle False a in
     case runAgentLoopContinue (agent_environment opts) n (createContextSnapshot a') (createLoopConfig opts a') a' of
       Inl e \<Rightarrow> Idle (finishRun (handleRunFailure opts e False a'))
     | Inr s \<Rightarrow> runWithLifecycle opts s)"

datatype prompt_input = PromptText string "js_value list" | PromptMessage agent_message | PromptMessages "agent_message list"

definition normalizePromptInput :: "'x agent_options \<Rightarrow> prompt_input \<Rightarrow> 'x agent \<Rightarrow> agent_message list" where
  "normalizePromptInput opts input a = (case input of
     PromptMessages ms \<Rightarrow> ms
   | PromptMessage m \<Rightarrow> [m]
   | PromptText text images \<Rightarrow> [Other (JObj [(''role'', JStr ''user''),
       (''content'', JArr (JObj [(''type'', JStr ''text''), (''text'', JStr text)] # images)), (''timestamp'', JNum (ao_now opts a))])])"

definition prompt :: "'x agent_options \<Rightarrow> nat \<Rightarrow> prompt_input \<Rightarrow> 'x agent \<Rightarrow> 'x call_state" where
  "prompt opts n input a =
     (if agt_activeRun a \<noteq> None then Refused ''Agent is already processing a prompt. Use steer() or followUp() to queue messages, or wait for completion.''
      else runPromptMessages opts n (normalizePromptInput opts input a) False a)"

definition continue :: "'x agent_options \<Rightarrow> nat \<Rightarrow> 'x agent \<Rightarrow> 'x call_state \<times> 'x agent" where
  "continue opts n a =
     (if agt_activeRun a \<noteq> None then (Refused ''Agent is already processing. Wait for completion before continuing.'', a)
      else if as_messages (agt_state a) = [] then (Refused ''No messages to continue from'', a)
      else case last (as_messages (agt_state a)) of
          Assistant _ \<Rightarrow>
            (let (queuedSteering, sq) = drain (agt_steeringQueue a); a1 = a\<lparr>agt_steeringQueue := sq\<rparr>
             in if length queuedSteering > 0 then (runPromptMessages opts n queuedSteering True a1, a1)
                else let (queuedFollowUps, fq) = drain (agt_followUpQueue a1); a2 = a1\<lparr>agt_followUpQueue := fq\<rparr>
                     in if length queuedFollowUps > 0 then (runPromptMessages opts n queuedFollowUps False a2, a2)
                        else (Refused ''Cannot continue from message role: assistant'', a2))
        | _ \<Rightarrow> (runContinuation opts n a, a))"

section \<open>Invariants of an agent at work\<close>

text \<open>What a run keeps of its agent: an interface between the agent and the loop. The provider shows
  that one event, one operation and one drain of a queue keep it.\<close>

locale agent_invariant =
  fixes I :: "agent_event list \<Rightarrow> 'x agent \<Rightarrow> bool"
  assumes outside: "I evs a \<Longrightarrow> I evs (a\<lparr>agt_outside := x\<rparr>)"
    and operation: "I evs a \<Longrightarrow> I evs (operate op a)"
    and steering: "I evs a \<Longrightarrow> I evs (snd (getSteeringMessages a))"
    and follow_ups: "I evs a \<Longrightarrow> I evs (snd (getFollowUpMessages a))"
    and event: "I evs a \<Longrightarrow> I (evs @ [e]) (with_state (reduce_event e) a)"
begin

lemma await_keeps: "I evs a \<Longrightarrow> I evs (snd (await_call f a))"
proof -
  have "I evs b \<Longrightarrow> I evs (fold operate ops b)" for ops b by (induction ops arbitrary: b) (auto intro: operation)
  then show "I evs a \<Longrightarrow> I evs (snd (await_call f a))" by (auto simp: await_call_def case_prod_beta intro: outside)
qed

lemma process_keeps: "I evs a \<Longrightarrow> I (evs @ [e]) (processEvents opts e a)"
  by (simp add: processEvents_def await_keeps event)

lemma hooks: "hooks_keep (agent_environment opts) (I evs)"
  by (auto simp: hooks_keep_def agent_environment_def keeps_def await_keeps steering follow_ups split: option.split)

end

sublocale agent_invariant \<subseteq> loop: loop_invariant "agent_environment opts" I for opts
  by unfold_locales (simp add: agent_environment_def process_keeps, rule hooks)

context agent_invariant begin

lemma prompt_run_keeps: "I [] (begin_lifecycle skip a) \<Longrightarrow> I (rn_events (prompt_run opts n messages skip a)) (rn_world (prompt_run opts n messages skip a))"
  using loop.run_holds [of "begin_lifecycle skip a" opts n messages]
  by (simp add: prompt_run_def Let_def holds_def)

end

text \<open>The transcript grows by exactly the messages whose end was announced, as long as no callback
  rewrites it.\<close>

fun keeps_transcript :: "agent_op \<Rightarrow> bool" where
  "keeps_transcript Reset = False"
| "keeps_transcript (SetMessages ms) = False"
| "keeps_transcript _ = True"

definition transcript_grows :: "agent_message list \<Rightarrow> agent_event list \<Rightarrow> 'x agent \<Rightarrow> bool" where
  "transcript_grows before evs a \<longleftrightarrow>
     (list_all keeps_transcript (agt_log a) \<longrightarrow> as_messages (agt_state a) = before @ ended_messages evs)"

lemma perform_messages: "keeps_transcript op \<Longrightarrow> as_messages (agt_state (perform op a)) = as_messages (agt_state a)"
  by (cases op) (simp_all add: steer_def followUp_def clearSteeringQueue_def clearFollowUpQueue_def clearAllQueues_def abort_def)

lemma perform_log [simp]: "agt_log (perform op a) = agt_log a" "agt_drained (perform op a) = agt_drained a"
  by (cases op; simp add: steer_def followUp_def clearSteeringQueue_def clearFollowUpQueue_def clearAllQueues_def abort_def reset_def)+

lemma drained_frame [simp]:
  "agt_state (snd (getSteeringMessages a)) = agt_state a" "agt_log (snd (getSteeringMessages a)) = agt_log a"
  "agt_activeRun (snd (getSteeringMessages a)) = agt_activeRun a"
  "agt_state (snd (getFollowUpMessages a)) = agt_state a" "agt_log (snd (getFollowUpMessages a)) = agt_log a"
  "agt_activeRun (snd (getFollowUpMessages a)) = agt_activeRun a"
  by (simp_all add: getSteeringMessages_def getFollowUpMessages_def case_prod_beta)

lemma reduce_messages: "as_messages (reduce_event e st) = as_messages st @ ended_messages [e]"
  by (cases e) (auto simp: reduce_event_def split: option.split)

interpretation transcript: agent_invariant "transcript_grows before" for before
  by unfold_locales (auto simp: transcript_grows_def operate_def perform_messages reduce_messages)

text \<open>What the agent shows agrees with the protocol of events: a call shown as pending has started
  and not ended, and a message is shown as streaming only while it is open.\<close>

fun open_calls :: "phase \<Rightarrow> string set" where
  "open_calls (InTurn running) = set_mset running"
| "open_calls _ = {}"

definition shows_phase :: "agent_event list \<Rightarrow> 'x agent \<Rightarrow> bool" where
  "shows_phase evs a \<longleftrightarrow> (phase_of evs \<noteq> Broken \<longrightarrow>
     set (as_pendingToolCalls (agt_state a)) \<subseteq> open_calls (phase_of evs) \<and>
     (as_streamingMessage (agt_state a) \<noteq> None \<longrightarrow> phase_of evs = InMessage) \<and>
     distinct (as_pendingToolCalls (agt_state a)))"

lemma perform_shown:
  "as_pendingToolCalls (agt_state (perform op a)) = as_pendingToolCalls (agt_state a) \<or> as_pendingToolCalls (agt_state (perform op a)) = []"
  "as_streamingMessage (agt_state (perform op a)) = as_streamingMessage (agt_state a) \<or> as_streamingMessage (agt_state (perform op a)) = None"
  by (cases op; simp add: steer_def followUp_def clearSteeringQueue_def clearFollowUpQueue_def clearAllQueues_def abort_def reset_def)+

lemma other_call_open: "x \<notin># M - {#i#} \<Longrightarrow> S \<subseteq> set_mset M \<Longrightarrow> x \<in> S \<Longrightarrow> x = i"
  by (metis count_greater_zero_iff count_single in_diff_count subsetD)

lemma event_shown:
  assumes "shows_phase evs a"
  shows "shows_phase (evs @ [e]) (with_state (reduce_event e) a)"
proof (cases "protocol (phase_of evs) e = Broken")
  case False
  then have "phase_of evs \<noteq> Broken" by auto
  with assms False show ?thesis
    by (cases e; cases "phase_of evs")
      (auto simp: shows_phase_def reduce_event_def set_set_add set_set_remove distinct_set_add distinct_set_remove
        split: if_splits option.splits dest: in_diffD other_call_open)
qed (simp add: shows_phase_def)

interpretation shown: agent_invariant shows_phase
proof unfold_locales
  show "shows_phase evs a \<Longrightarrow> shows_phase evs (operate op a)" for evs and a :: "'a agent" and op
    using perform_shown [of op a] by (auto simp: shows_phase_def operate_def)
  show "shows_phase evs a \<Longrightarrow> shows_phase (evs @ [e]) (with_state (reduce_event e) a)" for evs e and a :: "'a agent"
    by (rule event_shown)
qed (auto simp: shows_phase_def)

section \<open>The guarantees\<close>

text \<open>The signal of a run stays fired, whatever the callbacks do, and only the end of the run removes it.\<close>

lemma perform_active: "agt_activeRun (perform op a) = (if op = Abort then map_option (\<lambda>_. True) (agt_activeRun a) else agt_activeRun a)"
  by (cases op) (simp_all add: steer_def followUp_def clearSteeringQueue_def clearFollowUpQueue_def clearAllQueues_def abort_def reset_def)

interpretation active: agent_invariant "\<lambda>evs a. agt_activeRun a \<noteq> None"
  by unfold_locales (auto simp: operate_def perform_active)

interpretation fired: agent_invariant "\<lambda>evs a. agt_activeRun a = Some True"
  by unfold_locales (auto simp: operate_def perform_active)

lemma agent_abort_final: "abort_is_final (agent_environment opts)"
proof (rule abort_is_finalI)
  show "en_aborted (agent_environment opts) w \<Longrightarrow> en_aborted (agent_environment opts) (en_emit (agent_environment opts) e w)" for e w
    using fired.process_keeps [of w opts e] by (simp add: agent_environment_def)
  have "en_aborted (agent_environment opts) = (\<lambda>a. agt_activeRun a = Some True)" by (simp add: agent_environment_def)
  then show "hooks_keep (agent_environment opts) (en_aborted (agent_environment opts))" using fired.hooks by simp
qed

lemma finish_idle: "agt_activeRun (finishRun a) = None" "\<not> as_isStreaming (agt_state (finishRun a))"
  "as_pendingToolCalls (agt_state (finishRun a)) = []" "as_streamingMessage (agt_state (finishRun a)) = None"
  "as_messages (agt_state (finishRun a)) = as_messages (agt_state a)" "agt_log (finishRun a) = agt_log a"
  by (simp_all add: finishRun_def)

lemma failure_messages:
  assumes "transcript_grows before evs a"
  shows "transcript_grows before (evs @ [MessageEnd (Assistant (failure_message opts e ab a))]) (handleRunFailure opts e ab a)"
proof -
  let ?m = "failure_message opts e ab a"
  have "transcript_grows before (evs @ [MessageStart (Assistant ?m)] @ [MessageEnd (Assistant ?m)] @ [TurnEnd ?m []] @ [AgentEnd [Assistant ?m]])
    (handleRunFailure opts e ab a)"
    using transcript.process_keeps [OF transcript.process_keeps [OF transcript.process_keeps [OF transcript.process_keeps [OF assms]]]]
    by (simp add: handleRunFailure_def Let_def)
  then show ?thesis by (simp add: transcript_grows_def)
qed

lemma run_transcript:
  assumes "runPromptMessages opts n messages skip a = Idle a'" "list_all keeps_transcript (agt_log a')"
  shows "as_messages (agt_state a') = as_messages (agt_state a) @ rn_new (prompt_run opts n messages skip a) @
    (case rn_status (prompt_run opts n messages skip a) of
       Failed e \<Rightarrow> (let w = rn_world (prompt_run opts n messages skip a) in
         [Assistant (failure_message opts e (agt_activeRun w = Some True) w)])
     | _ \<Rightarrow> [])"
proof -
  let ?s = "prompt_run opts n messages skip a"
  have "transcript_grows (as_messages (agt_state a)) [] (begin_lifecycle skip a)"
    by (simp add: transcript_grows_def begin_lifecycle_def)
  from transcript.prompt_run_keeps [OF this]
  have grows: "transcript_grows (as_messages (agt_state a)) (rn_events ?s) (rn_world ?s)" .
  have new: "ended_messages (rn_events ?s) = rn_new ?s" by (simp add: prompt_run_def Let_def announced_messages)
  show ?thesis
  proof (cases "rn_status ?s")
    case Running
    then show ?thesis using assms(1) by (simp add: runPromptMessages_def runWithLifecycle_def)
  next
    case Finished
    then have "a' = finishRun (rn_world ?s)" using assms(1) by (simp add: runPromptMessages_def runWithLifecycle_def)
    then show ?thesis using grows assms(2) new Finished by (simp add: transcript_grows_def finish_idle)
  next
    case (Failed e)
    then have "a' = finishRun (handleRunFailure opts e (agt_activeRun (rn_world ?s) = Some True) (rn_world ?s))"
      using assms(1) by (simp add: runPromptMessages_def runWithLifecycle_def)
    then show ?thesis using failure_messages [OF grows] assms(2) new Failed by (simp add: transcript_grows_def finish_idle Let_def)
  qed
qed

lemma run_more:
  "prompt_run opts (n + m) messages skip a = runLoop (agent_environment opts) m (prompt_run opts n messages skip a)"
  by (simp add: prompt_run_def runAgentLoop_def runLoop_def Let_def add.commute [of n] funpow_add)

text \<open>C10: When a prompt has settled, the agent is idle, nothing is shown as
  streaming or pending, and its transcript is the one it had followed by the messages the loop
  returned, and by one failure message exactly when the loop failed. The only condition is that
  no callback reset or replaced the transcript meanwhile.\<close>

theorem prompt_extends_transcript:
  assumes "prompt opts n input a = Idle a'" "list_all keeps_transcript (agt_log a')"
  shows "agt_activeRun a' = None \<and> \<not> as_isStreaming (agt_state a') \<and> as_streamingMessage (agt_state a') = None \<and>
    as_pendingToolCalls (agt_state a') = [] \<and>
    as_messages (agt_state a') = as_messages (agt_state a) @ rn_new (prompt_run opts n (normalizePromptInput opts input a) False a) @
      (case rn_status (prompt_run opts n (normalizePromptInput opts input a) False a) of
         Failed e \<Rightarrow> (let w = rn_world (prompt_run opts n (normalizePromptInput opts input a) False a) in
           [Assistant (failure_message opts e (agt_activeRun w = Some True) w)])
       | _ \<Rightarrow> [])"
proof -
  have run: "runPromptMessages opts n (normalizePromptInput opts input a) False a = Idle a'"
    using assms(1) by (simp add: prompt_def split: if_splits)
  then obtain b where "a' = finishRun b"
    by (auto simp: runPromptMessages_def runWithLifecycle_def split: run_status.splits)
  with run_transcript [OF run assms(2)] show ?thesis by (simp add: finish_idle)
qed

text \<open>C11: An agent that is aborted becomes idle: if the signal has fired after some
  steps of a prompt, then two steps later the prompt has settled, without another request to the
  model and without another tool started, whatever the callbacks and listeners do.\<close>

theorem aborted_prompt_settles:
  assumes "agt_activeRun a = None"
    and "agt_activeRun (rn_world (prompt_run opts n (normalizePromptInput opts input a) False a)) = Some True"
  shows "(case prompt opts (n + 2) input a of Idle a' \<Rightarrow> agt_activeRun a' = None \<and> \<not> as_isStreaming (agt_state a') | _ \<Rightarrow> False) \<and>
    rn_asked (prompt_run opts (n + 2) (normalizePromptInput opts input a) False a) =
      rn_asked (prompt_run opts n (normalizePromptInput opts input a) False a) \<and>
    rn_executed (prompt_run opts (n + 2) (normalizePromptInput opts input a) False a) =
      rn_executed (prompt_run opts n (normalizePromptInput opts input a) False a)"
proof -
  let ?s = "prompt_run opts n (normalizePromptInput opts input a) False a"
  have "en_aborted (agent_environment opts) (rn_world ?s)" using assms(2) by (simp add: agent_environment_def)
  note ended = aborted_run_ends [OF agent_abort_final this]
  have "\<not> (agt_activeRun a \<noteq> None)" using assms(1) by simp
  with ended show ?thesis
    unfolding prompt_def runPromptMessages_def runWithLifecycle_def run_more
    by (auto simp: finish_idle split: run_status.split)
qed

section \<open>A small agent\<close>

text \<open>An agent over no outside, whose model answers done and whose first listener aborts the run as soon
  as it starts if \<open>hasty\<close>.\<close>

definition demo_options :: "bool \<Rightarrow> unit agent_options" where
  "demo_options hasty = \<lparr>ao_now = (\<lambda>a. 0), ao_listen = (\<lambda>e a. ((), if hasty \<and> e = AgentStart then [Abort] else [], ())),
     ao_wire = (\<lambda>ms. JUndef), ao_convertToLlm = None, ao_transformContext = None, ao_getApiKey = None,
     ao_streamFn = (\<lambda>r a. (Inr \<lparr>sr_events = [StreamDone], sr_failure = None, sr_result = Inr (demo_reply Stop [TextBlock ''done''])\<rparr>, [], ())),
     ao_beforeToolCall = None, ao_resolveDeferredTool = None, ao_afterToolCall = None, ao_prepareNextTurn = None,
     ao_prepareArguments = (\<lambda>t. None), ao_validateToolArguments = (\<lambda>t c. Inr (ag_arguments c)),
     ao_execute = (\<lambda>t i x a. (([], Inl ''no tools''), [], ())), ao_schedule = (\<lambda>a. (0, [], ())), ao_sequential = False\<rparr>"

definition demo_agent :: "agent_message list \<Rightarrow> unit agent" where
  "demo_agent queued = fold steer queued (new_agent (createMutableAgentState None None None None None) None None ())"

definition hello :: agent_message where
  "hello = Other (JStr ''hello'')"

lemmas demo_run_defs = prompt_run_def runAgentLoop_def runLoop_def start_run_def begin_loop_def new_run_def emit_def or_fail_def
  call_optional_def call_hook_def run_step_def run_turn_def if_running_def stopIfAborted_def poll_follow_ups_def end_run_def
  open_turn_def inject_message_def push_new_def push_context_def agent_environment_def processEvents_def await_call_def
  reduce_event_def operate_def begin_lifecycle_def getSteeringMessages_def getFollowUpMessages_def drain_def
  normalizePromptInput_def demo_options_def demo_agent_def new_agent_def createMutableAgentState_def steer_def followUp_def
  enqueue_def createContextSnapshot_def createLoopConfig_def abort_def finishRun_def createLoopFailureMessage_def hello_def

lemma hasty_start: "agt_activeRun (rn_world (prompt_run (demo_options True) 0 [hello] False (demo_agent []))) = Some True"
  by (simp add: demo_run_defs)

lemma hasty_end:
  "rn_status (prompt_run (demo_options True) 1 [hello] False (demo_agent [])) = Finished"
  "agt_log (rn_world (prompt_run (demo_options True) 1 [hello] False (demo_agent []))) = [Abort]"
  by (simp_all add: demo_run_defs Let_def)

theorem prompt_extends_transcript_witness:
  "as_messages (agt_state (finishRun (rn_world (prompt_run (demo_options True) 1 [hello] False (demo_agent []))))) =
     rn_new (prompt_run (demo_options True) 1 [hello] False (demo_agent []))"
proof -
  let ?s = "prompt_run (demo_options True) 1 [hello] False (demo_agent [])"
  have input: "normalizePromptInput (demo_options True) (PromptMessage hello) (demo_agent []) = [hello]"
    by (simp add: normalizePromptInput_def)
  have start: "as_messages (agt_state (demo_agent [])) = []" "agt_activeRun (demo_agent []) = None"
    by (simp_all add: demo_agent_def new_agent_def createMutableAgentState_def)
  have "prompt (demo_options True) 1 (PromptMessage hello) (demo_agent []) = Idle (finishRun (rn_world ?s))"
    using hasty_end(1) start(2) by (simp add: prompt_def input runPromptMessages_def runWithLifecycle_def)
  from prompt_extends_transcript [OF this] hasty_end(1) hasty_end(2) show ?thesis
    unfolding input by (simp add: finish_idle start)
qed

theorem aborted_prompt_settles_witness:
  "case prompt (demo_options True) (0 + 2) (PromptMessage hello) (demo_agent []) of
     Idle a' \<Rightarrow> agt_activeRun a' = None \<and> \<not> as_isStreaming (agt_state a') | _ \<Rightarrow> False"
proof -
  have "normalizePromptInput (demo_options True) (PromptMessage hello) (demo_agent []) = [hello]"
    by (simp add: normalizePromptInput_def)
  then show ?thesis
    using aborted_prompt_settles [of "demo_agent []" "demo_options True" 0 "PromptMessage hello"] hasty_start
    by (simp add: demo_agent_def new_agent_def)
qed

text \<open>A message that was queued with \<open>steer\<close> is handed to the run before the run looks at its signal:
  if the run is aborted first, the message is neither in the transcript nor in a queue any more.\<close>

theorem abort_loses_steering:
  "case prompt (demo_options True) 1 (PromptMessage hello) (demo_agent [Other (JStr ''wait'')]) of
     Idle a' \<Rightarrow> Other (JStr ''wait'') \<notin> set (as_messages (agt_state a')) \<and> \<not> hasQueuedMessages a' \<and> agt_log a' = [Abort]
   | _ \<Rightarrow> False"
  by (simp add: prompt_def runPromptMessages_def runWithLifecycle_def hasQueuedMessages_def hasItems_def demo_run_defs Let_def)

end
