(* ===== verification/StableJson.thy ===== *)
theory StableJson
  imports JsValue "HOL-Library.Word"
begin

text \<open>
  The deterministic serialisation of \<^verbatim>\<open>src/src/agents/stable-stringify.ts\<close>. Its values
  are those of the language: primitive ones, among them the numbers that are not finite, big
  integers, and functions and symbols, and references into a heap of errors, byte arrays, arrays
  and records, which may be shared and cyclic. How the runtime prints a finite number and the
  normaliser of strings are parameters. The plain form of a value is the tree its text stands for,
  with the values the text does not tell apart made equal; two values have the same text exactly
  when their plain forms are equal up to the order of properties.
\<close>

section \<open>Strings\<close>

definition hex_char :: "nat \<Rightarrow> char" where
  "hex_char n = char_of (if n < 10 then 48 + n else 87 + n)"

text \<open>\<^verbatim>\<open>JSON.stringify\<close> of a string.\<close>

definition json_escape :: "char \<Rightarrow> string" where
  "json_escape c =
     (if c = CHR 0x22 \<or> c = CHR 0x5C then [CHR 0x5C, c]
      else if c = CHR 0x08 then [CHR 0x5C, CHR ''b''] else if c = CHR 0x0C then [CHR 0x5C, CHR ''f'']
      else if c = CHR 0x0A then [CHR 0x5C, CHR ''n''] else if c = CHR 0x0D then [CHR 0x5C, CHR ''r'']
      else if c = CHR 0x09 then [CHR 0x5C, CHR ''t'']
      else if (of_char c :: nat) < 32
      then [CHR 0x5C, CHR ''u'', CHR ''0'', CHR ''0'', hex_char (of_char c div 16), hex_char (of_char c mod 16)]
      else [c])"

definition json_quote :: "string \<Rightarrow> string" where
  "json_quote s = CHR 0x22 # concat (map json_escape s) @ [CHR 0x22]"

fun code_units_less :: "string \<Rightarrow> string \<Rightarrow> bool" where
  "code_units_less xs [] = False"
| "code_units_less [] (y # ys) = True"
| "code_units_less (x # xs) (y # ys) =
     ((of_char x :: nat) < of_char y \<or> x = y \<and> code_units_less xs ys)"

definition compareStableStrings :: "string \<Rightarrow> string \<Rightarrow> int" where
  "compareStableStrings left right =
     (if code_units_less left right then - 1 else if code_units_less right left then 1 else 0)"

section \<open>The text of a tree\<close>

definition sort_fields :: "(string \<times> 'a) list \<Rightarrow> (string \<times> 'a) list" where
  "sort_fields m = to_sorted (\<lambda>a b. compareStableStrings (fst a) (fst b)) m"

definition object_text :: "(string \<times> string) list \<Rightarrow> string" where
  "object_text fs = ''{'' @ js_join '','' (map (\<lambda>(k, t). json_quote k @ '':'' @ t) fs) @ ''}''"

fun tree_text :: "(rat \<Rightarrow> string) \<Rightarrow> js_value \<Rightarrow> string" where
  "tree_text num JUndef = ''undefined''"
| "tree_text num JNull = ''null''"
| "tree_text num (JBool b) = (if b then ''true'' else ''false'')"
| "tree_text num (JNum n) = num n"
| "tree_text num (JStr s) = json_quote s"
| "tree_text num (JArr xs) = ''['' @ js_join '','' (map (tree_text num) xs) @ '']''"
| "tree_text num (JObj m) = object_text (sort_fields (map (\<lambda>(k, v). (k, tree_text num v)) m))"

section \<open>Equal up to the order of properties\<close>

fun canonical :: "js_value \<Rightarrow> js_value" where
  "canonical (JArr xs) = JArr (map canonical xs)"
| "canonical (JObj m) = JObj (sort_fields (map (\<lambda>(k, v). (k, canonical v)) m))"
| "canonical v = v"

text \<open>The text of a value whose properties are in order already.\<close>

fun plain_text :: "(rat \<Rightarrow> string) \<Rightarrow> js_value \<Rightarrow> string" where
  "plain_text num (JArr xs) = ''['' @ js_join '','' (map (plain_text num) xs) @ '']''"
| "plain_text num (JObj m) = object_text (map (\<lambda>(k, v). (k, plain_text num v)) m)"
| "plain_text num JUndef = ''undefined''"
| "plain_text num JNull = ''null''"
| "plain_text num (JBool b) = (if b then ''true'' else ''false'')"
| "plain_text num (JNum n) = num n"
| "plain_text num (JStr s) = json_quote s"

lemma insert_by_map:
  "(\<And>a b. cmp (f a) (f b) = cmp' a b) \<Longrightarrow> insert_by cmp (f x) (map f xs) = map f (insert_by cmp' x xs)"
  by (induction xs) auto

lemma to_sorted_map: "(\<And>a b. cmp (f a) (f b) = cmp' a b) \<Longrightarrow> to_sorted cmp (map f xs) = map f (to_sorted cmp' xs)"
  by (induction xs) (simp_all add: to_sorted_def insert_by_map)

lemma sort_fields_map: "sort_fields (map (\<lambda>(k, v). (k, f v)) m) = map (\<lambda>(k, v). (k, f v)) (sort_fields m)"
  unfolding sort_fields_def by (rule to_sorted_map) auto

lemma sort_fields_member [simp]: "set (sort_fields m) = set m"
  by (simp add: sort_fields_def)

lemma tree_text_canonical: "tree_text num v = plain_text num (canonical v)"
  by (induction v) (auto simp: sort_fields_map prod.case_distrib intro!: arg_cong [where f = "js_join '',''"] arg_cong [where f = object_text])

section \<open>The text determines the value\<close>

definition unhex :: "char \<Rightarrow> nat" where
  "unhex c = (let n = of_char c in if n < 58 then n - 48 else n - 87)"

fun read_char :: "string \<Rightarrow> char \<times> string" where
  "read_char [] = (CHR 0x00, [])"
| "read_char (c # r) = (if c \<noteq> CHR 0x5C then (c, r) else case r of
     CHR ''b'' # q \<Rightarrow> (CHR 0x08, q)
   | CHR ''f'' # q \<Rightarrow> (CHR 0x0C, q)
   | CHR ''n'' # q \<Rightarrow> (CHR 0x0A, q)
   | CHR ''r'' # q \<Rightarrow> (CHR 0x0D, q)
   | CHR ''t'' # q \<Rightarrow> (CHR 0x09, q)
   | CHR ''u'' # _ # _ # h # l # q \<Rightarrow> (char_of (16 * unhex h + unhex l), q)
   | d # q \<Rightarrow> (d, q))"

lemma unhex_hex: "n < 16 \<Longrightarrow> unhex (hex_char n) = n"
  by (simp add: unhex_def hex_char_def Let_def)

lemma read_escape: "read_char (json_escape c @ r) = (c, r)"
  by (auto simp: json_escape_def unhex_hex)

lemma escape_first: "json_escape c = x # y \<Longrightarrow> x \<noteq> CHR 0x22"
  by (auto simp: json_escape_def split: if_splits)

lemma escape_nonempty: "json_escape c \<noteq> []"
  by (simp add: json_escape_def)

lemma quoted_prefix:
  "concat (map json_escape a) @ CHR 0x22 # r = concat (map json_escape b) @ CHR 0x22 # s \<Longrightarrow> a = b \<and> r = s"
proof (induction a arbitrary: b)
  case Nil
  then show ?case by (cases b) (auto simp: Cons_eq_append_conv escape_nonempty dest: escape_first [OF sym])
next
  case (Cons c a)
  show ?case
  proof (cases b)
    case Nil
    then show ?thesis using Cons.prems escape_first [of c] by (cases "json_escape c") (auto simp: escape_nonempty)
  next
    case (Cons d b')
    with Cons.prems have "json_escape c @ concat (map json_escape a) @ CHR 0x22 # r = json_escape d @ concat (map json_escape b') @ CHR 0x22 # s"
      by simp
    from arg_cong [where f = read_char, OF this]
    have "c = d" "concat (map json_escape a) @ CHR 0x22 # r = concat (map json_escape b') @ CHR 0x22 # s"
      by (simp_all add: read_escape)
    with Cons.IH Cons show ?thesis by simp
  qed
qed

lemma quote_prefix: "json_quote a @ r = json_quote b @ s \<Longrightarrow> a = b \<and> r = s"
  using quoted_prefix [of a r b s] by (simp add: json_quote_def)

text \<open>What the runtime prints for a finite number.\<close>

definition number_char :: "char \<Rightarrow> bool" where
  "number_char c \<longleftrightarrow> digit c \<or> c \<in> set ''+-.e''"

definition number_format :: "(rat \<Rightarrow> string) \<Rightarrow> bool" where
  "number_format num \<longleftrightarrow> inj num \<and> (\<forall>n. num n \<noteq> [] \<and> list_all number_char (num n))"

definition closes :: "string \<Rightarrow> bool" where
  "closes r \<longleftrightarrow> (case r of [] \<Rightarrow> True | c # _ \<Rightarrow> c \<in> set '',]}'')"

lemma closes_simps [simp]: "closes []" "closes (c # r) \<longleftrightarrow> c \<in> set '',]}''"
  by (simp_all add: closes_def)

lemma number_prefix:
  assumes "number_format num" "closes r" "closes s" "num n @ r = num m @ s"
  shows "n = m \<and> r = s"
proof -
  have "takeWhile number_char (num n @ r) = num n" if "closes r" for n r
    using assms(1) that by (cases r) (auto simp: number_format_def takeWhile_append2 list_all_iff number_char_def digit_def)
  with assms have "num n = num m" by metis
  with assms show ?thesis by (auto simp: number_format_def dest: injD)
qed

lemma join_prefix:
  assumes "\<And>x y r s. x \<in> set xs \<Longrightarrow> closes r \<Longrightarrow> closes s \<Longrightarrow> f x @ r = f y @ s \<Longrightarrow> x = y \<and> r = s"
    and first: "\<And>x r. \<not> closes (f x @ c # r)" and "c \<in> set '']}''"
    and "js_join '','' (map f xs) @ c # r = js_join '','' (map f ys) @ c # s"
  shows "xs = ys \<and> r = s"
  using assms(1,4)
proof (induction xs arbitrary: ys)
  case Nil
  show ?case
  proof (cases ys)
    case (Cons y ys')
    then obtain q where "f y @ q = c # r" using Nil.prems(2) by (auto simp: js_join_Cons split: if_splits)
    moreover have "closes (c # r)" using assms(3) by auto
    moreover have "\<not> closes (f y @ q)" using first [of y "[]"] by (cases "f y") (use assms(3) in auto)
    ultimately show ?thesis by simp
  qed (use Nil in simp)
next
  case (Cons x xs)
  have nf: "\<not> closes (f y @ q)" for y q using first [of y "[]"] by (cases "f y") (use assms(3) in auto)
  have cl: "closes (c # r)" for r using assms(3) by auto
  define rest where "rest = (\<lambda>zs r. if zs = [] then c # r else '','' @ js_join '','' (map f zs) @ c # r)"
  have rest: "closes (rest zs q)" for zs q using cl by (simp add: rest_def)
  have join: "js_join '','' (map f (z # zs)) @ c # q = f z @ rest zs q" for z zs q
    by (simp add: js_join_Cons rest_def)
  have "ys \<noteq> []"
  proof
    assume "ys = []"
    then have "f x @ rest xs r = c # s" using Cons.prems(2) join [of x xs r] by simp
    with nf [of x "rest xs r"] cl [of s] show False by simp
  qed
  then obtain y ys' where ys: "ys = y # ys'" by (cases ys) auto
  from Cons.prems have "x = y" "rest xs r = rest ys' s"
    using Cons.prems(1) [of x "rest xs r" "rest ys' s" y] rest by (simp_all add: ys join del: list.map)
  moreover have "xs = ys' \<and> r = s"
  proof (cases "xs = []"; cases "ys' = []")
    assume "xs \<noteq> []" "ys' \<noteq> []"
    then show ?thesis using Cons.IH [of ys'] Cons.prems(1) \<open>rest xs r = rest ys' s\<close> by (auto simp: rest_def)
  qed (use \<open>rest xs r = rest ys' s\<close> assms(3) in \<open>auto simp: rest_def\<close>)
  ultimately show ?case by (simp add: ys)
qed

fun leads :: "js_value \<Rightarrow> char \<Rightarrow> bool" where
  "leads JUndef c = (c = CHR ''u'')"
| "leads JNull c = (c = CHR ''n'')"
| "leads (JBool b) c = (c = (if b then CHR ''t'' else CHR ''f''))"
| "leads (JNum n) c = number_char c"
| "leads (JStr s) c = (c = CHR 0x22)"
| "leads (JArr xs) c = (c = CHR ''['')"
| "leads (JObj m) c = (c = CHR ''{'')"

lemma plain_leads:
  assumes "number_format num"
  shows "plain_text num v \<noteq> [] \<and> leads v (hd (plain_text num v))"
proof (cases v)
  case (JNum n)
  with assms show ?thesis by (cases "num n") (auto simp: number_format_def dest: spec [of _ n])
qed (simp_all add: json_quote_def object_text_def)

lemma leads_same:
  "leads v c \<Longrightarrow> leads w c \<Longrightarrow> (case v of JUndef \<Rightarrow> w = JUndef | JNull \<Rightarrow> w = JNull | JBool b \<Rightarrow> w = JBool b
    | JNum n \<Rightarrow> (\<exists>m. w = JNum m) | JStr a \<Rightarrow> (\<exists>b. w = JStr b) | JArr xs \<Rightarrow> (\<exists>ys. w = JArr ys) | JObj m \<Rightarrow> (\<exists>l. w = JObj l))"
  by (cases v; cases w) (auto simp: number_char_def digit_def split: if_splits)

lemma plain_same:
  assumes "number_format num" "plain_text num v @ r = plain_text num w @ s"
  shows "case v of JUndef \<Rightarrow> w = JUndef | JNull \<Rightarrow> w = JNull | JBool b \<Rightarrow> w = JBool b
    | JNum n \<Rightarrow> (\<exists>m. w = JNum m) | JStr a \<Rightarrow> (\<exists>b. w = JStr b) | JArr xs \<Rightarrow> (\<exists>ys. w = JArr ys) | JObj m \<Rightarrow> (\<exists>l. w = JObj l)"
proof (rule leads_same)
  show "leads v (hd (plain_text num v))" using plain_leads [OF assms(1)] by blast
  show "leads w (hd (plain_text num v))"
    using plain_leads [OF assms(1), of w] plain_leads [OF assms(1), of v] assms(2) by (metis hd_append2)
qed

lemma plain_opens:
  assumes "number_format num"
  shows "\<not> closes (plain_text num v @ r)"
proof -
  have "leads v c \<Longrightarrow> c \<notin> set '',]}''" for c by (cases v) (auto simp: number_char_def digit_def split: if_splits)
  moreover obtain c q where "plain_text num v = c # q" "leads v c"
    using plain_leads [OF assms, of v] by (cases "plain_text num v") auto
  ultimately show ?thesis by simp
qed

definition member_text :: "(rat \<Rightarrow> string) \<Rightarrow> string \<times> js_value \<Rightarrow> string" where
  "member_text num p = json_quote (fst p) @ '':'' @ plain_text num (snd p)"

lemma plain_object: "plain_text num (JObj m) = ''{'' @ js_join '','' (map (member_text num) m) @ ''}''"
  by (simp add: object_text_def member_text_def [abs_def] case_prod_beta comp_def)

lemma plain_prefix:
  assumes "number_format num"
  shows "closes r \<Longrightarrow> closes s \<Longrightarrow> plain_text num v @ r = plain_text num w @ s \<Longrightarrow> v = w \<and> r = s"
proof (induction v arbitrary: w r s)
  case (JNum n)
  then obtain m where "w = JNum m" using plain_same [OF assms JNum.prems(3)] by auto
  with JNum.prems number_prefix [OF assms, of r s n m] show ?case by simp
next
  case (JStr a)
  then obtain b where w: "w = JStr b" using plain_same [OF assms JStr.prems(3)] by auto
  from JStr.prems(3) have "json_quote a @ r = json_quote b @ s" by (simp add: w)
  then show ?case using quote_prefix [of a r b s] w by blast
next
  case (JArr xs)
  obtain ys where w: "w = JArr ys" using plain_same [OF assms JArr.prems(3)] by auto
  have "xs = ys \<and> r = s"
  proof (rule join_prefix)
    show "js_join '','' (map (plain_text num) xs) @ CHR '']'' # r = js_join '','' (map (plain_text num) ys) @ CHR '']'' # s"
      using JArr.prems(3) by (simp add: w)
    show "x = y \<and> q = p" if "x \<in> set xs" "closes q" "closes p" "plain_text num x @ q = plain_text num y @ p" for x y q p
      by (rule JArr.IH [OF that])
  qed (simp_all add: plain_opens [OF assms])
  with w show ?case by simp
next
  case (JObj m)
  obtain l where w: "w = JObj l" using plain_same [OF assms JObj.prems(3)] by auto
  have "m = l \<and> r = s"
  proof (rule join_prefix)
    show "js_join '','' (map (member_text num) m) @ CHR ''}'' # r = js_join '','' (map (member_text num) l) @ CHR ''}'' # s"
      using JObj.prems(3) by (simp add: w plain_object del: plain_text.simps)
    show "x = y \<and> q = p" if "x \<in> set m" "closes q" "closes p" "member_text num x @ q = member_text num y @ p" for x y q p
    proof -
      have "fst x = fst y" and eq: "plain_text num (snd x) @ q = plain_text num (snd y) @ p"
        using that(4) quote_prefix [of "fst x" _ "fst y"] by (auto simp: member_text_def)
      moreover have "snd x \<in> Basic_BNFs.snds x" by (cases x) simp
      ultimately show ?thesis using JObj.IH [OF that(1) _ that(2,3) eq] by (simp add: prod_eq_iff)
    qed
  qed (simp_all add: member_text_def json_quote_def)
  with w show ?case by simp
next
  case JUndef
  with plain_same [OF assms JUndef.prems(3)] show ?case by simp
next
  case JNull
  with plain_same [OF assms JNull.prems(3)] show ?case by simp
next
  case (JBool b)
  with plain_same [OF assms JBool.prems(3)] show ?case by simp
qed

lemma tree_text_inject:
  "number_format num \<Longrightarrow> tree_text num v = tree_text num w \<longleftrightarrow> canonical v = canonical w"
  unfolding tree_text_canonical using plain_prefix [of num "[]" "[]"] by auto

section \<open>Equality of values\<close>

text \<open>Every object of the program has distinct keys. Two values are the same if they have the same
  elements in the same order, and the same properties in any order.\<close>

fun well_keyed :: "js_value \<Rightarrow> bool" where
  "well_keyed (JArr xs) = list_all well_keyed xs"
| "well_keyed (JObj m) = (distinct (map fst m) \<and> list_all (\<lambda>p. well_keyed (snd p)) m)"
| "well_keyed v = True"

function (sequential) same_value :: "js_value \<Rightarrow> js_value \<Rightarrow> bool" where
  "same_value (JArr xs) w = (case w of JArr ys \<Rightarrow> length xs = length ys \<and> (\<forall>p \<in> set (zip xs ys). same_value (fst p) (snd p)) | _ \<Rightarrow> False)"
| "same_value (JObj m) w = (case w of
     JObj l \<Rightarrow> fst ` set m = fst ` set l \<and> (\<forall>p \<in> set m. \<forall>q \<in> set l. fst p = fst q \<longrightarrow> same_value (snd p) (snd q))
   | _ \<Rightarrow> False)"
| "same_value v w = (v = w)"
  by pat_completeness auto

lemma member_size [termination_simp]:
  "(x, y) \<in> set (zip xs ys) \<Longrightarrow> size x < Suc (size_list size xs)"
  "(k, v) \<in> set m \<Longrightarrow> size v < Suc (size_list (size_prod (\<lambda>_. 0) size) m)"
  by (auto dest!: set_zip_leftD intro!: le_imp_less_Suc size_list_estimation')

termination same_value
  by (relation "measure (\<lambda>p. size (fst p))") (auto simp: member_size)

lemma code_units_irrefl [simp]: "\<not> code_units_less s s"
  by (induction s) auto

lemma code_units_trans: "code_units_less a b \<Longrightarrow> code_units_less b c \<Longrightarrow> code_units_less a c"
proof (induction a b arbitrary: c rule: code_units_less.induct)
  case 3 then show ?case by (cases c) auto
next
  case 2 then show ?case by (cases c) auto
qed simp

lemma code_units_total: "a \<noteq> b \<Longrightarrow> code_units_less a b \<or> code_units_less b a"
proof (induction a b rule: code_units_less.induct)
  case (1 xs)
  then show ?case by (cases xs) auto
next
  case (3 x xs y ys)
  have "x = y \<or> (of_char x :: nat) < of_char y \<or> (of_char y :: nat) < of_char x"
    by (metis linorder_neqE_nat of_char_eq_iff)
  with 3 show ?case by auto
qed simp

abbreviation keys_ordered :: "(string \<times> 'a) list \<Rightarrow> bool" where
  "keys_ordered \<equiv> sorted_wrt (\<lambda>a b. code_units_less (fst a) (fst b))"

lemma compare_le: "compareStableStrings a b \<le> 0 \<longleftrightarrow> \<not> code_units_less b a"
  using code_units_trans [of a b a] by (auto simp: compareStableStrings_def)

lemma insert_ordered:
  "keys_ordered xs \<Longrightarrow> fst x \<notin> fst ` set xs \<Longrightarrow> keys_ordered (insert_by (\<lambda>a b. compareStableStrings (fst a) (fst b)) x xs)"
proof (induction xs)
  case (Cons y xs)
  have mem: "set (insert_by cmp x xs) = insert x (set xs)" for cmp
    by (metis mset_insert_by set_mset_add_mset_insert set_mset_mset)
  from Cons show ?case
    using code_units_total [of "fst x" "fst y"] by (auto simp: compare_le mem intro: code_units_trans)
qed simp

lemma sort_fields_ordered: "distinct (map fst m) \<Longrightarrow> keys_ordered (sort_fields m)"
proof (induction m)
  case (Cons x m)
  then show ?case using insert_ordered [of "sort_fields m" x] sort_fields_member [of m]
    by (simp add: sort_fields_def to_sorted_def)
qed (simp add: sort_fields_def to_sorted_def)

lemma ordered_unique: "keys_ordered xs \<Longrightarrow> keys_ordered ys \<Longrightarrow> set xs = set ys \<Longrightarrow> xs = ys"
proof (induction xs arbitrary: ys)
  case (Cons x xs)
  then obtain y ys' where ys: "ys = y # ys'" by (cases ys) auto
  have "x \<in> insert y (set ys')" "y \<in> insert x (set xs)" using Cons.prems(3) by (auto simp: ys)
  then have "x = y"
    using Cons.prems(1,2) code_units_trans [of "fst x" "fst y" "fst x"] by (auto simp: ys)
  moreover have "x \<notin> set xs" "y \<notin> set ys'" using Cons.prems by (auto simp: ys)
  moreover have "set xs = set ys'"
    using Cons.prems(3) calculation by (auto simp: ys)
  ultimately show ?case using Cons.IH [of ys'] Cons.prems(1,2) by (simp add: ys)
qed simp

lemma sort_fields_eq:
  "distinct (map fst m) \<Longrightarrow> distinct (map fst l) \<Longrightarrow> sort_fields m = sort_fields l \<longleftrightarrow> set m = set l"
  by (metis ordered_unique sort_fields_ordered sort_fields_member)

lemma graph_eq:
  assumes "inj_on fst A" "inj_on fst B"
  shows "(\<lambda>p. (fst p, f (snd p))) ` A = (\<lambda>p. (fst p, f (snd p))) ` B \<longleftrightarrow>
    fst ` A = fst ` B \<and> (\<forall>p \<in> A. \<forall>q \<in> B. fst p = fst q \<longrightarrow> f (snd p) = f (snd q))" (is "?l = ?r \<longleftrightarrow> ?c")
proof
  assume eq: "?l = ?r"
  then have "fst ` ?l = fst ` ?r" by (rule arg_cong)
  then have "fst ` A = fst ` B" by (simp add: image_image)
  moreover have "f (snd p) = f (snd q)" if "p \<in> A" "q \<in> B" "fst p = fst q" for p q
  proof -
    have "(fst p, f (snd p)) \<in> ?r" using that(1) by (subst eq [symmetric]) (rule image_eqI [OF refl])
    then obtain q' where "q' \<in> B" "fst p = fst q'" "f (snd p) = f (snd q')" by auto
    with that assms(2) show ?thesis by (metis inj_onD)
  qed
  ultimately show ?c by blast
next
  assume c: ?c
  have sub: "(\<lambda>p. (fst p, f (snd p))) ` A \<subseteq> (\<lambda>p. (fst p, f (snd p))) ` B"
    if "fst ` A = fst ` B" "\<And>p q. p \<in> A \<Longrightarrow> q \<in> B \<Longrightarrow> fst p = fst q \<Longrightarrow> f (snd p) = f (snd q)" for A B :: "('a \<times> 'b) set"
  proof (rule image_subsetI)
    fix p assume p: "p \<in> A"
    then have "fst p \<in> fst ` B" using that(1) by (metis imageI)
    then obtain q where q: "q \<in> B" "fst p = fst q" by auto
    then have "(fst p, f (snd p)) = (fst q, f (snd q))" using that(2) [OF p] by simp
    then show "(fst p, f (snd p)) \<in> (\<lambda>p. (fst p, f (snd p))) ` B" using q(1) by (rule image_eqI)
  qed
  show "?l = ?r"
  proof (rule subset_antisym)
    show "?l \<subseteq> ?r" by (rule sub) (use c in simp_all)
    show "?r \<subseteq> ?l"
    proof (rule sub)
      fix p q assume "p \<in> B" "q \<in> A" "fst p = fst q"
      with c show "f (snd p) = f (snd q)" by (metis (no_types))
    qed (use c in simp)
  qed
qed

lemma map_eq_zip:
  "length xs = length ys \<Longrightarrow> map f xs = map f ys \<longleftrightarrow> (\<forall>p \<in> set (zip xs ys). f (fst p) = f (snd p))"
  by (induction xs ys rule: list_induct2) auto

lemma canonical_same:
  "well_keyed v \<Longrightarrow> well_keyed w \<Longrightarrow> canonical v = canonical w \<longleftrightarrow> same_value v w"
proof (induction v arbitrary: w)
  case (JArr xs)
  show ?case
  proof (cases w)
    case w: (JArr ys)
    have el: "canonical (fst p) = canonical (snd p) \<longleftrightarrow> same_value (fst p) (snd p)" if "p \<in> set (zip xs ys)" for p
      using JArr.IH [of "fst p" "snd p"] JArr.prems that by (cases p) (auto simp: w list_all_iff dest: set_zip_leftD set_zip_rightD)
    have "map canonical xs = map canonical ys \<longleftrightarrow> length xs = length ys \<and> (\<forall>p \<in> set (zip xs ys). canonical (fst p) = canonical (snd p))"
      by (cases "length xs = length ys") (auto simp: map_eq_zip dest: map_eq_imp_length_eq)
    also have "\<dots> \<longleftrightarrow> same_value (JArr xs) w"
      using el by (auto simp: w)
    finally show ?thesis by (simp add: w)
  qed simp_all
next
  case (JObj m)
  show ?case
  proof (cases w)
    case w: (JObj l)
    let ?c = "\<lambda>p. (fst p, canonical (snd p))"
    have keys: "distinct (map fst m)" "distinct (map fst l)" using JObj.prems by (simp_all add: w)
    have sub: "canonical (snd p) = canonical (snd q) \<longleftrightarrow> same_value (snd p) (snd q)" if "p \<in> set m" "q \<in> set l" for p q
    proof -
      have "snd p \<in> Basic_BNFs.snds p" by (cases p) simp
      then show ?thesis using JObj.IH that JObj.prems by (auto simp: w list_all_iff)
    qed
    have "canonical (JObj m) = canonical w \<longleftrightarrow> ?c ` set m = ?c ` set l"
      using sort_fields_eq [of "map ?c m" "map ?c l"] keys by (simp add: w case_prod_unfold comp_def)
    also have "\<dots> \<longleftrightarrow> fst ` set m = fst ` set l \<and> (\<forall>p \<in> set m. \<forall>q \<in> set l. fst p = fst q \<longrightarrow> canonical (snd p) = canonical (snd q))"
      by (rule graph_eq) (use keys in \<open>auto simp: distinct_map\<close>)
    also have "\<dots> \<longleftrightarrow> same_value (JObj m) w" using sub by (simp add: w)
    finally show ?thesis .
  qed simp_all
next
  case JUndef
  then show ?case by (cases w) simp_all
next
  case JNull
  then show ?case by (cases w) simp_all
next
  case (JBool b)
  then show ?case by (cases w) simp_all
next
  case (JNum n)
  then show ?case by (cases w) simp_all
next
  case (JStr a)
  then show ?case by (cases w) simp_all
qed

lemma tree_text_exact:
  "number_format num \<Longrightarrow> well_keyed v \<Longrightarrow> well_keyed w \<Longrightarrow> tree_text num v = tree_text num w \<longleftrightarrow> same_value v w"
  by (simp add: tree_text_inject canonical_same)

section \<open>Values of the language\<close>

text \<open>A value is a primitive one or a reference to an object. \<open>LOpaque\<close> stands for functions
  and symbols.\<close>

datatype live_value =
    LUndef
  | LNull
  | LBool bool
  | LNum rat
  | LNaN
  | LInfinity bool
  | LBigInt int
  | LStr string
  | LOpaque
  | LRef nat

text \<open>The objects: an error with its name, message and stack; an array of bytes; an array; a record
  with its own enumerable properties. The address of an object is its place in the heap.\<close>

datatype heap_object =
    HError live_value live_value live_value
  | HBytes "8 word list"
  | HArray "live_value list"
  | HRecord "(string \<times> live_value) list"

type_synonym heap = "heap_object list"

definition int_text :: "int \<Rightarrow> string" where
  "int_text i = (if i < 0 then CHR ''-'' # nat_digits (nat (- i)) else nat_digits (nat i))"

text \<open>\<^verbatim>\<open>Buffer.toString("base64")\<close>.\<close>

definition base64_char :: "nat \<Rightarrow> char" where
  "base64_char n = char_of (if n < 26 then 65 + n else if n < 52 then 71 + n else if n < 62 then n - 4 else if n = 62 then 43 else 47)"

fun base64 :: "8 word list \<Rightarrow> string" where
  "base64 [] = []"
| "base64 [a] = [base64_char (unat a div 4), base64_char (unat a mod 4 * 16), CHR ''='', CHR ''='']"
| "base64 [a, b] = [base64_char (unat a div 4), base64_char (unat a mod 4 * 16 + unat b div 16),
     base64_char (unat b mod 16 * 4), CHR ''='']"
| "base64 (a # b # c # r) = [base64_char (unat a div 4), base64_char (unat a mod 4 * 16 + unat b div 16),
     base64_char (unat b mod 16 * 4 + unat c div 64), base64_char (unat c mod 64)] @ base64 r"

definition object_at :: "heap \<Rightarrow> nat \<Rightarrow> heap_object option" where
  "object_at heap a = (if a < length heap then Some (heap ! a) else None)"

text \<open>The objects of the heap that are not being serialised.\<close>

definition off_stack :: "heap \<Rightarrow> nat list \<Rightarrow> nat" where
  "off_stack heap stack = card ({..<length heap} - set stack)"

lemma off_stack_less: "a < length heap \<Longrightarrow> a \<notin> set stack \<Longrightarrow> off_stack heap (a # stack) < off_stack heap stack"
  unfolding off_stack_def by (rule psubset_card_mono) auto

definition error_record :: "live_value \<Rightarrow> live_value \<Rightarrow> live_value \<Rightarrow> (string \<times> live_value) list" where
  "error_record name message stack = [(''name'', name), (''message'', message), (''stack'', stack)]"

definition bytes_record :: "8 word list \<Rightarrow> (string \<times> live_value) list" where
  "bytes_record bytes = [(''type'', LStr ''Uint8Array''), (''data'', LStr (base64 bytes))]"

text \<open>The entries of a record: normalised key, key, and what is to be written for the value.\<close>

definition sort_entries :: "(string \<times> string \<times> 'a) list \<Rightarrow> (string \<times> string \<times> 'a) list" where
  "sort_entries entries = to_sorted (\<lambda>left right.
     let normalizedOrder = compareStableStrings (fst left) (fst right)
     in if normalizedOrder \<noteq> 0 then normalizedOrder else compareStableStrings (fst (snd left)) (fst (snd right))) entries"

fun object_rank :: "heap_object \<Rightarrow> nat" where
  "object_rank (HError n m s) = 2"
| "object_rank (HBytes b) = 2"
| "object_rank _ = 1"

text \<open>An error and an array of bytes are written as a record that the serialiser makes for them;
  nothing refers to that record, so it need not be put on the stack. A program has no reference to
  an address without an object.\<close>

function (sequential) stringifyStableValue :: "(rat \<Rightarrow> string) \<Rightarrow> (string \<Rightarrow> string) \<Rightarrow> heap \<Rightarrow> nat list \<Rightarrow> live_value \<Rightarrow> string"
  and stringifyObjectValue :: "(rat \<Rightarrow> string) \<Rightarrow> (string \<Rightarrow> string) \<Rightarrow> heap \<Rightarrow> nat list \<Rightarrow> heap_object \<Rightarrow> string"
where
  "stringifyStableValue num normalise heap stack LUndef = ''undefined''"
| "stringifyStableValue num normalise heap stack LNull = ''null''"
| "stringifyStableValue num normalise heap stack LNaN = json_quote ''NaN''"
| "stringifyStableValue num normalise heap stack (LInfinity negative) = json_quote (if negative then ''-Infinity'' else ''Infinity'')"
| "stringifyStableValue num normalise heap stack (LBigInt i) = json_quote (int_text i)"
| "stringifyStableValue num normalise heap stack (LStr s) = json_quote (normalise s)"
| "stringifyStableValue num normalise heap stack (LBool b) = (if b then ''true'' else ''false'')"
| "stringifyStableValue num normalise heap stack (LNum n) = num n"
| "stringifyStableValue num normalise heap stack LOpaque = ''null''"
| "stringifyStableValue num normalise heap stack (LRef a) =
     (if a \<in> set stack then json_quote ''[Circular]''
      else case object_at heap a of
          None \<Rightarrow> ''null''
        | Some obj \<Rightarrow> stringifyObjectValue num normalise heap (a # stack) obj)"
| "stringifyObjectValue num normalise heap stack (HError name message trace) =
     stringifyObjectValue num normalise heap stack (HRecord (error_record name message trace))"
| "stringifyObjectValue num normalise heap stack (HBytes bytes) =
     stringifyObjectValue num normalise heap stack (HRecord (bytes_record bytes))"
| "stringifyObjectValue num normalise heap stack (HArray entries) =
     ''['' @ js_join '','' (map (stringifyStableValue num normalise heap stack) entries) @ '']''"
| "stringifyObjectValue num normalise heap stack (HRecord fields) =
     object_text (map (\<lambda>(normalizedKey, key, text). (normalizedKey, text))
       (sort_entries (map (\<lambda>(key, v). (normalise key, key, stringifyStableValue num normalise heap stack v)) fields)))"
  by pat_completeness auto
termination
  by (relation "measures [\<lambda>p. case p of Inl (_, _, heap, stack, _) \<Rightarrow> off_stack heap stack | Inr (_, _, heap, stack, _) \<Rightarrow> off_stack heap stack,
      \<lambda>p. case p of Inl _ \<Rightarrow> 0 | Inr (_, _, _, _, obj) \<Rightarrow> object_rank obj]")
    (auto simp: object_at_def intro: off_stack_less split: if_splits)

definition preserveString :: "string \<Rightarrow> string" where
  "preserveString value = value"

definition stableStringify :: "(rat \<Rightarrow> string) \<Rightarrow> (string \<Rightarrow> string) option \<Rightarrow> heap \<Rightarrow> live_value \<Rightarrow> string" where
  "stableStringify num normalizeString heap value =
     stringifyStableValue num (case normalizeString of Some f \<Rightarrow> f | None \<Rightarrow> preserveString) heap [] value"

section \<open>The plain form of a value\<close>

text \<open>The tree a text stands for. Here the values collapse that the text does not tell apart: a number
  that is not finite and the string of its name, a big integer and the string of its digits, a
  reference back to an object being serialised and the string \<^verbatim>\<open>[Circular]\<close>, functions, symbols
  and null, an error or an array of bytes and a record of its parts, and shared objects and copies.\<close>

function (sequential) plain_form :: "(string \<Rightarrow> string) \<Rightarrow> heap \<Rightarrow> nat list \<Rightarrow> live_value \<Rightarrow> js_value"
  and plain_object :: "(string \<Rightarrow> string) \<Rightarrow> heap \<Rightarrow> nat list \<Rightarrow> heap_object \<Rightarrow> js_value"
where
  "plain_form normalise heap stack LUndef = JUndef"
| "plain_form normalise heap stack LNull = JNull"
| "plain_form normalise heap stack (LBool b) = JBool b"
| "plain_form normalise heap stack (LNum n) = JNum n"
| "plain_form normalise heap stack LNaN = JStr ''NaN''"
| "plain_form normalise heap stack (LInfinity negative) = JStr (if negative then ''-Infinity'' else ''Infinity'')"
| "plain_form normalise heap stack (LBigInt i) = JStr (int_text i)"
| "plain_form normalise heap stack (LStr s) = JStr (normalise s)"
| "plain_form normalise heap stack LOpaque = JNull"
| "plain_form normalise heap stack (LRef a) =
     (if a \<in> set stack then JStr ''[Circular]''
      else case object_at heap a of None \<Rightarrow> JNull | Some obj \<Rightarrow> plain_object normalise heap (a # stack) obj)"
| "plain_object normalise heap stack (HError name message trace) = plain_object normalise heap stack (HRecord (error_record name message trace))"
| "plain_object normalise heap stack (HBytes bytes) = plain_object normalise heap stack (HRecord (bytes_record bytes))"
| "plain_object normalise heap stack (HArray entries) = JArr (map (plain_form normalise heap stack) entries)"
| "plain_object normalise heap stack (HRecord fields) = JObj (map (\<lambda>(key, v). (normalise key, plain_form normalise heap stack v)) fields)"
  by pat_completeness auto
termination
  by (relation "measures [\<lambda>p. case p of Inl (_, heap, stack, _) \<Rightarrow> off_stack heap stack | Inr (_, heap, stack, _) \<Rightarrow> off_stack heap stack,
      \<lambda>p. case p of Inl _ \<Rightarrow> 0 | Inr (_, _, _, obj) \<Rightarrow> object_rank obj]")
    (auto simp: object_at_def intro: off_stack_less split: if_splits)

text \<open>A printer of numbers: numerator and denominator, with the sign before them.\<close>

definition demo_number :: "rat \<Rightarrow> string" where
  "demo_number n = (case quotient_of n of (p, q) \<Rightarrow>
     (if p < 0 then ''-'' else []) @ nat_digits (nat (abs p)) @ ''e'' @ nat_digits (nat q))"

lemma split_at: "c \<notin> set a \<Longrightarrow> c \<notin> set b \<Longrightarrow> a @ c # r = b @ c # s \<longleftrightarrow> a = b \<and> r = s"
  by (induction a arbitrary: b) (auto simp: Cons_eq_append_conv, metis list.set_intros(1), metis)

lemma demo_number_format: "number_format demo_number"
  unfolding number_format_def
proof (intro conjI allI)
  have digits: "c \<in> set (nat_digits k) \<Longrightarrow> digit c" for c k using nat_digits_chars [of k] by (auto simp: digit_def)
  show "demo_number n \<noteq> []" for n by (simp add: demo_number_def split: prod.split)
  show "list_all number_char (demo_number n)" for n
    by (auto simp: demo_number_def number_char_def list_all_iff dest!: digits split: prod.split)
  show "inj demo_number"
  proof (rule injI)
    fix x y assume eq: "demo_number x = demo_number y"
    obtain p q where x: "quotient_of x = (p, q)" by (cases "quotient_of x")
    obtain p' q' where y: "quotient_of y = (p', q')" by (cases "quotient_of y")
    have pos: "q > 0" "q' > 0" using quotient_of_denom_pos x y by blast+
    have minus: "CHR ''-'' \<notin> set (nat_digits k)" "CHR ''e'' \<notin> set (nat_digits k)" for k
      using digits [of "CHR ''-''" k] digits [of "CHR ''e''" k] by (auto simp: digit_def)
    have e: "CHR ''e'' \<notin> set ((if b < (0 :: int) then ''-'' else []) @ nat_digits k)" for b k using minus by auto
    have num: "(if p < 0 then ''-'' else []) @ nat_digits (nat (abs p)) = (if p' < 0 then ''-'' else []) @ nat_digits (nat (abs p'))"
      and den: "nat_digits (nat q) = nat_digits (nat q')"
      using eq split_at [OF e [of p "nat (abs p)"] e [of p' "nat (abs p')"]] by (simp_all add: demo_number_def x y)
    have hd: "nat_digits k = c # r \<Longrightarrow> c \<noteq> CHR ''-''" for k c r using minus(1) [of k] by auto
    have "p = p'" using num hd by (auto split: if_splits dest: sym)
    moreover have "q = q'" using den pos by simp
    ultimately show "x = y" using x y by (metis quotient_of_inject)
  qed
qed

text \<open>The records a serialisation writes have distinct keys, also after normalisation.\<close>

fun members :: "heap_object \<Rightarrow> (string \<times> live_value) list" where
  "members (HError name message trace) = error_record name message trace"
| "members (HBytes bytes) = bytes_record bytes"
| "members (HArray entries) = []"
| "members (HRecord fields) = fields"

definition distinct_keys :: "(string \<Rightarrow> string) \<Rightarrow> heap_object \<Rightarrow> bool" where
  "distinct_keys normalise obj \<longleftrightarrow> distinct (map (\<lambda>p. normalise (fst p)) (members obj))"

definition clean_heap :: "(string \<Rightarrow> string) \<Rightarrow> heap \<Rightarrow> bool" where
  "clean_heap normalise heap \<longleftrightarrow> list_all (distinct_keys normalise) heap"

lemma clean_object: "clean_heap normalise heap \<Longrightarrow> object_at heap a = Some obj \<Longrightarrow> distinct_keys normalise obj"
  by (auto simp: clean_heap_def object_at_def list_all_length split: if_splits)

lemma insert_by_agree:
  "\<forall>y \<in> set xs. cmp x y = cmp' (f x) (f y) \<Longrightarrow> map f (insert_by cmp x xs) = insert_by cmp' (f x) (map f xs)"
  by (induction xs) auto

lemma to_sorted_agree:
  "sorted_wrt (\<lambda>x y. cmp x y = cmp' (f x) (f y)) xs \<Longrightarrow> map f (to_sorted cmp xs) = to_sorted cmp' (map f xs)"
proof (induction xs)
  case (Cons x xs)
  then have "\<forall>y \<in> set (to_sorted cmp xs). cmp x y = cmp' (f x) (f y)" by simp
  then have "map f (insert_by cmp x (to_sorted cmp xs)) = insert_by cmp' (f x) (map f (to_sorted cmp xs))" by (rule insert_by_agree)
  with Cons show ?case by (simp add: to_sorted_def)
qed (simp add: to_sorted_def)

lemma compare_zero: "compareStableStrings a b = 0 \<longleftrightarrow> a = b"
  using code_units_total [of a b] by (auto simp: compareStableStrings_def)

lemma sort_entries_fields:
  assumes "distinct (map fst es)"
  shows "map (\<lambda>(n, k, t). (n, t)) (sort_entries es) = sort_fields (map (\<lambda>(n, k, t). (n, t)) es)"
  unfolding sort_entries_def sort_fields_def
proof (rule to_sorted_agree)
  have "sorted_wrt (\<lambda>x y. fst x \<noteq> fst y) es" using assms by (induction es) force+
  then show "sorted_wrt (\<lambda>x y. (let o1 = compareStableStrings (fst x) (fst y)
      in if o1 \<noteq> 0 then o1 else compareStableStrings (fst (snd x)) (fst (snd y))) =
      compareStableStrings (fst (case x of (n, k, t) \<Rightarrow> (n, t))) (fst (case y of (n, k, t) \<Rightarrow> (n, t)))) es"
    by (rule sorted_wrt_mono_rel [rotated])
      (auto simp: compare_zero Let_def split: prod.split)
qed

lemma text_of_plain_form:
  shows "clean_heap normalise heap \<Longrightarrow>
      stringifyStableValue num normalise heap stack v = tree_text num (plain_form normalise heap stack v)"
    and "clean_heap normalise heap \<Longrightarrow> distinct_keys normalise obj \<Longrightarrow>
      stringifyObjectValue num normalise heap stack obj = tree_text num (plain_object normalise heap stack obj)"
proof (induction num normalise heap stack v and num normalise heap stack obj rule: stringifyStableValue_stringifyObjectValue.induct)
  case (10 num normalise heap stack a)
  then show ?case by (auto dest: clean_object split: option.split)
next
  case (11 num normalise heap stack name message trace)
  then show ?case by (simp add: distinct_keys_def)
next
  case (12 num normalise heap stack bytes)
  then show ?case by (simp add: distinct_keys_def)
next
  case (13 num normalise heap stack entries)
  then show ?case by (simp cong: map_cong)
next
  case (14 num normalise heap stack fields)
  let ?es = "map (\<lambda>(key, v). (normalise key, key, stringifyStableValue num normalise heap stack v)) fields"
  have "distinct (map fst ?es)" using 14(3) by (simp add: distinct_keys_def case_prod_unfold comp_def)
  moreover have "map (\<lambda>(n, k, t). (n, t)) ?es =
      map (\<lambda>(k, v). (k, tree_text num v)) (map (\<lambda>(key, v). (normalise key, plain_form normalise heap stack v)) fields)"
    using 14(1,2) by auto
  ultimately show ?case by (simp add: sort_entries_fields del: map_map)
qed simp_all

lemma plain_form_keyed:
  shows "clean_heap normalise heap \<Longrightarrow> well_keyed (plain_form normalise heap stack v)"
    and "clean_heap normalise heap \<Longrightarrow> distinct_keys normalise obj \<Longrightarrow> well_keyed (plain_object normalise heap stack obj)"
proof (induction normalise heap stack v and normalise heap stack obj rule: plain_form_plain_object.induct)
  case (10 normalise heap stack a)
  then show ?case by (auto dest: clean_object split: option.split)
next
  case (11 normalise heap stack name message trace)
  then show ?case by (simp add: distinct_keys_def)
next
  case (12 normalise heap stack bytes)
  then show ?case by (simp add: distinct_keys_def)
next
  case (14 normalise heap stack fields)
  then show ?case by (auto simp: distinct_keys_def case_prod_unfold comp_def list_all_iff)
qed (auto simp: list_all_iff)

text \<open>C37: The deterministic serialisation identifies exactly the values with the same
  plain form: over heaps whose records have distinct keys (after the normalisation of keys, if one
  is given), two values, which may contain errors, binary data, big integers, numbers that are not
  finite and shared or cyclic objects, have the same text if and only if their plain forms have the
  same elements in the same order and the same properties in any order, provided the runtime prints
  different finite numbers differently and in the characters of a number. The plain form is the value
  as a finite tree in which exactly this is given up: a number that is not finite, a big integer, a
  reference back to an object being serialised and a string become the string written for them (so
  NaN and the string NaN have the same text), functions and symbols become null, an error becomes the
  record of its name, message and stack, an array of bytes the record of its type and its base64 text.\<close>

theorem stable_text_exact:
  assumes "number_format num" "clean_heap f heap" "clean_heap f heap'"
    and "f = (case normalizeString of Some g \<Rightarrow> g | None \<Rightarrow> preserveString)"
  shows "stableStringify num normalizeString heap v = stableStringify num normalizeString heap' w \<longleftrightarrow>
    same_value (plain_form f heap [] v) (plain_form f heap' [] w)"
  unfolding stableStringify_def assms(4) [symmetric] text_of_plain_form(1) [OF assms(2)] text_of_plain_form(1) [OF assms(3)]
  using assms by (intro tree_text_exact plain_form_keyed)

section \<open>Binary data\<close>

text \<open>Different arrays of bytes have different base64 texts, hence different texts.\<close>

lemma base64_char_inject: "m < 64 \<Longrightarrow> n < 64 \<Longrightarrow> base64_char m = base64_char n \<longleftrightarrow> m = n"
  unfolding base64_char_def by (auto dest!: arg_cong [where f = "of_char :: char \<Rightarrow> nat"] split: if_splits)

lemma base64_char_pad: "n < 64 \<Longrightarrow> base64_char n \<noteq> CHR ''=''"
  unfolding base64_char_def by (auto dest!: arg_cong [where f = "of_char :: char \<Rightarrow> nat"] split: if_splits)

lemma byte_less: "unat (a :: 8 word) < 256"
  using unsigned_less [of a] by simp

lemma sextets_less:
  "unat (a :: 8 word) div 4 < 64" "unat a mod 4 * 16 + unat (b :: 8 word) div 16 < 64" "unat a mod 4 * 16 < 64"
  "unat b mod 16 * 4 + unat (c :: 8 word) div 64 < 64" "unat b mod 16 * 4 < 64" "unat c mod 64 < 64"
  using byte_less [of a] byte_less [of b] byte_less [of c] by auto

lemma byte_parts:
  "unat (a :: 8 word) div 4 = unat a' div 4 \<Longrightarrow> unat a mod 4 = unat a' mod 4 \<Longrightarrow> a = a'"
  by (metis div_mult_mod_eq unsigned_word_eqI)

lemma parts_eq:
  assumes "x * k + y = x' * k + y'" "y < k" "y' < (k :: nat)"
  shows "x = x' \<and> y = y'"
proof -
  have "(x * k + y) div k = x" "(x' * k + y') div k = x'" using assms(2,3) by simp_all
  with assms(1) show ?thesis by simp
qed

lemma two_bytes:
  assumes "unat a mod 4 * 16 + unat b div 16 = unat a' mod 4 * 16 + unat b' div 16" "unat a div 4 = unat a' div 4"
  shows "a = (a' :: 8 word) \<and> unat (b :: 8 word) div 16 = unat (b' :: 8 word) div 16"
proof -
  have "unat b div 16 < 16" "unat b' div 16 < 16" using byte_less [of b] byte_less [of b'] by linarith+
  from parts_eq [OF assms(1) this] assms(2) byte_parts show ?thesis by simp
qed

lemma next_bytes:
  assumes "unat b div 16 = unat b' div 16" "unat b mod 16 * 4 + unat c div 64 = unat b' mod 16 * 4 + unat c' div 64"
  shows "b = (b' :: 8 word) \<and> unat (c :: 8 word) div 64 = unat (c' :: 8 word) div 64"
proof -
  have "unat c div 64 < 4" "unat c' div 64 < 4" using byte_less [of c] byte_less [of c'] by linarith+
  from parts_eq [OF assms(2) this] have "unat b mod 16 = unat b' mod 16 \<and> unat c div 64 = unat c' div 64" .
  with assms(1) show ?thesis by (metis div_mult_mod_eq unsigned_word_eqI)
qed

lemma last_byte: "unat c div 64 = unat c' div 64 \<Longrightarrow> unat c mod 64 = unat c' mod 64 \<Longrightarrow> c = (c' :: 8 word)"
  by (metis div_mult_mod_eq unsigned_word_eqI)

lemmas base64_simps = base64_char_inject sextets_less base64_char_pad base64_char_pad [symmetric]

lemma base64_inject: "base64 xs = base64 ys \<Longrightarrow> xs = ys"
proof (induction xs arbitrary: ys rule: base64.induct)
  case 1
  then show ?case by (cases ys rule: base64.cases) auto
next
  case (2 a)
  then obtain a' where ys: "ys = [a']" by (cases ys rule: base64.cases) (auto simp: base64_simps)
  with 2 show ?case by (auto simp: base64_simps intro: byte_parts)
next
  case (3 a b)
  then obtain a' b' where ys: "ys = [a', b']" by (cases ys rule: base64.cases) (auto simp: base64_simps)
  with 3 have eq: "unat a mod 4 * 16 + unat b div 16 = unat a' mod 4 * 16 + unat b' div 16" "unat a div 4 = unat a' div 4"
    and low: "unat b mod 16 = unat b' mod 16" by (auto simp: base64_simps)
  from two_bytes [OF eq] low have "a = a' \<and> b = b'" by (metis div_mult_mod_eq unsigned_word_eqI)
  with ys show ?case by simp
next
  case (4 a b c r)
  then obtain a' b' c' r' where ys: "ys = a' # b' # c' # r'" by (cases ys rule: base64.cases) (auto simp: base64_simps)
  with 4(2) have eq: "unat a mod 4 * 16 + unat b div 16 = unat a' mod 4 * 16 + unat b' div 16" "unat a div 4 = unat a' div 4"
    "unat b mod 16 * 4 + unat c div 64 = unat b' mod 16 * 4 + unat c' div 64" "unat c mod 64 = unat c' mod 64"
    and r: "base64 r = base64 r'" by (simp_all add: base64_simps)
  from two_bytes [OF eq(1,2)] have ab: "a = a'" "unat b div 16 = unat b' div 16" by auto
  from next_bytes [OF ab(2) eq(3)] last_byte [OF _ eq(4)] 4(1) [OF r] ab ys show ?case by simp
qed

section \<open>Examples\<close>

text \<open>The values of the regression tests: a cycle and shared objects, and the kinds of values that
  are written as strings or records.\<close>

definition cyclic_heap :: heap where
  "cyclic_heap = [HRecord [(''first'', LRef 1), (''second'', LRef 1), (''self'', LRef 0)], HRecord [(''value'', LNum 1)]]"

definition copied_heap :: heap where
  "copied_heap = [HRecord [(''self'', LStr ''[Circular]''), (''second'', LRef 2), (''first'', LRef 1)],
     HRecord [(''value'', LNum 1)], HRecord [(''value'', LNum 1)]]"

lemma bytes_example: "base64 [1, 2, 3] = ''AQID''" "base64 [1] = ''AQ==''"
  by code_simp+

lemma collisions:
  "stableStringify num None heap LNaN = stableStringify num None heap (LStr ''NaN'')"
  "stableStringify num None heap (LBigInt 123) = stableStringify num None heap (LStr ''123'')"
  "stableStringify num None heap LOpaque = stableStringify num None heap LNull"
proof -
  have "int_text 123 = ''123''" by code_simp
  then show "stableStringify num None heap (LBigInt 123) = stableStringify num None heap (LStr ''123'')"
    by (simp add: stableStringify_def preserveString_def)
qed (simp_all add: stableStringify_def preserveString_def)

theorem stable_text_exact_witness:
  "stableStringify demo_number None cyclic_heap (LRef 0) = stableStringify demo_number None copied_heap (LRef 0) \<and>
   stableStringify demo_number None [] (LNum 1) \<noteq> stableStringify demo_number None [] (LStr ''1'')"
proof
  have clean: "clean_heap preserveString cyclic_heap" "clean_heap preserveString copied_heap" "clean_heap preserveString []"
    by (simp_all add: clean_heap_def distinct_keys_def cyclic_heap_def copied_heap_def preserveString_def)
  have f: "preserveString = (case None of Some g \<Rightarrow> g | None \<Rightarrow> preserveString)" by simp
  note exact = stable_text_exact [OF demo_number_format _ _ f]
  have "same_value (plain_form preserveString cyclic_heap [] (LRef 0)) (plain_form preserveString copied_heap [] (LRef 0))"
    by (auto simp: cyclic_heap_def copied_heap_def object_at_def preserveString_def)
  then show "stableStringify demo_number None cyclic_heap (LRef 0) = stableStringify demo_number None copied_heap (LRef 0)"
    using exact [OF clean(1,2)] by blast
  show "stableStringify demo_number None [] (LNum 1) \<noteq> stableStringify demo_number None [] (LStr ''1'')"
    using exact [OF clean(3,3), of "LNum 1" "LStr ''1''"] by simp
qed

end
