(* ===== verification/ToolLoop.thy ===== *)
theory ToolLoop
  imports StableJson
begin

text \<open>
  Detection of tool calls that repeat without progress:
  \<^verbatim>\<open>src/src/agents/tool-loop-detection.ts\<close>, its configuration overlay
  \<^verbatim>\<open>tool-loop-detection-config.ts\<close>, the gate and the recording of outcomes around a tool in
  \<^verbatim>\<open>agent-tools.before-tool-call.ts\<close>, and the guard of
  \<^verbatim>\<open>embedded-agent-runner/post-compaction-loop-guard.ts\<close>. SHA-256, the printer of numbers and
  what a channel plugin makes of the arguments of its own send tool are parameters. Logging and
  diagnostic events are left out.
\<close>

section \<open>Configuration\<close>

record detector_config =
  dt_genericRepeat :: "bool option"
  dt_knownPollNoProgress :: "bool option"
  dt_pingPong :: "bool option"

record loop_detection_config =
  ld_enabled :: "bool option"
  ld_historySize :: "rat option"
  ld_warningThreshold :: "rat option"
  ld_unknownToolThreshold :: "rat option"
  ld_criticalThreshold :: "rat option"
  ld_globalCircuitBreakerThreshold :: "rat option"
  ld_detectors :: "detector_config option"
  ld_windowSize :: "rat option"

definition TOOL_CALL_HISTORY_SIZE :: nat where "TOOL_CALL_HISTORY_SIZE = 30"
definition WARNING_THRESHOLD :: nat where "WARNING_THRESHOLD = 10"
definition UNKNOWN_TOOL_THRESHOLD :: nat where "UNKNOWN_TOOL_THRESHOLD = 10"
definition CRITICAL_THRESHOLD :: nat where "CRITICAL_THRESHOLD = 20"
definition GLOBAL_CIRCUIT_BREAKER_THRESHOLD :: nat where "GLOBAL_CIRCUIT_BREAKER_THRESHOLD = 30"

record resolved_config =
  rc_enabled :: bool
  rc_historySize :: nat
  rc_warningThreshold :: nat
  rc_unknownToolThreshold :: nat
  rc_criticalThreshold :: nat
  rc_globalCircuitBreakerThreshold :: nat
  rc_genericRepeat :: bool
  rc_knownPollNoProgress :: bool
  rc_pingPong :: bool

definition or_else :: "'a option \<Rightarrow> 'a \<Rightarrow> 'a" where
  "or_else value fallback = (case value of Some x \<Rightarrow> x | None \<Rightarrow> fallback)"

definition asPositiveInt :: "rat option \<Rightarrow> nat \<Rightarrow> nat" where
  "asPositiveInt value fallback = (case value of
     None \<Rightarrow> fallback
   | Some n \<Rightarrow> if of_int \<lfloor>n\<rfloor> \<noteq> n \<or> n \<le> 0 then fallback else nat \<lfloor>n\<rfloor>)"

definition resolveLoopDetectionConfig :: "loop_detection_config option \<Rightarrow> resolved_config" where
  "resolveLoopDetectionConfig config =
     (let opt = (\<lambda>f. Option.bind config f);
          warningThreshold = asPositiveInt (opt ld_warningThreshold) WARNING_THRESHOLD;
          critical = asPositiveInt (opt ld_criticalThreshold) CRITICAL_THRESHOLD;
          breaker = asPositiveInt (opt ld_globalCircuitBreakerThreshold) GLOBAL_CIRCUIT_BREAKER_THRESHOLD;
          criticalThreshold = (if critical \<le> warningThreshold then warningThreshold + 1 else critical);
          globalCircuitBreakerThreshold = (if breaker \<le> criticalThreshold then criticalThreshold + 1 else breaker);
          detectors = Option.bind config ld_detectors
      in \<lparr>rc_enabled = or_else (Option.bind config ld_enabled) False,
          rc_historySize = asPositiveInt (opt ld_historySize) TOOL_CALL_HISTORY_SIZE,
          rc_warningThreshold = warningThreshold,
          rc_unknownToolThreshold = asPositiveInt (opt ld_unknownToolThreshold) UNKNOWN_TOOL_THRESHOLD,
          rc_criticalThreshold = criticalThreshold,
          rc_globalCircuitBreakerThreshold = globalCircuitBreakerThreshold,
          rc_genericRepeat = or_else (Option.bind detectors dt_genericRepeat) True,
          rc_knownPollNoProgress = or_else (Option.bind detectors dt_knownPollNoProgress) True,
          rc_pingPong = or_else (Option.bind detectors dt_pingPong) True\<rparr>)"

text \<open>The settings of an agent over those of the gateway, field by field.\<close>

definition over :: "'a option \<Rightarrow> 'a option \<Rightarrow> 'a option" where
  "over agent global = (case agent of Some x \<Rightarrow> Some x | None \<Rightarrow> global)"

definition overlay_detectors :: "detector_config option \<Rightarrow> detector_config option \<Rightarrow> detector_config" where
  "overlay_detectors agent global =
     \<lparr>dt_genericRepeat = over (Option.bind agent dt_genericRepeat) (Option.bind global dt_genericRepeat),
      dt_knownPollNoProgress = over (Option.bind agent dt_knownPollNoProgress) (Option.bind global dt_knownPollNoProgress),
      dt_pingPong = over (Option.bind agent dt_pingPong) (Option.bind global dt_pingPong)\<rparr>"

definition resolveToolLoopDetectionConfig ::
    "loop_detection_config option \<Rightarrow> loop_detection_config option \<Rightarrow> loop_detection_config option" where
  "resolveToolLoopDetectionConfig global agent = (case (agent, global) of
     (None, _) \<Rightarrow> global
   | (Some a, None) \<Rightarrow> Some a
   | (Some a, Some g) \<Rightarrow> Some
       \<lparr>ld_enabled = over (ld_enabled a) (ld_enabled g), ld_historySize = over (ld_historySize a) (ld_historySize g),
        ld_warningThreshold = over (ld_warningThreshold a) (ld_warningThreshold g),
        ld_unknownToolThreshold = over (ld_unknownToolThreshold a) (ld_unknownToolThreshold g),
        ld_criticalThreshold = over (ld_criticalThreshold a) (ld_criticalThreshold g),
        ld_globalCircuitBreakerThreshold = over (ld_globalCircuitBreakerThreshold a) (ld_globalCircuitBreakerThreshold g),
        ld_detectors = Some (overlay_detectors (ld_detectors a) (ld_detectors g)),
        ld_windowSize = over (ld_windowSize a) (ld_windowSize g)\<rparr>)"

section \<open>History\<close>

record tool_call_record =
  tr_toolName :: string
  tr_argsHash :: string
  tr_toolCallId :: "string option"
  tr_runId :: "string option"
  tr_resultHash :: "string option"
  tr_unknownToolName :: "string option"
  tr_timestamp :: int

record session_state =
  ss_toolCallHistory :: "tool_call_record list option"
  ss_toolLoopWarningBuckets :: "(string, nat) js_map"

definition history_of :: "session_state \<Rightarrow> tool_call_record list" where
  "history_of state = or_else (ss_toolCallHistory state) []"

definition selectHistoryForScope :: "tool_call_record list \<Rightarrow> string option \<Rightarrow> tool_call_record list" where
  "selectHistoryForScope history run = (let runId = normalizeOptionalString run in
     filter (\<lambda>record. normalizeOptionalString (tr_runId record) = runId) history)"

section \<open>Hashes\<close>

text \<open>What lies outside: the digest, the printer of numbers, and whether a channel plugin reads the
  arguments of the tool of its name as a send.\<close>

record loop_env =
  le_sha256 :: "string \<Rightarrow> string"
  le_number :: "rat \<Rightarrow> string"
  le_pluginSend :: "string \<Rightarrow> js_value \<Rightarrow> bool"

text \<open>The arguments and results of calls are kept as their plain forms, on which alone their text
  depends (\<open>text_of_plain_form\<close>).\<close>

definition stable_text :: "loop_env \<Rightarrow> js_value \<Rightarrow> string" where
  "stable_text env v = tree_text (le_number env) v"

definition digestStable :: "loop_env \<Rightarrow> js_value \<Rightarrow> string" where
  "digestStable env v = le_sha256 env (stable_text env v)"

definition hashToolCall :: "loop_env \<Rightarrow> string \<Rightarrow> js_value \<Rightarrow> string" where
  "hashToolCall env toolName params = toolName @ '':'' @ digestStable env params"

definition isPlainObject :: "js_value \<Rightarrow> bool" where
  "isPlainObject v \<longleftrightarrow> (case v of JObj _ \<Rightarrow> True | _ \<Rightarrow> False)"

definition isKnownPollToolCall :: "string \<Rightarrow> js_value \<Rightarrow> bool" where
  "isKnownPollToolCall toolName params \<longleftrightarrow>
     (if toolName = ''command_status'' then True
      else if toolName \<noteq> ''process'' \<or> \<not> isPlainObject params then False
      else field params ''action'' = JStr ''poll'' \<or> field params ''action'' = JStr ''log'')"

definition extractTextContent :: "js_value \<Rightarrow> string" where
  "extractTextContent result =
     (if \<not> isPlainObject result \<or> \<not> is_array (field result ''content'') then []
      else js_trim (js_join [CHR 0x0A] (map (\<lambda>entry. or_else (string_of (field entry ''text'')) [])
        (filter (\<lambda>entry. isPlainObject entry \<and> string_of (field entry ''type'') \<noteq> None \<and> string_of (field entry ''text'') \<noteq> None)
          (elements (field result ''content''))))))"

text \<open>A thrown value: an error object with its message and name, or anything else.\<close>

datatype tool_error = ErrorObject string string | Thrown js_value

definition formatErrorForHash :: "loop_env \<Rightarrow> tool_error \<Rightarrow> string" where
  "formatErrorForHash env error = (case error of
     ErrorObject message name \<Rightarrow> if message \<noteq> [] then message else name
   | Thrown (JStr s) \<Rightarrow> s
   | Thrown (JNum n) \<Rightarrow> le_number env n
   | Thrown (JBool b) \<Rightarrow> (if b then ''true'' else ''false'')
   | Thrown v \<Rightarrow> stable_text env v)"

definition tool_name_letter :: "char \<Rightarrow> bool" where
  "tool_name_letter c \<longleftrightarrow> (let n = (of_char c :: nat) in
     97 \<le> n \<and> n \<le> 122 \<or> 65 \<le> n \<and> n \<le> 90 \<or> 48 \<le> n \<and> n \<le> 57 \<or> c \<in> set ''_.-'')"

definition is_quote :: "char \<Rightarrow> bool" where
  "is_quote c \<longleftrightarrow> c = CHR 0x22 \<or> c = CHR 0x27"

definition drop_quote :: "string \<Rightarrow> string" where
  "drop_quote s = (case s of c # r \<Rightarrow> if is_quote c then r else s | [] \<Rightarrow> [])"

text \<open>The two patterns at the head of a text: none of their parts can give back characters to the
  next, so each part takes all it can.\<close>

definition unknown_tool_at :: "string \<Rightarrow> string option" where
  "unknown_tool_at s =
     (if starts_with ''unknown tool'' (js_lower (take 12 s))
      then let rest = drop 12 s; sep = takeWhile (\<lambda>c. c = CHR '':'' \<or> is_ws c) rest;
               name = takeWhile tool_name_letter (drop_quote (drop (length sep) rest))
           in if sep = [] \<or> name = [] then None else Some name
      else None)"

definition tool_not_found_at :: "string \<Rightarrow> string option" where
  "tool_not_found_at s =
     (if starts_with ''tool'' (js_lower (take 4 s))
      then let rest = drop 4 s; sep = takeWhile is_ws rest; quoted = drop_quote (drop (length sep) rest);
               name = takeWhile tool_name_letter quoted; after = drop_quote (drop (length name) quoted);
               gap = takeWhile is_ws after; verdict = js_lower (drop (length gap) after)
           in if sep \<noteq> [] \<and> name \<noteq> [] \<and> gap \<noteq> [] \<and>
                 (starts_with ''not found'' verdict \<or> starts_with ''is not available'' verdict)
              then Some name else None
      else None)"

fun first_match :: "(string \<Rightarrow> string option) \<Rightarrow> string \<Rightarrow> string option" where
  "first_match m [] = m []"
| "first_match m (c # s) = (case m (c # s) of Some n \<Rightarrow> Some n | None \<Rightarrow> first_match m s)"

definition extractUnknownToolName :: "loop_env \<Rightarrow> tool_error \<Rightarrow> string option" where
  "extractUnknownToolName env error =
     (let raw = js_trim (formatErrorForHash env error) in
      if raw = [] then None
      else let match = (case first_match unknown_tool_at raw of Some n \<Rightarrow> Some n | None \<Rightarrow> first_match tool_not_found_at raw);
               toolName = map_option js_trim match
           in case toolName of Some n \<Rightarrow> if n \<noteq> [] then Some (js_lower n) else None | None \<Rightarrow> None)"

definition string_or_null :: "js_value \<Rightarrow> js_value" where
  "string_or_null v = (case v of JStr s \<Rightarrow> JStr s | _ \<Rightarrow> JNull)"

definition string_or_empty :: "js_value \<Rightarrow> js_value" where
  "string_or_empty v = (case v of JStr s \<Rightarrow> JStr s | _ \<Rightarrow> JStr [])"

definition null_if_undefined :: "js_value \<Rightarrow> js_value" where
  "null_if_undefined v = (case v of JUndef \<Rightarrow> JNull | _ \<Rightarrow> v)"

definition hashExecToolOutcome :: "loop_env \<Rightarrow> js_value \<Rightarrow> string \<Rightarrow> string option" where
  "hashExecToolOutcome env details txt = (case field details ''status'' of
     JStr status \<Rightarrow>
       if status = [] then None
       else if status = ''running'' then
         Some (digestStable env (JObj [(''status'', JStr status), (''tail'', string_or_empty (field details ''tail''))]))
       else if status = ''completed'' \<or> status = ''failed'' then
         Some (digestStable env (JObj [(''status'', JStr status),
           (''exitCode'', case field details ''exitCode'' of JNum n \<Rightarrow> JNum n | _ \<Rightarrow> JNull),
           (''timedOut'', JBool (field details ''timedOut'' = JBool True)),
           (''output'', JStr (or_else (normalizeNullableString (string_of (field details ''aggregated''))) txt))]))
       else if status = ''approval-pending'' \<or> status = ''approval-unavailable'' then
         Some (digestStable env (JObj [(''status'', JStr status), (''reason'', string_or_null (field details ''reason'')),
           (''host'', string_or_null (field details ''host'')), (''command'', string_or_empty (field details ''command'')),
           (''warningText'', string_or_empty (field details ''warningText''))]))
       else None
   | _ \<Rightarrow> None)"

definition SEND_LIKE_MESSAGE_ACTIONS :: "string list" where
  "SEND_LIKE_MESSAGE_ACTIONS = [''send'', ''broadcast'', ''reply'', ''thread-reply'', ''sendWithEffect'', ''sendAttachment'',
     ''upload-file'', ''sticker'', ''poll'']"

definition VOLATILE_SEND_RESULT_KEYS :: "string list" where
  "VOLATILE_SEND_RESULT_KEYS = [''messageId'', ''message_id'', ''messageIds'', ''platformMessageId'', ''platformMessageIds'',
     ''fileId'', ''file_id'', ''fileKey'', ''pollId'', ''poll_id'', ''receipt'', ''runId'', ''idempotencyKey'', ''ts'', ''timestamp'',
     ''sentAt'', ''deliveredAt'', ''createdAt'']"

definition isMessageDeliveryObject :: "js_value \<Rightarrow> bool" where
  "isMessageDeliveryObject v \<longleftrightarrow>
     string_of (field v ''id'') \<noteq> None \<and> string_of (field v ''text'') \<noteq> None \<and>
     (string_of (field v ''direction'') \<noteq> None \<or> string_of (field v ''senderId'') \<noteq> None \<or>
      string_of (field v ''accountId'') \<noteq> None \<or> isPlainObject (field v ''conversation''))"

definition volatile_key :: "js_value \<Rightarrow> string \<Rightarrow> bool" where
  "volatile_key v key \<longleftrightarrow> key \<in> set VOLATILE_SEND_RESULT_KEYS \<or> key = ''id'' \<and> isMessageDeliveryObject v"

fun stripVolatileSendIds :: "js_value \<Rightarrow> js_value" where
  "stripVolatileSendIds (JArr xs) = JArr (map stripVolatileSendIds xs)"
| "stripVolatileSendIds (JObj m) =
     JObj (map (\<lambda>(k, v). (k, stripVolatileSendIds v)) (filter (\<lambda>(k, v). \<not> volatile_key (JObj m) k) m))"
| "stripVolatileSendIds v = v"

definition isVolatileSendResult :: "loop_env \<Rightarrow> string \<Rightarrow> js_value \<Rightarrow> bool" where
  "isVolatileSendResult env toolName params \<longleftrightarrow>
     (if toolName = ''sessions_send'' then True
      else let args = (if isPlainObject params then params else JObj []) in
        if toolName = ''message'' then (case field args ''action'' of JStr a \<Rightarrow> a \<in> set SEND_LIKE_MESSAGE_ACTIONS | _ \<Rightarrow> False)
        else le_pluginSend env toolName args)"

definition isLoopVetoResult :: "js_value \<Rightarrow> bool" where
  "isLoopVetoResult details \<longleftrightarrow> field details ''status'' = JStr ''blocked'' \<and> field details ''deniedReason'' = JStr ''tool-loop''"

text \<open>The hash of an outcome and the name of a tool it reports as unknown.\<close>

definition hash_result :: "loop_env \<Rightarrow> string \<Rightarrow> js_value \<Rightarrow> js_value \<Rightarrow> string option" where
  "hash_result env toolName params result =
     (if \<not> isPlainObject result then (if result = JUndef then None else Some (digestStable env result))
      else let details = (if isPlainObject (field result ''details'') then field result ''details'' else JObj []);
               txt = extractTextContent result;
               exec = (if toolName = ''exec'' then hashExecToolOutcome env details txt else None);
               d = field details
           in if isLoopVetoResult details then None
              else if (case exec of Some h \<Rightarrow> h \<noteq> [] | None \<Rightarrow> False) then exec
              else if toolName = ''process'' \<and> isPlainObject params \<and> field params ''action'' = JStr ''poll'' then
                Some (digestStable env (JObj [(''action'', JStr ''poll''), (''status'', d ''status''), (''exitCode'', null_if_undefined (d ''exitCode'')),
                  (''exitSignal'', null_if_undefined (d ''exitSignal'')), (''aggregated'', null_if_undefined (d ''aggregated'')), (''text'', JStr txt)]))
              else if toolName = ''process'' \<and> isPlainObject params \<and> field params ''action'' = JStr ''log'' then
                Some (digestStable env (JObj [(''action'', JStr ''log''), (''status'', d ''status''), (''totalLines'', null_if_undefined (d ''totalLines'')),
                  (''totalChars'', null_if_undefined (d ''totalChars'')), (''truncated'', null_if_undefined (d ''truncated'')),
                  (''exitCode'', null_if_undefined (d ''exitCode'')), (''exitSignal'', null_if_undefined (d ''exitSignal'')), (''text'', JStr txt)]))
              else if isVolatileSendResult env toolName params then Some (digestStable env (stripVolatileSendIds details))
              else Some (digestStable env (JObj [(''details'', details), (''text'', JStr txt)])))"

definition hashToolOutcome ::
    "loop_env \<Rightarrow> string \<Rightarrow> js_value \<Rightarrow> js_value \<Rightarrow> tool_error option \<Rightarrow> string option \<times> string option" where
  "hashToolOutcome env toolName params result error = (case error of
     Some e \<Rightarrow>
       if e \<noteq> Thrown JUndef
       then (Some (''error:'' @ digestStable env (JStr (formatErrorForHash env e))), extractUnknownToolName env e)
       else (hash_result env toolName params result, None)
   | None \<Rightarrow> (hash_result env toolName params result, None))"

section \<open>Streaks\<close>

text \<open>The loops over the history run from its end, so they get it reversed.\<close>

definition filled :: "string option \<Rightarrow> bool" where
  "filled v \<longleftrightarrow> v \<noteq> None \<and> v \<noteq> Some []"

fun unknown_streak :: "string \<Rightarrow> nat \<Rightarrow> string option \<Rightarrow> tool_call_record list \<Rightarrow> nat \<times> string option" where
  "unknown_streak toolName streak repeated [] = (streak, repeated)"
| "unknown_streak toolName streak repeated (record # older) =
     (if tr_toolName record \<noteq> toolName \<or> \<not> filled (tr_unknownToolName record) then (streak, repeated)
      else if repeated = None then unknown_streak toolName 1 (tr_unknownToolName record) older
      else if tr_unknownToolName record \<noteq> repeated then (streak, repeated)
      else unknown_streak toolName (streak + 1) repeated older)"

definition getUnknownToolRepeatStreak :: "tool_call_record list \<Rightarrow> string \<Rightarrow> nat \<times> string option" where
  "getUnknownToolRepeatStreak history toolName = unknown_streak toolName 0 None (rev history)"

fun no_progress_streak :: "string \<Rightarrow> string \<Rightarrow> nat \<Rightarrow> string option \<Rightarrow> tool_call_record list \<Rightarrow> nat \<times> string option" where
  "no_progress_streak toolName argsHash streak latest [] = (streak, latest)"
| "no_progress_streak toolName argsHash streak latest (record # older) =
     (if tr_toolName record \<noteq> toolName \<or> tr_argsHash record \<noteq> argsHash then no_progress_streak toolName argsHash streak latest older
      else if \<not> filled (tr_resultHash record) then no_progress_streak toolName argsHash streak latest older
      else if latest = None then no_progress_streak toolName argsHash 1 (tr_resultHash record) older
      else if tr_resultHash record \<noteq> latest then (streak, latest)
      else no_progress_streak toolName argsHash (streak + 1) latest older)"

definition getNoProgressStreak :: "tool_call_record list \<Rightarrow> string \<Rightarrow> string \<Rightarrow> nat \<times> string option" where
  "getNoProgressStreak history toolName argsHash = no_progress_streak toolName argsHash 0 None (rev history)"

record ping_pong =
  pp_count :: nat
  pp_pairedToolName :: "string option"
  pp_pairedSignature :: "string option"
  pp_noProgressEvidence :: bool

definition no_ping_pong :: ping_pong where
  "no_ping_pong = \<lparr>pp_count = 0, pp_pairedToolName = None, pp_pairedSignature = None, pp_noProgressEvidence = False\<rparr>"

text \<open>How far the history alternates between two signatures, from its end.\<close>

fun alternating_tail :: "string \<Rightarrow> string \<Rightarrow> tool_call_record list \<Rightarrow> nat" where
  "alternating_tail expected other [] = 0"
| "alternating_tail expected other (call # older) =
     (if tr_argsHash call \<noteq> expected then 0 else Suc (alternating_tail other expected older))"

text \<open>Whether both sides of the alternating tail kept their outcomes, and had one.\<close>

fun stable_sides :: "string \<Rightarrow> string \<Rightarrow> string option \<Rightarrow> string option \<Rightarrow> tool_call_record list \<Rightarrow> bool" where
  "stable_sides lastSignature otherSignature firstA firstB [] \<longleftrightarrow> firstA \<noteq> None \<and> firstB \<noteq> None"
| "stable_sides lastSignature otherSignature firstA firstB (call # later) \<longleftrightarrow>
     (if \<not> filled (tr_resultHash call) then False
      else if tr_argsHash call = lastSignature then
        (if firstA = None then stable_sides lastSignature otherSignature (tr_resultHash call) firstB later
         else if firstA \<noteq> tr_resultHash call then False
         else stable_sides lastSignature otherSignature firstA firstB later)
      else if tr_argsHash call = otherSignature then
        (if firstB = None then stable_sides lastSignature otherSignature firstA (tr_resultHash call) later
         else if firstB \<noteq> tr_resultHash call then False
         else stable_sides lastSignature otherSignature firstA firstB later)
      else False)"

definition getPingPongStreak :: "tool_call_record list \<Rightarrow> string \<Rightarrow> ping_pong" where
  "getPingPongStreak history currentSignature =
     (if history = [] then no_ping_pong
      else let last_call = last history; lastSignature = tr_argsHash last_call in
        case find (\<lambda>call. tr_argsHash call \<noteq> lastSignature) (rev (butlast history)) of
          None \<Rightarrow> no_ping_pong
        | Some other \<Rightarrow>
            (let otherSignature = tr_argsHash other in
             if otherSignature = [] \<or> tr_toolName other = [] then no_ping_pong
             else let n = alternating_tail lastSignature otherSignature (rev history) in
               if n < 2 then no_ping_pong
               else if currentSignature \<noteq> otherSignature then no_ping_pong
               else \<lparr>pp_count = n + 1, pp_pairedToolName = Some (tr_toolName last_call), pp_pairedSignature = Some lastSignature,
                     pp_noProgressEvidence = stable_sides lastSignature otherSignature None None (drop (length history - n) history)\<rparr>))"

definition canonicalPairKey :: "string \<Rightarrow> string \<Rightarrow> string" where
  "canonicalPairKey signatureA signatureB = js_join ''|'' (to_sorted compareStableStrings [signatureA, signatureB])"

section \<open>Detection\<close>

datatype loop_level = LoopWarning | LoopCritical

datatype loop_detector = GenericRepeat | UnknownToolRepeat | KnownPollNoProgress | GlobalCircuitBreaker | PingPong

record loop_finding =
  lf_level :: loop_level
  lf_detector :: loop_detector
  lf_count :: nat
  lf_message :: string
  lf_pairedToolName :: "string option"
  lf_warningKey :: string

definition found :: "loop_level \<Rightarrow> loop_detector \<Rightarrow> nat \<Rightarrow> string \<Rightarrow> string option \<Rightarrow> string \<Rightarrow> loop_finding option" where
  "found level detector n message paired key = Some
     \<lparr>lf_level = level, lf_detector = detector, lf_count = n, lf_message = message, lf_pairedToolName = paired, lf_warningKey = key\<rparr>"

text \<open>\<^verbatim>\<open>undefined\<close> stands for \<^verbatim>\<open>{ stuck: false }\<close>.\<close>

text \<open>The decision, from the streaks.\<close>

definition decide_loop :: "resolved_config \<Rightarrow> string \<Rightarrow> string \<Rightarrow> bool \<Rightarrow> nat \<times> string option \<Rightarrow> nat \<times> string option \<Rightarrow>
    ping_pong \<Rightarrow> nat \<Rightarrow> loop_finding option" where
  "decide_loop c toolName currentHash known unknown progress pingPong recent =
     (let (unknownCount, unknownName) = unknown; (streak, latest) = progress;
        pairKey = (case pp_pairedSignature pingPong of
            Some sig \<Rightarrow> if sig \<noteq> [] then ''pingpong:'' @ canonicalPairKey currentHash sig else ''pingpong:'' @ toolName @ '':'' @ currentHash
          | None \<Rightarrow> ''pingpong:'' @ toolName @ '':'' @ currentHash);
        key = (\<lambda>p. p @ '':'' @ toolName @ '':'' @ currentHash @ '':'' @ or_else latest ''none'')
      in
        if unknownCount \<ge> rc_unknownToolThreshold c then
          found LoopCritical UnknownToolRepeat unknownCount
            (''CRITICAL: attempted unavailable tool '' @ or_else unknownName toolName @ '' '' @ nat_digits unknownCount
              @ '' times. Stop retrying that missing tool and answer without it.'') None
            (''unknown-tool:'' @ toolName @ '':'' @ or_else unknownName ''unknown'')
        else if streak \<ge> rc_globalCircuitBreakerThreshold c then
          found LoopCritical GlobalCircuitBreaker streak
            (''CRITICAL: '' @ toolName @ '' has repeated identical no-progress outcomes '' @ nat_digits streak
              @ '' times. Session execution blocked by global circuit breaker to prevent runaway loops.'') None (key ''global'')
        else if known \<and> rc_knownPollNoProgress c \<and> streak \<ge> rc_criticalThreshold c then
          found LoopCritical KnownPollNoProgress streak
            (''CRITICAL: Called '' @ toolName @ '' with identical arguments and no progress '' @ nat_digits streak
              @ '' times. This appears to be a stuck polling loop. Session execution blocked to prevent resource waste.'') None (key ''poll'')
        else if known \<and> rc_knownPollNoProgress c \<and> streak \<ge> rc_warningThreshold c then
          found LoopWarning KnownPollNoProgress streak
            (''WARNING: You have called '' @ toolName @ '' '' @ nat_digits streak
              @ '' times with identical arguments and no progress. Stop polling and either (1) increase wait time between checks, or (2) report the task as failed if the process is stuck.'')
            None (key ''poll'')
        else if rc_pingPong c \<and> pp_count pingPong \<ge> rc_criticalThreshold c \<and> pp_noProgressEvidence pingPong then
          found LoopCritical PingPong (pp_count pingPong)
            (''CRITICAL: You are alternating between repeated tool-call patterns ('' @ nat_digits (pp_count pingPong)
              @ '' consecutive calls) with no progress. This appears to be a stuck ping-pong loop. Session execution blocked to prevent resource waste.'')
            (pp_pairedToolName pingPong) pairKey
        else if rc_pingPong c \<and> pp_count pingPong \<ge> rc_warningThreshold c then
          found LoopWarning PingPong (pp_count pingPong)
            (''WARNING: You are alternating between repeated tool-call patterns ('' @ nat_digits (pp_count pingPong)
              @ '' consecutive calls). This looks like a ping-pong loop; stop retrying and report the task as failed.'')
            (pp_pairedToolName pingPong) pairKey
        else if \<not> known \<and> rc_genericRepeat c \<and> streak \<ge> rc_criticalThreshold c then
          found LoopCritical GenericRepeat streak
            (''CRITICAL: Called '' @ toolName @ '' with identical arguments and identical outcomes '' @ nat_digits streak
              @ '' times. Session execution blocked to prevent runaway loops.'') None (key ''generic'')
        else if \<not> known \<and> rc_genericRepeat c \<and> recent \<ge> rc_warningThreshold c then
          found LoopWarning GenericRepeat recent
            (''WARNING: You have called '' @ toolName @ '' '' @ nat_digits recent
              @ '' times with identical arguments. If this is not making progress, stop retrying and report the task as failed.'')
            None (''generic:'' @ toolName @ '':'' @ currentHash)
        else None)"

definition detectToolCallLoop ::
    "loop_env \<Rightarrow> session_state \<Rightarrow> string \<Rightarrow> js_value \<Rightarrow> loop_detection_config option \<Rightarrow> string option \<Rightarrow> loop_finding option" where
  "detectToolCallLoop env state toolName params config scope =
     (let c = resolveLoopDetectionConfig config in
      if \<not> rc_enabled c then None
      else let history = selectHistoryForScope (history_of state) scope; currentHash = hashToolCall env toolName params in
        decide_loop c toolName currentHash (isKnownPollToolCall toolName params) (getUnknownToolRepeatStreak history toolName)
          (getNoProgressStreak history toolName currentHash) (getPingPongStreak history currentHash)
          (length (filter (\<lambda>h. tr_toolName h = toolName \<and> tr_argsHash h = currentHash) history)))"

section \<open>Recording\<close>

text \<open>\<^verbatim>\<open>splice\<close> from the front: the last \<open>historySize\<close> records stay.\<close>

definition keep_recent :: "nat \<Rightarrow> 'a list \<Rightarrow> 'a list" where
  "keep_recent n history = (if length history > n then drop (length history - n) history else history)"

definition recordToolCall ::
    "loop_env \<Rightarrow> session_state \<Rightarrow> string \<Rightarrow> js_value \<Rightarrow> string option \<Rightarrow> loop_detection_config option \<Rightarrow> string option \<Rightarrow> int \<Rightarrow> session_state" where
  "recordToolCall env state toolName params toolCallId config scope now =
     state\<lparr>ss_toolCallHistory := Some (keep_recent (rc_historySize (resolveLoopDetectionConfig config)) (history_of state @
       [\<lparr>tr_toolName = toolName, tr_argsHash = hashToolCall env toolName params, tr_toolCallId = toolCallId,
         tr_runId = normalizeOptionalString scope, tr_resultHash = None, tr_unknownToolName = None, tr_timestamp = now\<rparr>]))\<rparr>"

definition awaits :: "string option \<Rightarrow> string option \<Rightarrow> string \<Rightarrow> string \<Rightarrow> tool_call_record \<Rightarrow> bool" where
  "awaits runId toolCallId toolName argsHash call \<longleftrightarrow>
     normalizeOptionalString (tr_runId call) = runId \<and>
     (filled toolCallId \<longrightarrow> tr_toolCallId call = toolCallId) \<and>
     tr_toolName call = toolName \<and> tr_argsHash call = argsHash \<and> tr_resultHash call = None"

text \<open>The latest call that awaits the outcome gets it; the history is reversed here.\<close>

fun settle_latest :: "(tool_call_record \<Rightarrow> bool) \<Rightarrow> (tool_call_record \<Rightarrow> tool_call_record) \<Rightarrow> tool_call_record list \<Rightarrow>
    (tool_call_record list \<times> tool_call_record) option" where
  "settle_latest P f [] = None"
| "settle_latest P f (call # older) =
     (if P call then Some (f call # older, f call)
      else map_option (\<lambda>(cs, r). (call # cs, r)) (settle_latest P f older))"

definition recordToolCallOutcome ::
    "loop_env \<Rightarrow> session_state \<Rightarrow> string \<Rightarrow> js_value \<Rightarrow> string option \<Rightarrow> js_value \<Rightarrow> tool_error option \<Rightarrow>
     loop_detection_config option \<Rightarrow> string option \<Rightarrow> int \<Rightarrow> tool_call_record option \<times> session_state" where
  "recordToolCallOutcome env state toolName toolParams toolCallId result error config run now =
     (let runId = normalizeOptionalString run; (resultHash, unknownToolName) = hashToolOutcome env toolName toolParams result error in
      if \<not> filled resultHash then (None, state)
      else let argsHash = hashToolCall env toolName toolParams;
               settle = (\<lambda>call. call\<lparr>tr_resultHash := resultHash, tr_unknownToolName := unknownToolName\<rparr>);
               (history, recorded) = (case settle_latest (awaits runId toolCallId toolName argsHash) settle (rev (history_of state)) of
                   Some (cs, r) \<Rightarrow> (rev cs, r)
                 | None \<Rightarrow> (let r = \<lparr>tr_toolName = toolName, tr_argsHash = argsHash, tr_toolCallId = toolCallId, tr_runId = runId,
                       tr_resultHash = resultHash, tr_unknownToolName = unknownToolName, tr_timestamp = now\<rparr>
                     in (history_of state @ [r], r)))
           in (Some recorded, state\<lparr>ss_toolCallHistory := Some (keep_recent (rc_historySize (resolveLoopDetectionConfig config)) history)\<rparr>))"

section \<open>The gate around a tool\<close>

record hook_context =
  hc_sessionKey :: "string option"
  hc_sessionId :: "string option"
  hc_runId :: "string option"
  hc_loopDetection :: "loop_detection_config option"

definition normalizeToolName :: "string \<Rightarrow> string" where
  "normalizeToolName name = (let normalized = normalizeLowercaseStringOrEmpty (Some name) in
     if normalized = ''bash'' then ''exec'' else if normalized = ''apply-patch'' then ''apply_patch'' else normalized)"

definition LOOP_WARNING_BUCKET_SIZE :: nat where "LOOP_WARNING_BUCKET_SIZE = 10"
definition MAX_LOOP_WARNING_KEYS :: nat where "MAX_LOOP_WARNING_KEYS = 256"

definition shouldEmitLoopWarning :: "session_state \<Rightarrow> string \<Rightarrow> nat \<Rightarrow> bool \<times> session_state" where
  "shouldEmitLoopWarning state warningKey n =
     (let bucket = n div LOOP_WARNING_BUCKET_SIZE; buckets = ss_toolLoopWarningBuckets state in
      if bucket \<le> or_else (map_of buckets warningKey) 0 then (False, state)
      else let set1 = map_set warningKey bucket buckets;
               set2 = (if length set1 > MAX_LOOP_WARNING_KEYS \<and> fst (hd set1) \<noteq> [] then map_delete (fst (hd set1)) set1 else set1)
           in (True, state\<lparr>ss_toolLoopWarningBuckets := set2\<rparr>))"

datatype gate_result = LoopVeto string | GatePassed

text \<open>The part of \<open>runBeforeToolCallHook\<close> that detects loops and records the call. A tool without a name is \<open>tool\<close>.\<close>

definition gate_name :: "string \<Rightarrow> string" where
  "gate_name toolName = normalizeToolName (if toolName = [] then ''tool'' else toolName)"

definition loop_scope :: "hook_context \<Rightarrow> string option" where
  "loop_scope ctx = (if filled (hc_runId ctx) then hc_runId ctx else None)"

definition loop_gate ::
    "loop_env \<Rightarrow> hook_context \<Rightarrow> string \<Rightarrow> js_value \<Rightarrow> string option \<Rightarrow> int \<Rightarrow> session_state \<Rightarrow> gate_result \<times> session_state" where
  "loop_gate env ctx name params toolCallId now state =
     (if \<not> filled (hc_sessionKey ctx) then (GatePassed, state)
      else let toolName = gate_name name; config = hc_loopDetection ctx; scope = loop_scope ctx;
               pass = (\<lambda>st. (GatePassed, if Option.bind config ld_enabled \<noteq> Some False
                  then recordToolCall env st toolName params toolCallId config scope now else st))
           in case detectToolCallLoop env state toolName params config scope of
                None \<Rightarrow> pass state
              | Some f \<Rightarrow> (if lf_level f = LoopCritical then (LoopVeto (lf_message f), state)
                  else let warningKey = (if filled (hc_runId ctx) then or_else (hc_runId ctx) [] @ '':'' @ lf_warningKey f else lf_warningKey f)
                       in pass (snd (shouldEmitLoopWarning state warningKey (lf_count f)))))"

text \<open>What the listener of outcomes is told: tool, arguments, result.\<close>

type_synonym observation = "string \<times> string \<times> string"

definition recordLoopOutcome ::
    "loop_env \<Rightarrow> hook_context \<Rightarrow> string \<Rightarrow> js_value \<Rightarrow> string option \<Rightarrow> js_value \<Rightarrow> tool_error option \<Rightarrow> int \<Rightarrow> session_state \<Rightarrow>
     observation option \<times> session_state" where
  "recordLoopOutcome env ctx toolName toolParams toolCallId result error now state =
     (if \<not> filled (hc_sessionKey ctx) \<and> \<not> filled (hc_sessionId ctx) then (None, state)
      else let (record, state') = recordToolCallOutcome env state toolName toolParams toolCallId result error
             (hc_loopDetection ctx) (loop_scope ctx) now
           in (case record of
                 Some r \<Rightarrow> (case tr_resultHash r of Some h \<Rightarrow> if h \<noteq> [] then Some (tr_toolName r, tr_argsHash r, h) else None | None \<Rightarrow> None)
               | None \<Rightarrow> None, state'))"

definition buildBlockedToolResult :: "string \<Rightarrow> string \<Rightarrow> js_value" where
  "buildBlockedToolResult reason deniedReason =
     JObj [(''content'', JArr [JObj [(''type'', JStr ''text''), (''text'', JStr reason)]]),
           (''details'', JObj [(''status'', JStr ''blocked''), (''deniedReason'', JStr deniedReason), (''reason'', JStr reason)])]"

text \<open>One call of a wrapped tool: refused by the gate, or run. \<open>ran\<close> is what happens past the gate:
  the parameters the tool was run with after the other policies, and what it threw or returned.\<close>

record tool_run =
  tn_name :: string
  tn_params :: js_value
  tn_id :: "string option"
  tn_ran_params :: js_value
  tn_outcome :: "tool_error + js_value"

definition run_wrapped ::
    "loop_env \<Rightarrow> hook_context \<Rightarrow> int \<Rightarrow> tool_run \<Rightarrow> session_state \<Rightarrow> (bool \<times> observation option) \<times> session_state" where
  "run_wrapped env ctx now r state = (case loop_gate env ctx (tn_name r) (tn_params r) (tn_id r) now state of
     (LoopVeto reason, st) \<Rightarrow>
       (let (observed, st') = recordLoopOutcome env ctx (gate_name (tn_name r)) (tn_params r) (tn_id r)
          (buildBlockedToolResult reason ''tool-loop'') None now st in ((False, observed), st'))
   | (GatePassed, st) \<Rightarrow>
       (let (observed, st') = (case tn_outcome r of
            Inl e \<Rightarrow> recordLoopOutcome env ctx (gate_name (tn_name r)) (tn_ran_params r) (tn_id r) JUndef (Some e) now st
          | Inr result \<Rightarrow> recordLoopOutcome env ctx (gate_name (tn_name r)) (tn_ran_params r) (tn_id r) result None now st)
        in ((True, observed), st')))"

section \<open>The guard after a compaction\<close>

definition DEFAULT_WINDOW_SIZE :: nat where "DEFAULT_WINDOW_SIZE = 3"

record guard_state =
  gd_enabled :: bool
  gd_windowSize :: nat
  gd_remainingAttempts :: nat
  gd_history :: "observation list"

record guard_verdict =
  gv_shouldAbort :: bool
  gv_armed :: bool
  gv_remainingAttempts :: nat
  gv_count :: nat
  gv_message :: string

definition createPostCompactionLoopGuard :: "rat option \<Rightarrow> bool option \<Rightarrow> guard_state" where
  "createPostCompactionLoopGuard windowSize enabled =
     \<lparr>gd_enabled = or_else enabled True, gd_windowSize = asPositiveInt windowSize DEFAULT_WINDOW_SIZE,
      gd_remainingAttempts = 0, gd_history = []\<rparr>"

definition armPostCompaction :: "guard_state \<Rightarrow> guard_state" where
  "armPostCompaction g = g\<lparr>gd_remainingAttempts := gd_windowSize g, gd_history := []\<rparr>"

definition observe :: "observation \<Rightarrow> guard_state \<Rightarrow> guard_verdict \<times> guard_state" where
  "observe call g =
     (if \<not> gd_enabled g \<or> gd_remainingAttempts g = 0
      then (\<lparr>gv_shouldAbort = False, gv_armed = False, gv_remainingAttempts = 0, gv_count = 0, gv_message = []\<rparr>, g)
      else let g' = g\<lparr>gd_remainingAttempts := gd_remainingAttempts g - 1, gd_history := gd_history g @ [call]\<rparr>;
               matches = length (filter (\<lambda>entry. entry = call) (gd_history g')); abort = matches \<ge> gd_windowSize g
           in (\<lparr>gv_shouldAbort = abort, gv_armed = gd_remainingAttempts g' > 0, gv_remainingAttempts = gd_remainingAttempts g',
                gv_count = (if abort then matches else 0),
                gv_message = (if abort then ''CRITICAL: tool '' @ fst call @ '' repeated '' @ nat_digits matches
                  @ '' times with identical arguments and identical results within '' @ nat_digits (gd_windowSize g)
                  @ '' attempts after auto-compaction. The compaction did not break the loop. Aborting to prevent runaway resource use.''
                  else [])\<rparr>, g'))"

definition guard_snapshot :: "guard_state \<Rightarrow> bool \<times> nat" where
  "guard_snapshot g = (gd_remainingAttempts g > 0, gd_remainingAttempts g)"

end
