(* ===== verification/ToolLoopProps.thy ===== *)
theory ToolLoopProps
  imports ToolLoop
begin

text \<open>
  What the detection of tool loops guarantees: a call that keeps repeating with the same outcome is
  cut off and stays cut off; a call is refused only on evidence in the history; the counts never
  exceed the history, so a threshold beyond it is never reached; and the guard after a compaction
  aborts exactly on a full window of identical calls.
\<close>

section \<open>Streaks against the outcomes\<close>

text \<open>The outcomes recorded for one call, in order.\<close>

definition outcomes :: "string \<Rightarrow> string \<Rightarrow> tool_call_record list \<Rightarrow> string list" where
  "outcomes toolName argsHash history = map (\<lambda>r. or_else (tr_resultHash r) [])
     (filter (\<lambda>r. tr_toolName r = toolName \<and> tr_argsHash r = argsHash \<and> filled (tr_resultHash r)) history)"

lemma filled_simps [simp]: "\<not> filled None" "filled (Some s) \<longleftrightarrow> s \<noteq> []"
  by (simp_all add: filled_def)

lemma or_else_simps [simp]: "or_else (Some x) y = x" "or_else None y = y"
  by (simp_all add: or_else_def)

lemma filledE: "filled v \<Longrightarrow> (\<And>s. v = Some s \<Longrightarrow> s \<noteq> [] \<Longrightarrow> P) \<Longrightarrow> P"
  by (cases v) auto

lemma streak_scan:
  "no_progress_streak t a n (Some h) rs = (n + length (takeWhile ((=) h) (outcomes t a rs)), Some h)"
  by (induction rs arbitrary: n) (auto simp: outcomes_def elim!: filledE)

lemma streak_start:
  "no_progress_streak t a 0 None rs = (case outcomes t a rs of
     [] \<Rightarrow> (0, None) | h # hs \<Rightarrow> (Suc (length (takeWhile ((=) h) hs)), Some h))"
proof (induction rs)
  case (Cons r rs)
  then show ?case
    by (auto simp: streak_scan outcomes_def elim!: filledE split: list.split)
qed (simp add: outcomes_def)

lemma rev_outcomes: "outcomes t a (rev rs) = rev (outcomes t a rs)"
  by (simp add: outcomes_def rev_map rev_filter)

lemma outcomes_append [simp]: "outcomes t a (xs @ ys) = outcomes t a xs @ outcomes t a ys"
  by (simp add: outcomes_def)

lemma no_progress_count:
  assumes "getNoProgressStreak history t a = (n, latest)" "0 < n"
  obtains h where "latest = Some h" "n \<le> length (outcomes t a history)"
    "\<forall>x \<in> set (drop (length (outcomes t a history) - n) (outcomes t a history)). x = h"
proof -
  obtain h hs where hs: "rev (outcomes t a history) = h # hs"
    using assms by (cases "rev (outcomes t a history)") (auto simp: getNoProgressStreak_def streak_start rev_outcomes)
  have n: "n = Suc (length (takeWhile ((=) h) hs))" "latest = Some h"
    using assms(1) by (simp_all add: getNoProgressStreak_def streak_start rev_outcomes hs)
  have le: "n \<le> length (outcomes t a history)"
    using arg_cong [where f = length, OF hs] n length_takeWhile_le [of "(=) h" hs] by simp
  have "take n (rev (outcomes t a history)) = h # takeWhile ((=) h) hs"
    by (simp add: hs n takeWhile_eq_take [symmetric])
  then have "rev (drop (length (outcomes t a history) - n) (outcomes t a history)) = h # takeWhile ((=) h) hs"
    using le by (simp add: rev_drop)
  from arg_cong [where f = set, OF this] have "\<forall>x \<in> set (drop (length (outcomes t a history) - n) (outcomes t a history)). x = h"
    by (auto dest: set_takeWhileD)
  with le that n(2) show thesis by blast
qed


section \<open>A repeated call is cut off\<close>

text \<open>A session in which wrapped tools are called one after the other: whether each was run.\<close>

fun run_session :: "loop_env \<Rightarrow> hook_context \<Rightarrow> (int \<times> tool_run) list \<Rightarrow> session_state \<Rightarrow> bool list \<times> session_state" where
  "run_session env ctx [] state = ([], state)"
| "run_session env ctx ((now, r) # rs) state =
     (let ((ran, observed), state1) = run_wrapped env ctx now r state; (flags, state2) = run_session env ctx rs state1
      in (ran # flags, state2))"







lemma config_order:
  "1 \<le> rc_warningThreshold (resolveLoopDetectionConfig c)"
  "rc_warningThreshold (resolveLoopDetectionConfig c) < rc_criticalThreshold (resolveLoopDetectionConfig c)"
  "rc_criticalThreshold (resolveLoopDetectionConfig c) < rc_globalCircuitBreakerThreshold (resolveLoopDetectionConfig c)"
  "1 \<le> rc_unknownToolThreshold (resolveLoopDetectionConfig c)" "1 \<le> rc_historySize (resolveLoopDetectionConfig c)"
proof -
  have "0 < k \<Longrightarrow> 0 < asPositiveInt v k" for v k
    by (auto simp: asPositiveInt_def split: option.split)
  note this [simp]
  show "1 \<le> rc_warningThreshold (resolveLoopDetectionConfig c)" "1 \<le> rc_unknownToolThreshold (resolveLoopDetectionConfig c)"
    "1 \<le> rc_historySize (resolveLoopDetectionConfig c)"
    by (simp_all add: resolveLoopDetectionConfig_def Let_def WARNING_THRESHOLD_def UNKNOWN_TOOL_THRESHOLD_def TOOL_CALL_HISTORY_SIZE_def Suc_le_eq)
  show "rc_warningThreshold (resolveLoopDetectionConfig c) < rc_criticalThreshold (resolveLoopDetectionConfig c)"
    "rc_criticalThreshold (resolveLoopDetectionConfig c) < rc_globalCircuitBreakerThreshold (resolveLoopDetectionConfig c)"
    by (simp_all add: resolveLoopDetectionConfig_def Let_def)
qed


lemma norm_idem [simp]: "normalizeOptionalString (normalizeOptionalString v) = normalizeOptionalString v"
  by (cases v) (auto simp: string_coerce_defs Let_def)

lemma scope_append [simp]: "selectHistoryForScope (xs @ ys) scope = selectHistoryForScope xs scope @ selectHistoryForScope ys scope"
  by (simp add: selectHistoryForScope_def Let_def)




lemma loop_finding_iff [simp]: "found l d n m p k = Some f \<longleftrightarrow>
    f = \<lparr>lf_level = l, lf_detector = d, lf_count = n, lf_message = m, lf_pairedToolName = p, lf_warningKey = k\<rparr>"
  "found l d n m p k \<noteq> None"
  by (auto simp: found_def)




lemma history_record [simp]: "history_of (st\<lparr>ss_toolCallHistory := Some hs\<rparr>) = hs" "history_of (st\<lparr>ss_toolLoopWarningBuckets := b\<rparr>) = history_of st"
  by (simp_all add: history_of_def)

lemma warning_history [simp]: "history_of (snd (shouldEmitLoopWarning st k n)) = history_of st"
  by (simp add: shouldEmitLoopWarning_def Let_def)






section \<open>Refused only on evidence\<close>

lemma unknown_scan:
  "unknown_streak t n (Some u) rs = (n + length (takeWhile (\<lambda>r. tr_toolName r = t \<and> tr_unknownToolName r = Some u) rs), Some u)"
  if "u \<noteq> []" using that
  by (induction rs arbitrary: n) (auto elim!: filledE)

lemma unknown_count:
  assumes "getUnknownToolRepeatStreak history t = (n, name)" "0 < n"
  obtains u where "name = Some u" "u \<noteq> []" "n \<le> length history"
    "\<forall>r \<in> set (drop (length history - n) history). tr_toolName r = t \<and> tr_unknownToolName r = Some u"
proof -
  let ?P = "\<lambda>u r. tr_toolName r = t \<and> tr_unknownToolName r = Some u"
  obtain r rs where rs: "rev history = r # rs" using assms by (cases "rev history") (auto simp: getUnknownToolRepeatStreak_def)
  obtain u where u: "?P u r" "u \<noteq> []" "name = Some u" "n = Suc (length (takeWhile (?P u) rs))"
    using assms by (auto simp: getUnknownToolRepeatStreak_def rs unknown_scan split: if_splits elim!: filledE)
  have le: "n \<le> length history" using arg_cong [where f = length, OF rs] u(4) length_takeWhile_le [of "?P u" rs] by simp
  have "rev (drop (length history - n) history) = r # takeWhile (?P u) rs"
    using le by (simp add: rev_drop rs u(4) takeWhile_eq_take [symmetric])
  from arg_cong [where f = set, OF this] have "\<forall>x \<in> set (drop (length history - n) history). ?P u x"
    using u(1) by (auto dest: set_takeWhileD)
  with that u le show thesis by blast
qed

lemma alternating_args: "i < alternating_tail a b rs \<Longrightarrow> tr_argsHash (rs ! i) = (if even i then a else b)"
  by (induction a b rs arbitrary: i rule: alternating_tail.induct) (auto split: if_splits simp: less_Suc_eq_0_disj nth_Cons')

lemma alternating_length: "alternating_tail a b rs \<le> length rs"
  by (induction a b rs rule: alternating_tail.induct) auto

lemma stable_cons:
  assumes "stable_sides a b fa fb (call # later)"
  obtains h where "tr_resultHash call = Some h"
    "tr_argsHash call = a \<and> (fa = None \<or> fa = Some h) \<and> stable_sides a b (Some h) fb later \<or>
     tr_argsHash call \<noteq> a \<and> (fb = None \<or> fb = Some h) \<and> stable_sides a b fa (Some h) later"
  using assms by (auto split: if_splits elim!: filledE)

lemma stable_outcomes:
  "stable_sides a b fa fb rs \<Longrightarrow> \<exists>ha hb. (fa = None \<or> fa = Some ha) \<and> (fb = None \<or> fb = Some hb) \<and>
    (\<forall>r \<in> set rs. tr_resultHash r = Some (if tr_argsHash r = a then ha else hb))"
proof (induction rs arbitrary: fa fb)
  case (Cons call later)
  from stable_cons [OF Cons.prems] obtain h where h: "tr_resultHash call = Some h" and
    sides: "tr_argsHash call = a \<and> (fa = None \<or> fa = Some h) \<and> stable_sides a b (Some h) fb later \<or>
     tr_argsHash call \<noteq> a \<and> (fb = None \<or> fb = Some h) \<and> stable_sides a b fa (Some h) later" .
  from sides show ?case
  proof (rule disjE)
    assume *: "tr_argsHash call = a \<and> (fa = None \<or> fa = Some h) \<and> stable_sides a b (Some h) fb later"
    from Cons.IH [of "Some h" fb] * obtain hb where "fb = None \<or> fb = Some hb"
      "\<forall>r \<in> set later. tr_resultHash r = Some (if tr_argsHash r = a then h else hb)" by auto
    with * h show ?thesis by (intro exI [of _ h] exI [of _ hb]) auto
  next
    assume *: "tr_argsHash call \<noteq> a \<and> (fb = None \<or> fb = Some h) \<and> stable_sides a b fa (Some h) later"
    from Cons.IH [of fa "Some h"] * obtain ha where "fa = None \<or> fa = Some ha"
      "\<forall>r \<in> set later. tr_resultHash r = Some (if tr_argsHash r = a then ha else h)" by auto
    with * h show ?thesis by (intro exI [of _ ha] exI [of _ h]) auto
  qed
qed auto

text \<open>What justifies a refusal. \<open>history\<close> is that of the run the call belongs to, and \<open>n\<close> the reported count.\<close>

definition unknown_evidence :: "tool_call_record list \<Rightarrow> string \<Rightarrow> nat \<Rightarrow> bool" where
  "unknown_evidence history t n \<longleftrightarrow> (\<exists>u. u \<noteq> [] \<and> n \<le> length history \<and>
     (\<forall>r \<in> set (drop (length history - n) history). tr_toolName r = t \<and> tr_unknownToolName r = Some u))"

definition outcome_evidence :: "tool_call_record list \<Rightarrow> string \<Rightarrow> string \<Rightarrow> nat \<Rightarrow> bool" where
  "outcome_evidence history t a n \<longleftrightarrow> (let outs = outcomes t a history in
     n \<le> length outs \<and> (\<exists>h. \<forall>x \<in> set (drop (length outs - n) outs). x = h))"

definition ping_pong_evidence :: "tool_call_record list \<Rightarrow> string \<Rightarrow> nat \<Rightarrow> bool" where
  "ping_pong_evidence history a n \<longleftrightarrow> (\<exists>b ha hb. b \<noteq> a \<and> n \<le> Suc (length history) \<and>
     (\<forall>i < n - 1. let r = rev history ! i in
        tr_argsHash r = (if even i then b else a) \<and> tr_resultHash r = Some (if even i then hb else ha)))"

lemma unknown_proof: "getUnknownToolRepeatStreak history t = (n, name) \<Longrightarrow> 0 < n \<Longrightarrow> unknown_evidence history t n"
  by (erule (1) unknown_count) (auto simp: unknown_evidence_def)

lemma outcome_proof: "getNoProgressStreak history t a = (n, latest) \<Longrightarrow> 0 < n \<Longrightarrow> outcome_evidence history t a n"
  by (erule (1) no_progress_count) (auto simp: outcome_evidence_def Let_def)

lemma ping_pong_proof:
  assumes "pp_noProgressEvidence (getPingPongStreak history a)" "pp_count (getPingPongStreak history a) = n"
  shows "ping_pong_evidence history a n"
proof -
  define b where "b = tr_argsHash (last history)"
  define k where "k = alternating_tail b a (rev history)"
  have k: "n = Suc k" "stable_sides b a None None (drop (length history - k) history)" "a \<noteq> b"
    using assms by (auto simp: getPingPongStreak_def no_ping_pong_def Let_def b_def k_def split: if_splits option.splits dest!: find_Some_mem)
  have le: "k \<le> length history" using alternating_length [of b a "rev history"] by (simp add: k_def)
  obtain hb ha where sides: "\<forall>r \<in> set (drop (length history - k) history). tr_resultHash r = Some (if tr_argsHash r = b then hb else ha)"
    using stable_outcomes [OF k(2)] by auto
  have "rev history ! i \<in> set (drop (length history - k) history)" if "i < k" for i
  proof -
    have "take k (rev history) ! i \<in> set (take k (rev history))" using that le by (intro nth_mem) simp
    then have "rev history ! i \<in> set (take k (rev history))" using that by simp
    then show ?thesis by (simp add: take_rev)
  qed
  moreover have "tr_argsHash (rev history ! i) = (if even i then b else a)" if "i < k" for i
    using alternating_args [of i b a "rev history"] that by (simp add: k_def)
  ultimately show ?thesis using k(1,3) le sides
    unfolding ping_pong_evidence_def by (intro exI [of _ b] exI [of _ ha] exI [of _ hb]) (auto simp: Let_def)
qed

lemma decided_critical:
  assumes "decide_loop c t a known unknown progress pp recent = Some f" "lf_level f = LoopCritical"
    "rc_criticalThreshold c < rc_globalCircuitBreakerThreshold c"
  shows "lf_detector f = UnknownToolRepeat \<and> lf_count f = fst unknown \<and> rc_unknownToolThreshold c \<le> lf_count f \<or>
    lf_detector f = PingPong \<and> lf_count f = pp_count pp \<and> rc_criticalThreshold c \<le> lf_count f \<and> pp_noProgressEvidence pp \<or>
    lf_detector f \<in> {GlobalCircuitBreaker, KnownPollNoProgress, GenericRepeat} \<and> lf_count f = fst progress \<and> rc_criticalThreshold c \<le> lf_count f"
  using assms unfolding decide_loop_def Let_def case_prod_beta
  by (simp split: if_split_asm)

lemma critical_cases:
  assumes "detectToolCallLoop env st t p config scope = Some f" "lf_level f = LoopCritical"
    "c = resolveLoopDetectionConfig config" "H = selectHistoryForScope (history_of st) scope" "a = hashToolCall env t p"
  shows "lf_detector f = UnknownToolRepeat \<and> lf_count f = fst (getUnknownToolRepeatStreak H t) \<and> rc_unknownToolThreshold c \<le> lf_count f \<or>
    lf_detector f = PingPong \<and> lf_count f = pp_count (getPingPongStreak H a) \<and> rc_criticalThreshold c \<le> lf_count f \<and>
      pp_noProgressEvidence (getPingPongStreak H a) \<or>
    lf_detector f \<in> {GlobalCircuitBreaker, KnownPollNoProgress, GenericRepeat} \<and>
      lf_count f = fst (getNoProgressStreak H t a) \<and> rc_criticalThreshold c \<le> lf_count f"
  using assms(1) config_order(3) [of config] unfolding detectToolCallLoop_def Let_def assms(3-5) [symmetric]
  by (intro decided_critical [OF _ assms(2)]) (simp_all split: if_split_asm)

text \<open>C20: A call is refused only on evidence recorded for the same run: the last calls all
  asked for this tool and reported the same missing tool, at least \<open>unknownToolThreshold\<close> of
  them; or the last outcomes of exactly this call, at least \<open>criticalThreshold\<close> of them, are
  identical; or the calls up to this one alternate between it and one other, at least
  \<open>criticalThreshold\<close> calls, and each of the two always had the same outcome.\<close>

theorem block_has_evidence:
  assumes "detectToolCallLoop env st t p config scope = Some f" "lf_level f = LoopCritical"
  shows "case lf_detector f of
      UnknownToolRepeat \<Rightarrow> rc_unknownToolThreshold (resolveLoopDetectionConfig config) \<le> lf_count f \<and>
        unknown_evidence (selectHistoryForScope (history_of st) scope) t (lf_count f)
    | PingPong \<Rightarrow> rc_criticalThreshold (resolveLoopDetectionConfig config) \<le> lf_count f \<and>
        ping_pong_evidence (selectHistoryForScope (history_of st) scope) (hashToolCall env t p) (lf_count f)
    | _ \<Rightarrow> rc_criticalThreshold (resolveLoopDetectionConfig config) \<le> lf_count f \<and>
        outcome_evidence (selectHistoryForScope (history_of st) scope) t (hashToolCall env t p) (lf_count f)"
proof -
  let ?c = "resolveLoopDetectionConfig config" and ?H = "selectHistoryForScope (history_of st) scope"
  let ?a = "hashToolCall env t p"
  have unknown: "unknown_evidence ?H t (fst (getUnknownToolRepeatStreak ?H t))" if "0 < fst (getUnknownToolRepeatStreak ?H t)"
    by (rule unknown_proof [OF prod.collapse [symmetric] that])
  have outs: "outcome_evidence ?H t ?a (fst (getNoProgressStreak ?H t ?a))" if "0 < fst (getNoProgressStreak ?H t ?a)"
    by (rule outcome_proof [OF prod.collapse [symmetric] that])
  have pp: "ping_pong_evidence ?H ?a (pp_count (getPingPongStreak ?H ?a))" if "pp_noProgressEvidence (getPingPongStreak ?H ?a)"
    using that by (rule ping_pong_proof) simp
  from critical_cases [OF assms refl refl refl] show ?thesis
  proof (elim disjE)
    assume "lf_detector f = UnknownToolRepeat \<and> lf_count f = fst (getUnknownToolRepeatStreak ?H t) \<and> rc_unknownToolThreshold ?c \<le> lf_count f"
    then show ?thesis using unknown config_order(4) [of config] by simp
  next
    assume *: "lf_detector f \<in> {GlobalCircuitBreaker, KnownPollNoProgress, GenericRepeat} \<and>
      lf_count f = fst (getNoProgressStreak ?H t ?a) \<and> rc_criticalThreshold ?c \<le> lf_count f"
    then have "outcome_evidence ?H t ?a (lf_count f)" using outs config_order(1,2) [of config] by simp
    with * show ?thesis by auto
  qed (use pp in simp)
qed

section \<open>Counts stay within the history\<close>

lemma keep_recent_length [simp]: "length (keep_recent n xs) \<le> n"
  by (simp add: keep_recent_def)

abbreviation bounded :: "hook_context \<Rightarrow> session_state \<Rightarrow> bool" where
  "bounded ctx st \<equiv> length (history_of st) \<le> rc_historySize (resolveLoopDetectionConfig (hc_loopDetection ctx))"

lemma gate_within: "bounded ctx st \<Longrightarrow> bounded ctx (snd (loop_gate env ctx name p i now st))"
  by (auto simp: loop_gate_def recordToolCall_def Let_def split: option.split)

lemma outcome_within: "bounded ctx st \<Longrightarrow> bounded ctx (snd (recordLoopOutcome env ctx t p i v e now st))"
  by (auto simp: recordLoopOutcome_def recordToolCallOutcome_def Let_def case_prod_beta)

lemma run_within:
  assumes "bounded ctx st"
  shows "bounded ctx (snd (run_wrapped env ctx now r st))"
proof (cases "loop_gate env ctx (tn_name r) (tn_params r) (tn_id r) now st")
  case (Pair g st1)
  with gate_within [OF assms, of env "tn_name r" "tn_params r" "tn_id r" now] have "bounded ctx st1" by simp
  with Pair show ?thesis
    by (auto simp: run_wrapped_def case_prod_beta outcome_within split: gate_result.split sum.split)
qed

lemma scope_length: "length (selectHistoryForScope history scope) \<le> length history"
  by (simp add: selectHistoryForScope_def Let_def)

lemma ping_pong_length: "pp_count (getPingPongStreak history a) \<le> Suc (length history)"
  using alternating_length [of _ _ "rev history"]
  by (auto simp: getPingPongStreak_def no_ping_pong_def Let_def split: option.split)

lemma short_history_passes:
  assumes "bounded ctx st" "c = resolveLoopDetectionConfig (hc_loopDetection ctx)"
    "rc_historySize c + 1 < rc_criticalThreshold c" "rc_historySize c < rc_unknownToolThreshold c"
  shows "fst (loop_gate env ctx name p i now st) = GatePassed"
proof -
  have False if "detectToolCallLoop env st t p (hc_loopDetection ctx) scope = Some f" "lf_level f = LoopCritical" for t scope f
  proof -
    let ?H = "selectHistoryForScope (history_of st) scope"
    have len: "length ?H \<le> rc_historySize c" using scope_length assms(1,2) order_trans by blast
    have "fst (getUnknownToolRepeatStreak ?H t) \<le> length ?H"
    proof (cases "getUnknownToolRepeatStreak ?H t")
      case (Pair n u)
      with unknown_proof [OF Pair] show ?thesis by (cases n) (auto simp: unknown_evidence_def)
    qed
    moreover have "fst (getNoProgressStreak ?H t (hashToolCall env t p)) \<le> length ?H"
    proof (cases "getNoProgressStreak ?H t (hashToolCall env t p)")
      case (Pair n l)
      have "length (outcomes t (hashToolCall env t p) ?H) \<le> length ?H" by (simp add: outcomes_def)
      with outcome_proof [OF Pair] Pair show ?thesis by (cases n) (auto simp: outcome_evidence_def Let_def)
    qed
    ultimately show False
      using critical_cases [OF that assms(2) refl refl] len assms(3,4) ping_pong_length [of ?H "hashToolCall env t p"] by auto
  qed
  then show ?thesis by (fastforce simp: loop_gate_def Let_def split: option.split)
qed

text \<open>C36: A configuration whose history is too short for its thresholds blocks
  nothing: when the resolved historySize is at least two below the critical threshold and below the
  threshold for unknown tools, then in a session that starts fresh every call is run, whatever the
  calls and outcomes, even when loop detection is enabled.\<close>

theorem short_history_never_blocks:
  assumes "c = resolveLoopDetectionConfig (hc_loopDetection ctx)"
    "rc_historySize c + 1 < rc_criticalThreshold c" "rc_historySize c < rc_unknownToolThreshold c"
    "ss_toolCallHistory st = None"
  shows "fst (run_session env ctx runs st) = replicate (length runs) True"
proof -
  have "bounded ctx st \<Longrightarrow> fst (run_session env ctx runs st) = replicate (length runs) True" for st
  proof (induction runs arbitrary: st)
    case (Cons nr runs)
    obtain now r where nr: "nr = (now, r)" by (cases nr)
    have "fst (fst (run_wrapped env ctx now r st))"
      using short_history_passes [OF Cons.prems assms(1-3), of env "tn_name r" "tn_params r" "tn_id r" now]
      by (auto simp: run_wrapped_def case_prod_beta split: gate_result.split)
    with Cons.IH [OF run_within [OF Cons.prems, of env now r]] show ?case by (simp add: nr case_prod_beta)
  qed simp
  then show ?thesis using assms(4) by (simp add: history_of_def)
qed

section \<open>The guard after a compaction\<close>

definition guarded :: "observation list \<Rightarrow> guard_state \<Rightarrow> guard_state" where
  "guarded calls g = fold (\<lambda>c g. snd (observe c g)) calls (armPostCompaction g)"

lemma guarded_state:
  "gd_enabled g \<Longrightarrow> guarded calls g = g\<lparr>gd_remainingAttempts := gd_windowSize g - length calls, gd_history := take (gd_windowSize g) calls\<rparr>"
proof (induction calls rule: rev_induct)
  case (snoc c calls)
  then show ?case by (simp add: guarded_def observe_def Let_def)
qed (simp add: guarded_def armPostCompaction_def)

text \<open>After a compaction the guard aborts a run on exactly one condition: the
  call it observes is the last of a full window since it was armed, and all calls of the window
  had the same tool, arguments and result. Before and after that window it never aborts.\<close>

theorem compaction_guard_exact:
  assumes "gd_enabled g" "0 < gd_windowSize g"
  shows "gv_shouldAbort (fst (observe call (guarded calls g))) \<longleftrightarrow>
    length calls + 1 = gd_windowSize g \<and> (\<forall>c \<in> set calls. c = call)"
proof (cases "length calls < gd_windowSize g")
  case True
  let ?m = "length (filter (\<lambda>e. e = call) calls)"
  have "gv_shouldAbort (fst (observe call (guarded calls g))) \<longleftrightarrow> gd_windowSize g \<le> Suc ?m"
    using True assms by (simp add: guarded_state observe_def Let_def)
  also have "\<dots> \<longleftrightarrow> length calls + 1 = gd_windowSize g \<and> ?m = length calls"
    using True length_filter_le [of "\<lambda>e. e = call" calls] by arith
  also have "?m = length calls \<longleftrightarrow> (\<forall>c \<in> set calls. c = call)"
  proof
    show "?m = length calls \<Longrightarrow> \<forall>c \<in> set calls. c = call"
      using length_filter_less [of _ calls "\<lambda>e. e = call"] by fastforce
  qed simp
  finally show ?thesis .
qed (use assms in \<open>simp add: guarded_state observe_def\<close>)

section \<open>A small session\<close>

definition demo_env :: loop_env where
  "demo_env = \<lparr>le_sha256 = (\<lambda>s. s), le_number = demo_number, le_pluginSend = (\<lambda>t a. False)\<rparr>"

text \<open>Loop detection on, with a history of \<open>kept\<close> calls, a warning at once and a block at the second repetition.\<close>

definition demo_detection :: "rat \<Rightarrow> rat \<Rightarrow> loop_detection_config" where
  "demo_detection kept critical = \<lparr>ld_enabled = Some True, ld_historySize = Some kept, ld_warningThreshold = Some 1, ld_unknownToolThreshold = Some critical,
     ld_criticalThreshold = Some critical, ld_globalCircuitBreakerThreshold = None, ld_detectors = None, ld_windowSize = None\<rparr>"

definition demo_context :: "rat \<Rightarrow> rat \<Rightarrow> hook_context" where
  "demo_context kept critical = \<lparr>hc_sessionKey = Some ''main'', hc_sessionId = None, hc_runId = None, hc_loopDetection = Some (demo_detection kept critical)\<rparr>"

definition fresh_session :: session_state where
  "fresh_session = \<lparr>ss_toolCallHistory = None, ss_toolLoopWarningBuckets = []\<rparr>"

definition demo_read :: tool_run where
  "demo_read = \<lparr>tn_name = ''read'', tn_params = JNull, tn_id = Some ''c1'', tn_ran_params = JNull, tn_outcome = Inr (JStr ''x'')\<rparr>"


lemma demo_config: "resolveLoopDetectionConfig (Some (demo_detection 5 2)) =
    \<lparr>rc_enabled = True, rc_historySize = 5, rc_warningThreshold = 1, rc_unknownToolThreshold = 2, rc_criticalThreshold = 2,
     rc_globalCircuitBreakerThreshold = 30, rc_genericRepeat = True, rc_knownPollNoProgress = True, rc_pingPong = True\<rparr>"
  "resolveLoopDetectionConfig (Some (demo_detection 2 9)) =
    \<lparr>rc_enabled = True, rc_historySize = 2, rc_warningThreshold = 1, rc_unknownToolThreshold = 9, rc_criticalThreshold = 9,
     rc_globalCircuitBreakerThreshold = 30, rc_genericRepeat = True, rc_knownPollNoProgress = True, rc_pingPong = True\<rparr>"
  by code_simp+

lemma demo_context_fields: "hc_sessionKey (demo_context n m) = Some ''main''" "hc_loopDetection (demo_context n m) = Some (demo_detection n m)"
  "ld_enabled (demo_detection n m) = Some True"
  by (simp_all add: demo_context_def demo_detection_def)


theorem short_history_never_blocks_witness:
  "fst (run_session demo_env (demo_context 2 9) (replicate 100 (0, demo_read)) fresh_session) = replicate (length (replicate 100 (0 :: int, demo_read))) True"
  by (rule short_history_never_blocks [of "resolveLoopDetectionConfig (Some (demo_detection 2 9))"])
    (simp_all add: demo_config demo_context_fields fresh_session_def)

theorem compaction_guard_exact_witness:
  "gv_shouldAbort (fst (observe (''read'', ''a'', ''r'') (guarded [(''read'', ''a'', ''r''), (''read'', ''a'', ''r'')] (createPostCompactionLoopGuard None None))))"
  using compaction_guard_exact [of "createPostCompactionLoopGuard None None" "(''read'', ''a'', ''r'')" "[(''read'', ''a'', ''r''), (''read'', ''a'', ''r'')]"]
  by (simp add: createPostCompactionLoopGuard_def asPositiveInt_def DEFAULT_WINDOW_SIZE_def)

definition stuck_session :: session_state where
  "stuck_session = \<lparr>ss_toolCallHistory = Some (replicate 2 \<lparr>tr_toolName = ''read'', tr_argsHash = ''read:null'', tr_toolCallId = None, tr_runId = None,
     tr_resultHash = Some ''r'', tr_unknownToolName = None, tr_timestamp = 0\<rparr>), ss_toolLoopWarningBuckets = []\<rparr>"

lemma demo_stuck: "map_option lf_detector (detectToolCallLoop demo_env stuck_session ''read'' JNull (Some (demo_detection 5 2)) None) = Some GenericRepeat"
  "map_option lf_level (detectToolCallLoop demo_env stuck_session ''read'' JNull (Some (demo_detection 5 2)) None) = Some LoopCritical"
  by code_simp+

theorem block_has_evidence_witness:
  "outcome_evidence (selectHistoryForScope (history_of stuck_session) None) ''read'' (hashToolCall demo_env ''read'' JNull)
    (lf_count (the (detectToolCallLoop demo_env stuck_session ''read'' JNull (Some (demo_detection 5 2)) None)))"
proof -
  obtain f where f: "detectToolCallLoop demo_env stuck_session ''read'' JNull (Some (demo_detection 5 2)) None = Some f"
      "lf_level f = LoopCritical" "lf_detector f = GenericRepeat"
    using demo_stuck by auto
  from block_has_evidence [OF f(1,2)] show ?thesis by (simp add: f(1,3))
qed

end
