(* ===== verification/CronTime.thy ===== *)
theory CronTime
  imports JsValue
begin

text \<open>
  Strict numbers and absolute times, after \<^verbatim>\<open>src/src/cron/parse.ts\<close> and the numeric parsers of
  \<^verbatim>\<open>packages/normalization-core/src/number-coercion.ts\<close> it calls. An absolute time is a text of
  epoch milliseconds or an ISO text. The source checks the calendar fields of an ISO text by
  setting them on a \<^verbatim>\<open>Date\<close> and reading them back; the day and time arithmetic of \<^verbatim>\<open>Date\<close> is
  that of ECMAScript, and the lemmas show that this check accepts exactly the dates of the
  Gregorian calendar. A decimal text is the rational number it denotes, without the rounding to
  the nearest double; times are whole milliseconds.
\<close>

section \<open>Strict numbers\<close>

definition MAX_SAFE_INTEGER :: int where
  "MAX_SAFE_INTEGER = 9007199254740991"

definition MAX_DATE_TIMESTAMP_MS :: int where
  "MAX_DATE_TIMESTAMP_MS = 8640000000000000"

text \<open>Every decimal below this bound rounds to a finite double.\<close>

definition finite_bound :: rat where
  "finite_bound = 2 ^ 1024 - 2 ^ 970"

definition split_sign :: "string \<Rightarrow> bool \<times> string" where
  "split_sign s = (case s of
     c # r \<Rightarrow> if c = CHR ''-'' then (True, r) else if c = CHR ''+'' then (False, r) else (False, s)
   | [] \<Rightarrow> (False, s))"

definition signed :: "bool \<Rightarrow> int \<Rightarrow> int" where
  "signed negative n = (if negative then - n else n)"

definition scaled :: "int \<Rightarrow> int \<Rightarrow> rat" where
  "scaled m e = (if 0 \<le> e then of_int (m * 10 ^ nat e) else Fract m (10 ^ nat (- e)))"

definition exponent_text :: "string \<Rightarrow> int option" where
  "exponent_text s = (case s of
     [] \<Rightarrow> Some 0
   | c # r \<Rightarrow> if c = CHR ''e'' \<or> c = CHR ''E'' then
       (let (negative, ds) = split_sign r in
        if ds \<noteq> [] \<and> list_all digit ds then Some (signed negative (int (digits_value ds))) else None)
     else None)"

definition decimal_text :: "string \<Rightarrow> rat option" where
  "decimal_text s =
     (let (negative, s1) = split_sign s;
          whole = takeWhile digit s1;
          s2 = dropWhile digit s1;
          (fraction, s3) = (case s2 of
             c # r \<Rightarrow> if c = CHR ''.'' then (takeWhile digit r, dropWhile digit r) else ([], s2)
           | [] \<Rightarrow> ([], []))
      in if whole = [] \<and> fraction = [] then None
         else map_option (\<lambda>e. scaled (signed negative (int (digits_value (whole @ fraction)))) (e - int (length fraction)))
           (exponent_text s3))"

definition parseStrictFiniteNumber :: "js_value \<Rightarrow> rat option" where
  "parseStrictFiniteNumber value = (case value of
     JNum n \<Rightarrow> Some n
   | JStr s \<Rightarrow> (case decimal_text (js_trim s) of
       Some n \<Rightarrow> if \<bar>n\<bar> < finite_bound then Some n else None
     | None \<Rightarrow> None)
   | _ \<Rightarrow> None)"

definition safe_integer :: "rat \<Rightarrow> bool" where
  "safe_integer n \<longleftrightarrow> of_int \<lfloor>n\<rfloor> = n \<and> \<bar>n\<bar> \<le> of_int MAX_SAFE_INTEGER"

definition parseStrictInteger :: "js_value \<Rightarrow> int option" where
  "parseStrictInteger value = (case value of
     JNum n \<Rightarrow> if safe_integer n then Some \<lfloor>n\<rfloor> else None
   | JStr s \<Rightarrow> (let (negative, ds) = split_sign (js_trim s) in
       if ds \<noteq> [] \<and> list_all digit ds then
         (let n = signed negative (int (digits_value ds)) in
          if \<bar>n\<bar> \<le> MAX_SAFE_INTEGER then Some n else None)
       else None)
   | _ \<Rightarrow> None)"

definition parseStrictPositiveInteger :: "js_value \<Rightarrow> int option" where
  "parseStrictPositiveInteger value = (case parseStrictInteger value of
     Some n \<Rightarrow> if 0 < n then Some n else None | None \<Rightarrow> None)"

definition parseStrictNonNegativeInteger :: "js_value \<Rightarrow> int option" where
  "parseStrictNonNegativeInteger value = (case parseStrictInteger value of
     Some n \<Rightarrow> if 0 \<le> n then Some n else None | None \<Rightarrow> None)"

section \<open>Dates of ECMAScript\<close>

definition leap_year :: "int \<Rightarrow> bool" where
  "leap_year y \<longleftrightarrow> y mod 4 = 0 \<and> (y mod 100 \<noteq> 0 \<or> y mod 400 = 0)"

definition day_from_year :: "int \<Rightarrow> int" where
  "day_from_year y = 365 * (y - 1970) + (y - 1969) div 4 - (y - 1901) div 100 + (y - 1601) div 400"

definition month_start :: "int \<Rightarrow> nat \<Rightarrow> int" where
  "month_start y m = [0, 31, 59, 90, 120, 151, 181, 212, 243, 273, 304, 334, 365] ! m + (if leap_year y \<and> 2 \<le> m then 1 else 0)"

definition days_in_month :: "int \<Rightarrow> nat \<Rightarrow> int" where
  "days_in_month y m = month_start y (Suc m) - month_start y m"

definition make_day :: "int \<Rightarrow> int \<Rightarrow> int \<Rightarrow> int" where
  "make_day y m d = (let ym = y + m div 12 in day_from_year ym + month_start ym (nat (m mod 12)) + d - 1)"

definition year_of_day :: "int \<Rightarrow> int" where
  "year_of_day n = (let y = 1970 + n * 400 div 146097 in
     if n < day_from_year y then y - 1 else if day_from_year (y + 1) \<le> n then y + 1 else y)"

definition month_of_day :: "int \<Rightarrow> nat" where
  "month_of_day n = (let y = year_of_day n; d = n - day_from_year y in
     length (filter (\<lambda>m. month_start y m \<le> d) [1..<12]))"

definition date_of_day :: "int \<Rightarrow> int" where
  "date_of_day n = (let y = year_of_day n in n - day_from_year y - month_start y (month_of_day n) + 1)"

definition ms_per_day :: int where
  "ms_per_day = 86400000"

text \<open>The probe of \<^verbatim>\<open>isValidIsoAbsolute\<close>: \<^verbatim>\<open>setUTCFullYear\<close> on the epoch, then
  \<^verbatim>\<open>setUTCHours\<close>, both rolling values out of range.\<close>

definition make_time :: "int \<Rightarrow> int \<Rightarrow> int \<Rightarrow> int \<Rightarrow> int" where
  "make_time h m s ms = h * 3600000 + m * 60000 + s * 1000 + ms"

definition make_date :: "int \<Rightarrow> int \<Rightarrow> int" where
  "make_date day time = day * ms_per_day + time"

definition day_of :: "int \<Rightarrow> int" where
  "day_of t = t div ms_per_day"

definition getUTCHours :: "int \<Rightarrow> int" where
  "getUTCHours t = t div 3600000 mod 24"

definition getUTCMinutes :: "int \<Rightarrow> int" where
  "getUTCMinutes t = t div 60000 mod 60"

definition getUTCSeconds :: "int \<Rightarrow> int" where
  "getUTCSeconds t = t div 1000 mod 60"

definition getUTCMilliseconds :: "int \<Rightarrow> int" where
  "getUTCMilliseconds t = t mod 1000"

section \<open>The ISO texts\<close>

record iso_fields =
  iso_year :: int
  iso_month :: int
  iso_day :: int
  iso_hour :: int
  iso_minute :: int
  iso_second :: int
  iso_ms :: int

definition digits_at :: "nat \<Rightarrow> string \<Rightarrow> (int \<times> string) option" where
  "digits_at n s = (if length (take n s) = n \<and> list_all digit (take n s)
     then Some (int (digits_value (take n s)), drop n s) else None)"

definition char_at :: "char \<Rightarrow> string \<Rightarrow> string option" where
  "char_at c s = (case s of x # r \<Rightarrow> if x = c then Some r else None | [] \<Rightarrow> None)"

text \<open>The zone at the end of the pattern: nothing, a letter Z, or a signed offset.\<close>

definition offset_text :: "string \<Rightarrow> bool" where
  "offset_text s \<longleftrightarrow> (case digits_at 2 s of
     Some (_, r) \<Rightarrow> (case digits_at 2 (case char_at (CHR '':'') r of Some r' \<Rightarrow> r' | None \<Rightarrow> r) of
         Some (_, rest) \<Rightarrow> rest = []
       | None \<Rightarrow> False)
   | None \<Rightarrow> False)"

definition zone_text :: "string \<Rightarrow> bool" where
  "zone_text s \<longleftrightarrow> (case s of
     [] \<Rightarrow> True
   | c # r \<Rightarrow> (c = CHR ''Z'' \<or> c = CHR ''z'') \<and> r = [] \<or> (c = CHR ''+'' \<or> c = CHR ''-'') \<and> offset_text r)"

text \<open>\<^verbatim>\<open>fractionRaw.slice(1, 4).padEnd(3, "0")\<close>\<close>

definition fraction_ms :: "string \<Rightarrow> int" where
  "fraction_ms ds = int (digits_value (take 3 (ds @ ''000'')))"

definition iso_seconds :: "string \<Rightarrow> (int \<times> int \<times> string) option" where
  "iso_seconds s = (case char_at (CHR '':'') s of
     None \<Rightarrow> Some (0, 0, s)
   | Some r \<Rightarrow> (case digits_at 2 r of
       None \<Rightarrow> None
     | Some (sec, r1) \<Rightarrow> (case char_at (CHR ''.'') r1 of
         None \<Rightarrow> Some (sec, 0, r1)
       | Some r2 \<Rightarrow> if takeWhile digit r2 = [] then None
           else Some (sec, fraction_ms (takeWhile digit r2), dropWhile digit r2))))"

definition iso_time :: "string \<Rightarrow> (int \<times> int \<times> int \<times> int) option" where
  "iso_time s = (case s of
     [] \<Rightarrow> Some (0, 0, 0, 0)
   | c # r \<Rightarrow> if c \<noteq> CHR ''T'' then None else
      Option.bind (digits_at 2 r) (\<lambda>(h, r1).
      Option.bind (char_at (CHR '':'') r1) (\<lambda>r2.
      Option.bind (digits_at 2 r2) (\<lambda>(m, r3).
      Option.bind (iso_seconds r3) (\<lambda>(sec, ms, r4). if zone_text r4 then Some (h, m, sec, ms) else None)))))"

definition iso_match :: "string \<Rightarrow> iso_fields option" where
  "iso_match s =
     Option.bind (digits_at 4 s) (\<lambda>(y, r1).
     Option.bind (char_at (CHR ''-'') r1) (\<lambda>r2.
     Option.bind (digits_at 2 r2) (\<lambda>(m, r3).
     Option.bind (char_at (CHR ''-'') r3) (\<lambda>r4.
     Option.bind (digits_at 2 r4) (\<lambda>(d, r5).
     map_option (\<lambda>(h, mi, sec, ms). \<lparr>iso_year = y, iso_month = m, iso_day = d, iso_hour = h,
       iso_minute = mi, iso_second = sec, iso_ms = ms\<rparr>) (iso_time r5))))))"

definition end_of_day :: "iso_fields \<Rightarrow> bool" where
  "end_of_day f \<longleftrightarrow> iso_hour f = 24 \<and> iso_minute f = 0 \<and> iso_second f = 0 \<and> iso_ms f = 0"

definition isValidIsoAbsolute :: "string \<Rightarrow> bool" where
  "isValidIsoAbsolute raw = (case iso_match raw of
     None \<Rightarrow> False
   | Some f \<Rightarrow>
      (let hour = (if end_of_day f then 0 else iso_hour f);
           day = make_day (iso_year f) (iso_month f - 1) (iso_day f);
           probe = make_date day (make_time hour (iso_minute f) (iso_second f) (iso_ms f))
       in year_of_day (day_of probe) = iso_year f
          \<and> int (month_of_day (day_of probe)) = iso_month f - 1
          \<and> date_of_day (day_of probe) = iso_day f
          \<and> getUTCHours probe = hour
          \<and> getUTCMinutes probe = iso_minute f
          \<and> getUTCSeconds probe = iso_second f
          \<and> getUTCMilliseconds probe = iso_ms f))"

text \<open>\<^verbatim>\<open>ISO_TZ_RE\<close>, \<^verbatim>\<open>ISO_DATE_RE\<close> and \<^verbatim>\<open>ISO_DATE_TIME_RE\<close>. The first is not anchored
  at the start: some end of the text has the form of a zone.\<close>

fun ends_with_zone :: "string \<Rightarrow> bool" where
  "ends_with_zone [] \<longleftrightarrow> False"
| "ends_with_zone (c # s) \<longleftrightarrow> zone_text (c # s) \<or> ends_with_zone s"

definition iso_date_prefix :: "string \<Rightarrow> string option" where
  "iso_date_prefix s =
     Option.bind (digits_at 4 s) (\<lambda>(_, r1).
     Option.bind (char_at (CHR ''-'') r1) (\<lambda>r2.
     Option.bind (digits_at 2 r2) (\<lambda>(_, r3).
     Option.bind (char_at (CHR ''-'') r3) (\<lambda>r4.
     map_option snd (digits_at 2 r4)))))"

definition normalizeUtcIso :: "string \<Rightarrow> string" where
  "normalizeUtcIso raw =
     (if ends_with_zone raw then raw
      else case iso_date_prefix raw of
        Some [] \<Rightarrow> raw @ ''T00:00:00Z''
      | Some (c # _) \<Rightarrow> if c = CHR ''T'' then raw @ ''Z'' else raw
      | None \<Rightarrow> raw)"

text \<open>\<^verbatim>\<open>Date.parse\<close> is the parameter \<open>parse\<close>: its texts outside the ECMAScript format are
  up to the engine; \<open>None\<close> is NaN.\<close>

definition parseAbsoluteTimeMs :: "(string \<Rightarrow> int option) \<Rightarrow> string \<Rightarrow> int option" where
  "parseAbsoluteTimeMs parse input =
     (let raw = js_trim input in
      if raw = [] then None
      else if list_all digit raw then
        (case parseStrictPositiveInteger (JStr raw) of
           Some n \<Rightarrow> if n \<le> MAX_DATE_TIMESTAMP_MS then Some n else None
         | None \<Rightarrow> None)
      else if \<not> isValidIsoAbsolute raw then None
      else parse (normalizeUtcIso raw))"

section \<open>Years and months of a day\<close>

lemma div_bounds: "0 < k \<Longrightarrow> k * (x div k) \<le> x" "0 < k \<Longrightarrow> x < k * (x div k) + k" for x k :: int
  by (simp_all add: minus_mod_eq_mult_div [symmetric] )

lemma div_step: "0 < k \<Longrightarrow> (x + 1) div k = x div k + (if (x + 1) mod k = 0 then 1 else 0)" for x k :: int
proof -
  assume k: "0 < k"
  define q r where "q = x div k" and "r = x mod k"
  have x: "x = k * q + r" "0 \<le> r" "r < k" using k by (simp_all add: q_def r_def)
  show ?thesis
  proof (cases "r + 1 = k")
    case True
    then have "x + 1 = k * (q + 1) + 0" using x by (simp add: algebra_simps)
    then have "(x + 1) div k = q + 1" "(x + 1) mod k = 0"
      using k by (simp_all add: int_div_pos_eq)
    then show ?thesis by (simp add: q_def)
  next
    case False
    then have *: "x + 1 = k * q + (r + 1)" "0 \<le> r + 1" "r + 1 < k" using x by auto
    then have "(x + 1) div k = q" "(x + 1) mod k = r + 1"
      by (rule int_div_pos_eq, rule int_mod_pos_eq)
    with x(2) show ?thesis unfolding q_def [symmetric] by simp
  qed
qed

lemma day_from_year_step: "day_from_year (y + 1) = day_from_year y + (if leap_year y then 366 else 365)"
proof -
  have m: "(y - 1969 + 1) mod 4 = y mod 4" "(y - 1901 + 1) mod 100 = y mod 100" "(y - 1601 + 1) mod 400 = y mod 400"
    by (simp_all add: mod_eq_dvd_iff)
  have i: "y mod 400 = 0 \<Longrightarrow> y mod 100 = 0" "y mod 100 = 0 \<Longrightarrow> y mod 4 = 0"
    by (auto simp: mod_eq_0_iff_dvd elim: dvd_trans [rotated])
  define a b c where "a = (y - 1969) div 4" and "b = (y - 1901) div 100" and "c = (y - 1601) div 400"
  have e: "y + 1 - 1969 = y - 1969 + 1" "y + 1 - 1901 = y - 1901 + 1" "y + 1 - 1601 = y - 1601 + 1" by simp_all
  have "day_from_year (y + 1) = 365 * (y + 1 - 1970) + (a + (if y mod 4 = 0 then 1 else 0))
      - (b + (if y mod 100 = 0 then 1 else 0)) + (c + (if y mod 400 = 0 then 1 else 0))"
    unfolding day_from_year_def e a_def b_def c_def
    by (simp only: div_step [OF zero_less_numeral] m)
  moreover have "day_from_year y = 365 * (y - 1970) + a - b + c"
    by (simp only: day_from_year_def a_def b_def c_def)
  ultimately show ?thesis
    using i unfolding leap_year_def by presburger
qed

lemma day_from_year_bounds:
  "146097 * (y - 1970) - 506 \<le> 400 * day_from_year y \<and> 400 * day_from_year y \<le> 146097 * (y - 1970) + 589"
proof -
  define a b c where "a = (y - 1969) div 4" and "b = (y - 1901) div 100" and "c = (y - 1601) div 400"
  have "4 * a \<le> y - 1969" "y - 1969 < 4 * a + 4" "100 * b \<le> y - 1901" "y - 1901 < 100 * b + 100"
    "400 * c \<le> y - 1601" "y - 1601 < 400 * c + 400"
    unfolding a_def b_def c_def by (rule div_bounds; simp)+
  then show ?thesis
    unfolding day_from_year_def a_def [symmetric] b_def [symmetric] c_def [symmetric] right_diff_distrib distrib_left by (intro conjI; simp; linarith)
qed

lemma year_of_day_spec: "day_from_year (year_of_day n) \<le> n \<and> n < day_from_year (year_of_day n + 1)"
proof -
  define k where "k = n * 400 div 146097"
  have k: "146097 * k \<le> n * 400" "n * 400 < 146097 * k + 146097" 
    unfolding k_def by (rule div_bounds; simp)+
  have "day_from_year (1970 + k - 1) \<le> n"
    using conjunct2 [OF day_from_year_bounds [of "1970 + k - 1"]] k by simp
  moreover have "n < day_from_year (1970 + k + 1 + 1)"
    using conjunct1 [OF day_from_year_bounds [of "1970 + k + 1 + 1"]] k by simp
  ultimately show ?thesis unfolding year_of_day_def k_def [symmetric] Let_def
    by (smt (verit))
qed

lemma day_from_year_mono: "y < z \<Longrightarrow> day_from_year (y + 1) \<le> day_from_year z"
proof (induction "nat (z - y)" arbitrary: z)
  case (Suc m)
  show ?case
  proof (cases "z = y + 1")
    case False
    then have "day_from_year (y + 1) \<le> day_from_year (z - 1)" using Suc by auto
    with day_from_year_step [of "z - 1"] show ?thesis by (simp split: if_splits)
  qed simp
qed simp

lemma year_of_day_unique: "day_from_year y \<le> n \<Longrightarrow> n < day_from_year (y + 1) \<Longrightarrow> year_of_day n = y"
  using year_of_day_spec [of n] day_from_year_mono [of y "year_of_day n"] day_from_year_mono [of "year_of_day n" y]
  by (cases y "year_of_day n" rule: linorder_cases) auto

lemma step_index: "f 0 \<le> d \<Longrightarrow> d < f n \<Longrightarrow> \<exists>m<n. f m \<le> d \<and> d < f (Suc m)" for f :: "nat \<Rightarrow> int"
proof (induction n)
  case (Suc n)
  then show ?case by (cases "d < f n") (auto intro: less_SucI)
qed simp

lemma month_start_0 [simp]: "month_start y 0 = 0"
  by (simp add: month_start_def)

lemma month_start_12: "month_start y 12 = (if leap_year y then 366 else 365)"
  by (simp add: month_start_def)

lemma month_start_step: "m < 12 \<Longrightarrow> month_start y m + 28 \<le> month_start y (Suc m)"
  by (auto simp: month_start_def less_Suc_eq eval_nat_numeral)

lemma month_start_mono: "k < m \<Longrightarrow> m \<le> 12 \<Longrightarrow> month_start y k < month_start y m"
proof (induction m)
  case (Suc m)
  then show ?case using month_start_step [of m y] by (cases "k = m") auto
qed simp

lemma month_count:
  assumes "month_start y m \<le> d" "d < month_start y (Suc m)" "m < 12"
  shows "length (filter (\<lambda>k. month_start y k \<le> d) [1..<12]) = m"
proof -
  have "month_start y k \<le> d \<longleftrightarrow> k \<le> m" if "k \<in> {1..<12}" for k
    using that assms month_start_mono [of k m y] month_start_mono [of "Suc m" k y]
    by (cases k "Suc m" rule: linorder_cases; cases "k = m") auto
  then have "filter (\<lambda>k. month_start y k \<le> d) [1..<12] = filter (\<lambda>k. k \<le> m) [1..<12]"
    by (intro filter_cong) auto
  also have "\<dots> = [1..<Suc m]"
  proof -
    have "[1..<12] = [1..<Suc m] @ [Suc m..<12]"
      using assms(3) by (metis One_nat_def Suc_leI le_add_diff_inverse less_Suc_eq_le upt_add_eq_append zero_less_Suc)
    then show ?thesis by (simp add: filter_empty_conv)
  qed
  finally show ?thesis by simp
qed

lemma civil_range:
  "month_of_day n < 12 \<and> 1 \<le> date_of_day n \<and> date_of_day n \<le> days_in_month (year_of_day n) (month_of_day n)"
proof -
  define y d where "y = year_of_day n" and "d = n - day_from_year y"
  have "0 \<le> d" "d < month_start y 12"
    using year_of_day_spec [of n] day_from_year_step [of y] by (auto simp: y_def d_def month_start_12 split: if_splits)
  then obtain m where m: "m < 12" "month_start y m \<le> d" "d < month_start y (Suc m)"
    using step_index [of "month_start y" d 12] by auto
  then have "month_of_day n = m"
    using month_count unfolding month_of_day_def Let_def y_def [symmetric] d_def [symmetric] by blast
  with m show ?thesis
    by (simp add: date_of_day_def Let_def days_in_month_def flip: y_def) (simp add: d_def)
qed

lemma civil_make:
  assumes "m < 12" "1 \<le> d" "d \<le> days_in_month y m"
  shows "year_of_day (make_day y (int m) d) = y" "month_of_day (make_day y (int m) d) = m"
    "date_of_day (make_day y (int m) d) = d"
proof -
  define n where "n = make_day y (int m) d"
  have n: "n = day_from_year y + (month_start y m + d - 1)"
    using assms(1) by (simp add: n_def make_day_def nat_mod_as_int flip: zmod_int)
  have r: "month_start y m \<le> month_start y m + d - 1" "month_start y m + d - 1 < month_start y (Suc m)"
    using assms by (auto simp: days_in_month_def)
  have "month_start y (Suc m) \<le> month_start y 12"
    using month_start_mono [of "Suc m" 12 y] assms(1) by (cases "Suc m = 12") auto
  moreover have "0 \<le> month_start y m"
    using month_start_mono [of 0 m y] assms(1) by (cases m) auto
  ultimately have y: "year_of_day n = y"
    using r assms(2) day_from_year_step [of y] by (intro year_of_day_unique) (auto simp: n month_start_12)
  have d: "n - day_from_year y = month_start y m + d - 1" by (simp add: n)
  have m: "month_of_day n = m"
    unfolding month_of_day_def y Let_def d by (rule month_count [OF r assms(1)])
  show "year_of_day (make_day y (int m) d) = y" "month_of_day (make_day y (int m) d) = m"
    "date_of_day (make_day y (int m) d) = d"
    using y m d by (simp_all add: date_of_day_def Let_def flip: n_def)
qed

section \<open>The calendar check\<close>

definition month_length :: "int \<Rightarrow> int \<Rightarrow> int" where
  "month_length y m = (if m = 2 then (if leap_year y then 29 else 28) else if m \<in> {4, 6, 9, 11} then 30 else 31)"

definition real_date :: "iso_fields \<Rightarrow> bool" where
  "real_date f \<longleftrightarrow> 1 \<le> iso_month f \<and> iso_month f \<le> 12
     \<and> 1 \<le> iso_day f \<and> iso_day f \<le> month_length (iso_year f) (iso_month f)
     \<and> (iso_hour f \<le> 23 \<or> end_of_day f) \<and> iso_minute f \<le> 59 \<and> iso_second f \<le> 59"

lemma days_in_month_length: "m < 12 \<Longrightarrow> days_in_month y m = month_length y (int m + 1)"
  by (auto simp: days_in_month_def month_start_def month_length_def less_Suc_eq eval_nat_numeral)

lemma time_of_day:
  fixes day :: int
  assumes r: "0 \<le> h" "h \<le> 23" "0 \<le> m" "m \<le> 59" "0 \<le> s" "s \<le> 59" "0 \<le> ms" "ms \<le> 999"
    and t: "t = make_date day (make_time h m s ms)"
  shows "day_of t = day" "getUTCHours t = h" "getUTCMinutes t = m" "getUTCSeconds t = s" "getUTCMilliseconds t = ms"
proof -
  have t: "t = 86400000 * day + 3600000 * h + 60000 * m + 1000 * s + ms"
    by (simp add: t make_date_def make_time_def ms_per_day_def)
  have "t div 1000 = ((day * 24 + h) * 60 + m) * 60 + s"
    by (rule int_div_pos_eq [where r = ms]) (use r in \<open>simp_all add: t\<close>)
  moreover have "t div 60000 = (day * 24 + h) * 60 + m"
    by (rule int_div_pos_eq [where r = "1000 * s + ms"]) (use r in \<open>simp_all add: t\<close>)
  moreover have "t div 3600000 = day * 24 + h"
    by (rule int_div_pos_eq [where r = "60000 * m + 1000 * s + ms"]) (use r in \<open>simp_all add: t\<close>)
  ultimately show "getUTCHours t = h" "getUTCMinutes t = m" "getUTCSeconds t = s"
    using r by (simp_all only: getUTCHours_def getUTCMinutes_def getUTCSeconds_def mod_mult_self3) simp_all
  show "day_of t = day"
    unfolding day_of_def ms_per_day_def
    by (rule int_div_pos_eq [where r = "3600000 * h + 60000 * m + 1000 * s + ms"]) (use r in \<open>simp_all add: t\<close>)
  show "getUTCMilliseconds t = ms"
    unfolding getUTCMilliseconds_def
    by (rule int_mod_pos_eq [where q = "86400 * day + 3600 * h + 60 * m + s"]) (use r in \<open>simp_all add: t\<close>)
qed

lemma digits_value_snoc: "digits_value (s @ [c]) = 10 * digits_value s + (of_char c - 48)"
  by (simp add: digits_value_def)

lemma digits_value_less: "list_all digit s \<Longrightarrow> digits_value s < 10 ^ length s"
  by (induction s rule: rev_induct) (auto simp: digits_value_snoc digit_def, simp add: digits_value_def)

lemma fraction_ms_range: "list_all digit ds \<Longrightarrow> 0 \<le> fraction_ms ds \<and> fraction_ms ds \<le> 999"
proof -
  assume "list_all digit ds"
  moreover have "list_all digit ''000''" by (simp add: digit_def)
  ultimately have "list_all digit (take 3 (ds @ ''000''))"
    by (auto simp: list_all_iff dest: in_set_takeD)
  from digits_value_less [OF this] have "digits_value (take 3 (ds @ ''000'')) < 10 ^ 3"
    by (simp only: length_take length_append) (simp add: min_def split: if_splits)
  then show ?thesis by (simp add: fraction_ms_def)
qed

lemma digits_at_nonneg: "digits_at n s = Some (v, r) \<Longrightarrow> 0 \<le> v"
  by (auto simp: digits_at_def split: if_splits)

lemma iso_seconds_range: "iso_seconds s = Some (sec, ms, r) \<Longrightarrow> 0 \<le> sec \<and> 0 \<le> ms \<and> ms \<le> 999"
proof -
  have "0 \<le> fraction_ms (takeWhile digit ds) \<and> fraction_ms (takeWhile digit ds) \<le> 999" for ds
    by (rule fraction_ms_range) (auto simp: list_all_iff dest: set_takeWhileD)
  then show "iso_seconds s = Some (sec, ms, r) \<Longrightarrow> 0 \<le> sec \<and> 0 \<le> ms \<and> ms \<le> 999"
    by (auto simp: iso_seconds_def split: option.splits if_splits dest: digits_at_nonneg)
qed

lemma iso_time_range:
  "iso_time s = Some (h, m, sec, ms) \<Longrightarrow> 0 \<le> h \<and> 0 \<le> m \<and> 0 \<le> sec \<and> 0 \<le> ms \<and> ms \<le> 999"
  by (auto simp: iso_time_def bind_eq_Some_conv split: list.splits if_splits dest: digits_at_nonneg iso_seconds_range)

lemma iso_match_range:
  "iso_match s = Some f \<Longrightarrow> 0 \<le> iso_hour f \<and> 0 \<le> iso_minute f \<and> 0 \<le> iso_second f \<and> 0 \<le> iso_ms f \<and> iso_ms f \<le> 999"
  by (auto simp: iso_match_def bind_eq_Some_conv dest: iso_time_range)

lemma iso_match_digits: "list_all digit s \<Longrightarrow> iso_match s = None"
proof (rule ccontr)
  assume d: "list_all digit s" and "iso_match s \<noteq> None"
  then obtain r where r: "char_at (CHR ''-'') (drop 4 s) = Some r"
    by (auto simp: iso_match_def bind_eq_Some_conv digits_at_def split: if_splits)
  then have "CHR ''-'' \<in> set s"
    by (auto simp: char_at_def split: list.splits if_splits dest: in_set_dropD [of _ 4])
       (metis in_set_dropD list.set_intros(1))
  with d show False by (auto simp: list_all_iff digit_def)
qed

lemma iso_check_calendar: "isValidIsoAbsolute raw \<longleftrightarrow> (\<exists>f. iso_match raw = Some f \<and> real_date f)"
proof (cases "iso_match raw")
  case (Some f)
  define hour where "hour = (if end_of_day f then 0 else iso_hour f)"
  define day where "day = make_day (iso_year f) (iso_month f - 1) (iso_day f)"
  define t where "t = make_date day (make_time hour (iso_minute f) (iso_second f) (iso_ms f))"
  have valid: "isValidIsoAbsolute raw \<longleftrightarrow> year_of_day (day_of t) = iso_year f
      \<and> int (month_of_day (day_of t)) = iso_month f - 1 \<and> date_of_day (day_of t) = iso_day f
      \<and> getUTCHours t = hour \<and> getUTCMinutes t = iso_minute f \<and> getUTCSeconds t = iso_second f
      \<and> getUTCMilliseconds t = iso_ms f"
    by (simp add: isValidIsoAbsolute_def Some Let_def t_def day_def hour_def)
  have "isValidIsoAbsolute raw \<longleftrightarrow> real_date f"
  proof
    assume v: "isValidIsoAbsolute raw"
    have "getUTCHours t \<le> 23" "getUTCMinutes t \<le> 59" "getUTCSeconds t \<le> 59"
      using pos_mod_bound [of 24 "t div 3600000"] pos_mod_bound [of 60 "t div 60000"] pos_mod_bound [of 60 "t div 1000"]
      by (simp_all only: getUTCHours_def getUTCMinutes_def getUTCSeconds_def)
    with v civil_range [of "day_of t"] days_in_month_length [of "month_of_day (day_of t)" "iso_year f"] show "real_date f"
      by (auto simp: valid real_date_def hour_def split: if_splits)
  next
    assume r: "real_date f"
    then obtain m where m: "iso_month f - 1 = int m" "m < 12"
      by (auto simp: real_date_def intro: that [of "nat (iso_month f - 1)"])
    have h: "0 \<le> hour" "hour \<le> 23"
      using r iso_match_range [OF Some] by (auto simp: hour_def real_date_def)
    have d: "1 \<le> iso_day f" "iso_day f \<le> days_in_month (iso_year f) m"
      using r m(2) days_in_month_length [of m "iso_year f"] by (auto simp: real_date_def simp flip: m(1))
    have r': "0 \<le> iso_minute f" "iso_minute f \<le> 59" "0 \<le> iso_second f" "iso_second f \<le> 59" "0 \<le> iso_ms f" "iso_ms f \<le> 999"
      using r iso_match_range [OF Some] by (simp_all add: real_date_def)
    have tod: "day_of t = day" "getUTCHours t = hour" "getUTCMinutes t = iso_minute f"
        "getUTCSeconds t = iso_second f" "getUTCMilliseconds t = iso_ms f"
      by (rule time_of_day [OF h r' t_def])+
    show "isValidIsoAbsolute raw"
      unfolding valid tod(1) using civil_make [OF m(2) d] tod m(1) by (simp add: day_def)
  qed
  then show ?thesis by (simp add: Some)
qed (simp add: isValidIsoAbsolute_def)

lemma parse_digits:
  assumes "list_all digit s" "s \<noteq> []" "js_trim s = s"
  shows "parseStrictPositiveInteger (JStr s) =
    (if 0 < digits_value s \<and> int (digits_value s) \<le> MAX_SAFE_INTEGER then Some (int (digits_value s)) else None)"
  using assms by (cases s) (auto simp: parseStrictPositiveInteger_def parseStrictInteger_def split_sign_def digit_def signed_def)

text \<open>C31: A job can be scheduled at an absolute time only when its text
  is a positive number of milliseconds within the range of a date, taken as it stands, or an ISO
  date and time whose fields exist in the Gregorian calendar (the length of the month in that
  year, 24:00:00.000 as the end of a day), read by the engine's parser after a missing zone has
  been replaced by UTC. Whatever that parser makes of other texts, a date such as the 30th of
  February is refused instead of rolling over to a later day.\<close>

theorem absolute_times_exact:
  "parseAbsoluteTimeMs parse s = Some t \<longleftrightarrow>
     js_trim s \<noteq> [] \<and> list_all digit (js_trim s) \<and> t = int (digits_value (js_trim s)) \<and> 0 < t \<and> t \<le> MAX_DATE_TIMESTAMP_MS
     \<or> (\<exists>f. iso_match (js_trim s) = Some f \<and> real_date f) \<and> parse (normalizeUtcIso (js_trim s)) = Some t"
proof -
  have safe: "MAX_DATE_TIMESTAMP_MS \<le> MAX_SAFE_INTEGER"
    by (simp add: MAX_DATE_TIMESTAMP_MS_def MAX_SAFE_INTEGER_def)
  have "iso_match [] = None" by (simp add: iso_match_digits)
  with safe iso_match_digits [of "js_trim s"] parse_digits [of "js_trim s"] show ?thesis
    by (auto simp: parseAbsoluteTimeMs_def Let_def iso_check_calendar split: if_splits)
qed

end
