(* ===== verification/CronSchedule.thy ===== *)
theory CronSchedule
  imports CronTime
begin

text \<open>
  When a schedule fires next, after \<^verbatim>\<open>src/src/cron/schedule.ts\<close>,
  \<^verbatim>\<open>schedule-number.ts\<close> and \<^verbatim>\<open>stagger.ts\<close>. The cron library, the local time zone, the hash
  of a job id, the engine's \<^verbatim>\<open>Date.parse\<close> and the classifier of provider errors are the
  fields of the record \<open>cron_env\<close>; nothing is assumed of them here. A run of the library is an
  exception or an optional time, \<open>None\<close> for no run as for an invalid date. The caches of parsed
  expressions and of hash offsets hold what these functions return and are left out.
\<close>

section \<open>Schedules\<close>

datatype cron_schedule =
    SAt string
  | SEvery js_value js_value
  | SCron js_value "string option" js_value
  | SOnExit string "string option"

record cron_env =
  ce_next :: "string \<Rightarrow> string \<Rightarrow> int \<Rightarrow> string + int option"
  ce_previous :: "string \<Rightarrow> string \<Rightarrow> int \<Rightarrow> string + int option"
  ce_timezone :: string
  ce_hash :: "string \<Rightarrow> nat"
  ce_parse :: "string \<Rightarrow> int option"
  ce_failover :: "string \<Rightarrow> string option \<Rightarrow> string option"

definition on_success :: "string + 'a \<Rightarrow> ('a \<Rightarrow> string + 'b) \<Rightarrow> string + 'b" where
  "on_success r f = (case r of Inl e \<Rightarrow> Inl e | Inr a \<Rightarrow> f a)"

lemma on_success_simps [simp]: "on_success (Inl e) f = Inl e" "on_success (Inr a) f = f a"
  by (simp_all add: on_success_def)

lemma on_success_Inr: "on_success r f = Inr b \<longleftrightarrow> (\<exists>a. r = Inr a \<and> f a = Inr b)"
  by (cases r) simp_all

definition coerceFiniteScheduleNumber :: "js_value \<Rightarrow> rat option" where
  "coerceFiniteScheduleNumber value = parseStrictFiniteNumber value"

definition resolveCronTimezone :: "cron_env \<Rightarrow> string option \<Rightarrow> string" where
  "resolveCronTimezone env tz = (case normalizeOptionalString tz of Some t \<Rightarrow> t | None \<Rightarrow> ce_timezone env)"

definition resolveCronFromSchedule :: "cron_env \<Rightarrow> js_value \<Rightarrow> string option \<Rightarrow> string + (string \<times> string) option" where
  "resolveCronFromSchedule env expr tz = (case expr of
     JStr e \<Rightarrow> (let t = js_trim e in Inr (if t = [] then None else Some (t, resolveCronTimezone env tz)))
   | _ \<Rightarrow> Inl ''Error: invalid cron schedule: expr is required'')"

text \<open>The next run of an expression: a time that is not in the future is retried from the next
  full second and then from the next UTC midnight.\<close>

definition later_than :: "int \<Rightarrow> int option \<Rightarrow> bool" where
  "later_than now t = (case t of Some ms \<Rightarrow> now < ms | None \<Rightarrow> False)"

definition next_second :: "int \<Rightarrow> int" where
  "next_second now = now div 1000 * 1000 + 1000"

definition next_midnight :: "int \<Rightarrow> int" where
  "next_midnight now = make_date (day_of now + 1) 0"

definition cron_next_run :: "cron_env \<Rightarrow> string \<Rightarrow> string \<Rightarrow> int \<Rightarrow> string + int option" where
  "cron_next_run env expr tz now =
     on_success (ce_next env expr tz now) (\<lambda>run.
     case run of
       None \<Rightarrow> Inr None
     | Some t \<Rightarrow>
        if now < t then Inr (Some t)
        else on_success (ce_next env expr tz (next_second now)) (\<lambda>retry.
          if later_than now retry then Inr retry
          else on_success (ce_next env expr tz (next_midnight now)) (\<lambda>retry2.
            Inr (if later_than now retry2 then retry2 else None))))"

definition every_next_run :: "rat \<Rightarrow> rat option \<Rightarrow> int \<Rightarrow> int" where
  "every_next_run raw anchorRaw now =
     (let everyMs = max 1 \<lfloor>raw\<rfloor>;
          anchor = max 0 (case anchorRaw of Some a \<Rightarrow> \<lfloor>a\<rfloor> | None \<Rightarrow> now)
      in if now < anchor then anchor
         else anchor + ((now - anchor) div everyMs + 1) * everyMs)"

definition computeNextRunAtMs :: "cron_env \<Rightarrow> cron_schedule \<Rightarrow> int \<Rightarrow> string + int option" where
  "computeNextRunAtMs env schedule now = (case schedule of
     SAt time \<Rightarrow> Inr (case parseAbsoluteTimeMs (ce_parse env) time of
         Some t \<Rightarrow> if now < t then Some t else None
       | None \<Rightarrow> None)
   | SEvery everyMs anchorMs \<Rightarrow>
       Inr (map_option (\<lambda>raw. every_next_run raw (coerceFiniteScheduleNumber anchorMs) now) (coerceFiniteScheduleNumber everyMs))
   | SOnExit _ _ \<Rightarrow> Inr None
   | SCron expr tz _ \<Rightarrow> on_success (resolveCronFromSchedule env expr tz) (\<lambda>cron.
       case cron of None \<Rightarrow> Inr None | Some (e, z) \<Rightarrow> cron_next_run env e z now))"

definition earlier_than :: "int \<Rightarrow> int option \<Rightarrow> int option" where
  "earlier_than now t = (case t of Some ms \<Rightarrow> if now \<le> ms then None else Some ms | None \<Rightarrow> None)"

definition computePreviousRunAtMs :: "cron_env \<Rightarrow> cron_schedule \<Rightarrow> int \<Rightarrow> string + int option" where
  "computePreviousRunAtMs env schedule now = (case schedule of
     SCron expr tz _ \<Rightarrow> on_success (resolveCronFromSchedule env expr tz) (\<lambda>cron.
       case cron of
         None \<Rightarrow> Inr None
       | Some (e, z) \<Rightarrow> on_success (ce_previous env e z now) (\<lambda>run. Inr (earlier_than now run)))
   | _ \<Rightarrow> Inr None)"

section \<open>Stagger windows\<close>

definition DEFAULT_TOP_OF_HOUR_STAGGER_MS :: int where
  "DEFAULT_TOP_OF_HOUR_STAGGER_MS = 5 * 60 * 1000"

fun split_ws :: "string \<Rightarrow> string list" where
  "split_ws [] = [[]]"
| "split_ws (c # s) = (if is_ws c then [] # split_ws s
     else case split_ws s of [] \<Rightarrow> [[c]] | part # parts \<Rightarrow> (c # part) # parts)"

definition parseCronFields :: "string \<Rightarrow> string list" where
  "parseCronFields expr = filter (\<lambda>f. f \<noteq> []) (split_ws (js_trim expr))"

definition step_suffix :: "string \<Rightarrow> bool" where
  "step_suffix s \<longleftrightarrow> (case s of [] \<Rightarrow> True | c # r \<Rightarrow> c = CHR ''/'' \<and> r \<noteq> [] \<and> list_all digit r)"

definition hour_list_part :: "string \<Rightarrow> bool" where
  "hour_list_part p \<longleftrightarrow>
     (if takeWhile digit p \<noteq> [] then
        step_suffix (dropWhile digit p)
        \<or> (case dropWhile digit p of
             c # q \<Rightarrow> c = CHR ''-'' \<and> takeWhile digit q \<noteq> [] \<and> step_suffix (dropWhile digit q)
           | [] \<Rightarrow> False)
      else case p of c # r \<Rightarrow> (c = CHR ''*'' \<or> c = CHR ''?'') \<and> step_suffix r | [] \<Rightarrow> False)"

definition hasRecurringWildcardHour :: "string \<Rightarrow> bool" where
  "hasRecurringWildcardHour hours =
     (let parts = js_split (CHR '','') hours in
      list_all hour_list_part parts \<and> list_ex (\<lambda>p. starts_with ''*'' p \<or> starts_with ''?'' p) parts)"

definition isRecurringTopOfHourCronExpr :: "string \<Rightarrow> bool" where
  "isRecurringTopOfHourCronExpr expr = (case parseCronFields expr of
     [mi, h, _, _, _] \<Rightarrow> mi = ''0'' \<and> hasRecurringWildcardHour h
   | [sec, mi, h, _, _, _] \<Rightarrow> sec = ''0'' \<and> mi = ''0'' \<and> hasRecurringWildcardHour h
   | _ \<Rightarrow> False)"

definition normalizeCronStaggerMs :: "js_value \<Rightarrow> int option" where
  "normalizeCronStaggerMs raw = (case raw of
     JNum n \<Rightarrow> Some (max 0 \<lfloor>n\<rfloor>)
   | JStr s \<Rightarrow> if js_trim s = [] then None else map_option (max 0) (parseStrictNonNegativeInteger raw)
   | _ \<Rightarrow> None)"

definition resolveDefaultCronStaggerMs :: "string \<Rightarrow> int option" where
  "resolveDefaultCronStaggerMs expr =
     (if isRecurringTopOfHourCronExpr expr then Some DEFAULT_TOP_OF_HOUR_STAGGER_MS else None)"

definition resolveCronStaggerMs :: "js_value \<Rightarrow> js_value \<Rightarrow> int" where
  "resolveCronStaggerMs expr staggerMs = (case normalizeCronStaggerMs staggerMs of
     Some explicit \<Rightarrow> explicit
   | None \<Rightarrow> (case resolveDefaultCronStaggerMs (case expr of JStr e \<Rightarrow> e | _ \<Rightarrow> []) of
       Some n \<Rightarrow> n | None \<Rightarrow> 0))"

lemma resolveCronStaggerMs_nonneg: "0 \<le> resolveCronStaggerMs expr staggerMs"
  by (auto simp: resolveCronStaggerMs_def normalizeCronStaggerMs_def resolveDefaultCronStaggerMs_def
      DEFAULT_TOP_OF_HOUR_STAGGER_MS_def split: option.splits js_value.splits if_splits)

section \<open>Next runs lie in the future\<close>

lemma next_second_later: "now < next_second now"
  using div_bounds(2) [of 1000 now] by (simp add: next_second_def)

lemma cron_next_run_future: "cron_next_run env e z now = Inr (Some t) \<Longrightarrow> now < t"
  by (auto simp: cron_next_run_def on_success_Inr later_than_def split: option.splits if_splits)

lemma every_next_run_future: "now < every_next_run raw a now"
proof -
  define k where "k = max 1 \<lfloor>raw\<rfloor>"
  define b where "b = max 0 (case a of Some a \<Rightarrow> \<lfloor>a\<rfloor> | None \<Rightarrow> now)"
  have "now - b < k * ((now - b) div k) + k" by (rule div_bounds) (simp add: k_def)
  then show ?thesis
    unfolding every_next_run_def Let_def k_def [symmetric] b_def [symmetric] by (simp add: algebra_simps)
qed

lemma future_next_run: "computeNextRunAtMs env s now = Inr (Some t) \<Longrightarrow> now < t"
  by (auto simp: computeNextRunAtMs_def on_success_Inr every_next_run_future dest: cron_next_run_future
      split: cron_schedule.splits option.splits if_splits prod.splits)

lemma earlier_than_Some: "earlier_than now r = Some t \<longleftrightarrow> r = Some t \<and> t < now"
  by (cases r) (auto simp: earlier_than_def)

lemma past_previous_run: "computePreviousRunAtMs env s now = Inr (Some t) \<Longrightarrow> t < now"
  by (cases s) (auto simp: computePreviousRunAtMs_def on_success_Inr earlier_than_Some split: option.split_asm)

text \<open>The run times of an interval schedule are the anchor and every multiple of the interval
  after it; the next run is the first of them after now.\<close>

definition on_grid :: "int \<Rightarrow> int \<Rightarrow> int \<Rightarrow> bool" where
  "on_grid anchor every t \<longleftrightarrow> (\<exists>k\<ge>0. t = anchor + k * every)"

lemma every_next_run_grid:
  fixes raw :: rat and a :: "rat option" and now :: int
  defines "every \<equiv> max 1 \<lfloor>raw\<rfloor>"
    and "anchor \<equiv> max 0 (case a of Some a \<Rightarrow> \<lfloor>a\<rfloor> | None \<Rightarrow> now)"
  shows "on_grid anchor every (every_next_run raw a now)"
    and "on_grid anchor every u \<Longrightarrow> now < u \<Longrightarrow> every_next_run raw a now \<le> u"
proof -
  have every: "0 < every" by (simp add: every_def)
  have run: "every_next_run raw a now = (if now < anchor then anchor else anchor + ((now - anchor) div every + 1) * every)"
    by (simp add: every_next_run_def Let_def every_def anchor_def)
  show "on_grid anchor every (every_next_run raw a now)"
    unfolding run on_grid_def using every
    by (auto intro: exI [of _ 0] exI [of _ "(now - anchor) div every + 1"] simp: pos_imp_zdiv_nonneg_iff add_nonneg_nonneg)
  assume "on_grid anchor every u" and u: "now < u"
  then obtain k where k: "0 \<le> k" "u = anchor + k * every" by (auto simp: on_grid_def)
  have "(now - anchor) div every < k" if "\<not> now < anchor"
  proof -
    have "every * ((now - anchor) div every) \<le> now - anchor" by (rule div_bounds) (rule every)
    also have "\<dots> < every * k" using u k by (simp add: algebra_simps)
    finally show ?thesis using every by simp
  qed
  then show "every_next_run raw a now \<le> u"
    unfolding run k(2) using every k(1) by (auto intro: mult_right_mono simp: mult_nonneg_nonneg)
qed

section \<open>Examples\<close>

text \<open>A cron library whose expressions all fire at every full hour after the epoch.\<close>

definition hourly_env :: cron_env where
  "hourly_env = \<lparr>ce_next = (\<lambda>_ _ now. Inr (Some ((now div 3600000 + 1) * 3600000))),
     ce_previous = (\<lambda>_ _ now. Inr (if now \<le> 3600000 then None else Some ((now - 1) div 3600000 * 3600000))),
     ce_timezone = ''UTC'', ce_hash = (\<lambda>_. 90000), ce_parse = (\<lambda>_. Some 1000000), ce_failover = (\<lambda>_ _. None)\<rparr>"

text \<open>Whatever times the cron library returns, a schedule's next run lies
  strictly after the time it is computed for: an absolute time in the past has no next run, an
  interval always steps past now, and a cron expression whose library answer is not in the future
  is retried from the next full second and from the next UTC midnight and is then given up.\<close>

theorem next_run_is_future:
  assumes "computeNextRunAtMs env schedule now = Inr (Some t)"
  shows "now < t"
  using assms by (rule future_next_run)

theorem next_run_is_future_witness:
  "computeNextRunAtMs hourly_env (SCron (JStr ''0 * * * *'') None JUndef) 5000 = Inr (Some 3600000) \<and> (5000 :: int) < 3600000"
proof -
  have "js_trim ''0 * * * *'' = ''0 * * * *''" by (rule js_trim_fixed) (simp add: is_ws_def)
  then have "computeNextRunAtMs hourly_env (SCron (JStr ''0 * * * *'') None JUndef) 5000 = Inr (Some 3600000)"
    by (simp add: computeNextRunAtMs_def resolveCronFromSchedule_def cron_next_run_def hourly_env_def)
  with next_run_is_future [OF this] show ?thesis by blast
qed

text \<open>An interval schedule whose interval is a number, as a number or as a
  strict decimal text, runs exactly on the grid of its anchor and the multiples of the interval
  (at least one millisecond, both rounded down) after it, and its next run is the first grid
  point after now; without an anchor the grid starts at the time of the computation.\<close>

theorem every_runs_on_grid:
  assumes "coerceFiniteScheduleNumber everyMs = Some raw" "every = max 1 \<lfloor>raw\<rfloor>"
    and "anchor = max 0 (case coerceFiniteScheduleNumber anchorMs of Some a \<Rightarrow> \<lfloor>a\<rfloor> | None \<Rightarrow> now)"
  shows "\<exists>t. computeNextRunAtMs env (SEvery everyMs anchorMs) now = Inr (Some t) \<and> now < t \<and> on_grid anchor every t
    \<and> (\<forall>u. on_grid anchor every u \<longrightarrow> now < u \<longrightarrow> t \<le> u)"
  using every_next_run_grid [where a = "coerceFiniteScheduleNumber anchorMs" and now = now and raw = raw] every_next_run_future [of now raw] assms
  by (simp add: computeNextRunAtMs_def)

theorem every_runs_on_grid_witness:
  "\<exists>t. computeNextRunAtMs hourly_env (SEvery (JStr '' 6e4 '') (JNum 30000)) 100000 = Inr (Some t) \<and> 100000 < t \<and> on_grid 30000 60000 t
    \<and> (\<forall>u. on_grid 30000 60000 u \<longrightarrow> 100000 < u \<longrightarrow> t \<le> u)"
proof -
  have "coerceFiniteScheduleNumber (JStr '' 6e4 '') = Some 60000" by code_simp
  moreover have "(30000 :: int) = max 0 (case coerceFiniteScheduleNumber (JNum 30000) of Some a \<Rightarrow> \<lfloor>a\<rfloor> | None \<Rightarrow> 100000)"
    by (simp add: coerceFiniteScheduleNumber_def parseStrictFiniteNumber_def)
  ultimately show ?thesis by (intro every_runs_on_grid [where raw = 60000]) simp_all
qed

end
