(* ===== verification/CronTypes.thy ===== *)
theory CronTypes
  imports CronSchedule
begin

text \<open>
  The data of the cron scheduler, after \<^verbatim>\<open>src/src/cron/types.ts\<close>, \<^verbatim>\<open>types-shared.ts\<close> and
  \<^verbatim>\<open>src/src/config/types.cron.ts\<close>. A delivery configuration and a failure-alert policy are
  read as untyped objects, as the source reads them. Of a payload only its kind matters to the
  scheduler. The diagnostics of a run and what a run reports of its model and session are left
  out; so is a persisted row without a state, which the source completes to an empty one.
\<close>

section \<open>Jobs\<close>

datatype run_status = RunOk | RunError | RunSkipped

datatype delivery_status = Delivered | NotDelivered | DeliveryUnknown | NotRequested

datatype payload_kind = SystemEventPayload | AgentTurnPayload | CommandPayload

datatype wake_mode = WakeNextHeartbeat | WakeNow

record cron_trigger =
  tr_script :: string
  tr_once :: "bool option"

record cron_job_state =
  js_nextRunAtMs :: "int option"
  js_runningAtMs :: "int option"
  js_lastRunAtMs :: "int option"
  js_lastRunStatus :: "run_status option"
  js_lastStatus :: "run_status option"
  js_lastError :: "string option"
  js_lastErrorReason :: "string option"
  js_lastDurationMs :: "int option"
  js_consecutiveErrors :: "int option"
  js_consecutiveSkipped :: "int option"
  js_lastFailureAlertAtMs :: "int option"
  js_scheduleErrorCount :: "int option"
  js_lastTriggerEvalAtMs :: "int option"
  js_triggerEvalCount :: "int option"
  js_lastTriggerFireAtMs :: "int option"
  js_triggerState :: js_value
  js_lastDeliveryStatus :: "delivery_status option"
  js_lastDeliveryError :: "string option"
  js_lastDelivered :: "bool option"
  js_lastFailureNotificationDelivered :: "bool option"
  js_lastFailureNotificationDeliveryStatus :: "delivery_status option"
  js_lastFailureNotificationDeliveryError :: "string option"

definition empty_job_state :: cron_job_state where
  "empty_job_state = \<lparr>js_nextRunAtMs = None, js_runningAtMs = None, js_lastRunAtMs = None,
     js_lastRunStatus = None, js_lastStatus = None, js_lastError = None, js_lastErrorReason = None,
     js_lastDurationMs = None, js_consecutiveErrors = None, js_consecutiveSkipped = None,
     js_lastFailureAlertAtMs = None, js_scheduleErrorCount = None, js_lastTriggerEvalAtMs = None,
     js_triggerEvalCount = None, js_lastTriggerFireAtMs = None, js_triggerState = JUndef,
     js_lastDeliveryStatus = None, js_lastDeliveryError = None, js_lastDelivered = None,
     js_lastFailureNotificationDelivered = None, js_lastFailureNotificationDeliveryStatus = None,
     js_lastFailureNotificationDeliveryError = None\<rparr>"

record cron_job =
  job_id :: string
  job_name :: string
  job_agentId :: "string option"
  job_sessionKey :: "string option"
  job_enabled :: "bool option"
  job_deleteAfterRun :: "bool option"
  job_createdAtMs :: "int option"
  job_updatedAtMs :: int
  job_schedule :: cron_schedule
  job_sessionTarget :: string
  job_wakeMode :: wake_mode
  job_payload :: payload_kind
  job_delivery :: js_value
  job_failureAlert :: js_value
  job_trigger :: "cron_trigger option"
  job_state :: cron_job_state

abbreviation with_state :: "(cron_job_state \<Rightarrow> cron_job_state) \<Rightarrow> cron_job \<Rightarrow> cron_job" where
  "with_state f job \<equiv> job\<lparr>job_state := f (job_state job)\<rparr>"

abbreviation next_run :: "cron_job \<Rightarrow> int option" where
  "next_run job \<equiv> js_nextRunAtMs (job_state job)"

definition is_cron :: "cron_schedule \<Rightarrow> bool" where
  "is_cron s \<longleftrightarrow> (case s of SCron _ _ _ \<Rightarrow> True | _ \<Rightarrow> False)"

definition is_at :: "cron_schedule \<Rightarrow> bool" where
  "is_at s \<longleftrightarrow> (case s of SAt _ \<Rightarrow> True | _ \<Rightarrow> False)"

definition is_every :: "cron_schedule \<Rightarrow> bool" where
  "is_every s \<longleftrightarrow> (case s of SEvery _ _ \<Rightarrow> True | _ \<Rightarrow> False)"

lemma schedule_kinds [simp]:
  "is_cron (SCron e z g)" "\<not> is_cron (SAt t)" "\<not> is_cron (SEvery i a)" "\<not> is_cron (SOnExit c d)"
  "is_at (SAt t)" "\<not> is_at (SCron e z g)" "\<not> is_at (SEvery i a)" "\<not> is_at (SOnExit c d)"
  "is_every (SEvery i a)" "\<not> is_every (SAt t)" "\<not> is_every (SCron e z g)" "\<not> is_every (SOnExit c d)"
  by (simp_all add: is_cron_def is_at_def is_every_def)

section \<open>Configuration\<close>

datatype retry_on = RateLimit | Overloaded | Network | Timeout | ServerError

record cron_config =
  cc_maxAttempts :: "int option"
  cc_backoffMs :: "int list option"
  cc_retryOn :: "retry_on list option"
  cc_triggersEnabled :: "bool option"
  cc_triggerMinIntervalMs :: "rat option"
  cc_failureAlert :: js_value
  cc_failureDestination :: js_value

definition no_config :: cron_config where
  "no_config = \<lparr>cc_maxAttempts = None, cc_backoffMs = None, cc_retryOn = None,
     cc_triggersEnabled = None, cc_triggerMinIntervalMs = None, cc_failureAlert = JUndef, cc_failureDestination = JUndef\<rparr>"

text \<open>What the service needs of its host besides the clock, whose readings are arguments:
  whether alerts have a sender of their own, the limits of the catch-up after a restart, and
  the channel a target names by a prefix.\<close>

record cron_deps =
  cd_env :: cron_env
  cd_config :: cron_config
  cd_cronEnabled :: bool
  cd_sendsAlerts :: bool
  cd_missedJobStaggerMs :: "int option"
  cd_maxMissedJobsPerRestart :: "int option"
  cd_startupDeferredMissedAgentJobDelayMs :: "int option"
  cd_targetChannel :: "string option \<Rightarrow> string option"

definition DEFAULT_CRON_TRIGGER_MIN_INTERVAL_MS :: int where
  "DEFAULT_CRON_TRIGGER_MIN_INTERVAL_MS = 30000"

definition resolveCronTriggerMinIntervalMs :: "cron_config \<Rightarrow> int" where
  "resolveCronTriggerMinIntervalMs cfg = (case cc_triggerMinIntervalMs cfg of
     Some raw \<Rightarrow> max 1 \<lfloor>raw\<rfloor> | None \<Rightarrow> DEFAULT_CRON_TRIGGER_MIN_INTERVAL_MS)"

text \<open>What the scheduler sends out. The message of an automatic disabling is made of the name of
  the job, the count and the error.\<close>

datatype cron_effect =
    DisabledNotice string int string "string option" "string option" string
  | SystemEvent string "string option"
  | Heartbeat bool string "string option" "string option"
  | AlertSent string string string "string option" js_value js_value
  | JobStarted string int
  | JobFinished string run_status "string option" int "int option" "int option" bool
  | JobRemoved string

section \<open>Examples\<close>

definition demo_deps :: cron_deps where
  "demo_deps = \<lparr>cd_env = hourly_env, cd_config = no_config, cd_cronEnabled = True, cd_sendsAlerts = False,
     cd_missedJobStaggerMs = None, cd_maxMissedJobsPerRestart = None, cd_startupDeferredMissedAgentJobDelayMs = None,
     cd_targetChannel = (\<lambda>_. None)\<rparr>"

definition demo_job :: "cron_schedule \<Rightarrow> cron_job" where
  "demo_job schedule = \<lparr>job_id = ''j'', job_name = ''Job'', job_agentId = None, job_sessionKey = None,
     job_enabled = Some True, job_deleteAfterRun = None, job_createdAtMs = Some 0, job_updatedAtMs = 0,
     job_schedule = schedule, job_sessionTarget = ''isolated'', job_wakeMode = WakeNow, job_payload = CommandPayload,
     job_delivery = JUndef, job_failureAlert = JUndef, job_trigger = None, job_state = empty_job_state\<rparr>"

lemma demo_simps [simp]:
  "cd_env demo_deps = hourly_env" "cd_config demo_deps = no_config" "cc_maxAttempts no_config = None" "cc_backoffMs no_config = None"
  "cc_retryOn no_config = None" "job_schedule (demo_job s) = s" "job_enabled (demo_job s) = Some True" "job_id (demo_job s) = ''j''"
  "job_state (demo_job s) = empty_job_state" "job_trigger (demo_job s) = None" "job_createdAtMs (demo_job s) = Some 0"
  "js_consecutiveErrors empty_job_state = None" "js_nextRunAtMs empty_job_state = None" "js_runningAtMs empty_job_state = None"
  "js_lastRunAtMs empty_job_state = None" "js_lastRunStatus empty_job_state = None" "js_lastStatus empty_job_state = None"
  "js_scheduleErrorCount empty_job_state = None" "job_payload (demo_job s) = CommandPayload"
  "cd_maxMissedJobsPerRestart demo_deps = None" "cd_missedJobStaggerMs demo_deps = None"
  by (simp_all add: demo_deps_def no_config_def demo_job_def empty_job_state_def)

end
