(* ===== verification/CronDelivery.thy ===== *)
theory CronDelivery
  imports CronTypes
begin

text \<open>
  Where the result of a job is announced, where its failures go and when they are announced,
  after \<^verbatim>\<open>src/src/cron/delivery-plan.ts\<close>, \<^verbatim>\<open>resolveDeliveryState\<close> of
  \<^verbatim>\<open>service/timer.ts\<close> and \<^verbatim>\<open>service/failure-alerts.ts\<close>. The channel that a prefixed target
  names depends on the loaded plugins and is a parameter.
\<close>

section \<open>The delivery plan\<close>

datatype delivery_mode = ModeNone | ModeAnnounce | ModeWebhook

record delivery_plan =
  dp_mode :: delivery_mode
  dp_channel :: "string option"
  dp_to :: "string option"
  dp_threadId :: js_value
  dp_accountId :: "string option"
  dp_requested :: bool

definition normalizeChannel :: "js_value \<Rightarrow> string option" where
  "normalizeChannel value = normalizeOptionalLowercaseString (string_of value)"

definition trimmed_field :: "js_value \<Rightarrow> string \<Rightarrow> string option" where
  "trimmed_field v k = normalizeOptionalString (string_of (field v k))"

definition normalizeOptionalThreadValue :: "js_value \<Rightarrow> js_value" where
  "normalizeOptionalThreadValue value = (case value of
     JNum n \<Rightarrow> JNum (of_int (if 0 \<le> n then \<lfloor>n\<rfloor> else \<lceil>n\<rceil>))
   | _ \<Rightarrow> (case normalizeOptionalString (string_of value) of Some s \<Rightarrow> JStr s | None \<Rightarrow> JUndef))"

definition resolveAnnounceChannel :: "(string option \<Rightarrow> string option) \<Rightarrow> string option \<Rightarrow> string option \<Rightarrow> string" where
  "resolveAnnounceChannel target channel t =
     (let fallback = (case target t of Some c \<Rightarrow> c | None \<Rightarrow> (case channel of Some c \<Rightarrow> c | None \<Rightarrow> ''last''))
      in case channel of Some c \<Rightarrow> if c \<noteq> [] \<and> c \<noteq> ''last'' then c else fallback | None \<Rightarrow> fallback)"

definition delivery_mode_of :: "js_value \<Rightarrow> delivery_mode option" where
  "delivery_mode_of raw = (case raw of
     JStr s \<Rightarrow>
      (let m = normalizeLowercaseStringOrEmpty (Some s) in
       if m = ''announce'' then Some ModeAnnounce
       else if m = ''webhook'' then Some ModeWebhook
       else if m = ''none'' then Some ModeNone
       else if m = ''deliver'' then Some ModeAnnounce
       else None)
   | _ \<Rightarrow> None)"

definition isolated_like :: "string \<Rightarrow> bool" where
  "isolated_like t \<longleftrightarrow> t = ''isolated'' \<or> t = ''current'' \<or> starts_with ''session:'' t"

definition resolveCronDeliveryPlan :: "(string option \<Rightarrow> string option) \<Rightarrow> cron_job \<Rightarrow> delivery_plan" where
  "resolveCronDeliveryPlan target job =
     (let delivery = job_delivery job in
      if is_object delivery then
        (let mode = (case delivery_mode_of (field delivery ''mode'') of Some m \<Rightarrow> m | None \<Rightarrow> ModeAnnounce);
             deliveryChannel = normalizeChannel (field delivery ''channel'');
             t = trimmed_field delivery ''to'';
             channel = (if mode = ModeAnnounce then Some (resolveAnnounceChannel target deliveryChannel t) else deliveryChannel)
         in \<lparr>dp_mode = mode, dp_channel = (if mode = ModeWebhook then None else channel), dp_to = t,
             dp_threadId = (if mode = ModeWebhook then JUndef
                else normalizeOptionalThreadValue (field delivery ''threadId'')),
             dp_accountId = trimmed_field delivery ''accountId'', dp_requested = (mode = ModeAnnounce)\<rparr>)
      else
        (let detached = ((job_payload job = AgentTurnPayload \<or> job_payload job = CommandPayload)
               \<and> isolated_like (job_sessionTarget job))
         in \<lparr>dp_mode = (if detached then ModeAnnounce else ModeNone),
             dp_channel = (if detached then Some ''last'' else None), dp_to = None, dp_threadId = JUndef,
             dp_accountId = None, dp_requested = detached\<rparr>))"

section \<open>Failure destinations\<close>

record failure_plan =
  fp_webhook :: bool
  fp_channel :: "string option"
  fp_to :: "string option"
  fp_accountId :: "string option"

definition normalizeFailureMode :: "js_value \<Rightarrow> string option" where
  "normalizeFailureMode value = (case normalizeOptionalLowercaseString (string_of value) of
     Some m \<Rightarrow> if m = ''announce'' \<or> m = ''webhook'' then Some m else None
   | None \<Rightarrow> None)"

definition isSameDeliveryTarget :: "(string option \<Rightarrow> string option) \<Rightarrow> js_value \<Rightarrow> failure_plan \<Rightarrow> bool" where
  "isSameDeliveryTarget target delivery plan =
     (let primaryMode = (if field delivery ''mode'' \<in> {JUndef, JNull} then JStr ''announce'' else field delivery ''mode'');
          primaryTo = trimmed_field delivery ''to''
      in if primaryMode = JStr ''none'' then False
         else if fp_webhook plan then primaryMode = JStr ''webhook'' \<and> primaryTo = fp_to plan
         else (case fp_channel plan of Some c \<Rightarrow> c | None \<Rightarrow> ''last'')
                = resolveAnnounceChannel target (normalizeChannel (field delivery ''channel'')) primaryTo
              \<and> fp_to plan = primaryTo
              \<and> fp_accountId plan = trimmed_field delivery ''accountId''
              \<and> normalizeOptionalThreadValue (field delivery ''threadId'') = JUndef)"

text \<open>The four fields of a destination, the job's over the global ones; a target inherited from
  the global destination is dropped when the job switches the mode.\<close>

definition failure_fields :: "js_value \<Rightarrow> js_value \<Rightarrow> string option \<times> string option \<times> string option \<times> string option" where
  "failure_fields global dest =
     (let channel = (if truthy global then normalizeChannel (field global ''channel'') else None);
          t = (if truthy global then trimmed_field global ''to'' else None);
          accountId = (if truthy global then trimmed_field global ''accountId'' else None);
          mode = (if truthy global then normalizeFailureMode (field global ''mode'') else None)
      in if is_object dest then
           (let jobMode = normalizeFailureMode (field dest ''mode'');
                globalMode = (if field global ''mode'' \<in> {JUndef, JNull} then JStr ''announce'' else field global ''mode'');
                t1 = (if has_field dest ''to'' then trimmed_field dest ''to'' else t);
                switched = (has_field dest ''mode''
                  \<and> \<not> (has_field dest ''to'' \<and> trimmed_field dest ''to'' \<noteq> None)
                  \<and> globalMode \<noteq> JStr (case jobMode of Some m \<Rightarrow> m | None \<Rightarrow> ''announce''))
            in (if has_field dest ''channel'' then normalizeChannel (field dest ''channel'') else channel,
                if switched then None else t1,
                if has_field dest ''accountId'' then trimmed_field dest ''accountId'' else accountId,
                if has_field dest ''mode'' then jobMode else mode))
         else (channel, t, accountId, mode))"

definition resolveFailureDestination :: "(string option \<Rightarrow> string option) \<Rightarrow> cron_job \<Rightarrow> js_value \<Rightarrow> failure_plan option" where
  "resolveFailureDestination target job global =
     (let delivery = job_delivery job;
          (channel, t, accountId, mode) = failure_fields global (field delivery ''failureDestination'');
          webhook = (mode = Some ''webhook'');
          plan = \<lparr>fp_webhook = webhook,
            fp_channel = (if webhook then None else Some (resolveAnnounceChannel target channel t)),
            fp_to = t, fp_accountId = accountId\<rparr>
      in if channel = None \<and> t = None \<and> accountId = None \<and> mode = None then None
         else if webhook \<and> t = None then None
         else if truthy delivery \<and> isSameDeliveryTarget target delivery plan then None
         else Some plan)"

section \<open>The delivery state of a run\<close>

record delivery_state =
  ds_delivered :: "bool option"
  ds_status :: delivery_status
  ds_error :: "string option"
  ds_failureDelivered :: "bool option"
  ds_failureStatus :: delivery_status
  ds_failureError :: "string option"

definition truthy_text :: "string option \<Rightarrow> string option" where
  "truthy_text t = (case t of Some s \<Rightarrow> if s = [] then None else Some s | None \<Rightarrow> None)"

definition resolveDeliveryState ::
  "(string option \<Rightarrow> string option) \<Rightarrow> cron_job \<Rightarrow> run_status \<Rightarrow> bool option \<Rightarrow> string option \<Rightarrow> js_value \<Rightarrow> delivery_state" where
  "resolveDeliveryState target job status delivered error global =
     (let alternate = (status = RunError \<and> field (job_delivery job) ''bestEffort'' \<noteq> JBool True
            \<and> resolveFailureDestination target job global \<noteq> None);
          result = (\<lambda>d s e fd fs fe. \<lparr>ds_delivered = d, ds_status = s, ds_error = e, ds_failureDelivered = fd,
            ds_failureStatus = fs, ds_failureError = fe\<rparr>)
      in if \<not> dp_requested (resolveCronDeliveryPlan target job) then
           result None NotRequested None None (if alternate then DeliveryUnknown else NotRequested) None
         else if status = RunError then
           (case delivered of
              Some True \<Rightarrow> if alternate then result (Some False) NotDelivered error None DeliveryUnknown None
                else result (Some False) NotDelivered error (Some True) Delivered None
            | Some False \<Rightarrow> if alternate then result (Some False) NotDelivered error None DeliveryUnknown None
                else result (Some False) NotDelivered error (Some False) NotDelivered (truthy_text error)
            | None \<Rightarrow> result None DeliveryUnknown error None DeliveryUnknown None)
         else (case delivered of
              Some True \<Rightarrow> result (Some True) Delivered None None NotRequested None
            | Some False \<Rightarrow> result (Some False) NotDelivered error None NotRequested None
            | None \<Rightarrow> result None DeliveryUnknown None None NotRequested None))"

section \<open>Failure alerts\<close>

definition DEFAULT_FAILURE_ALERT_AFTER :: int where
  "DEFAULT_FAILURE_ALERT_AFTER = 2"

definition DEFAULT_FAILURE_ALERT_COOLDOWN_MS :: int where
  "DEFAULT_FAILURE_ALERT_COOLDOWN_MS = 60 * 60000"

record failure_alert =
  fa_after :: int
  fa_cooldownMs :: int
  fa_channel :: string
  fa_to :: "string option"
  fa_mode :: js_value
  fa_accountId :: js_value
  fa_includeSkipped :: js_value

definition normalizeCronMessageChannel :: "js_value \<Rightarrow> string option" where
  "normalizeCronMessageChannel input = normalizeOptionalLowercaseString (string_of input)"

definition normalizeTo :: "js_value \<Rightarrow> string option" where
  "normalizeTo input = (case input of JStr s \<Rightarrow> (let t = js_trim s in if t = [] then None else Some t) | _ \<Rightarrow> None)"

definition clampPositiveInt :: "js_value \<Rightarrow> int \<Rightarrow> int" where
  "clampPositiveInt value fallback = (case value of JNum n \<Rightarrow> if 1 \<le> \<lfloor>n\<rfloor> then \<lfloor>n\<rfloor> else fallback | _ \<Rightarrow> fallback)"

definition clampNonNegativeInt :: "js_value \<Rightarrow> int \<Rightarrow> int" where
  "clampNonNegativeInt value fallback = (case value of JNum n \<Rightarrow> if 0 \<le> \<lfloor>n\<rfloor> then \<lfloor>n\<rfloor> else fallback | _ \<Rightarrow> fallback)"

definition nullish_or :: "js_value \<Rightarrow> js_value \<Rightarrow> js_value" where
  "nullish_or a b = (if a = JUndef \<or> a = JNull then b else a)"

definition resolveFailureAlert :: "cron_config \<Rightarrow> cron_job \<Rightarrow> failure_alert option" where
  "resolveFailureAlert cfg job =
     (let global = cc_failureAlert cfg;
          jobConfig = job_failureAlert job;
          pick = (\<lambda>k. nullish_or (field jobConfig k) (field global k));
          mode = pick ''mode'';
          explicitTo = normalizeTo (field jobConfig ''to'')
      in if jobConfig = JBool False then None
         else if \<not> truthy jobConfig \<and> field global ''enabled'' \<noteq> JBool True then None
         else Some \<lparr>fa_after = clampPositiveInt (pick ''after'') DEFAULT_FAILURE_ALERT_AFTER,
            fa_cooldownMs = clampNonNegativeInt (pick ''cooldownMs'') DEFAULT_FAILURE_ALERT_COOLDOWN_MS,
            fa_channel = (case normalizeCronMessageChannel (field jobConfig ''channel'') of
               Some c \<Rightarrow> c
             | None \<Rightarrow> (case normalizeCronMessageChannel (field (job_delivery job) ''channel'') of
                 Some c \<Rightarrow> c | None \<Rightarrow> ''last'')),
            fa_to = (if mode = JStr ''webhook'' then explicitTo
               else case explicitTo of Some t \<Rightarrow> Some t | None \<Rightarrow> normalizeTo (field (job_delivery job) ''to'')),
            fa_mode = mode, fa_accountId = pick ''accountId'',
            fa_includeSkipped = nullish_or (pick ''includeSkipped'') (JBool False)\<rparr>)"

definition count_text :: "int \<Rightarrow> string" where
  "count_text n = (if n < 0 then CHR ''-'' # nat_digits (nat (- n)) else nat_digits (nat n))"

definition quoted :: "string \<Rightarrow> string" where
  "quoted s = CHR 0x22 # s @ [CHR 0x22]"

definition failure_alert_text :: "cron_env \<Rightarrow> cron_job \<Rightarrow> run_status \<Rightarrow> string option \<Rightarrow> string option \<Rightarrow> int \<Rightarrow> string" where
  "failure_alert_text env job status error provider n =
     (let safeJobName = (if job_name job = [] then job_id job else job_name job);
          detail = js_trim (case error of Some e \<Rightarrow> e | None \<Rightarrow> []);
          truncated = take 200 (if detail = [] then ''unknown reason'' else detail);
          errorReason = (if status = RunError then Option.bind error (\<lambda>e. ce_failover env e provider) else None)
      in js_join [CHR 0x0A]
           (((''Cron job '' @ quoted safeJobName @ '' '' @ (if status = RunSkipped then ''skipped'' else ''failed'')
              @ '' '' @ count_text n @ '' times''))
            # (case truthy_text errorReason of Some r \<Rightarrow> [''Cause: '' @ r] | None \<Rightarrow> [])
            @ [(if status = RunSkipped then ''Skip reason'' else ''Last error'') @ '': '' @ truncated]))"

definition emitFailureAlert ::
  "cron_deps \<Rightarrow> cron_job \<Rightarrow> failure_alert \<Rightarrow> run_status \<Rightarrow> string option \<Rightarrow> string option \<Rightarrow> int \<Rightarrow> cron_effect list" where
  "emitFailureAlert deps job alert status error provider n =
     (let text = failure_alert_text (cd_env deps) job status error provider n in
      if cd_sendsAlerts deps then [AlertSent (job_id job) text (fa_channel alert) (fa_to alert) (fa_mode alert) (fa_accountId alert)]
      else SystemEvent text (job_agentId job)
        # (if job_wakeMode job = WakeNow
           then [Heartbeat True (''cron:'' @ job_id job @ '':failure-alert'') None None] else []))"

definition maybeEmitFailureAlert ::
  "cron_deps \<Rightarrow> int \<Rightarrow> failure_alert option \<Rightarrow> run_status \<Rightarrow> string option \<Rightarrow> string option \<Rightarrow> int \<Rightarrow> cron_job \<Rightarrow> cron_job \<times> cron_effect list" where
  "maybeEmitFailureAlert deps now alertConfig status error provider n job = (case alertConfig of
     None \<Rightarrow> (job, [])
   | Some alert \<Rightarrow>
      if n < fa_after alert then (job, [])
      else if field (job_delivery job) ''bestEffort'' = JBool True then (job, [])
      else if (case js_lastFailureAlertAtMs (job_state job) of
                 Some lastAlert \<Rightarrow> now - lastAlert < max 0 (fa_cooldownMs alert) | None \<Rightarrow> False) then (job, [])
      else (with_state (\<lambda>s. s\<lparr>js_lastFailureAlertAtMs := Some now\<rparr>) job,
            emitFailureAlert deps job alert status error provider n))"

text \<open>An alert changes nothing of the job but the time of its last alert.\<close>

lemma maybeEmitFailureAlert_job:
  defines "after \<equiv> \<lambda>deps now alert status error provider n job. fst (maybeEmitFailureAlert deps now alert status error provider n job)"
  shows "after deps now alert status error provider n job = with_state (\<lambda>s. s\<lparr>js_lastFailureAlertAtMs :=
    js_lastFailureAlertAtMs (job_state (after deps now alert status error provider n job))\<rparr>) job"
  by (auto simp: after_def maybeEmitFailureAlert_def split: option.split)

end
