(* ===== verification/CronJobs.thy ===== *)
theory CronJobs
  imports CronDelivery
begin

text \<open>
  When a job runs next, after \<^verbatim>\<open>src/src/cron/service/jobs.ts\<close>: error backoff, the per-job
  offset inside a stagger window, the repair of stored times, and the passes that recompute the
  next runs of the whole store. An exception of the cron library is an \<open>Inl\<close>; each pass reads
  the clock once, so its reading is an argument.
\<close>

section \<open>Error backoff\<close>

definition STUCK_RUN_MS :: int where
  "STUCK_RUN_MS = 2 * 60 * 60 * 1000"

definition DEFAULT_ERROR_BACKOFF_SCHEDULE_MS :: "int list" where
  "DEFAULT_ERROR_BACKOFF_SCHEDULE_MS = [30000, 60000, 5 * 60000, 15 * 60000, 60 * 60000]"

definition hasScheduledNextRunAtMs :: "int option \<Rightarrow> bool" where
  "hasScheduledNextRunAtMs value = (case value of Some v \<Rightarrow> 0 < v | None \<Rightarrow> False)"

definition resolveJobLastRunStatus :: "cron_job \<Rightarrow> run_status option" where
  "resolveJobLastRunStatus job = (case js_lastRunStatus (job_state job) of
     Some s \<Rightarrow> Some s | None \<Rightarrow> js_lastStatus (job_state job))"

definition errorBackoffMs :: "int \<Rightarrow> int list \<Rightarrow> int" where
  "errorBackoffMs consecutiveErrors scheduleMs =
     (let idx = nat (max 0 (min (consecutiveErrors - 1) (int (length scheduleMs) - 1))) in
      if idx < length scheduleMs then scheduleMs ! idx else hd DEFAULT_ERROR_BACKOFF_SCHEDULE_MS)"

definition backoff_schedule :: "cron_config \<Rightarrow> int list" where
  "backoff_schedule cfg = (case cc_backoffMs cfg of Some b \<Rightarrow> b | None \<Rightarrow> DEFAULT_ERROR_BACKOFF_SCHEDULE_MS)"

definition resolveJobErrorBackoffUntilMs :: "cron_job \<Rightarrow> int list \<Rightarrow> int option" where
  "resolveJobErrorBackoffUntilMs job scheduleMs =
     (if resolveJobLastRunStatus job \<noteq> Some RunError then None
      else case js_lastRunAtMs (job_state job) of
        None \<Rightarrow> None
      | Some lastRun \<Rightarrow>
         (let errors = (case js_consecutiveErrors (job_state job) of Some c \<Rightarrow> max 1 c | None \<Rightarrow> 1);
              duration = (case js_lastDurationMs (job_state job) of Some d \<Rightarrow> max 0 d | None \<Rightarrow> 0)
          in Some (lastRun + duration + errorBackoffMs errors scheduleMs)))"

section \<open>Staggered cron runs\<close>

definition resolveStableCronOffsetMs :: "cron_env \<Rightarrow> string \<Rightarrow> int \<Rightarrow> int" where
  "resolveStableCronOffsetMs env jobId staggerMs = (if staggerMs \<le> 1 then 0 else int (ce_hash env jobId) mod staggerMs)"

definition job_offset :: "cron_env \<Rightarrow> cron_job \<Rightarrow> int" where
  "job_offset env job = (case job_schedule job of
     SCron expr _ staggerMs \<Rightarrow> resolveStableCronOffsetMs env (job_id job) (resolveCronStaggerMs expr staggerMs)
   | _ \<Rightarrow> 0)"

fun staggered_next :: "cron_env \<Rightarrow> cron_schedule \<Rightarrow> int \<Rightarrow> int \<Rightarrow> nat \<Rightarrow> int \<Rightarrow> string + int option" where
  "staggered_next env schedule offsetMs now 0 cursor = Inr None"
| "staggered_next env schedule offsetMs now (Suc n) cursor =
     on_success (computeNextRunAtMs env schedule cursor) (\<lambda>base.
       case base of
         None \<Rightarrow> Inr None
       | Some b \<Rightarrow> if now < b + offsetMs then Inr (Some (b + offsetMs))
           else staggered_next env schedule offsetMs now n (max (cursor + 1) (b + 1000)))"

definition computeStaggeredCronNextRunAtMs :: "cron_env \<Rightarrow> cron_job \<Rightarrow> int \<Rightarrow> string + int option" where
  "computeStaggeredCronNextRunAtMs env job now =
     (if job_offset env job \<le> 0 then computeNextRunAtMs env (job_schedule job) now
      else staggered_next env (job_schedule job) (job_offset env job) now 4 (max 0 (now - job_offset env job)))"

fun staggered_previous :: "cron_env \<Rightarrow> cron_schedule \<Rightarrow> int \<Rightarrow> int \<Rightarrow> nat \<Rightarrow> int \<Rightarrow> string + int option" where
  "staggered_previous env schedule offsetMs now 0 cursor = Inr None"
| "staggered_previous env schedule offsetMs now (Suc n) cursor =
     on_success (computePreviousRunAtMs env schedule cursor) (\<lambda>base.
       case base of
         None \<Rightarrow> Inr None
       | Some b \<Rightarrow> if b + offsetMs \<le> now then Inr (Some (b + offsetMs))
           else staggered_previous env schedule offsetMs now n (max 0 (b - 1000)))"

definition computeStaggeredCronPreviousRunAtMs :: "cron_env \<Rightarrow> cron_job \<Rightarrow> int \<Rightarrow> string + int option" where
  "computeStaggeredCronPreviousRunAtMs env job now =
     (if \<not> is_cron (job_schedule job) then Inr None
      else if job_offset env job \<le> 0 then computePreviousRunAtMs env (job_schedule job) now
      else staggered_previous env (job_schedule job) (job_offset env job) now 4 (max 0 (now - job_offset env job)))"

definition isStaggeredCronRunAtMs :: "cron_env \<Rightarrow> cron_job \<Rightarrow> int \<Rightarrow> string + bool" where
  "isStaggeredCronRunAtMs env job runAtMs =
     (if \<not> is_cron (job_schedule job) then Inr False
      else on_success (computeStaggeredCronPreviousRunAtMs env job (runAtMs + 1000)) (\<lambda>previous. Inr (previous = Some runAtMs)))"

section \<open>The next and the previous run of a job\<close>

definition isJobEnabled :: "cron_job \<Rightarrow> bool" where
  "isJobEnabled job = (case job_enabled job of Some b \<Rightarrow> b | None \<Rightarrow> True)"

definition resolveEveryAnchorMs :: "js_value \<Rightarrow> int option \<Rightarrow> int" where
  "resolveEveryAnchorMs anchorMs fallbackAnchorMs = (case coerceFiniteScheduleNumber anchorMs of
     Some a \<Rightarrow> max 0 \<lfloor>a\<rfloor>
   | None \<Rightarrow> (case fallbackAnchorMs of Some f \<Rightarrow> max 0 f | None \<Rightarrow> 0))"

definition every_job_next :: "cron_env \<Rightarrow> cron_job \<Rightarrow> js_value \<Rightarrow> js_value \<Rightarrow> int \<Rightarrow> string + int option" where
  "every_job_next env job everyRaw anchorRaw now = (case coerceFiniteScheduleNumber everyRaw of
     None \<Rightarrow> Inr None
   | Some raw \<Rightarrow>
      (let everyMs = max 1 \<lfloor>raw\<rfloor>;
           fallback = (case job_createdAtMs job of Some c \<Rightarrow> c | None \<Rightarrow> now);
           anchor = resolveEveryAnchorMs anchorRaw (Some fallback);
           regular = computeNextRunAtMs env (SEvery (JNum (of_int everyMs)) (JNum (of_int anchor))) now
       in case js_lastRunAtMs (job_state job) of
            Some lastRun \<Rightarrow> if now < lastRun + everyMs then Inr (Some (lastRun + everyMs)) else regular
          | None \<Rightarrow> regular))"

definition at_job_next :: "cron_env \<Rightarrow> cron_job \<Rightarrow> string \<Rightarrow> int option" where
  "at_job_next env job time =
     (let atMs = parseAbsoluteTimeMs (ce_parse env) time;
          lastRun = (case js_lastRunAtMs (job_state job) of Some l \<Rightarrow> if l = 0 then None else Some l | None \<Rightarrow> None)
      in if resolveJobLastRunStatus job = Some RunOk \<and> lastRun \<noteq> None
         then (case atMs of Some t \<Rightarrow> if the lastRun < t then Some t else None | None \<Rightarrow> None)
         else atMs)"

definition computeJobNextRunAtMs :: "cron_env \<Rightarrow> cron_job \<Rightarrow> int \<Rightarrow> string + int option" where
  "computeJobNextRunAtMs env job now =
     (if \<not> isJobEnabled job then Inr None
      else case job_schedule job of
        SEvery everyMs anchorMs \<Rightarrow> every_job_next env job everyMs anchorMs now
      | SAt time \<Rightarrow> Inr (at_job_next env job time)
      | SCron _ _ _ \<Rightarrow> on_success (computeStaggeredCronNextRunAtMs env job now) (\<lambda>run.
          case run of Some t \<Rightarrow> Inr (Some t) | None \<Rightarrow> computeStaggeredCronNextRunAtMs env job (next_second now))
      | SOnExit _ _ \<Rightarrow> computeStaggeredCronNextRunAtMs env job now)"

definition computeJobPreviousRunAtMs :: "cron_env \<Rightarrow> cron_job \<Rightarrow> int \<Rightarrow> string + int option" where
  "computeJobPreviousRunAtMs env job now =
     (if \<not> isJobEnabled job \<or> \<not> is_cron (job_schedule job) then Inr None
      else computeStaggeredCronPreviousRunAtMs env job now)"

section \<open>Repairing a stored time\<close>

definition isPendingErrorBackoffSlot :: "cron_config \<Rightarrow> cron_job \<Rightarrow> int \<Rightarrow> int \<Rightarrow> bool" where
  "isPendingErrorBackoffSlot cfg job nextRun now =
     (case resolveJobErrorBackoffUntilMs job (backoff_schedule cfg) of
        Some until \<Rightarrow> now < until \<and> nextRun \<le> until | None \<Rightarrow> False)"

text \<open>The comparison of a stored future time with the next slot and the one after it.\<close>

definition stale_future_run :: "cron_env \<Rightarrow> cron_job \<Rightarrow> int \<Rightarrow> int \<Rightarrow> bool" where
  "stale_future_run env job nextRun now =
     (case computeStaggeredCronNextRunAtMs env job now of
        Inr (Some natural) \<Rightarrow>
         (case isStaggeredCronRunAtMs env job nextRun of
            Inr False \<Rightarrow>
              if nextRun < natural then job_payload job \<noteq> AgentTurnPayload
              else if nextRun = natural then False
              else (case computeStaggeredCronNextRunAtMs env job natural of
                 Inr (Some following) \<Rightarrow> 0 < following - natural \<and> following + (following - natural) \<le> nextRun
               | _ \<Rightarrow> False)
          | _ \<Rightarrow> False)
      | _ \<Rightarrow> False)"

definition shouldRepairFutureCronNextRunAtMs :: "cron_env \<Rightarrow> cron_config \<Rightarrow> cron_job \<Rightarrow> int \<Rightarrow> bool" where
  "shouldRepairFutureCronNextRunAtMs env cfg job now = (case next_run job of
     None \<Rightarrow> False
   | Some nextRun \<Rightarrow>
      if \<not> is_cron (job_schedule job) \<or> nextRun \<le> 0 \<or> nextRun \<le> now \<or> js_runningAtMs (job_state job) \<noteq> None then False
      else if isPendingErrorBackoffSlot cfg job nextRun now then False
      else stale_future_run env job nextRun now)"

section \<open>Schedule errors\<close>

definition MAX_SCHEDULE_ERRORS :: int where
  "MAX_SCHEDULE_ERRORS = 3"

definition or_zero :: "int option \<Rightarrow> int" where
  "or_zero v = (case v of Some n \<Rightarrow> n | None \<Rightarrow> 0)"

definition disabled_effects :: "cron_job \<Rightarrow> int \<Rightarrow> string \<Rightarrow> cron_effect list" where
  "disabled_effects job n err =
     (let reason = ''cron:'' @ job_id job @ '':auto-disabled'' in
      [DisabledNotice (job_name job) n err (job_agentId job) (job_sessionKey job) reason,
       Heartbeat False reason (job_agentId job) (job_sessionKey job)])"

definition recordScheduleComputeError :: "cron_job \<Rightarrow> string \<Rightarrow> cron_job \<times> cron_effect list" where
  "recordScheduleComputeError job err =
     (let errorCount = or_zero (js_scheduleErrorCount (job_state job)) + 1;
          job1 = with_state (\<lambda>s. s\<lparr>js_scheduleErrorCount := Some errorCount, js_nextRunAtMs := None,
            js_lastError := Some (''schedule error: '' @ err)\<rparr>) job
      in if MAX_SCHEDULE_ERRORS \<le> errorCount
         then (job1\<lparr>job_enabled := Some False\<rparr>, disabled_effects job errorCount err)
         else (job1, []))"

section \<open>Passes over the store\<close>

definition normalize_anchor :: "cron_job \<Rightarrow> int \<Rightarrow> bool \<times> cron_job" where
  "normalize_anchor job now = (case job_schedule job of
     SEvery everyMs anchorMs \<Rightarrow>
       (let a = JNum (of_int (resolveEveryAnchorMs anchorMs (Some (case job_createdAtMs job of Some c \<Rightarrow> c | None \<Rightarrow> now))))
        in if anchorMs = a then (False, job) else (True, job\<lparr>job_schedule := SEvery everyMs a\<rparr>))
   | _ \<Rightarrow> (False, job))"

definition clear_stuck_run :: "cron_job \<Rightarrow> int \<Rightarrow> bool \<Rightarrow> bool \<times> bool \<times> cron_job" where
  "clear_stuck_run job now changed = (case js_runningAtMs (job_state job) of
     None \<Rightarrow> (changed, False, job)
   | Some runningAt \<Rightarrow>
      if now - runningAt \<le> STUCK_RUN_MS then (changed, False, job)
      else
       (let executed = (case (next_run job, js_lastRunAtMs (job_state job)) of
              (Some n, Some l) \<Rightarrow> 0 < n \<and> n \<le> l | _ \<Rightarrow> False)
        in (True, \<not> executed, with_state (\<lambda>s. s\<lparr>js_runningAtMs := None\<rparr>) job)))"

definition normalizeJobTickState :: "cron_job \<Rightarrow> int \<Rightarrow> bool \<times> bool \<times> cron_job" where
  "normalizeJobTickState job now =
     (let (changed, job1) = normalize_anchor job now;
          invalid = (\<not> hasScheduledNextRunAtMs (next_run job1) \<and> next_run job1 \<noteq> None)
      in if \<not> isJobEnabled job1 then
           (changed \<or> next_run job1 \<noteq> None \<or> js_runningAtMs (job_state job1) \<noteq> None, True,
            with_state (\<lambda>s. s\<lparr>js_nextRunAtMs := None, js_runningAtMs := None\<rparr>) job1)
         else clear_stuck_run (if invalid then with_state (\<lambda>s. s\<lparr>js_nextRunAtMs := None\<rparr>) job1 else job1)
                now (changed \<or> invalid))"

text \<open>\<^verbatim>\<open>walkSchedulableJobs\<close>: the visitor gets a job and what it accumulates.\<close>

fun walkSchedulableJobs ::
  "(cron_job \<Rightarrow> 's \<Rightarrow> bool \<times> cron_job \<times> 's) \<Rightarrow> int \<Rightarrow> cron_job list \<Rightarrow> 's \<Rightarrow> bool \<times> cron_job list \<times> 's" where
  "walkSchedulableJobs visit now [] s = (False, [], s)"
| "walkSchedulableJobs visit now (job # jobs) s =
     (let (changed, skip, job1) = normalizeJobTickState job now;
          (changed', job2, s1) = (if skip then (False, job1, s) else visit job1 s);
          (changed'', jobs', s2) = walkSchedulableJobs visit now jobs s1
      in (changed \<or> changed' \<or> changed'', job2 # jobs', s2))"

definition backoff_floor :: "cron_config \<Rightarrow> cron_job \<Rightarrow> int option \<Rightarrow> int option" where
  "backoff_floor cfg job newNext =
     (if \<not> is_at (job_schedule job) \<and> resolveJobLastRunStatus job = Some RunError
      then (case (newNext, resolveJobErrorBackoffUntilMs job (backoff_schedule cfg)) of
              (Some n, Some b) \<Rightarrow> Some (max n b) | _ \<Rightarrow> newNext)
      else newNext)"

definition recomputeJobNextRunAtMs :: "cron_deps \<Rightarrow> cron_job \<Rightarrow> int \<Rightarrow> bool \<times> cron_job \<times> cron_effect list" where
  "recomputeJobNextRunAtMs deps job now = (case computeJobNextRunAtMs (cd_env deps) job now of
     Inl err \<Rightarrow> (let (job1, effects) = recordScheduleComputeError job err in (True, job1, effects))
   | Inr computed \<Rightarrow>
      (let newNext = backoff_floor (cd_config deps) job computed;
           clears = (or_zero (js_scheduleErrorCount (job_state job)) \<noteq> 0)
       in (next_run job \<noteq> newNext \<or> clears,
           with_state (\<lambda>s. s\<lparr>js_nextRunAtMs := newNext,
             js_scheduleErrorCount := (if clears then None else js_scheduleErrorCount s)\<rparr>) job, [])))"

definition is_due :: "cron_job \<Rightarrow> int \<Rightarrow> bool" where
  "is_due job now \<longleftrightarrow> (case next_run job of Some n \<Rightarrow> 0 < n \<and> n \<le> now | None \<Rightarrow> False)"

definition recomputeNextRuns :: "cron_deps \<Rightarrow> int \<Rightarrow> cron_job list \<Rightarrow> bool \<times> cron_job list \<times> cron_effect list" where
  "recomputeNextRuns deps now jobs = walkSchedulableJobs (\<lambda>job effects.
     if \<not> hasScheduledNextRunAtMs (next_run job) \<or> is_due job now
        \<or> shouldRepairFutureCronNextRunAtMs (cd_env deps) (cd_config deps) job now
     then (let (changed, job1, effects1) = recomputeJobNextRunAtMs deps job now in (changed, job1, effects @ effects1))
     else (False, job, effects)) now jobs []"

text \<open>The maintenance pass. An expired slot is advanced only when it was executed already or lies
  inside an active backoff window.\<close>

definition expired_slot_settled :: "cron_config \<Rightarrow> cron_job \<Rightarrow> int \<Rightarrow> bool" where
  "expired_slot_settled cfg job now = (case next_run job of
     None \<Rightarrow> False
   | Some n \<Rightarrow>
      (case js_lastRunAtMs (job_state job) of Some l \<Rightarrow> n \<le> l | None \<Rightarrow> False)
      \<or> (case resolveJobErrorBackoffUntilMs job (backoff_schedule cfg) of Some b \<Rightarrow> now < b \<and> n < b | None \<Rightarrow> False))"

record maintenance_opts =
  mo_recomputeExpired :: bool
  mo_repairFutureCronNextRunAtMs :: bool

definition needs_recompute :: "cron_deps \<Rightarrow> maintenance_opts \<Rightarrow> string list \<Rightarrow> cron_job \<Rightarrow> int \<Rightarrow> bool" where
  "needs_recompute deps opts deferrals job now =
     (if \<not> hasScheduledNextRunAtMs (next_run job) then True
      else if mo_repairFutureCronNextRunAtMs opts \<and> job_id job \<notin> set deferrals
        \<and> shouldRepairFutureCronNextRunAtMs (cd_env deps) (cd_config deps) job now then True
      else mo_recomputeExpired opts \<and> is_due job now \<and> js_runningAtMs (job_state job) = None
        \<and> expired_slot_settled (cd_config deps) job now)"

definition maintain_job ::
  "cron_deps \<Rightarrow> maintenance_opts \<Rightarrow> int \<Rightarrow> cron_job \<Rightarrow> string list \<times> cron_effect list \<Rightarrow> bool \<times> cron_job \<times> (string list \<times> cron_effect list)" where
  "maintain_job deps opts now job acc =
     (let (deferrals, effects) = acc;
          arrived = (job_id job \<in> set deferrals \<and> is_due job now);
          deferrals1 = (if arrived then removeAll (job_id job) deferrals else deferrals)
      in if needs_recompute deps opts deferrals1 job now then
           (let (changed, job1, effects1) = recomputeJobNextRunAtMs deps job now
            in (arrived \<or> changed, job1, (deferrals1, effects @ effects1)))
         else (arrived, job, (deferrals1, effects)))"

definition drop_irrelevant :: "cron_job list \<Rightarrow> string list \<Rightarrow> string list" where
  "drop_irrelevant jobs deferrals = filter (\<lambda>i. \<exists>job \<in> set jobs. isJobEnabled job \<and> job_id job = i) deferrals"

definition recomputeNextRunsForMaintenance ::
  "cron_deps \<Rightarrow> maintenance_opts \<Rightarrow> int \<Rightarrow> cron_job list \<Rightarrow> string list \<Rightarrow> bool \<times> cron_job list \<times> (string list \<times> cron_effect list)" where
  "recomputeNextRunsForMaintenance deps opts now jobs deferrals =
     walkSchedulableJobs (maintain_job deps opts now) now jobs (drop_irrelevant jobs deferrals, [])"

definition nextWakeAtMs :: "cron_job list \<Rightarrow> int option" where
  "nextWakeAtMs jobs =
     (case map (\<lambda>j. the (next_run j)) (filter (\<lambda>j. isJobEnabled j \<and> hasScheduledNextRunAtMs (next_run j)) jobs) of
        [] \<Rightarrow> None
      | t # ts \<Rightarrow> Some (fold min ts t))"

end
