(* ===== verification/RetryHint.thy ===== *)
theory RetryHint
  imports CronTypes
begin

text \<open>
  Which failed runs are worth a retry, after \<^verbatim>\<open>src/src/cron/retry-hint.ts\<close>. The regular
  expressions of the source are terms of a small pattern type, matched by backtracking on a
  position: the character before it, for the word boundary, and the rest of the text. All of
  them ignore case, so they are matched against the text in lower case.
\<close>

section \<open>Patterns\<close>

datatype pattern =
    Lit string
  | OneOf string
  | Many string
  | UpTo nat string
  | Seq "pattern list"
  | Alt "pattern list"
  | Opt pattern
  | WordEdge
  | TextStart
  | TextEnd

type_synonym position = "char option \<times> string"

definition word_char :: "char \<Rightarrow> bool" where
  "word_char c \<longleftrightarrow> (let n = (of_char c :: nat) in 48 \<le> n \<and> n \<le> 57 \<or> 65 \<le> n \<and> n \<le> 90 \<or> 97 \<le> n \<and> n \<le> 122 \<or> n = 95)"

definition word_edge :: "position \<Rightarrow> bool" where
  "word_edge p = ((case fst p of Some c \<Rightarrow> word_char c | None \<Rightarrow> False)
     \<noteq> (case snd p of c # _ \<Rightarrow> word_char c | [] \<Rightarrow> False))"

fun after_text :: "string \<Rightarrow> position \<Rightarrow> position list" where
  "after_text [] p = [p]"
| "after_text (c # s) (b, x # r) = (if x = c then after_text s (Some x, r) else [])"
| "after_text (c # s) (b, []) = []"

text \<open>Every position reached by at most \<open>n\<close> characters of a class, the longest first.\<close>

fun after_class :: "nat \<Rightarrow> string \<Rightarrow> position \<Rightarrow> position list" where
  "after_class (Suc n) cs (b, x # r) = (if x \<in> set cs then after_class n cs (Some x, r) else []) @ [(b, x # r)]"
| "after_class n cs p = [p]"

function (sequential) after_pattern :: "pattern \<Rightarrow> position \<Rightarrow> position list" where
  "after_pattern (Lit s) p = after_text s p"
| "after_pattern (OneOf cs) p = (case snd p of x # r \<Rightarrow> if x \<in> set cs then [(Some x, r)] else [] | [] \<Rightarrow> [])"
| "after_pattern (Many cs) p = after_class (length (snd p)) cs p"
| "after_pattern (UpTo n cs) p = after_class n cs p"
| "after_pattern (Seq []) p = [p]"
| "after_pattern (Seq (x # xs)) p = concat (map (after_pattern (Seq xs)) (after_pattern x p))"
| "after_pattern (Alt []) p = []"
| "after_pattern (Alt (x # xs)) p = after_pattern x p @ after_pattern (Alt xs) p"
| "after_pattern (Opt x) p = after_pattern x p @ [p]"
| "after_pattern WordEdge p = (if word_edge p then [p] else [])"
| "after_pattern TextStart p = (if fst p = None then [p] else [])"
| "after_pattern TextEnd p = (if snd p = [] then [p] else [])"
  by pat_completeness auto
termination
  by (relation "measure (\<lambda>(x, p). size x)") auto

fun found_from :: "pattern \<Rightarrow> position \<Rightarrow> bool" where
  "found_from x (b, []) \<longleftrightarrow> after_pattern x (b, []) \<noteq> []"
| "found_from x (b, c # r) \<longleftrightarrow> after_pattern x (b, c # r) \<noteq> [] \<or> found_from x (Some c, r)"

definition pattern_test :: "pattern \<Rightarrow> string \<Rightarrow> bool" where
  "pattern_test x text = found_from x (None, js_lower text)"

section \<open>Transient errors\<close>

definition white :: string where
  "white = [CHR 0x09, CHR 0x0A, CHR 0x0B, CHR 0x0C, CHR 0x0D, CHR 0x20, CHR 0xA0]"

definition five_hundreds :: pattern where
  "five_hundreds = Seq [Lit ''5'', OneOf ''0123456789'', OneOf ''0123456789'']"

definition server_phrases :: "string list" where
  "server_phrases = [''internal server error'', ''bad gateway'', ''service unavailable'', ''gateway timeout'', ''gateway time-out'']"

definition SERVER_ERROR_PATTERN :: pattern where
  "SERVER_ERROR_PATTERN = Alt
     [Seq [WordEdge,
        Alt [Seq [Lit ''http'', Opt (Lit ''s'')],
             Seq [Lit ''status'', Opt (Seq [OneOf '' _'', Lit ''code''])],
             Seq [Lit ''response'', Opt (Seq [OneOf '' _'', Lit ''code''])],
             Seq [Lit ''http'', Opt (Seq [OneOf '' _'', Lit ''status''])]],
        WordEdge, UpTo 4 (white @ '':=#'' @ [CHR 0x22, CHR 0x27]), five_hundreds, WordEdge],
      Seq [WordEdge, five_hundreds, WordEdge, Many (white @ '':)].,-''),
        Alt (Lit ''server error'' # map Lit server_phrases), WordEdge],
      Seq [WordEdge, Alt (map Lit server_phrases), WordEdge],
      Seq [WordEdge, Lit ''5xx'', WordEdge],
      Seq [TextStart, Many white, five_hundreds, Many white, TextEnd]]"

definition TRANSIENT_PATTERNS :: "retry_on \<Rightarrow> pattern" where
  "TRANSIENT_PATTERNS category = (case category of
     RateLimit \<Rightarrow> Alt [Seq [Lit ''rate'', OneOf ''_ '', Lit ''limit''], Lit ''too many requests'', Lit ''429'',
       Lit ''resource has been exhausted'', Lit ''cloudflare'', Lit ''tokens per day'']
   | Overloaded \<Rightarrow> Alt [Seq [WordEdge, Lit ''529'', WordEdge],
       Seq [WordEdge, Lit ''overloaded'', Opt (Lit ''_error''), WordEdge], Lit ''high demand'',
       Seq [Lit ''temporar'', Alt [Lit ''ily'', Lit ''y''], Lit '' overloaded''], Lit ''capacity exceeded'']
   | Network \<Rightarrow> Alt (map Lit [''network'', ''fetch failed'', ''socket'', ''econnreset'', ''econnrefused'', ''eai_again'',
       ''enetdown'', ''ehostunreach'', ''ehostdown'', ''enetreset'', ''enetunreach'', ''epipe''])
   | Timeout \<Rightarrow> Alt (map Lit [''timeout'', ''timed out'', ''stalled before execution start'', ''etimedout''])
   | ServerError \<Rightarrow> SERVER_ERROR_PATTERN)"

definition retry_name :: "retry_on \<Rightarrow> string" where
  "retry_name category = (case category of
     RateLimit \<Rightarrow> ''rate_limit'' | Overloaded \<Rightarrow> ''overloaded'' | Network \<Rightarrow> ''network'' | Timeout \<Rightarrow> ''timeout''
   | ServerError \<Rightarrow> ''server_error'')"

definition transient_keys :: "retry_on list" where
  "transient_keys = [RateLimit, Overloaded, Network, Timeout, ServerError]"

text \<open>\<^verbatim>\<open>resolveCronExecutionRetryHint\<close>: the category of a retryable error, \<open>None\<close> for an error
  that is not retried.\<close>

definition resolveCronExecutionRetryHint :: "string option \<Rightarrow> retry_on list option \<Rightarrow> string option \<Rightarrow> retry_on option" where
  "resolveCronExecutionRetryHint error retryOn classifiedReason = (case error of
     None \<Rightarrow> None
   | Some e \<Rightarrow>
      if e = [] then None
      else
       (let keys = (case retryOn of Some ks \<Rightarrow> if ks = [] then transient_keys else ks | None \<Rightarrow> transient_keys)
        in case List.find (\<lambda>k. classifiedReason = Some (retry_name k)) keys of
             Some k \<Rightarrow> Some k
           | None \<Rightarrow> List.find (\<lambda>k. pattern_test (TRANSIENT_PATTERNS k) e) keys))"

end
