(* ===== verification/CronOutcome.thy ===== *)
theory CronOutcome
  imports CronJobs RetryHint
begin

text \<open>
  What the outcome of a run does to its job, after \<^verbatim>\<open>src/src/cron/service/timer.ts\<close>: the retry
  decisions, \<^verbatim>\<open>applyJobResult\<close> with its bookkeeping, counters and next run, the results of
  trigger scripts, and \<^verbatim>\<open>applyOutcomeToStoredJob\<close>. \<^verbatim>\<open>applyJobResult\<close> is cut where the source
  has its sections; each part takes the job the previous one left. The reading of the clock for
  an alert is an argument of its own. The task ledger and the run diagnostics are left out.
\<close>

section \<open>Retry decisions\<close>

definition MIN_REFIRE_GAP_MS :: int where
  "MIN_REFIRE_GAP_MS = 2000"

definition HEARTBEAT_SKIP_DISABLED :: string where
  "HEARTBEAT_SKIP_DISABLED = ''disabled''"

definition DEFAULT_MAX_TRANSIENT_RETRIES :: int where
  "DEFAULT_MAX_TRANSIENT_RETRIES = 3"

record retry_config =
  rc_maxAttempts :: int
  rc_backoffMs :: "int list"
  rc_retryOn :: "retry_on list option"

definition resolveRetryConfig :: "cron_config \<Rightarrow> retry_config" where
  "resolveRetryConfig cfg =
     \<lparr>rc_maxAttempts = (case cc_maxAttempts cfg of Some n \<Rightarrow> n | None \<Rightarrow> DEFAULT_MAX_TRANSIENT_RETRIES),
      rc_backoffMs = (case cc_backoffMs cfg of Some b \<Rightarrow> if b \<noteq> [] then b else take 3 DEFAULT_ERROR_BACKOFF_SCHEDULE_MS
         | None \<Rightarrow> take 3 DEFAULT_ERROR_BACKOFF_SCHEDULE_MS),
      rc_retryOn = (case cc_retryOn cfg of Some r \<Rightarrow> if r \<noteq> [] then Some r else None | None \<Rightarrow> None)\<rparr>"

text \<open>A decision is the delay of the retry, or \<open>None\<close> for no retry; the reason and category of a
  decision only go to the log.\<close>

definition resolveTransientCronRetryDecision :: "cron_config \<Rightarrow> string option \<Rightarrow> string option \<Rightarrow> int option \<Rightarrow> int option" where
  "resolveTransientCronRetryDecision cfg error lastErrorReason consecutiveErrors =
     (let retry = resolveRetryConfig cfg;
          errors = or_zero consecutiveErrors
      in if resolveCronExecutionRetryHint error (rc_retryOn retry) lastErrorReason = None then None
         else if rc_maxAttempts retry < errors then None
         else Some (errorBackoffMs errors (rc_backoffMs retry)))"

definition resolveDisabledHeartbeatOneShotRetryDecision :: "cron_config \<Rightarrow> int option \<Rightarrow> int option" where
  "resolveDisabledHeartbeatOneShotRetryDecision cfg consecutiveSkipped =
     (let retry = resolveRetryConfig cfg;
          skipped = or_zero consecutiveSkipped
      in if rc_maxAttempts retry < skipped then None else Some (errorBackoffMs skipped (rc_backoffMs retry)))"

record run_result =
  rr_status :: run_status
  rr_error :: "string option"
  rr_delivered :: "bool option"
  rr_provider :: "string option"
  rr_startedAt :: int
  rr_endedAt :: int

definition shouldRetryDisabledHeartbeatOneShot :: "cron_job \<Rightarrow> run_result \<Rightarrow> bool" where
  "shouldRetryDisabledHeartbeatOneShot job result \<longleftrightarrow>
     is_at (job_schedule job) \<and> job_sessionTarget job = ''main'' \<and> job_wakeMode job = WakeNow
     \<and> rr_status result = RunSkipped \<and> rr_error result = Some HEARTBEAT_SKIP_DISABLED"

section \<open>Bookkeeping of a run\<close>

definition record_run :: "cron_deps \<Rightarrow> run_result \<Rightarrow> cron_job \<Rightarrow> cron_job" where
  "record_run deps result job =
     (let job1 = with_state (\<lambda>s. s\<lparr>js_runningAtMs := None, js_lastRunAtMs := Some (rr_startedAt result),
            js_lastRunStatus := Some (rr_status result), js_lastStatus := Some (rr_status result),
            js_lastDurationMs := Some (max 0 (rr_endedAt result - rr_startedAt result)),
            js_lastError := rr_error result,
            js_lastErrorReason := (if rr_status result = RunError
              then Option.bind (rr_error result) (\<lambda>e. ce_failover (cd_env deps) e (rr_provider result)) else None)\<rparr>) job;
          d = resolveDeliveryState (cd_targetChannel deps) job1 (rr_status result) (rr_delivered result)
                (rr_error result) (cc_failureDestination (cd_config deps))
      in with_state (\<lambda>s. s\<lparr>js_lastDelivered := ds_delivered d, js_lastDeliveryStatus := Some (ds_status d),
            js_lastDeliveryError := (if ds_status d = NotDelivered then truthy_text (ds_error d) else None),
            js_lastFailureNotificationDelivered := ds_failureDelivered d,
            js_lastFailureNotificationDeliveryStatus := Some (ds_failureStatus d),
            js_lastFailureNotificationDeliveryError := ds_failureError d\<rparr>)
          (job1\<lparr>job_updatedAtMs := rr_endedAt result\<rparr>))"

definition count_run :: "cron_deps \<Rightarrow> int \<Rightarrow> run_result \<Rightarrow> cron_job \<Rightarrow> cron_job \<times> cron_effect list" where
  "count_run deps alertNow result job =
     (let alertConfig = resolveFailureAlert (cd_config deps) job in
      case rr_status result of
        RunError \<Rightarrow>
          (let errors = or_zero (js_consecutiveErrors (job_state job)) + 1
           in maybeEmitFailureAlert deps alertNow alertConfig RunError (rr_error result) (rr_provider result) errors
                (with_state (\<lambda>s. s\<lparr>js_consecutiveErrors := Some errors, js_consecutiveSkipped := Some 0\<rparr>) job))
      | RunSkipped \<Rightarrow>
          (let skipped = or_zero (js_consecutiveSkipped (job_state job)) + 1;
               job1 = with_state (\<lambda>s. s\<lparr>js_consecutiveErrors := Some 0, js_consecutiveSkipped := Some skipped\<rparr>) job
           in if (case alertConfig of Some a \<Rightarrow> truthy (fa_includeSkipped a) | None \<Rightarrow> False)
              then maybeEmitFailureAlert deps alertNow alertConfig RunSkipped (rr_error result) (rr_provider result) skipped job1
              else (with_state (\<lambda>s. s\<lparr>js_lastFailureAlertAtMs := None\<rparr>) job1, []))
      | RunOk \<Rightarrow> (with_state (\<lambda>s. s\<lparr>js_consecutiveErrors := Some 0, js_consecutiveSkipped := Some 0,
            js_lastFailureAlertAtMs := None\<rparr>) job, []))"

section \<open>The next run after an outcome\<close>

definition set_next :: "int option \<Rightarrow> cron_job \<Rightarrow> cron_job" where
  "set_next t job = with_state (\<lambda>s. s\<lparr>js_nextRunAtMs := t\<rparr>) job"

definition disable_job :: "cron_job \<Rightarrow> cron_job" where
  "disable_job job = set_next None (job\<lparr>job_enabled := Some False\<rparr>)"

definition schedule_one_shot :: "cron_deps \<Rightarrow> run_result \<Rightarrow> cron_job \<Rightarrow> cron_job" where
  "schedule_one_shot deps result job =
     (if shouldRetryDisabledHeartbeatOneShot job result then
        (case resolveDisabledHeartbeatOneShotRetryDecision (cd_config deps) (js_consecutiveSkipped (job_state job)) of
           Some delay \<Rightarrow> set_next (Some (rr_endedAt result + delay)) (job\<lparr>job_enabled := Some True\<rparr>)
         | None \<Rightarrow> disable_job job)
      else if rr_status result \<noteq> RunError then disable_job job
      else
        (case resolveTransientCronRetryDecision (cd_config deps) (rr_error result)
                (js_lastErrorReason (job_state job)) (js_consecutiveErrors (job_state job)) of
           Some delay \<Rightarrow> set_next (Some (rr_endedAt result + delay)) job
         | None \<Rightarrow> disable_job job))"

text \<open>\<^verbatim>\<open>computeNormalNext\<close>: an exception is recorded on the job and leaves no time.\<close>

definition computeNextWithPreservedLastRun :: "cron_env \<Rightarrow> int option \<Rightarrow> cron_job \<Rightarrow> int \<Rightarrow> string + int option" where
  "computeNextWithPreservedLastRun env prevLastRun job now =
     computeJobNextRunAtMs env (with_state (\<lambda>s. s\<lparr>js_lastRunAtMs := prevLastRun\<rparr>) job) now"

definition catch_schedule_error :: "string + int option \<Rightarrow> cron_job \<Rightarrow> int option \<times> cron_job \<times> cron_effect list" where
  "catch_schedule_error r job = (case r of
     Inl err \<Rightarrow> (let (job1, effects) = recordScheduleComputeError job err in (None, job1, effects))
   | Inr n \<Rightarrow> (n, job, []))"

definition normal_next :: "cron_deps \<Rightarrow> bool \<Rightarrow> bool \<Rightarrow> int option \<Rightarrow> int \<Rightarrow> cron_job \<Rightarrow> int option \<times> cron_job \<times> cron_effect list" where
  "normal_next deps preserveSchedule fromSchedule prevLastRun ended job = catch_schedule_error
     (if preserveSchedule \<and> is_every (job_schedule job) then computeNextWithPreservedLastRun (cd_env deps) prevLastRun job ended
      else if fromSchedule \<and> is_every (job_schedule job) then computeNextRunAtMs (cd_env deps) (job_schedule job) ended
      else computeJobNextRunAtMs (cd_env deps) job ended) job"

definition resolveCronNextRunWithLowerBound :: "int option \<Rightarrow> int \<Rightarrow> int option" where
  "resolveCronNextRunWithLowerBound naturalNext lowerBoundMs = map_option (\<lambda>n. max n lowerBoundMs) naturalNext"

definition schedule_failed ::
  "cron_deps \<Rightarrow> bool \<Rightarrow> run_result \<Rightarrow> int option \<Rightarrow> int \<Rightarrow> cron_job \<Rightarrow> cron_job \<times> cron_effect list" where
  "schedule_failed deps preserveSchedule result prevLastRun prevErrors job =
     (let retry = resolveTransientCronRetryDecision (cd_config deps) (rr_error result)
            (js_lastErrorReason (job_state job)) (js_consecutiveErrors (job_state job));
          ended = rr_endedAt result;
          (normal, job1, effects) = normal_next deps preserveSchedule (retry \<noteq> None \<or> 0 < prevErrors) prevLastRun ended job;
          backoffNext = ended + errorBackoffMs (case js_consecutiveErrors (job_state job1) of Some c \<Rightarrow> c | None \<Rightarrow> 1)
            (backoff_schedule (cd_config deps));
          next = (case (retry, normal) of
             (Some delay, Some n) \<Rightarrow> if \<not> preserveSchedule \<and> ended + delay < n then Some (ended + delay) else Some (max n backoffNext)
           | (_, Some n) \<Rightarrow> Some (max n backoffNext)
           | (_, None) \<Rightarrow> if is_cron (job_schedule job) then resolveCronNextRunWithLowerBound None backoffNext else Some backoffNext)
      in (set_next next job1, effects))"

definition trigger_floor :: "cron_config \<Rightarrow> cron_job \<Rightarrow> int" where
  "trigger_floor cfg job = (if job_trigger job \<noteq> None then resolveCronTriggerMinIntervalMs cfg else 0)"

definition schedule_finished ::
  "cron_deps \<Rightarrow> bool \<Rightarrow> run_result \<Rightarrow> int option \<Rightarrow> int \<Rightarrow> cron_job \<Rightarrow> cron_job \<times> cron_effect list" where
  "schedule_finished deps preserveSchedule result prevLastRun prevErrors job =
     (let ended = rr_endedAt result;
          (natural, job1, effects) = normal_next deps preserveSchedule (0 < prevErrors) prevLastRun ended job;
          next = (if is_cron (job_schedule job)
            then resolveCronNextRunWithLowerBound natural (ended + max MIN_REFIRE_GAP_MS (trigger_floor (cd_config deps) job))
            else if job_trigger job \<noteq> None
            then map_option (\<lambda>n. max n (ended + resolveCronTriggerMinIntervalMs (cd_config deps))) natural
            else natural)
      in (set_next next job1, effects))"

definition applyJobResult ::
  "cron_deps \<Rightarrow> int \<Rightarrow> bool \<Rightarrow> run_result \<Rightarrow> cron_job \<Rightarrow> bool \<times> cron_job \<times> cron_effect list" where
  "applyJobResult deps alertNow preserveSchedule result job =
     (let prevLastRun = js_lastRunAtMs (job_state job);
          job1 = record_run deps result job;
          prevErrors = or_zero (js_consecutiveErrors (job_state job1));
          (job2, effects) = count_run deps alertNow result job1;
          shouldDelete = (is_at (job_schedule job) \<and> job_deleteAfterRun job = Some True \<and> rr_status result = RunOk)
      in if shouldDelete then (True, job2, effects)
         else if is_at (job_schedule job) then (False, schedule_one_shot deps result job2, effects)
         else if isJobEnabled job2 then
           (let (job3, effects1) = (if rr_status result = RunError
              then schedule_failed deps preserveSchedule result prevLastRun prevErrors job2
              else schedule_finished deps preserveSchedule result prevLastRun prevErrors job2)
            in (False, job3, effects @ effects1))
         else (False, set_next None job2, effects))"

section \<open>Trigger scripts\<close>

record trigger_eval =
  te_fired :: bool
  te_stateChanged :: bool
  te_state :: js_value
  te_busy :: bool

definition applyTriggerEvaluationState :: "trigger_eval \<Rightarrow> int \<Rightarrow> cron_job \<Rightarrow> cron_job" where
  "applyTriggerEvaluationState e evaluatedAt job =
     (if te_busy e then job
      else with_state (\<lambda>s. s\<lparr>js_lastTriggerEvalAtMs := Some evaluatedAt,
          js_triggerEvalCount := Some (or_zero (js_triggerEvalCount s) + 1),
          js_triggerState := (if te_stateChanged e then te_state e else js_triggerState s),
          js_lastTriggerFireAtMs := (if te_fired e then Some evaluatedAt else js_lastTriggerFireAtMs s)\<rparr>) job)"

definition applyTriggerRunResult :: "run_status \<Rightarrow> int \<Rightarrow> trigger_eval option \<Rightarrow> cron_job \<Rightarrow> cron_job" where
  "applyTriggerRunResult status ended triggerEval job = (case triggerEval of
     None \<Rightarrow> job
   | Some e \<Rightarrow>
      (let persisted = (if status = RunOk then e else e\<lparr>te_stateChanged := False, te_state := JUndef\<rparr>);
           job1 = applyTriggerEvaluationState persisted ended job
       in if te_fired e \<and> (case job_trigger job of Some t \<Rightarrow> tr_once t = Some True | None \<Rightarrow> False) \<and> status = RunOk
          then disable_job job1 else job1))"

definition applyTriggerNoFireResult :: "cron_deps \<Rightarrow> int \<Rightarrow> trigger_eval \<Rightarrow> cron_job \<Rightarrow> cron_job \<times> cron_effect list" where
  "applyTriggerNoFireResult deps ended e job =
     (let job1 = (with_state (\<lambda>s. s\<lparr>js_runningAtMs := None\<rparr>) job)\<lparr>job_updatedAtMs := ended\<rparr>;
          job2 = (if te_busy e then job1
            else applyTriggerEvaluationState e ended (with_state (\<lambda>s. s\<lparr>js_consecutiveErrors := Some 0,
              js_scheduleErrorCount := Some 0, js_lastFailureAlertAtMs := None\<rparr>) job1));
          gap = max MIN_REFIRE_GAP_MS (resolveCronTriggerMinIntervalMs (cd_config deps))
      in case computeJobNextRunAtMs (cd_env deps) job2 ended of
           Inl err \<Rightarrow> recordScheduleComputeError job2 err
         | Inr natural \<Rightarrow> (set_next (map_option (\<lambda>n. max n (ended + gap)) natural) job2, []))"

section \<open>Outcomes of the stored jobs\<close>

record run_outcome = run_result +
  ro_jobId :: string
  ro_job :: cron_job
  ro_triggerEval :: "trigger_eval option"

record cron_store =
  st_jobs :: "cron_job list"
  st_deferrals :: "string list"
  st_effects :: "cron_effect list"

fun update_first :: "('a \<Rightarrow> bool) \<Rightarrow> 'a \<Rightarrow> 'a list \<Rightarrow> 'a list" where
  "update_first P y [] = []"
| "update_first P y (x # xs) = (if P x then y # xs else x # update_first P y xs)"

definition find_job :: "string \<Rightarrow> cron_job list \<Rightarrow> cron_job option" where
  "find_job i jobs = List.find (\<lambda>j. job_id j = i) jobs"

definition put_job :: "cron_job \<Rightarrow> cron_job list \<Rightarrow> cron_job list" where
  "put_job job jobs = update_first (\<lambda>j. job_id j = job_id job) job jobs"

definition emitJobFinished :: "cron_job \<Rightarrow> run_outcome \<Rightarrow> cron_effect" where
  "emitJobFinished job outcome = JobFinished (job_id job) (rr_status outcome) (rr_error outcome) (rr_startedAt outcome)
     (js_lastDurationMs (job_state job)) (next_run job)
     (case ro_triggerEval outcome of Some e \<Rightarrow> te_fired e | None \<Rightarrow> False)"

definition quiet_tick :: "run_outcome \<Rightarrow> bool" where
  "quiet_tick outcome \<longleftrightarrow> rr_status outcome = RunOk
     \<and> (case ro_triggerEval outcome of Some e \<Rightarrow> \<not> te_fired e | None \<Rightarrow> False)"

definition applyOutcomeToStoredJob :: "cron_deps \<Rightarrow> int \<Rightarrow> run_outcome \<Rightarrow> cron_store \<Rightarrow> cron_store" where
  "applyOutcomeToStoredJob deps alertNow outcome store =
     (case find_job (ro_jobId outcome) (st_jobs store) of
        None \<Rightarrow>
          if quiet_tick outcome \<or> rr_status outcome \<noteq> RunOk then store
          else (let (_, job, effects) = applyJobResult deps alertNow False (run_result.truncate outcome) (ro_job outcome)
                in store\<lparr>st_effects := st_effects store @ effects @ [emitJobFinished job outcome]\<rparr>)
      | Some job \<Rightarrow>
          if quiet_tick outcome then
            (let (job1, effects) = applyTriggerNoFireResult deps (rr_endedAt outcome) (the (ro_triggerEval outcome)) job
             in \<lparr>st_jobs = put_job job1 (st_jobs store), st_deferrals = removeAll (job_id job) (st_deferrals store),
                 st_effects = st_effects store @ effects\<rparr>)
          else
            (let (shouldDelete, job1, effects) = applyJobResult deps alertNow False (run_result.truncate outcome) job;
                 job2 = applyTriggerRunResult (rr_status outcome) (rr_endedAt outcome) (ro_triggerEval outcome) job1;
                 jobs = put_job job2 (st_jobs store);
                 finished = emitJobFinished job2 outcome
             in \<lparr>st_jobs = (if shouldDelete then filter (\<lambda>j. job_id j \<noteq> job_id job) jobs else jobs),
                 st_deferrals = removeAll (job_id job) (st_deferrals store),
                 st_effects = st_effects store @ effects @ [finished] @ (if shouldDelete then [JobRemoved (job_id job)] else [])\<rparr>))"

section \<open>What an outcome leaves alone\<close>

lemma find_put_job: "find_job i (put_job job jobs) = (if i = job_id job \<and> find_job i jobs \<noteq> None then Some job else find_job i jobs)"
  by (induction jobs) (auto simp: find_job_def put_job_def)

lemma find_job_id: "find_job i jobs = Some job \<Longrightarrow> job_id job = i"
  by (auto simp: find_job_def find_Some_iff)

lemma record_run_frame [simp]:
  "job_id (record_run deps r job) = job_id job" "job_schedule (record_run deps r job) = job_schedule job"
  "job_enabled (record_run deps r job) = job_enabled job" "job_trigger (record_run deps r job) = job_trigger job"
  "job_sessionTarget (record_run deps r job) = job_sessionTarget job"
  "job_wakeMode (record_run deps r job) = job_wakeMode job" "job_createdAtMs (record_run deps r job) = job_createdAtMs job"
  "js_runningAtMs (job_state (record_run deps r job)) = None"
  "js_lastRunAtMs (job_state (record_run deps r job)) = Some (rr_startedAt r)"
  "js_lastRunStatus (job_state (record_run deps r job)) = Some (rr_status r)"
  "js_lastDurationMs (job_state (record_run deps r job)) = Some (max 0 (rr_endedAt r - rr_startedAt r))"
  "js_lastError (job_state (record_run deps r job)) = rr_error r"
  "js_consecutiveErrors (job_state (record_run deps r job)) = js_consecutiveErrors (job_state job)"
  "js_consecutiveSkipped (job_state (record_run deps r job)) = js_consecutiveSkipped (job_state job)"
  "js_scheduleErrorCount (job_state (record_run deps r job)) = js_scheduleErrorCount (job_state job)"
  by (simp_all add: record_run_def Let_def)

text \<open>The counters of the kind of an outcome, and nothing else the scheduling reads.\<close>

lemma count_run_frame [simp]:
  "job_id (fst (count_run deps a r job)) = job_id job" "job_schedule (fst (count_run deps a r job)) = job_schedule job"
  "job_enabled (fst (count_run deps a r job)) = job_enabled job" "job_trigger (fst (count_run deps a r job)) = job_trigger job"
  "job_sessionTarget (fst (count_run deps a r job)) = job_sessionTarget job"
  "job_wakeMode (fst (count_run deps a r job)) = job_wakeMode job"
  "job_createdAtMs (fst (count_run deps a r job)) = job_createdAtMs job"
  "js_runningAtMs (job_state (fst (count_run deps a r job))) = js_runningAtMs (job_state job)"
  "js_lastRunAtMs (job_state (fst (count_run deps a r job))) = js_lastRunAtMs (job_state job)"
  "js_lastRunStatus (job_state (fst (count_run deps a r job))) = js_lastRunStatus (job_state job)"
  "js_lastDurationMs (job_state (fst (count_run deps a r job))) = js_lastDurationMs (job_state job)"
  "js_lastError (job_state (fst (count_run deps a r job))) = js_lastError (job_state job)"
  "js_scheduleErrorCount (job_state (fst (count_run deps a r job))) = js_scheduleErrorCount (job_state job)"
  "js_lastErrorReason (job_state (fst (count_run deps a r job))) = js_lastErrorReason (job_state job)"
  by (auto simp: count_run_def Let_def maybeEmitFailureAlert_def split: run_status.split option.split)

lemma count_run_counters:
  "js_consecutiveErrors (job_state (fst (count_run deps a r job)))
     = Some (if rr_status r = RunError then or_zero (js_consecutiveErrors (job_state job)) + 1 else 0)"
  "js_consecutiveSkipped (job_state (fst (count_run deps a r job)))
     = Some (if rr_status r = RunSkipped then or_zero (js_consecutiveSkipped (job_state job)) + 1 else 0)"
  by (auto simp: count_run_def Let_def maybeEmitFailureAlert_def split: run_status.split option.split)

lemma set_next_simps [simp]:
  "next_run (set_next t job) = t" "job_enabled (set_next t job) = job_enabled job" "job_id (set_next t job) = job_id job"
  "job_schedule (set_next t job) = job_schedule job" "js_runningAtMs (job_state (set_next t job)) = js_runningAtMs (job_state job)"
  "js_consecutiveErrors (job_state (set_next t job)) = js_consecutiveErrors (job_state job)"
  "js_consecutiveSkipped (job_state (set_next t job)) = js_consecutiveSkipped (job_state job)"
  "js_lastRunAtMs (job_state (set_next t job)) = js_lastRunAtMs (job_state job)"
  "js_lastDurationMs (job_state (set_next t job)) = js_lastDurationMs (job_state job)"
  "js_lastRunStatus (job_state (set_next t job)) = js_lastRunStatus (job_state job)"
  "job_trigger (set_next t job) = job_trigger job" "job_sessionTarget (set_next t job) = job_sessionTarget job"
  "job_wakeMode (set_next t job) = job_wakeMode job"
  by (simp_all add: set_next_def)

lemma disable_job_simps [simp]: "\<not> isJobEnabled (disable_job job)" "next_run (disable_job job) = None" "job_id (disable_job job) = job_id job"
  by (simp_all add: disable_job_def isJobEnabled_def)

lemma isJobEnabled_cong: "job_enabled j = job_enabled k \<Longrightarrow> isJobEnabled j = isJobEnabled k"
  by (simp add: isJobEnabled_def)

text \<open>The job an outcome is scheduled on: recorded and counted.\<close>

definition counted :: "cron_deps \<Rightarrow> int \<Rightarrow> run_result \<Rightarrow> cron_job \<Rightarrow> cron_job" where
  "counted deps a r job = fst (count_run deps a r (record_run deps r job))"

lemma counted_frame [simp]:
  "job_id (counted deps a r job) = job_id job" "job_schedule (counted deps a r job) = job_schedule job"
  "job_enabled (counted deps a r job) = job_enabled job" "job_trigger (counted deps a r job) = job_trigger job"
  "job_sessionTarget (counted deps a r job) = job_sessionTarget job" "job_wakeMode (counted deps a r job) = job_wakeMode job"
  "job_createdAtMs (counted deps a r job) = job_createdAtMs job"
  "js_runningAtMs (job_state (counted deps a r job)) = None"
  "js_lastRunAtMs (job_state (counted deps a r job)) = Some (rr_startedAt r)"
  "js_lastRunStatus (job_state (counted deps a r job)) = Some (rr_status r)"
  "js_lastDurationMs (job_state (counted deps a r job)) = Some (max 0 (rr_endedAt r - rr_startedAt r))"
  "js_lastError (job_state (counted deps a r job)) = rr_error r"
  "js_scheduleErrorCount (job_state (counted deps a r job)) = js_scheduleErrorCount (job_state job)"
  "js_consecutiveErrors (job_state (counted deps a r job))
     = Some (if rr_status r = RunError then or_zero (js_consecutiveErrors (job_state job)) + 1 else 0)"
  "js_consecutiveSkipped (job_state (counted deps a r job))
     = Some (if rr_status r = RunSkipped then or_zero (js_consecutiveSkipped (job_state job)) + 1 else 0)"
  "isJobEnabled (counted deps a r job) = isJobEnabled job"
  by (simp_all add: counted_def count_run_counters cong: isJobEnabled_cong)

text \<open>The three ways an outcome is scheduled.\<close>

lemma applyJobResult_at:
  "is_at (job_schedule job) \<Longrightarrow> snd (applyJobResult deps a p r job) =
     (if job_deleteAfterRun job = Some True \<and> rr_status r = RunOk then (counted deps a r job, snd (count_run deps a r (record_run deps r job)))
      else (schedule_one_shot deps r (counted deps a r job), snd (count_run deps a r (record_run deps r job))))"
  by (simp add: applyJobResult_def Let_def counted_def split_beta)

lemma applyJobResult_recurring:
  "\<not> is_at (job_schedule job) \<Longrightarrow> fst (snd (applyJobResult deps a p r job)) =
     (if \<not> isJobEnabled job then set_next None (counted deps a r job)
      else fst ((if rr_status r = RunError then schedule_failed else schedule_finished) deps p r (js_lastRunAtMs (job_state job))
        (or_zero (js_consecutiveErrors (job_state job))) (counted deps a r job)))"
proof -
  have "isJobEnabled (fst (count_run deps a r (record_run deps r job))) = isJobEnabled job"
    by (simp add: isJobEnabled_def)
  then show "\<not> is_at (job_schedule job) \<Longrightarrow> ?thesis"
    by (simp add: applyJobResult_def Let_def counted_def split_beta)
qed

end
