(* ===== verification/CronTimer.thy ===== *)
theory CronTimer
  imports CronOutcome
begin

text \<open>
  The loop of the cron service, after \<^verbatim>\<open>src/src/cron/service/timer.ts\<close>: which jobs are due,
  the tick that reserves, runs and settles them, the timer that brings the next tick, and the
  catch-up after a restart. The service state is the record \<open>cron_service\<close>; each locked section
  of the source is one function on it, given the readings of the clock it makes. Executing a
  job, saving the store and reaping old sessions are outside the model: the outcomes of the runs
  are arguments, and what is saved is the store itself.
\<close>

section \<open>Due jobs\<close>

definition isScheduledTerminalOneShotRetry :: "cron_job \<Rightarrow> run_status \<Rightarrow> int option \<Rightarrow> int option \<Rightarrow> bool" where
  "isScheduledTerminalOneShotRetry job lastRunStatus lastRun nextRun =
     (case (nextRun, lastRun) of
        (Some n, Some l) \<Rightarrow>
          if \<not> isJobEnabled job \<or> n \<le> l then False
          else if lastRunStatus = RunError then True
          else lastRunStatus = RunSkipped \<and> job_sessionTarget job = ''main'' \<and> job_wakeMode job = WakeNow
            \<and> js_lastError (job_state job) = Some HEARTBEAT_SKIP_DISABLED
      | _ \<Rightarrow> False)"

definition isErrorBackoffPending :: "cron_config \<Rightarrow> cron_job \<Rightarrow> int \<Rightarrow> bool" where
  "isErrorBackoffPending cfg job now =
     (if is_at (job_schedule job) \<or> resolveJobLastRunStatus job \<noteq> Some RunError then False
      else case resolveJobErrorBackoffUntilMs job (backoff_schedule cfg) of Some until \<Rightarrow> now < until | None \<Rightarrow> False)"

record runnable_opts =
  ru_skipJobIds :: "string list"
  ru_skipAtIfAlreadyRan :: bool
  ru_allowCronMissedRunByLastRun :: bool

definition tick_opts :: runnable_opts where
  "tick_opts = \<lparr>ru_skipJobIds = [], ru_skipAtIfAlreadyRan = False, ru_allowCronMissedRunByLastRun = False\<rparr>"

definition isRunnableJob :: "cron_deps \<Rightarrow> runnable_opts \<Rightarrow> int \<Rightarrow> cron_job \<Rightarrow> bool" where
  "isRunnableJob deps opts now job =
     (if \<not> isJobEnabled job then False
      else if job_id job \<in> set (ru_skipJobIds opts) then False
      else if js_runningAtMs (job_state job) \<noteq> None then False
      else if ru_skipAtIfAlreadyRan opts \<and> is_at (job_schedule job) \<and> resolveJobLastRunStatus job \<noteq> None then
        isScheduledTerminalOneShotRetry job (the (resolveJobLastRunStatus job)) (js_lastRunAtMs (job_state job)) (next_run job)
        \<and> (case next_run job of Some n \<Rightarrow> n \<le> now | None \<Rightarrow> False)
      else if isErrorBackoffPending (cd_config deps) job now then False
      else if is_due job now then True
      else if \<not> ru_allowCronMissedRunByLastRun opts \<or> \<not> is_cron (job_schedule job) then False
      else (case (computeJobPreviousRunAtMs (cd_env deps) job now, js_lastRunAtMs (job_state job)) of
          (Inr (Some previous), Some lastRun) \<Rightarrow> lastRun < previous
        | _ \<Rightarrow> False))"

definition collectRunnableJobs :: "cron_deps \<Rightarrow> runnable_opts \<Rightarrow> int \<Rightarrow> cron_job list \<Rightarrow> cron_job list" where
  "collectRunnableJobs deps opts now jobs = filter (isRunnableJob deps opts now) jobs"

section \<open>The service\<close>

record cron_service = cron_store +
  sv_running :: bool
  sv_stopped :: bool
  sv_restartRecoveryPending :: bool
  sv_timer :: "int option"

definition MAX_TIMER_DELAY_MS :: int where
  "MAX_TIMER_DELAY_MS = 60000"

definition armRunningRecheckTimer :: "cron_service \<Rightarrow> cron_service" where
  "armRunningRecheckTimer sv = (if sv_stopped sv then sv else sv\<lparr>sv_timer := Some MAX_TIMER_DELAY_MS\<rparr>)"

text \<open>\<^verbatim>\<open>armTimer\<close> counts a job as enabled only when its flag is set; the time it waits for is
  that of the jobs that are not disabled.\<close>

definition armTimer :: "cron_deps \<Rightarrow> int \<Rightarrow> cron_service \<Rightarrow> cron_service" where
  "armTimer deps now sv0 =
     (let sv = sv0\<lparr>sv_timer := None\<rparr> in
      if sv_stopped sv \<or> \<not> cd_cronEnabled deps \<or> sv_restartRecoveryPending sv then sv
      else case nextWakeAtMs (st_jobs sv) of
        None \<Rightarrow> if \<exists>j \<in> set (st_jobs sv). job_enabled j = Some True then armRunningRecheckTimer sv else sv
      | Some nextAt \<Rightarrow>
         (let delay = max (nextAt - now) 0;
              flooredDelay = (if delay = 0 then MIN_REFIRE_GAP_MS else delay)
          in sv\<lparr>sv_timer := Some (min flooredDelay MAX_TIMER_DELAY_MS)\<rparr>))"

definition mark_running :: "(cron_job \<Rightarrow> bool) \<Rightarrow> int option \<Rightarrow> cron_job list \<Rightarrow> cron_job list" where
  "mark_running P t jobs = map (\<lambda>j. if P j then with_state (\<lambda>s. s\<lparr>js_runningAtMs := t\<rparr>) j else j) jobs"

definition maintain :: "cron_deps \<Rightarrow> maintenance_opts \<Rightarrow> int \<Rightarrow> 'a cron_store_scheme \<Rightarrow> 'a cron_store_scheme" where
  "maintain deps opts now store =
     (let (_, jobs, (deferrals, effects)) = recomputeNextRunsForMaintenance deps opts now (st_jobs store) (st_deferrals store)
      in store\<lparr>st_jobs := jobs, st_deferrals := deferrals, st_effects := st_effects store @ effects\<rparr>)"

definition default_maintenance :: maintenance_opts where
  "default_maintenance = \<lparr>mo_recomputeExpired = False, mo_repairFutureCronNextRunAtMs = True\<rparr>"

text \<open>The first part of \<^verbatim>\<open>onTimer\<close>: a stopped or recovering service does nothing, a running one
  only keeps its timer.\<close>

definition begin_tick :: "cron_service \<Rightarrow> bool \<times> cron_service" where
  "begin_tick sv =
     (if sv_stopped sv \<or> sv_restartRecoveryPending sv then (False, sv)
      else if sv_running sv then (False, armRunningRecheckTimer sv)
      else (True, armRunningRecheckTimer (sv\<lparr>sv_running := True\<rparr>)))"

text \<open>The locked section that reserves the due jobs; without any it only maintains the store. The
  service may have been stopped while the reservation was saved.\<close>

definition reserve_due :: "cron_deps \<Rightarrow> int \<Rightarrow> int \<Rightarrow> bool \<Rightarrow> cron_service \<Rightarrow> string list \<times> cron_service" where
  "reserve_due deps dueCheckNow now stoppedMeanwhile sv =
     (if sv_stopped sv \<or> sv_restartRecoveryPending sv then ([], sv)
      else
       (let due = collectRunnableJobs deps tick_opts dueCheckNow (st_jobs sv) in
        if due = [] then
          ([], maintain deps (default_maintenance\<lparr>mo_recomputeExpired := True\<rparr>) dueCheckNow sv)
        else
          (let P = isRunnableJob deps tick_opts dueCheckNow;
               sv1 = sv\<lparr>st_jobs := mark_running P (Some now) (st_jobs sv)\<rparr>
           in if stoppedMeanwhile
              then ([], maintain deps default_maintenance now
                     (sv1\<lparr>sv_stopped := True, st_jobs := mark_running P None (st_jobs sv)\<rparr>))
              else (map job_id due, sv1))))"

text \<open>The start of a reserved run.\<close>

definition start_due :: "int \<Rightarrow> string \<Rightarrow> cron_service \<Rightarrow> cron_service" where
  "start_due startedAt i sv = (case find_job i (st_jobs sv) of
     None \<Rightarrow> sv
   | Some job \<Rightarrow> sv\<lparr>st_jobs := put_job (with_state (\<lambda>s. s\<lparr>js_runningAtMs := Some startedAt, js_lastError := None\<rparr>) job) (st_jobs sv),
       st_effects := st_effects sv @ [JobStarted i startedAt]\<rparr>)"

text \<open>\<^verbatim>\<open>finalizeCompletedResults\<close> on the outcomes that are still current.\<close>

definition settle_outcomes :: "cron_deps \<Rightarrow> int \<Rightarrow> int \<Rightarrow> run_outcome list \<Rightarrow> cron_service \<Rightarrow> cron_service" where
  "settle_outcomes deps alertNow now outcomes sv =
     (if outcomes = [] then sv
      else maintain deps default_maintenance now
        (let store = fold (applyOutcomeToStoredJob deps alertNow) outcomes (cron_store.truncate sv)
         in sv\<lparr>st_jobs := st_jobs store, st_deferrals := st_deferrals store, st_effects := st_effects store\<rparr>))"

text \<open>\<^verbatim>\<open>releaseUnclaimedDueJobReservations\<close>\<close>

definition release_unclaimed :: "cron_deps \<Rightarrow> int \<Rightarrow> int \<Rightarrow> string list \<Rightarrow> cron_service \<Rightarrow> cron_service" where
  "release_unclaimed deps now reservedAt unclaimed sv =
     (if unclaimed = [] then sv
      else maintain deps default_maintenance now
        (sv\<lparr>st_jobs := mark_running (\<lambda>j. job_id j \<in> set unclaimed \<and> js_runningAtMs (job_state j) = Some reservedAt) None (st_jobs sv)\<rparr>))"

definition end_tick :: "cron_deps \<Rightarrow> int \<Rightarrow> cron_service \<Rightarrow> cron_service" where
  "end_tick deps now sv = armTimer deps now (sv\<lparr>sv_running := False\<rparr>)"

section \<open>Catch-up after a restart\<close>

definition DEFAULT_MISSED_JOB_STAGGER_MS :: int where
  "DEFAULT_MISSED_JOB_STAGGER_MS = 5000"

definition DEFAULT_MAX_MISSED_JOBS_PER_RESTART :: int where
  "DEFAULT_MAX_MISSED_JOBS_PER_RESTART = 5"

definition DEFAULT_STARTUP_DEFERRED_MISSED_AGENT_JOB_DELAY_MS :: int where
  "DEFAULT_STARTUP_DEFERRED_MISSED_AGENT_JOB_DELAY_MS = 2 * 60000"

definition or_default_int :: "int option \<Rightarrow> int \<Rightarrow> int" where
  "or_default_int v d = (case v of Some n \<Rightarrow> n | None \<Rightarrow> d)"

definition defer_backoff_slot :: "cron_deps \<Rightarrow> string list \<Rightarrow> int \<Rightarrow> cron_job \<Rightarrow> cron_job" where
  "defer_backoff_slot deps skipJobIds now job =
     (if \<not> isJobEnabled job \<or> \<not> is_cron (job_schedule job) \<or> job_id job \<in> set skipJobIds
        \<or> js_runningAtMs (job_state job) \<noteq> None then job
      else case (resolveJobErrorBackoffUntilMs job (backoff_schedule (cd_config deps)),
                 computeJobPreviousRunAtMs (cd_env deps) job now, js_lastRunAtMs (job_state job)) of
        (Some until, Inr (Some previous), Some lastRun) \<Rightarrow>
          if until \<le> now \<or> previous \<le> lastRun then job else set_next (Some until) job
      | _ \<Rightarrow> job)"

definition deferPendingBackoffMissedCronSlots :: "cron_deps \<Rightarrow> string list \<Rightarrow> int \<Rightarrow> cron_job list \<Rightarrow> cron_job list" where
  "deferPendingBackoffMissedCronSlots deps skipJobIds now jobs = map (defer_backoff_slot deps skipJobIds now) jobs"

record catchup_plan =
  cp_candidates :: "string list"
  cp_reservedAt :: int
  cp_deferred :: "(string \<times> int option) list"

definition no_plan :: "int \<Rightarrow> catchup_plan" where
  "no_plan now = \<lparr>cp_candidates = [], cp_reservedAt = now, cp_deferred = []\<rparr>"

definition missed_order :: "cron_job list \<Rightarrow> cron_job list" where
  "missed_order jobs = sort_key (\<lambda>j. or_zero (next_run j)) jobs"

definition startup_opts :: "string list \<Rightarrow> runnable_opts" where
  "startup_opts skipJobIds = \<lparr>ru_skipJobIds = skipJobIds, ru_skipAtIfAlreadyRan = True, ru_allowCronMissedRunByLastRun = True\<rparr>"

definition max_immediate :: "cron_deps \<Rightarrow> nat" where
  "max_immediate deps = nat (max 0 (or_default_int (cd_maxMissedJobsPerRestart deps) DEFAULT_MAX_MISSED_JOBS_PER_RESTART))"

definition planStartupCatchup :: "cron_deps \<Rightarrow> string list \<Rightarrow> bool \<Rightarrow> int \<Rightarrow> cron_service \<Rightarrow> catchup_plan \<times> cron_service" where
  "planStartupCatchup deps skipJobIds deferAgentTurnJobs now sv =
     (if sv_stopped sv then (no_plan now, sv)
      else
       (let jobs = deferPendingBackoffMissedCronSlots deps skipJobIds now (st_jobs sv);
            missed = collectRunnableJobs deps (startup_opts skipJobIds) now jobs
        in if missed = [] then (no_plan now, sv\<lparr>st_jobs := jobs\<rparr>)
           else
            (let sorted = missed_order missed;
                 agent = (\<lambda>j. job_payload j = AgentTurnPayload);
                 deferredAgent = (if deferAgentTurnJobs then filter agent sorted else []);
                 eligible = (if deferAgentTurnJobs then filter (\<lambda>j. \<not> agent j) sorted else sorted);
                 candidates = take (max_immediate deps) eligible;
                 overflow = drop (max_immediate deps) eligible;
                 agentDelay = max 0 (or_default_int (cd_startupDeferredMissedAgentJobDelayMs deps)
                    DEFAULT_STARTUP_DEFERRED_MISSED_AGENT_JOB_DELAY_MS)
             in (\<lparr>cp_candidates = map job_id candidates, cp_reservedAt = now,
                  cp_deferred = map (\<lambda>j. (job_id j, None)) overflow @ map (\<lambda>j. (job_id j, Some agentDelay)) deferredAgent\<rparr>,
                 sv\<lparr>st_jobs := map (\<lambda>j. if job_id j \<in> job_id ` set candidates
                    then with_state (\<lambda>s. s\<lparr>js_runningAtMs := Some now, js_lastError := None\<rparr>) j else j) jobs\<rparr>))))"

text \<open>\<^verbatim>\<open>releaseUnstartedStartupCatchupReservations\<close>\<close>

definition release_unstarted :: "catchup_plan \<Rightarrow> run_outcome list \<Rightarrow> cron_job list \<Rightarrow> bool \<times> cron_job list" where
  "release_unstarted plan outcomes jobs =
     (let started = map ro_jobId outcomes;
          P = (\<lambda>j. job_id j \<in> set (cp_candidates plan) \<and> job_id j \<notin> set started
                \<and> js_runningAtMs (job_state j) = Some (cp_reservedAt plan))
      in (\<exists>j \<in> set jobs. P j, mark_running P None jobs))"

text \<open>The deferred jobs get times one stagger apart; the offset only grows with the jobs that are
  still there and enabled.\<close>

fun apply_deferrals ::
  "int \<Rightarrow> int \<Rightarrow> int \<Rightarrow> (string \<times> int option) list \<Rightarrow> cron_job list \<Rightarrow> string list \<Rightarrow> cron_job list \<times> string list" where
  "apply_deferrals baseNow staggerMs offset [] jobs deferrals = (jobs, deferrals)"
| "apply_deferrals baseNow staggerMs offset ((i, delay) # ds) jobs deferrals = (case find_job i jobs of
     None \<Rightarrow> apply_deferrals baseNow staggerMs offset ds jobs deferrals
   | Some job \<Rightarrow>
      if \<not> isJobEnabled job then apply_deferrals baseNow staggerMs offset ds jobs deferrals
      else apply_deferrals baseNow staggerMs (offset + staggerMs) ds
        (put_job (set_next (Some (case delay of Some d \<Rightarrow> baseNow + d + offset - staggerMs | None \<Rightarrow> baseNow + offset)) job) jobs)
        (List.insert i deferrals))"

definition startup_maintenance :: maintenance_opts where
  "startup_maintenance = \<lparr>mo_recomputeExpired = False, mo_repairFutureCronNextRunAtMs = False\<rparr>"

definition catchup_settled :: "cron_deps \<Rightarrow> int \<Rightarrow> catchup_plan \<Rightarrow> run_outcome list \<Rightarrow> run_outcome list \<Rightarrow> cron_service \<Rightarrow> cron_service" where
  "catchup_settled deps alertNow plan outcomes current sv =
     (let sv1 = sv\<lparr>st_jobs := snd (release_unstarted plan outcomes (st_jobs sv))\<rparr>;
          store = fold (applyOutcomeToStoredJob deps alertNow) current (cron_store.truncate sv1)
      in sv1\<lparr>st_jobs := st_jobs store, st_deferrals := st_deferrals store, st_effects := st_effects store\<rparr>)"

definition missed_stagger :: "cron_deps \<Rightarrow> int" where
  "missed_stagger deps = max 0 (or_default_int (cd_missedJobStaggerMs deps) DEFAULT_MISSED_JOB_STAGGER_MS)"

definition applyStartupCatchupOutcomes ::
  "cron_deps \<Rightarrow> int \<Rightarrow> int \<Rightarrow> int \<Rightarrow> catchup_plan \<Rightarrow> run_outcome list \<Rightarrow> run_outcome list \<Rightarrow> cron_service \<Rightarrow> cron_service" where
  "applyStartupCatchupOutcomes deps alertNow baseNow now plan outcomes current sv =
     (let (released, jobs) = release_unstarted plan outcomes (st_jobs sv) in
      if sv_stopped sv then
        (if released then maintain deps startup_maintenance now (sv\<lparr>st_jobs := jobs\<rparr>) else sv\<lparr>st_jobs := jobs\<rparr>)
      else
       (let sv2 = catchup_settled deps alertNow plan outcomes current sv in
        if current = [] \<and> cp_deferred plan = [] then (if released then maintain deps startup_maintenance now sv2 else sv2)
        else
         (let (jobs', deferrals') = apply_deferrals baseNow (missed_stagger deps) (missed_stagger deps) (cp_deferred plan)
                (st_jobs sv2) (st_deferrals sv2)
          in maintain deps startup_maintenance now (sv2\<lparr>st_jobs := jobs', st_deferrals := deferrals'\<rparr>))))"

end
