(* ===== verification/CronRuns.thy ===== *)
theory CronRuns
  imports CronTimer
begin

text \<open>
  What the scheduler guarantees about the runs of one job: the number of runs of a one-shot job,
  the distance between the runs of a recurring job, and that a time it stores is one at which
  the job does run.
\<close>

section \<open>Examples\<close>

definition timed_out :: "int \<Rightarrow> int \<Rightarrow> run_result" where
  "timed_out started ended = \<lparr>rr_status = RunError, rr_error = Some ''timeout'', rr_delivered = None, rr_provider = None,
     rr_startedAt = started, rr_endedAt = ended\<rparr>"

definition finished_ok :: "int \<Rightarrow> int \<Rightarrow> run_result" where
  "finished_ok started ended = \<lparr>rr_status = RunOk, rr_error = None, rr_delivered = None, rr_provider = None,
     rr_startedAt = started, rr_endedAt = ended\<rparr>"

lemma demo_results [simp]:
  "rr_status (timed_out s e) = RunError" "rr_error (timed_out s e) = Some ''timeout''" "rr_startedAt (timed_out s e) = s"
  "rr_endedAt (timed_out s e) = e" "rr_status (finished_ok s e) = RunOk" "rr_endedAt (finished_ok s e) = e" "rr_startedAt (finished_ok s e) = s"
  by (simp_all add: timed_out_def finished_ok_def)

lemma timeout_is_transient: "resolveCronExecutionRetryHint (Some ''timeout'') None None \<noteq> None"
  by code_simp

section \<open>One-shot jobs\<close>

text \<open>The runs a one-shot job gets when its runs end one after another with the given outcomes:
  a disabled or deleted job has no further run.\<close>

fun one_shot_runs :: "cron_deps \<Rightarrow> (int \<times> run_result) list \<Rightarrow> cron_job \<Rightarrow> nat" where
  "one_shot_runs deps [] job = 0"
| "one_shot_runs deps ((alertNow, result) # outcomes) job =
     (if \<not> isJobEnabled job then 0
      else Suc (case applyJobResult deps alertNow False result job of
        (deleted, job1, _) \<Rightarrow> if deleted then 0 else one_shot_runs deps outcomes job1))"

lemma one_shot_runs_disabled [simp]: "\<not> isJobEnabled job \<Longrightarrow> one_shot_runs deps rs job = 0"
  by (cases rs) auto

definition retry_limit :: "cron_deps \<Rightarrow> int" where
  "retry_limit deps = rc_maxAttempts (resolveRetryConfig (cd_config deps))"

lemma transient_decision_limit:
  "resolveTransientCronRetryDecision cfg e why n = Some d \<Longrightarrow> or_zero n \<le> rc_maxAttempts (resolveRetryConfig cfg)"
  by (auto simp: resolveTransientCronRetryDecision_def Let_def split: if_splits)

definition heartbeat_one_shot :: "cron_job \<Rightarrow> bool" where
  "heartbeat_one_shot job \<longleftrightarrow> job_sessionTarget job = ''main'' \<and> job_wakeMode job = WakeNow"

text \<open>A retry takes one error from what is left of the limit; every other outcome ends the job.\<close>

lemma one_shot_step:
  assumes "is_at (job_schedule job)" "\<not> heartbeat_one_shot job" "applyJobResult deps a False r job = (False, job1, eff)"
    "isJobEnabled job1"
  shows "is_at (job_schedule job1)" "\<not> heartbeat_one_shot job1"
    "or_zero (js_consecutiveErrors (job_state job1)) = or_zero (js_consecutiveErrors (job_state job)) + 1"
    "or_zero (js_consecutiveErrors (job_state job1)) \<le> retry_limit deps"
proof -
  have "snd (applyJobResult deps a False r job) = (job1, eff)" by (simp add: assms(3))
  then have job1: "job1 = counted deps a r job \<and> job_deleteAfterRun job = Some True \<and> rr_status r = RunOk
      \<or> job1 = schedule_one_shot deps r (counted deps a r job)"
    unfolding applyJobResult_at [OF assms(1)] by (auto split: if_splits)
  have "\<not> (job_deleteAfterRun job = Some True \<and> rr_status r = RunOk)"
    using assms(1,3) by (auto simp: applyJobResult_def Let_def split_beta)
  with job1 have job1: "job1 = schedule_one_shot deps r (counted deps a r job)" by blast
  have "\<not> shouldRetryDisabledHeartbeatOneShot (counted deps a r job) r"
    using assms(2) by (auto simp: shouldRetryDisabledHeartbeatOneShot_def heartbeat_one_shot_def)
  with assms(4) obtain d where err: "rr_status r = RunError"
    and d: "resolveTransientCronRetryDecision (cd_config deps) (rr_error r)
      (js_lastErrorReason (job_state (counted deps a r job))) (js_consecutiveErrors (job_state (counted deps a r job))) = Some d"
    and eq: "job1 = set_next (Some (rr_endedAt r + d)) (counted deps a r job)"
    unfolding job1 schedule_one_shot_def by (auto split: if_splits option.splits)
  show "is_at (job_schedule job1)" "\<not> heartbeat_one_shot job1"
    using assms(1,2) by (simp_all add: eq heartbeat_one_shot_def)
  show "or_zero (js_consecutiveErrors (job_state job1)) = or_zero (js_consecutiveErrors (job_state job)) + 1"
    by (simp add: eq err or_zero_def)
  show "or_zero (js_consecutiveErrors (job_state job1)) \<le> retry_limit deps"
    using transient_decision_limit [OF d] by (simp add: eq err retry_limit_def)
qed

lemma one_shot_runs_left:
  assumes "is_at (job_schedule job)" "\<not> heartbeat_one_shot job"
  shows "one_shot_runs deps outcomes job \<le> nat (retry_limit deps - or_zero (js_consecutiveErrors (job_state job))) + 1"
  using assms
proof (induction outcomes arbitrary: job)
  case (Cons o1 outcomes)
  obtain a r where o1: "o1 = (a, r)" by (cases o1)
  obtain del job1 eff where step: "applyJobResult deps a False r job = (del, job1, eff)" by (cases "applyJobResult deps a False r job")
  show ?case
  proof (cases "isJobEnabled job \<and> \<not> del \<and> isJobEnabled job1")
    case True
    then have "applyJobResult deps a False r job = (False, job1, eff)" using step by simp
    note s = one_shot_step [OF Cons.prems this] 
    have "one_shot_runs deps outcomes job1 \<le> nat (retry_limit deps - or_zero (js_consecutiveErrors (job_state job1))) + 1"
      using True s by (intro Cons.IH) auto
    with True s(3,4) show ?thesis by (simp add: o1 step)
  next
    case False
    then show ?thesis by (auto simp: o1 step)
  qed
qed simp

text \<open>C16: A one-shot job that is not a heartbeat reminder runs a bounded number
  of times however its runs end: at most one more than the configured retry limit (4 by default),
  because every transient error takes one retry from the limit, and a success, a skip or a
  permanent error ends the job. No sequence of outcomes keeps it alive.\<close>

theorem one_shot_runs_bounded:
  assumes "is_at (job_schedule job)" "\<not> heartbeat_one_shot job" "js_consecutiveErrors (job_state job) \<in> {None, Some 0}"
  shows "one_shot_runs deps outcomes job \<le> nat (retry_limit deps) + 1"
  using one_shot_runs_left [OF assms(1,2), of deps outcomes] assms(3) by (auto simp: or_zero_def)


theorem one_shot_runs_bounded_witness:
  "one_shot_runs demo_deps (replicate 9 (0, timed_out 10 20)) (demo_job (SAt ''5'')) \<le> 4"
  using one_shot_runs_bounded [of "demo_job (SAt ''5'')" demo_deps "replicate 9 (0, timed_out 10 20)"]
  by (simp add: heartbeat_one_shot_def demo_job_def retry_limit_def resolveRetryConfig_def DEFAULT_MAX_TRANSIENT_RETRIES_def)

section \<open>Alternating outcomes\<close>

lemma find_nothing [simp]: "List.find (\<lambda>k. False) xs = None"
  by (induction xs) auto

lemma hint_any_reason:
  "resolveCronExecutionRetryHint e on None \<noteq> None \<Longrightarrow> resolveCronExecutionRetryHint e on why \<noteq> None"
  by (cases e) (auto simp: resolveCronExecutionRetryHint_def Let_def find_None_iff split: option.splits if_splits)

lemma alternation_round:
  assumes job: "is_at (job_schedule job)" "heartbeat_one_shot job" "isJobEnabled job" "or_zero (js_consecutiveErrors (job_state job)) = 0"
    and limit: "1 \<le> retry_limit deps"
    and e: "rr_status e = RunError" "resolveCronExecutionRetryHint (rr_error e) (rc_retryOn (resolveRetryConfig (cd_config deps))) None \<noteq> None"
    and s: "rr_status s = RunSkipped" "rr_error s = Some HEARTBEAT_SKIP_DISABLED"
  obtains job2 where "one_shot_runs deps ((a, e) # (b, s) # outcomes) job = 2 + one_shot_runs deps outcomes job2"
    "is_at (job_schedule job2)" "heartbeat_one_shot job2" "isJobEnabled job2" "or_zero (js_consecutiveErrors (job_state job2)) = 0"
proof -
  define job1 where "job1 = schedule_one_shot deps e (counted deps a e job)"
  obtain d where d: "resolveTransientCronRetryDecision (cd_config deps) (rr_error e) why (Some 1) = Some (d why)" for why
    using hint_any_reason [OF e(2)] limit
    by (atomize_elim, auto simp: resolveTransientCronRetryDecision_def Let_def or_zero_def retry_limit_def intro!: choice)
  have job1: "job1 = set_next (Some (rr_endedAt e + d (js_lastErrorReason (job_state (counted deps a e job))))) (counted deps a e job)"
    using e(1) job(4) by (simp add: job1_def schedule_one_shot_def shouldRetryDisabledHeartbeatOneShot_def d)
  have at1: "is_at (job_schedule job1)" and en1: "isJobEnabled job1" and sk1: "or_zero (js_consecutiveSkipped (job_state job1)) = 0"
    using job(1,3) e(1) by (simp_all add: job1 or_zero_def cong: isJobEnabled_cong)
  have main1: "job_sessionTarget job1 = ''main''" "job_wakeMode job1 = WakeNow"
    using job(2) by (simp_all add: job1 heartbeat_one_shot_def)
  define job2 where "job2 = schedule_one_shot deps s (counted deps b s job1)"
  have retry: "shouldRetryDisabledHeartbeatOneShot (counted deps b s job1) s"
    using at1 main1 s by (simp add: shouldRetryDisabledHeartbeatOneShot_def)
  have dec: "resolveDisabledHeartbeatOneShotRetryDecision (cd_config deps) (Some 1) \<noteq> None"
    using limit by (simp add: resolveDisabledHeartbeatOneShotRetryDecision_def Let_def or_zero_def retry_limit_def)
  then obtain d2 where job2: "job2 = set_next (Some (rr_endedAt s + d2)) ((counted deps b s job1)\<lparr>job_enabled := Some True\<rparr>)"
    using retry sk1 s(1) by (auto simp: job2_def schedule_one_shot_def)
  have "applyJobResult deps a False e job = (False, job1, snd (count_run deps a e (record_run deps e job)))"
    using job(1) e(1) applyJobResult_at [OF job(1), of deps a False e] by (auto simp: prod_eq_iff job1_def applyJobResult_def Let_def split_beta)
  moreover have "applyJobResult deps b False s job1 = (False, job2, snd (count_run deps b s (record_run deps s job1)))"
    using at1 s(1) applyJobResult_at [OF at1, of deps b False s] by (auto simp: prod_eq_iff job2_def applyJobResult_def Let_def split_beta)
  ultimately have "one_shot_runs deps ((a, e) # (b, s) # outcomes) job = 2 + one_shot_runs deps outcomes job2"
    using job(3) en1 by simp
  moreover have "is_at (job_schedule job2)" "heartbeat_one_shot job2" "isJobEnabled job2" "or_zero (js_consecutiveErrors (job_state job2)) = 0"
    using at1 main1 s(1) by (simp_all add: job2 heartbeat_one_shot_def isJobEnabled_def or_zero_def set_next_def)
  ultimately show thesis by (rule that)
qed

text \<open>C30: The retry limit does not bound a one-shot reminder of the main
  session: a transient error resets the count of skips and a skip by a disabled heartbeat resets
  the count of errors, so when the two alternate, every run is followed by another one, for any
  number of rounds and any limit of at least one.\<close>

theorem alternating_outcomes_never_end:
  assumes job: "is_at (job_schedule job)" "heartbeat_one_shot job" "isJobEnabled job" "or_zero (js_consecutiveErrors (job_state job)) = 0"
    and limit: "1 \<le> retry_limit deps"
    and e: "rr_status e = RunError" "resolveCronExecutionRetryHint (rr_error e) (rc_retryOn (resolveRetryConfig (cd_config deps))) None \<noteq> None"
    and s: "rr_status s = RunSkipped" "rr_error s = Some HEARTBEAT_SKIP_DISABLED"
  shows "one_shot_runs deps (concat (replicate n [(a, e), (b, s)])) job = 2 * n"
  using job
proof (induction n arbitrary: job)
  case (Suc n)
  obtain job2 where *: "one_shot_runs deps ((a, e) # (b, s) # concat (replicate n [(a, e), (b, s)])) job
      = 2 + one_shot_runs deps (concat (replicate n [(a, e), (b, s)])) job2"
    "is_at (job_schedule job2)" "heartbeat_one_shot job2" "isJobEnabled job2" "or_zero (js_consecutiveErrors (job_state job2)) = 0"
    using alternation_round [OF Suc.prems limit e s] by metis
  then show ?case using Suc.IH [OF *(2-5)] by simp
qed simp


theorem alternating_outcomes_never_end_witness:
  "one_shot_runs demo_deps (concat (replicate 50 [(0, timed_out 10 20),
      (0, (timed_out 30 40)\<lparr>rr_status := RunSkipped, rr_error := Some ''disabled''\<rparr>)]))
    ((demo_job (SAt ''5''))\<lparr>job_sessionTarget := ''main''\<rparr>) = 100"
proof -
  define job where "job = (demo_job (SAt ''5''))\<lparr>job_sessionTarget := ''main''\<rparr>"
  define skip where "skip = (timed_out 30 40)\<lparr>rr_status := RunSkipped, rr_error := Some ''disabled''\<rparr>"
  have job: "is_at (job_schedule job)" "heartbeat_one_shot job" "isJobEnabled job" "or_zero (js_consecutiveErrors (job_state job)) = 0"
    by (simp_all add: job_def heartbeat_one_shot_def isJobEnabled_def or_zero_def demo_job_def empty_job_state_def)
  have limit: "1 \<le> retry_limit demo_deps"
    by (simp add: retry_limit_def resolveRetryConfig_def DEFAULT_MAX_TRANSIENT_RETRIES_def)
  have "resolveCronExecutionRetryHint (rr_error (timed_out 10 20)) (rc_retryOn (resolveRetryConfig (cd_config demo_deps))) None \<noteq> None"
    using timeout_is_transient by (simp add: resolveRetryConfig_def)
  then have "one_shot_runs demo_deps (concat (replicate 50 [(0, timed_out 10 20), (0, skip)])) job = 2 * 50"
    by (intro alternating_outcomes_never_end job limit) (simp_all add: skip_def HEARTBEAT_SKIP_DISABLED_def)
  then show ?thesis unfolding job_def skip_def by linarith
qed

section \<open>Recurring jobs\<close>

lemma staggered_next_future: "staggered_next env s off now n c = Inr (Some t) \<Longrightarrow> now < t"
  by (induction env s off now n c rule: staggered_next.induct)
     (auto simp: on_success_Inr split: option.splits if_splits)

lemma cron_job_next_future: "computeStaggeredCronNextRunAtMs env job now = Inr (Some t) \<Longrightarrow> now < t"
  by (auto simp: computeStaggeredCronNextRunAtMs_def dest: staggered_next_future future_next_run split: if_splits)

lemma every_job_next_future: "every_job_next env job e a now = Inr (Some t) \<Longrightarrow> now < t"
  by (auto simp: every_job_next_def Let_def dest: future_next_run split: option.splits if_splits)

lemma job_next_future:
  assumes "\<not> is_at (job_schedule job)" "computeJobNextRunAtMs env job now = Inr (Some t)"
  shows "now < t"
proof (cases "job_schedule job")
  case (SCron e z g)
  with assms(2) show ?thesis
    using next_second_later [of now]
    by (auto simp: computeJobNextRunAtMs_def on_success_Inr dest!: cron_job_next_future split: if_splits option.splits)
next
  case (SOnExit c d)
  with assms(2) show ?thesis
    by (auto simp: computeJobNextRunAtMs_def dest: cron_job_next_future split: if_splits)
qed (use assms in \<open>auto simp: computeJobNextRunAtMs_def dest: every_job_next_future split: if_splits\<close>)

text \<open>A computed time lies after the end of the run and leaves the job alone; a recorded schedule
  error leaves no time.\<close>

lemma normal_next_result:
  assumes "normal_next deps p f prev ended job = (n, job1, eff)"
  shows "job_schedule job1 = job_schedule job" "job_trigger job1 = job_trigger job"
    "js_consecutiveErrors (job_state job1) = js_consecutiveErrors (job_state job)"
    "n = Some t \<Longrightarrow> job1 = job" "\<not> is_at (job_schedule job) \<Longrightarrow> n = Some t \<Longrightarrow> ended < t"
proof -
  define r where "r = (if p \<and> is_every (job_schedule job) then computeNextWithPreservedLastRun (cd_env deps) prev job ended
      else if f \<and> is_every (job_schedule job) then computeNextRunAtMs (cd_env deps) (job_schedule job) ended
      else computeJobNextRunAtMs (cd_env deps) job ended)"
  have c: "catch_schedule_error r job = (n, job1, eff)"
    using assms by (simp add: normal_next_def r_def)
  show "job_schedule job1 = job_schedule job" "job_trigger job1 = job_trigger job"
    "js_consecutiveErrors (job_state job1) = js_consecutiveErrors (job_state job)" "n = Some t \<Longrightarrow> job1 = job"
    using c by (auto simp: catch_schedule_error_def recordScheduleComputeError_def Let_def split: sum.splits if_splits)
  assume "\<not> is_at (job_schedule job)" "n = Some t"
  moreover from this c have "r = Inr (Some t)"
    by (auto simp: catch_schedule_error_def split: sum.splits prod.splits)
  ultimately show "ended < t"
    using job_next_future [of "with_state (\<lambda>s. s\<lparr>js_lastRunAtMs := prev\<rparr>) job" "cd_env deps" ended t]
    by (auto simp: r_def computeNextWithPreservedLastRun_def dest: future_next_run job_next_future split: if_splits)
qed

text \<open>The smallest of the configured delays, or of the default ones where none is configured.\<close>

definition min_backoff :: "cron_config \<Rightarrow> int" where
  "min_backoff cfg = (case cc_backoffMs cfg of Some b \<Rightarrow> if b = [] then 30000 else Min (set b) | None \<Rightarrow> 30000)"

lemma errorBackoffMs_ge:
  assumes "\<And>x. x \<in> set sched \<Longrightarrow> d \<le> x" "sched = [] \<Longrightarrow> d \<le> 30000"
  shows "d \<le> errorBackoffMs n sched"
proof (cases "sched = []")
  case False
  then have "nat (max 0 (min (n - 1) (int (length sched) - 1))) < length sched" by (cases sched) auto
  then show ?thesis using assms(1) by (simp add: errorBackoffMs_def Let_def)
qed (use assms in \<open>simp add: errorBackoffMs_def DEFAULT_ERROR_BACKOFF_SCHEDULE_MS_def\<close>)

lemma min_backoff_le:
  "min_backoff cfg \<le> errorBackoffMs n (backoff_schedule cfg)"
  "min_backoff cfg \<le> errorBackoffMs n (rc_backoffMs (resolveRetryConfig cfg))"
proof -
  have le: "min_backoff cfg = 30000" if "cc_backoffMs cfg \<in> {None, Some []}"
    using that by (auto simp: min_backoff_def)
  have b: "min_backoff cfg \<le> x" if "cc_backoffMs cfg = Some b" "x \<in> set b" for b x
    using that by (auto simp: min_backoff_def)
  have d: "30000 \<le> x" if "x \<in> set DEFAULT_ERROR_BACKOFF_SCHEDULE_MS" for x
    using that by (auto simp: DEFAULT_ERROR_BACKOFF_SCHEDULE_MS_def)
  show "min_backoff cfg \<le> errorBackoffMs n (backoff_schedule cfg)"
    using le b d by (intro errorBackoffMs_ge) (auto simp: backoff_schedule_def DEFAULT_ERROR_BACKOFF_SCHEDULE_MS_def split: option.splits)
  show "min_backoff cfg \<le> errorBackoffMs n (rc_backoffMs (resolveRetryConfig cfg))"
    using le b d by (intro errorBackoffMs_ge)
      (auto simp: resolveRetryConfig_def DEFAULT_ERROR_BACKOFF_SCHEDULE_MS_def split: option.splits if_splits)
qed

lemma retry_delay_ge:
  "resolveTransientCronRetryDecision cfg e why n = Some d \<Longrightarrow> min_backoff cfg \<le> d"
  by (auto simp: resolveTransientCronRetryDecision_def Let_def min_backoff_le split: if_splits)

text \<open>The distance the scheduler keeps after the end of a run.\<close>

definition refire_gap :: "cron_config \<Rightarrow> cron_job \<Rightarrow> run_status \<Rightarrow> int" where
  "refire_gap cfg job status =
     (if status = RunError then min_backoff cfg
      else if is_cron (job_schedule job) then max 2000 (if job_trigger job \<noteq> None then resolveCronTriggerMinIntervalMs cfg else 0)
      else if job_trigger job \<noteq> None then resolveCronTriggerMinIntervalMs cfg else 1)"

lemma failed_next_run:
  assumes "next_run (fst (schedule_failed deps p r prev pe job)) = Some t"
  shows "rr_endedAt r + min_backoff (cd_config deps) \<le> t"
proof -
  define retry where "retry = resolveTransientCronRetryDecision (cd_config deps) (rr_error r)
            (js_lastErrorReason (job_state job)) (js_consecutiveErrors (job_state job))"
  obtain n job1 eff where nn: "normal_next deps p (retry \<noteq> None \<or> 0 < pe) prev (rr_endedAt r) job = (n, job1, eff)"
    by (metis prod_cases3)
  show ?thesis
    using assms min_backoff_le(1) [of "cd_config deps" "case js_consecutiveErrors (job_state job1) of Some c \<Rightarrow> c | None \<Rightarrow> 1"]
      retry_delay_ge [of "cd_config deps" "rr_error r" "js_lastErrorReason (job_state job)" "js_consecutiveErrors (job_state job)"]
    unfolding schedule_failed_def Let_def retry_def [symmetric] nn
    by (auto simp: resolveCronNextRunWithLowerBound_def split: option.split_asm if_split_asm)
qed

lemma finished_next_run:
  assumes "next_run (fst (schedule_finished deps p r prev pe job)) = Some t" "\<not> is_at (job_schedule job)" "rr_status r \<noteq> RunError"
  shows "rr_endedAt r + refire_gap (cd_config deps) job (rr_status r) \<le> t"
proof -
  obtain n job1 eff where nn: "normal_next deps p (0 < pe) prev (rr_endedAt r) job = (n, job1, eff)"
    by (metis prod_cases3)
  have future: "n = Some u \<Longrightarrow> rr_endedAt r < u" for u
    using normal_next_result(5) [OF nn assms(2)] .
  show ?thesis
    using assms future unfolding schedule_finished_def Let_def nn
    by (cases n) (auto simp: resolveCronNextRunWithLowerBound_def refire_gap_def trigger_floor_def MIN_REFIRE_GAP_MS_def
        split: if_split_asm)
qed

text \<open>C27: However a run of a recurring job ends and whatever the cron library answers,
  its next run, if it gets one, keeps its distance from the end of this run: after a failure at
  least the smallest of the configured backoff delays, whatever they are (30 seconds when none are
  configured), after a completed run of a cron job at least two seconds, of a job with a trigger
  also at least the operator's minimum interval for triggers, and otherwise it lies strictly
  later.\<close>

theorem no_refire_storm:
  assumes "\<not> is_at (job_schedule job)" "applyJobResult deps a p r job = (deleted, job1, effects)" "next_run job1 = Some t"
  shows "rr_endedAt r + refire_gap (cd_config deps) job (rr_status r) \<le> t"
proof -
  have job1: "job1 = fst (snd (applyJobResult deps a p r job))" by (simp add: assms(2))
  have gap: "refire_gap (cd_config deps) (counted deps a r job) st = refire_gap (cd_config deps) job st" for st
    by (simp add: refire_gap_def)
  show ?thesis
  proof (cases "rr_status r = RunError")
    case True
    then show ?thesis
      using assms(3) unfolding job1 applyJobResult_recurring [OF assms(1)]
      by (auto simp: refire_gap_def dest: failed_next_run split: if_split_asm)
  next
    case False
    then have "next_run (fst (schedule_finished deps p r (js_lastRunAtMs (job_state job))
        (or_zero (js_consecutiveErrors (job_state job))) (counted deps a r job))) = Some t"
      using assms(3) unfolding job1 applyJobResult_recurring [OF assms(1)] by (simp split: if_split_asm)
    from finished_next_run [OF this] show ?thesis using assms(1) False by (simp add: gap)
  qed
qed


lemma hourly_trim: "js_trim ''0 * * * *'' = ''0 * * * *''"
  by (rule js_trim_fixed) (simp add: is_ws_def)

definition hourly_schedule :: cron_schedule where
  "hourly_schedule = SCron (JStr ''0 * * * *'') None (JNum 0)"

lemma hourly_kinds [simp]: "is_cron hourly_schedule" "\<not> is_at hourly_schedule" "\<not> is_every hourly_schedule"
  by (simp_all add: hourly_schedule_def)

lemma hourly_next:
  "job_schedule job = hourly_schedule \<Longrightarrow> isJobEnabled job
     \<Longrightarrow> computeJobNextRunAtMs hourly_env job now = Inr (Some ((now div 3600000 + 1) * 3600000))"
proof -
  assume job: "job_schedule job = hourly_schedule" "isJobEnabled job"
  have "now < 3600000 * (now div 3600000) + 3600000" by (rule div_bounds) simp
  then have hour: "computeNextRunAtMs hourly_env hourly_schedule now = Inr (Some ((now div 3600000 + 1) * 3600000))"
    by (simp add: computeNextRunAtMs_def hourly_schedule_def resolveCronFromSchedule_def hourly_trim cron_next_run_def hourly_env_def algebra_simps)
  have "job_offset hourly_env job = 0"
    by (simp add: job_offset_def job(1) hourly_schedule_def resolveCronStaggerMs_def normalizeCronStaggerMs_def resolveStableCronOffsetMs_def)
  with hour job show "computeJobNextRunAtMs hourly_env job now = Inr (Some ((now div 3600000 + 1) * 3600000))"
    by (simp add: computeJobNextRunAtMs_def computeStaggeredCronNextRunAtMs_def hourly_schedule_def)
qed

lemma hourly_run:
  "fst (snd (applyJobResult demo_deps 0 False (finished_ok 3600000 3600500) (demo_job hourly_schedule)))
     = set_next (Some 7200000) (counted demo_deps 0 (finished_ok 3600000 3600500) (demo_job hourly_schedule))"
proof -
  have en: "isJobEnabled (demo_job hourly_schedule)" by (simp add: isJobEnabled_def)
  show ?thesis
    using hourly_next [of "counted demo_deps 0 (finished_ok 3600000 3600500) (demo_job hourly_schedule)" 3600500] en
    by (simp add: applyJobResult_recurring schedule_finished_def Let_def normal_next_def catch_schedule_error_def
        resolveCronNextRunWithLowerBound_def trigger_floor_def MIN_REFIRE_GAP_MS_def)
qed

text \<open>With delays of ten and of forty minutes configured, a run that fails shortly before the hour
  is not repeated at the full hour.\<close>

definition patient_deps :: cron_deps where
  "patient_deps = demo_deps\<lparr>cd_config := no_config\<lparr>cc_backoffMs := Some [600000, 2400000]\<rparr>\<rparr>"

lemma patient_run:
  "next_run (fst (snd (applyJobResult patient_deps 0 False (timed_out 7100000 7190000) (demo_job hourly_schedule)))) = Some 7790000"
proof -
  have deps: "cd_env patient_deps = hourly_env" "cc_backoffMs (cd_config patient_deps) = Some [600000, 2400000]"
    by (simp_all add: patient_deps_def)
  have en: "isJobEnabled (demo_job hourly_schedule)" by (simp add: isJobEnabled_def)
  have errs: "or_zero (js_consecutiveErrors (job_state (demo_job hourly_schedule))) = 0"
    by (simp add: demo_job_def empty_job_state_def or_zero_def)
  define k where "k = counted patient_deps 0 (timed_out 7100000 7190000) (demo_job hourly_schedule)"
  have k: "job_schedule k = hourly_schedule" "isJobEnabled k" "js_consecutiveErrors (job_state k) = Some 1"
    using en errs by (simp_all add: k_def)
  have normal: "normal_next patient_deps False f prev 7190000 k = (Some 7200000, k, [])" for f prev
    using hourly_next [OF k(1,2), of 7190000] by (simp add: normal_next_def catch_schedule_error_def deps k(1))
  have delay: "errorBackoffMs 1 (backoff_schedule (cd_config patient_deps)) = 600000"
    by (simp add: errorBackoffMs_def backoff_schedule_def deps)
  have retry: "resolveTransientCronRetryDecision (cd_config patient_deps) e why (Some 1) \<in> {None, Some 600000}" for e why
    by (simp add: resolveTransientCronRetryDecision_def Let_def resolveRetryConfig_def deps or_zero_def errorBackoffMs_def)
  have "fst (schedule_failed patient_deps False (timed_out 7100000 7190000) prev pe k) = set_next (Some 7790000) k" for prev pe
    using retry [of "Some ''timeout''" "js_lastErrorReason (job_state k)"]
    by (auto simp: schedule_failed_def Let_def normal delay k)
  then show ?thesis using en by (simp add: applyJobResult_recurring k_def)
qed

theorem no_refire_storm_witness:
  "7190000 + refire_gap (cd_config patient_deps) (demo_job hourly_schedule) RunError \<le> 7790000
    \<and> refire_gap (cd_config patient_deps) (demo_job hourly_schedule) RunError = 600000"
proof -
  define x where "x = applyJobResult patient_deps 0 False (timed_out 7100000 7190000) (demo_job hourly_schedule)"
  have "x = (fst x, fst (snd x), snd (snd x))" by simp
  moreover have "next_run (fst (snd x)) = Some 7790000" by (simp add: x_def patient_run)
  moreover have "refire_gap (cd_config patient_deps) (demo_job hourly_schedule) RunError = 600000"
    by (simp add: refire_gap_def min_backoff_def patient_deps_def)
  ultimately show ?thesis
    using no_refire_storm [of "demo_job hourly_schedule" patient_deps 0 False "timed_out 7100000 7190000" "fst x" "fst (snd x)" "snd (snd x)" 7790000]
    by (simp flip: x_def)
qed

section \<open>Recurring jobs keep running\<close>

text \<open>The next cron run depends on the schedule and the id of a job, not on its state.\<close>

lemma cron_next_cong:
  assumes "job_schedule j = job_schedule k" "job_id j = job_id k" "isJobEnabled j = isJobEnabled k" "is_cron (job_schedule k)"
  shows "computeJobNextRunAtMs env j now = computeJobNextRunAtMs env k now"
proof -
  have "job_offset env j = job_offset env k"
    using assms(1,2) by (cases "job_schedule k") (simp_all add: job_offset_def)
  then have "computeStaggeredCronNextRunAtMs env j = computeStaggeredCronNextRunAtMs env k"
    using assms(1) by (intro ext) (simp add: computeStaggeredCronNextRunAtMs_def)
  with assms show ?thesis by (auto simp: computeJobNextRunAtMs_def is_cron_def split: cron_schedule.splits)
qed

text \<open>A job that has a natural next run at a time: an interval that is a number, or an expression
  for which the cron library finds one.\<close>

definition has_natural_next :: "cron_env \<Rightarrow> cron_job \<Rightarrow> int \<Rightarrow> bool" where
  "has_natural_next env job now = (case job_schedule job of
     SEvery everyMs _ \<Rightarrow> coerceFiniteScheduleNumber everyMs \<noteq> None
   | SCron _ _ _ \<Rightarrow> (case computeJobNextRunAtMs env job now of Inr (Some _) \<Rightarrow> True | _ \<Rightarrow> False)
   | _ \<Rightarrow> False)"

lemma coerce_JNum [simp]: "coerceFiniteScheduleNumber (JNum n) = Some n"
  by (simp add: coerceFiniteScheduleNumber_def parseStrictFiniteNumber_def)

lemma every_next_some:
  "job_schedule job = SEvery e a \<Longrightarrow> coerceFiniteScheduleNumber e \<noteq> None \<Longrightarrow> isJobEnabled job
     \<Longrightarrow> \<exists>t. computeJobNextRunAtMs env job now = Inr (Some t)"
  by (auto simp: computeJobNextRunAtMs_def every_job_next_def Let_def computeNextRunAtMs_def split: option.split)

lemma normal_next_some:
  assumes "has_natural_next (cd_env deps) job ended" "isJobEnabled job"
    and same: "job_schedule k = job_schedule job" "job_id k = job_id job" "isJobEnabled k = isJobEnabled job"
  shows "\<exists>n. normal_next deps p f prev ended k = (Some n, k, [])"
proof (cases "job_schedule job")
  case (SEvery e a)
  have some: "\<exists>t. computeJobNextRunAtMs (cd_env deps) k' ended = Inr (Some t)"
    if "job_schedule k' = SEvery e a" "isJobEnabled k'" for k'
    using assms(1) SEvery by (intro every_next_some [OF that(1) _ that(2)]) (simp add: has_natural_next_def)
  have "\<exists>t. computeNextRunAtMs (cd_env deps) (SEvery e a) ended = Inr (Some t)"
    using assms(1) SEvery by (auto simp: has_natural_next_def computeNextRunAtMs_def)
  moreover have "isJobEnabled (with_state (\<lambda>s. s\<lparr>js_lastRunAtMs := prev\<rparr>) k)"
    using assms(2) same(3) by (simp add: isJobEnabled_def)
  ultimately show ?thesis
    using some [of k] some [of "with_state (\<lambda>s. s\<lparr>js_lastRunAtMs := prev\<rparr>) k"] same SEvery assms(2)
    by (auto simp: normal_next_def catch_schedule_error_def computeNextWithPreservedLastRun_def)
next
  case (SCron e z g)
  then have "computeJobNextRunAtMs (cd_env deps) k ended = computeJobNextRunAtMs (cd_env deps) job ended"
    using same by (intro cron_next_cong) auto
  with SCron assms(1) same(1) show ?thesis
    by (auto simp: normal_next_def catch_schedule_error_def has_natural_next_def split: sum.splits option.splits)
qed (use assms(1) in \<open>simp_all add: has_natural_next_def\<close>)

lemma recurring_result:
  assumes "isJobEnabled job" "has_natural_next (cd_env deps) job (rr_endedAt r)"
    and "applyJobResult deps a p r job = (deleted, job1, effects)"
  shows "\<not> deleted \<and> isJobEnabled job1 \<and> js_runningAtMs (job_state job1) = None \<and> (\<exists>t. next_run job1 = Some t) \<and>
    job_id job1 = job_id job \<and> job_trigger job1 = job_trigger job"
proof -
  define k where "k = counted deps a r job"
  have sched: "\<not> is_at (job_schedule job)" using assms(2) by (auto simp: has_natural_next_def is_at_def split: cron_schedule.splits)
  have k: "job_schedule k = job_schedule job" "job_id k = job_id job" "job_trigger k = job_trigger job" "isJobEnabled k = isJobEnabled job" "js_runningAtMs (job_state k) = None"
    by (simp_all add: k_def)
  have job1: "job1 = fst (snd (applyJobResult deps a p r job))" "\<not> deleted"
    using assms(3) sched by (auto simp: applyJobResult_def Let_def split_beta split: if_splits)
  have "\<exists>n. \<forall>f. normal_next deps p f (js_lastRunAtMs (job_state job)) (rr_endedAt r) k = (Some (n f), k, [])"
    using normal_next_some [OF assms(2,1) k(1,2,4)] by (intro choice) blast
  then obtain n where n: "normal_next deps p f (js_lastRunAtMs (job_state job)) (rr_endedAt r) k = (Some (n f), k, [])" for f
    by blast
  have "\<exists>t. job1 = set_next (Some t) k"
    using assms(1) unfolding job1 applyJobResult_recurring [OF sched] k_def [symmetric]
    by (auto simp: schedule_failed_def schedule_finished_def Let_def n resolveCronNextRunWithLowerBound_def split: option.split)
  with job1(2) k assms(1) show ?thesis by (auto simp: isJobEnabled_def)
qed

text \<open>A quiet tick of a trigger, whose script asked for no run, computes the next time too.\<close>

lemma trigger_state_frame [simp]:
  "job_id (applyTriggerEvaluationState e t job) = job_id job" "job_schedule (applyTriggerEvaluationState e t job) = job_schedule job"
  "job_enabled (applyTriggerEvaluationState e t job) = job_enabled job"
  "js_runningAtMs (job_state (applyTriggerEvaluationState e t job)) = js_runningAtMs (job_state job)"
  "next_run (applyTriggerEvaluationState e t job) = next_run job"
  by (simp_all add: applyTriggerEvaluationState_def)

lemma quiet_result:
  assumes "isJobEnabled job" "has_natural_next (cd_env deps) job ended"
  shows "\<exists>t k. fst (applyTriggerNoFireResult deps ended e job) = set_next (Some t) k \<and> job_id k = job_id job \<and>
    isJobEnabled k \<and> js_runningAtMs (job_state k) = None"
proof -
  define k where "k = (let job1 = (with_state (\<lambda>s. s\<lparr>js_runningAtMs := None\<rparr>) job)\<lparr>job_updatedAtMs := ended\<rparr>
      in if te_busy e then job1 else applyTriggerEvaluationState e ended (with_state (\<lambda>s. s\<lparr>js_consecutiveErrors := Some 0,
        js_scheduleErrorCount := Some 0, js_lastFailureAlertAtMs := None\<rparr>) job1))"
  have frame: "job_schedule k = job_schedule job" "job_id k = job_id job" "job_enabled k = job_enabled job" "js_runningAtMs (job_state k) = None"
    by (auto simp: k_def Let_def)
  then have en: "isJobEnabled k = isJobEnabled job" by (intro isJobEnabled_cong)
  obtain n where n: "normal_next deps False False None ended k = (Some n, k, [])"
    using normal_next_some [OF assms(2,1) frame(1,2) en] by blast
  then have "computeJobNextRunAtMs (cd_env deps) k ended = Inr (Some n)"
    by (auto simp: normal_next_def catch_schedule_error_def recordScheduleComputeError_def Let_def split: sum.splits if_splits)
  then have "fst (applyTriggerNoFireResult deps ended e job) = set_next (Some (max n (ended + max MIN_REFIRE_GAP_MS
      (resolveCronTriggerMinIntervalMs (cd_config deps))))) k"
    by (simp add: applyTriggerNoFireResult_def Let_def k_def)
  with frame en assms(1) show ?thesis by blast
qed

text \<open>The one outcome that ends a recurring job: its trigger is to fire once, and the run it fired
  succeeded.\<close>

definition spends_trigger :: "run_outcome \<Rightarrow> cron_job \<Rightarrow> bool" where
  "spends_trigger outcome job \<longleftrightarrow> rr_status outcome = RunOk \<and>
     (case ro_triggerEval outcome of Some e \<Rightarrow> te_fired e | None \<Rightarrow> False) \<and>
     (case job_trigger job of Some t \<Rightarrow> tr_once t = Some True | None \<Rightarrow> False)"

text \<open>C28: A recurring job does not fall off the schedule: when the outcome of a
  run reaches the store and the stored job is enabled and has a natural next run (its interval is a
  number, or the cron library finds a run), then whatever the outcome is and however often the job
  has failed before, it stays in the store, stays enabled, is no longer marked as running and has a
  time for its next run. Quiet ticks of a trigger are outcomes too. The one exception, as
  documented: a successful run fired by a trigger with once set ends the job.\<close>

theorem recurring_job_keeps_running:
  assumes "find_job (ro_jobId outcome) (st_jobs store) = Some job"
    and "isJobEnabled job" "has_natural_next (cd_env deps) job (rr_endedAt outcome)" "\<not> spends_trigger outcome job"
  shows "\<exists>job1. find_job (ro_jobId outcome) (st_jobs (applyOutcomeToStoredJob deps a outcome store)) = Some job1 \<and>
    isJobEnabled job1 \<and> js_runningAtMs (job_state job1) = None \<and> (\<exists>t. next_run job1 = Some t)"
proof (cases "quiet_tick outcome")
  case True
  from quiet_result [OF assms(2,3)] obtain t k
    where k: "fst (applyTriggerNoFireResult deps (rr_endedAt outcome) (the (ro_triggerEval outcome)) job) = set_next (Some t) k"
      "job_id k = job_id job" "isJobEnabled k" "js_runningAtMs (job_state k) = None" by blast
  have "find_job (ro_jobId outcome) (st_jobs (applyOutcomeToStoredJob deps a outcome store)) = Some (set_next (Some t) k)"
    using True assms(1) find_job_id [OF assms(1)] k by (simp add: applyOutcomeToStoredJob_def split_beta find_put_job)
  with k show ?thesis by (auto simp: isJobEnabled_def)
next
  case False
  obtain d job1 eff where run: "applyJobResult deps a False (run_result.truncate outcome) job = (d, job1, eff)"
    by (metis prod_cases3)
  define job2 where "job2 = applyTriggerRunResult (rr_status outcome) (rr_endedAt outcome) (ro_triggerEval outcome) job1"
  have ended: "rr_endedAt (run_result.truncate outcome) = rr_endedAt outcome" by (simp add: run_result.defs)
  have r: "\<not> d" "isJobEnabled job1" "js_runningAtMs (job_state job1) = None" "\<exists>t. next_run job1 = Some t"
    and ids: "job_id job1 = job_id job" "job_trigger job1 = job_trigger job"
    using recurring_result [OF assms(2) _ run] assms(3) by (simp_all add: ended)
  have "\<not> spends_trigger outcome job1" using assms(4) ids by (simp add: spends_trigger_def)
  then have job2: "isJobEnabled job2" "js_runningAtMs (job_state job2) = None" "\<exists>t. next_run job2 = Some t" "job_id job2 = job_id job"
    using r ids by (auto simp: job2_def applyTriggerRunResult_def spends_trigger_def Let_def isJobEnabled_def split: option.splits)
  have "find_job (ro_jobId outcome) (st_jobs (applyOutcomeToStoredJob deps a outcome store)) = Some job2"
    using False assms(1) find_job_id [OF assms(1)] r(1) job2(4)
    by (simp add: applyOutcomeToStoredJob_def run job2_def [symmetric] Let_def find_put_job)
  with job2 show ?thesis by blast
qed

definition failed_outcome :: "cron_job \<Rightarrow> run_outcome" where
  "failed_outcome job = run_result.extend (timed_out 3600000 3600500)
     \<lparr>ro_jobId = job_id job, ro_job = job, ro_triggerEval = None\<rparr>"

theorem recurring_job_keeps_running_witness:
  "\<exists>job1. find_job ''j'' (st_jobs (applyOutcomeToStoredJob demo_deps 0 (failed_outcome (demo_job hourly_schedule))
      \<lparr>st_jobs = [demo_job hourly_schedule], st_deferrals = [], st_effects = []\<rparr>)) = Some job1 \<and>
    isJobEnabled job1 \<and> js_runningAtMs (job_state job1) = None \<and> (\<exists>t. next_run job1 = Some t)"
proof -
  define outcome where "outcome = failed_outcome (demo_job hourly_schedule)"
  define store where "store = \<lparr>st_jobs = [demo_job hourly_schedule], st_deferrals = [], st_effects = []\<rparr>"
  have o: "ro_jobId outcome = ''j''" "rr_endedAt outcome = 3600500" "rr_status outcome = RunError"
    by (simp_all add: outcome_def failed_outcome_def timed_out_def run_result.defs)
  have en: "isJobEnabled (demo_job hourly_schedule)" by (simp add: isJobEnabled_def)
  have nat: "has_natural_next (cd_env demo_deps) (demo_job hourly_schedule) (rr_endedAt outcome)"
    using hourly_next [of "demo_job hourly_schedule" 3600500] en by (simp add: has_natural_next_def o) (simp add: hourly_schedule_def)
  have "find_job (ro_jobId outcome) (st_jobs store) = Some (demo_job hourly_schedule)"
    by (simp add: o store_def find_job_def)
  moreover have "\<not> spends_trigger outcome (demo_job hourly_schedule)" by (simp add: spends_trigger_def o)
  ultimately show ?thesis
    using recurring_job_keeps_running [OF _ en nat, of store 0] by (simp add: o outcome_def [symmetric] store_def [symmetric])
qed

section \<open>A stored time is one at which the job runs\<close>

lemma default_backoff: "errorBackoffMs n DEFAULT_ERROR_BACKOFF_SCHEDULE_MS =
  (if n \<le> 1 then 30000 else if n = 2 then 60000 else if n = 3 then 300000 else if n = 4 then 900000 else 3600000)"
proof -
  consider "n \<le> 1" | "n = 2" | "n = 3" | "n = 4" | "5 \<le> n" by linarith
  then show ?thesis
    by cases (simp_all add: errorBackoffMs_def DEFAULT_ERROR_BACKOFF_SCHEDULE_MS_def Let_def)
qed

lemma retry_backoff: "errorBackoffMs n (take 3 DEFAULT_ERROR_BACKOFF_SCHEDULE_MS) =
  (if n \<le> 1 then 30000 else if n = 2 then 60000 else 300000)"
proof -
  consider "n \<le> 1" | "n = 2" | "3 \<le> n" by linarith
  then show ?thesis
    by cases (simp_all add: errorBackoffMs_def DEFAULT_ERROR_BACKOFF_SCHEDULE_MS_def Let_def)
qed

text \<open>The retry delay is not shorter than the backoff that holds the job back, when the delays are
  configured or the limit is at most the number of default delays.\<close>

definition consistent_retry :: "cron_config \<Rightarrow> bool" where
  "consistent_retry cfg \<longleftrightarrow> cc_backoffMs cfg \<noteq> None \<or> rc_maxAttempts (resolveRetryConfig cfg) \<le> 3"

lemma retry_covers_backoff:
  assumes "consistent_retry cfg" "resolveTransientCronRetryDecision cfg e why (Some n) = Some d"
  shows "errorBackoffMs n (backoff_schedule cfg) \<le> d"
proof (cases "cc_backoffMs cfg")
  case None
  with assms have "n \<le> 3" "d = errorBackoffMs n (take 3 DEFAULT_ERROR_BACKOFF_SCHEDULE_MS)"
    by (auto simp: consistent_retry_def resolveTransientCronRetryDecision_def Let_def or_zero_def resolveRetryConfig_def split: if_splits)
  with None show ?thesis by (simp add: backoff_schedule_def default_backoff retry_backoff)
next
  case (Some b)
  with assms(2) have "d = errorBackoffMs n (if b \<noteq> [] then b else take 3 DEFAULT_ERROR_BACKOFF_SCHEDULE_MS)"
    by (auto simp: resolveTransientCronRetryDecision_def Let_def or_zero_def resolveRetryConfig_def split: if_splits)
  then show ?thesis
    using Some by (cases "b = []") (simp_all add: backoff_schedule_def retry_backoff, simp add: errorBackoffMs_def Let_def DEFAULT_ERROR_BACKOFF_SCHEDULE_MS_def)
qed

lemma backoff_pending_error:
  assumes "js_lastRunStatus (job_state job) = Some RunError" "js_lastRunAtMs (job_state job) = Some started"
    "js_lastDurationMs (job_state job) = Some (ended - started)" "started \<le> ended"
    "js_consecutiveErrors (job_state job) = Some c" "1 \<le> c"
    "ended + errorBackoffMs c (backoff_schedule cfg) \<le> now"
  shows "\<not> isErrorBackoffPending cfg job now"
  using assms by (simp add: isErrorBackoffPending_def resolveJobErrorBackoffUntilMs_def resolveJobLastRunStatus_def Let_def)

lemma runnableI:
  assumes "isJobEnabled job" "js_runningAtMs (job_state job) = None" "next_run job = Some t" "0 < t" "t \<le> now"
    "\<not> isErrorBackoffPending (cd_config deps) job now"
  shows "isRunnableJob deps tick_opts now job"
  using assms by (simp add: isRunnableJob_def tick_opts_def is_due_def)

lemma not_error_not_pending:
  "js_lastRunStatus (job_state job) = Some st \<Longrightarrow> st \<noteq> RunError \<Longrightarrow> \<not> isErrorBackoffPending cfg job now"
  by (simp add: isErrorBackoffPending_def resolveJobLastRunStatus_def)

text \<open>A failed run leaves a time after the backoff that holds the job back.\<close>

lemma failed_after_backoff:
  assumes "js_consecutiveErrors (job_state k) = Some c" "consistent_retry (cd_config deps)"
    and t: "next_run (fst (schedule_failed deps p r prev pe k)) = Some t"
  shows "rr_endedAt r + errorBackoffMs c (backoff_schedule (cd_config deps)) \<le> t"
proof -
  define retry where "retry = resolveTransientCronRetryDecision (cd_config deps) (rr_error r)
            (js_lastErrorReason (job_state k)) (js_consecutiveErrors (job_state k))"
  obtain n job1 eff where nn: "normal_next deps p (retry \<noteq> None \<or> 0 < pe) prev (rr_endedAt r) k = (n, job1, eff)"
    by (metis prod_cases3)
  have "js_consecutiveErrors (job_state job1) = Some c" using normal_next_result(3) [OF nn] assms(1) by simp
  moreover have "retry = Some d \<Longrightarrow> errorBackoffMs c (backoff_schedule (cd_config deps)) \<le> d" for d
    using retry_covers_backoff [OF assms(2)] assms(1) unfolding retry_def by simp
  ultimately show ?thesis
    using t unfolding schedule_failed_def Let_def retry_def [symmetric] nn
    by (auto simp: resolveCronNextRunWithLowerBound_def split: option.split_asm if_split_asm)
qed

lemma schedule_failed_state:
  "js_runningAtMs (job_state k) = None \<Longrightarrow> js_runningAtMs (job_state (fst (schedule_failed deps p r prev pe k))) = None"
  "js_lastRunStatus (job_state (fst (schedule_failed deps p r prev pe k))) = js_lastRunStatus (job_state k)"
  "js_lastRunAtMs (job_state (fst (schedule_failed deps p r prev pe k))) = js_lastRunAtMs (job_state k)"
  "js_lastDurationMs (job_state (fst (schedule_failed deps p r prev pe k))) = js_lastDurationMs (job_state k)"
  "js_consecutiveErrors (job_state (fst (schedule_failed deps p r prev pe k))) = js_consecutiveErrors (job_state k)"
  by (auto simp: schedule_failed_def normal_next_def catch_schedule_error_def recordScheduleComputeError_def Let_def split_beta
      split: sum.split)

lemma schedule_finished_state:
  "js_runningAtMs (job_state k) = None \<Longrightarrow> js_runningAtMs (job_state (fst (schedule_finished deps p r prev pe k))) = None"
  "js_lastRunStatus (job_state (fst (schedule_finished deps p r prev pe k))) = js_lastRunStatus (job_state k)"
  by (auto simp: schedule_finished_def normal_next_def catch_schedule_error_def recordScheduleComputeError_def Let_def split_beta
      split: sum.split)

text \<open>C17: A time the scheduler stores after a run is one at which the job does
  run: from that time on the next tick finds the job due, for one-shot, interval and cron jobs and
  after successes and failures alike. After a failure this needs the retry delay to cover the
  backoff that holds the job back, which it does when backoff delays are configured or the retry
  limit is at most three, as by default.\<close>

theorem scheduled_run_is_runnable:
  assumes "applyJobResult deps a p r job = (deleted, job1, effects)" "isJobEnabled job1" "next_run job1 = Some t" "0 < t" "t \<le> now"
    and "consistent_retry (cd_config deps)" "rr_startedAt r \<le> rr_endedAt r"
    and "0 \<le> or_zero (js_consecutiveErrors (job_state job))" "\<not> deleted"
  shows "isRunnableJob deps tick_opts now job1"
proof (cases "is_at (job_schedule job)")
  case True
  have "snd (applyJobResult deps a p r job) = (job1, effects)" by (simp add: assms(1))
  moreover have "\<not> (job_deleteAfterRun job = Some True \<and> rr_status r = RunOk)"
    using True assms(1,9) by (auto simp: applyJobResult_def Let_def split_beta)
  ultimately have "job1 = schedule_one_shot deps r (counted deps a r job)"
    unfolding applyJobResult_at [OF True] by (auto split: if_splits)
  then have "js_runningAtMs (job_state job1) = None" "is_at (job_schedule job1)"
    using True by (auto simp: schedule_one_shot_def disable_job_def set_next_def split: option.split)
  with assms show ?thesis by (intro runnableI) (simp_all add: isErrorBackoffPending_def)
next
  case False
  define k where "k = counted deps a r job"
  have job1: "job1 = fst (snd (applyJobResult deps a p r job))" by (simp add: assms(1))
  have en: "isJobEnabled job"
    using assms(3) unfolding job1 applyJobResult_recurring [OF False] by (auto split: if_splits)
  show ?thesis
  proof (cases "rr_status r = RunError")
    case True
    define c where "c = or_zero (js_consecutiveErrors (job_state job)) + 1"
    have job1: "job1 = fst (schedule_failed deps p r (js_lastRunAtMs (job_state job)) (or_zero (js_consecutiveErrors (job_state job))) k)"
      using en True unfolding job1 applyJobResult_recurring [OF False] by (simp add: k_def)
    have c: "js_consecutiveErrors (job_state k) = Some c" using True by (simp add: k_def c_def)
    have "rr_endedAt r + errorBackoffMs c (backoff_schedule (cd_config deps)) \<le> t"
      using failed_after_backoff [OF c assms(6)] assms(3) unfolding job1 by blast
    then have "\<not> isErrorBackoffPending (cd_config deps) job1 now"
      using assms(5,7,8) True c unfolding job1
      by (intro backoff_pending_error [of _ "rr_startedAt r" "rr_endedAt r" c]) (simp_all add: schedule_failed_state k_def c_def)
    moreover have "js_runningAtMs (job_state job1) = None" unfolding job1 by (simp add: schedule_failed_state k_def)
    ultimately show ?thesis using assms by (intro runnableI) auto
  next
    case False
    have job1: "job1 = fst (schedule_finished deps p r (js_lastRunAtMs (job_state job)) (or_zero (js_consecutiveErrors (job_state job))) k)"
      using en False unfolding job1 applyJobResult_recurring [OF \<open>\<not> is_at (job_schedule job)\<close>] by (simp add: k_def)
    have "\<not> isErrorBackoffPending (cd_config deps) job1 now"
      using False unfolding job1 by (intro not_error_not_pending [where st = "rr_status r"]) (simp_all add: schedule_finished_state k_def)
    moreover have "js_runningAtMs (job_state job1) = None" unfolding job1 by (simp add: schedule_finished_state k_def)
    ultimately show ?thesis using assms by (intro runnableI) auto
  qed
qed

theorem scheduled_run_is_runnable_witness:
  "isRunnableJob demo_deps tick_opts 7200000
    (fst (snd (applyJobResult demo_deps 0 False (finished_ok 3600000 3600500) (demo_job hourly_schedule))))"
proof -
  define x where "x = applyJobResult demo_deps 0 False (finished_ok 3600000 3600500) (demo_job hourly_schedule)"
  have x: "x = (fst x, fst (snd x), snd (snd x))" by simp
  have "\<not> fst x" by (simp add: x_def applyJobResult_def Let_def split_beta)
  moreover have "isJobEnabled (fst (snd x))" "next_run (fst (snd x)) = Some 7200000"
    by (simp_all add: x_def hourly_run isJobEnabled_def)
  moreover have "consistent_retry (cd_config demo_deps)"
    by (simp add: consistent_retry_def resolveRetryConfig_def DEFAULT_MAX_TRANSIENT_RETRIES_def)
  ultimately show ?thesis
    using scheduled_run_is_runnable [of demo_deps 0 False "finished_ok 3600000 3600500" "demo_job hourly_schedule"
        "fst x" "fst (snd x)" "snd (snd x)" 7200000 7200000] x
    by (simp add: or_zero_def flip: x_def)
qed

section \<open>Two exceptions\<close>

text \<open>Beyond the three default retry delays the retry of a recurring job is stored at a time at
  which the longer default backoff still holds the job back: with six attempts the fourth failure
  of an hourly job stores a retry after five minutes, and only after a quarter of an hour it runs.\<close>

definition six_attempts :: cron_deps where
  "six_attempts = demo_deps\<lparr>cd_config := no_config\<lparr>cc_maxAttempts := Some 6\<rparr>\<rparr>"

definition failed_thrice :: cron_job where
  "failed_thrice = with_state (\<lambda>s. s\<lparr>js_consecutiveErrors := Some 3\<rparr>) (demo_job hourly_schedule)"

lemma default_retry_blocked:
  defines "job1 \<equiv> fst (snd (applyJobResult six_attempts 0 False (timed_out 3600000 3600500) failed_thrice))"
  shows "next_run job1 = Some 3900500" "\<not> isRunnableJob six_attempts tick_opts 3900500 job1"
    "isRunnableJob six_attempts tick_opts 4500500 job1"
proof -
  define k where "k = counted six_attempts 0 (timed_out 3600000 3600500) failed_thrice"
  have env: "cd_env six_attempts = hourly_env" "cd_config six_attempts = no_config\<lparr>cc_maxAttempts := Some 6\<rparr>"
    by (simp_all add: six_attempts_def)
  have job: "job_schedule failed_thrice = hourly_schedule" "isJobEnabled failed_thrice"
    "js_consecutiveErrors (job_state failed_thrice) = Some 3"
    by (simp_all add: failed_thrice_def isJobEnabled_def)
  have k: "job_schedule k = hourly_schedule" "isJobEnabled k" "js_consecutiveErrors (job_state k) = Some 4"
    "js_lastRunStatus (job_state k) = Some RunError" "js_lastRunAtMs (job_state k) = Some 3600000"
    "js_lastDurationMs (job_state k) = Some 500" "js_runningAtMs (job_state k) = None"
    by (simp_all add: k_def job or_zero_def)
  have retry: "resolveTransientCronRetryDecision (cd_config six_attempts) (Some ''timeout'') why (Some 4) = Some 300000" for why
    using hint_any_reason [OF timeout_is_transient, of why]
    by (simp add: resolveTransientCronRetryDecision_def resolveRetryConfig_def env Let_def or_zero_def retry_backoff)
  have "job1 = set_next (Some 3900500) k"
    unfolding job1_def applyJobResult_recurring [of failed_thrice, unfolded job, OF hourly_kinds(2)]
    using hourly_next [OF k(1,2), of 3600500]
    by (simp add: job schedule_failed_def Let_def retry [unfolded env] k k_def [symmetric] env normal_next_def catch_schedule_error_def)
  then have job1: "next_run job1 = Some 3900500" "isJobEnabled job1 = isJobEnabled k" "job_schedule job1 = hourly_schedule"
    "resolveJobErrorBackoffUntilMs job1 sch = resolveJobErrorBackoffUntilMs k sch" "js_runningAtMs (job_state job1) = None"
    "resolveJobLastRunStatus job1 = Some RunError" for sch
    by (simp_all add: k isJobEnabled_def resolveJobErrorBackoffUntilMs_def resolveJobLastRunStatus_def)
  have "resolveJobErrorBackoffUntilMs k (backoff_schedule (cd_config six_attempts)) = Some 4500500"
    by (simp add: resolveJobErrorBackoffUntilMs_def resolveJobLastRunStatus_def k env backoff_schedule_def default_backoff)
  then have pending: "isErrorBackoffPending (cd_config six_attempts) job1 now \<longleftrightarrow> now < 4500500" for now
    by (simp add: isErrorBackoffPending_def job1)
  show "next_run job1 = Some 3900500" by (rule job1)
  show "\<not> isRunnableJob six_attempts tick_opts 3900500 job1"
    by (simp add: isRunnableJob_def tick_opts_def pending)
  show "isRunnableJob six_attempts tick_opts 4500500 job1"
    by (rule runnableI [where t = 3900500]) (simp_all add: job1 k pending)
qed

text \<open>An event-driven job is given a time by a failed run, and the timer then runs it without its
  event.\<close>

lemma on_exit_rearmed:
  assumes "job_schedule job = SOnExit command cwd" "isJobEnabled job" "rr_status r = RunError"
  shows "next_run (fst (snd (applyJobResult deps a False r job)))
    = Some (rr_endedAt r + errorBackoffMs (or_zero (js_consecutiveErrors (job_state job)) + 1) (backoff_schedule (cd_config deps)))"
proof -
  have kinds: "\<not> is_at (job_schedule job)" "\<not> is_cron (job_schedule job)" "\<not> is_every (job_schedule job)"
    using assms(1) by simp_all
  have "job_offset (cd_env deps) (counted deps a r job) = 0" using assms(1) by (simp add: job_offset_def)
  then have "normal_next deps False f prev e (counted deps a r job) = (None, counted deps a r job, [])" for f prev e
    using assms(1,2) by (simp add: normal_next_def catch_schedule_error_def computeJobNextRunAtMs_def
        computeStaggeredCronNextRunAtMs_def computeNextRunAtMs_def)
  then show ?thesis
    using assms(2,3) kinds unfolding applyJobResult_recurring [OF kinds(1)]
    by (simp add: schedule_failed_def Let_def split: option.split)
qed

end
