(* ===== verification/CronPasses.thy ===== *)
theory CronPasses
  imports CronTimer
begin

text \<open>
  What the scheduler guarantees about the store as a whole: the maintenance pass does not skip a
  run that is due, the timer stays armed while there is something to run, and the catch-up after
  a restart neither loses a missed job nor runs too many at once.
\<close>

section \<open>Maintenance\<close>

lemma walk_Cons:
  assumes "normalizeJobTickState job now = (changed, skip, job1)"
  shows "fst (snd (walkSchedulableJobs visit now (job # jobs) s)) =
    (if skip then job1 else fst (snd (visit job1 s)))
      # fst (snd (walkSchedulableJobs visit now jobs (if skip then s else snd (snd (visit job1 s)))))"
  by (simp add: assms split_beta)

text \<open>What a pass keeps of every job: the tick normalisation keeps it of the jobs it skips, and
  together with the visitor of the others.\<close>

locale store_pass =
  fixes visit :: "cron_job \<Rightarrow> 's \<Rightarrow> bool \<times> cron_job \<times> 's"
    and now :: int
    and keep :: "cron_job \<Rightarrow> cron_job \<Rightarrow> bool"
  assumes skip_keeps: "normalizeJobTickState job now = (changed, True, job1) \<Longrightarrow> keep job job1"
    and visit_keeps: "normalizeJobTickState job now = (changed, False, job1) \<Longrightarrow> keep job (fst (snd (visit job1 s)))"
begin

lemma pass_keeps: "list_all2 keep jobs (fst (snd (walkSchedulableJobs visit now jobs s)))"
proof (induction jobs arbitrary: s)
  case (Cons job jobs)
  obtain c skip job1 where tick: "normalizeJobTickState job now = (c, skip, job1)" by (metis prod_cases3)
  have "keep job (if skip then job1 else fst (snd (visit job1 s)))"
    using skip_keeps visit_keeps tick by (cases skip) auto
  with Cons.IH show ?case by (simp only: walk_Cons [OF tick] list.rel_inject)
qed simp

end

text \<open>What the tick normalisation leaves of an enabled job: it may move the anchor, drop an invalid
  time and clear a stuck run.\<close>

lemma normalize_anchor_frame:
  "job_id (snd (normalize_anchor job now)) = job_id job" "job_state (snd (normalize_anchor job now)) = job_state job"
  "job_enabled (snd (normalize_anchor job now)) = job_enabled job"
  "is_at (job_schedule (snd (normalize_anchor job now))) = is_at (job_schedule job)"
  "is_cron (job_schedule job) \<Longrightarrow> snd (normalize_anchor job now) = job"
  by (auto simp: normalize_anchor_def Let_def split: cron_schedule.split)

lemma clear_stuck_run_frame:
  assumes "clear_stuck_run job now c = (changed, skip, job1)"
  shows "job1 = job \<or> job1 = with_state (\<lambda>s. s\<lparr>js_runningAtMs := None\<rparr>) job"
    "js_runningAtMs (job_state job) = None \<Longrightarrow> job1 = job \<and> \<not> skip"
  using assms by (auto simp: clear_stuck_run_def Let_def split: option.split_asm if_split_asm)

lemma backoff_until_cong:
  assumes same: "js_lastRunStatus (job_state j) = js_lastRunStatus (job_state k)" "js_lastStatus (job_state j) = js_lastStatus (job_state k)"
    "js_lastRunAtMs (job_state j) = js_lastRunAtMs (job_state k)" "js_consecutiveErrors (job_state j) = js_consecutiveErrors (job_state k)"
    "js_lastDurationMs (job_state j) = js_lastDurationMs (job_state k)"
  shows "resolveJobErrorBackoffUntilMs j sched = resolveJobErrorBackoffUntilMs k sched"
  unfolding resolveJobErrorBackoffUntilMs_def resolveJobLastRunStatus_def same ..

lemma tick_enabled:
  assumes "normalizeJobTickState job now = (changed, skip, job1)" "isJobEnabled job"
  shows "job_id job1 = job_id job" "isJobEnabled job1"
    "js_lastRunAtMs (job_state job1) = js_lastRunAtMs (job_state job)"
    "resolveJobErrorBackoffUntilMs job1 sched = resolveJobErrorBackoffUntilMs job sched"
    "hasScheduledNextRunAtMs (next_run job) \<Longrightarrow> next_run job1 = next_run job"
    "js_runningAtMs (job_state job) = None \<Longrightarrow> js_runningAtMs (job_state job1) = None \<and> \<not> skip"
    "is_cron (job_schedule job) \<Longrightarrow> js_runningAtMs (job_state job) = None \<Longrightarrow> hasScheduledNextRunAtMs (next_run job) \<Longrightarrow> job1 = job"
proof -
  define k where "k = snd (normalize_anchor job now)"
  define k2 where "k2 = (if \<not> hasScheduledNextRunAtMs (next_run k) \<and> next_run k \<noteq> None
      then with_state (\<lambda>s. s\<lparr>js_nextRunAtMs := None\<rparr>) k else k)"
  have k: "job_id k = job_id job" "job_state k = job_state job" "job_enabled k = job_enabled job"
    "is_cron (job_schedule job) \<Longrightarrow> k = job"
    using normalize_anchor_frame [of job now] by (simp_all add: k_def)
  have "isJobEnabled k" using assms(2) k(3) by (simp add: isJobEnabled_def)
  then obtain c where c: "clear_stuck_run k2 now c = (changed, skip, job1)"
    using assms(1) by (auto simp: normalizeJobTickState_def Let_def k_def k2_def split_beta split: if_splits)
  have k2: "job_id k2 = job_id job" "isJobEnabled k2" "job_state k2 = job_state job \<or> job_state k2 = (job_state job)\<lparr>js_nextRunAtMs := None\<rparr>"
    "hasScheduledNextRunAtMs (next_run job) \<Longrightarrow> k2 = k"
    using k assms(2) by (auto simp: k2_def isJobEnabled_def)
  note j = clear_stuck_run_frame [OF c]
  show "job_id job1 = job_id job" "isJobEnabled job1" "js_lastRunAtMs (job_state job1) = js_lastRunAtMs (job_state job)"
    "hasScheduledNextRunAtMs (next_run job) \<Longrightarrow> next_run job1 = next_run job"
    using j(1) k2 k(2) by (auto simp: isJobEnabled_def)
  show "resolveJobErrorBackoffUntilMs job1 sched = resolveJobErrorBackoffUntilMs job sched"
    using j(1) k2(3) by (intro backoff_until_cong) auto
  show "js_runningAtMs (job_state job) = None \<Longrightarrow> js_runningAtMs (job_state job1) = None \<and> \<not> skip"
    using j(2) k2(3) by auto
  show "is_cron (job_schedule job) \<Longrightarrow> js_runningAtMs (job_state job) = None \<Longrightarrow> hasScheduledNextRunAtMs (next_run job) \<Longrightarrow> job1 = job"
    using j(2) k2(4) k(2,4) by auto
qed

text \<open>A due run the service still owes: not executed, not inside a backoff window.\<close>

definition owes_due_run :: "cron_config \<Rightarrow> int \<Rightarrow> cron_job \<Rightarrow> bool" where
  "owes_due_run cfg now job \<longleftrightarrow> isJobEnabled job \<and> is_due job now \<and> \<not> expired_slot_settled cfg job now"

lemma due_not_repaired: "is_due job now \<Longrightarrow> \<not> shouldRepairFutureCronNextRunAtMs env cfg job now"
  by (auto simp: is_due_def shouldRepairFutureCronNextRunAtMs_def split: option.splits)

lemma maintain_job_owed:
  assumes "owes_due_run (cd_config deps) now job"
  shows "fst (snd (maintain_job deps opts now job acc)) = job"
proof -
  have "\<not> needs_recompute deps opts ds job now" for ds
    using assms due_not_repaired [of job now "cd_env deps" "cd_config deps"]
    by (auto simp: owes_due_run_def needs_recompute_def hasScheduledNextRunAtMs_def is_due_def split: option.splits)
  then show ?thesis by (simp add: maintain_job_def Let_def split_beta)
qed

lemma owed_after_tick:
  assumes "normalizeJobTickState job now = (changed, skip, job1)" "owes_due_run cfg now job"
  shows "owes_due_run cfg now job1" "next_run job1 = next_run job"
proof -
  have en: "isJobEnabled job" using assms(2) by (simp add: owes_due_run_def)
  have "hasScheduledNextRunAtMs (next_run job)"
    using assms(2) by (auto simp: owes_due_run_def is_due_def hasScheduledNextRunAtMs_def split: option.splits)
  note t = tick_enabled [OF assms(1) en] and n = tick_enabled(5) [OF assms(1) en this]
  show "next_run job1 = next_run job" by (rule n)
  have "is_due job1 now = is_due job now" unfolding is_due_def n ..
  moreover have "expired_slot_settled cfg job1 now = expired_slot_settled cfg job now"
    unfolding expired_slot_settled_def n t(3,4) ..
  ultimately show "owes_due_run cfg now job1"
    using assms(2) t(2) by (simp add: owes_due_run_def)
qed

definition keeps_owed :: "cron_config \<Rightarrow> int \<Rightarrow> cron_job \<Rightarrow> cron_job \<Rightarrow> bool" where
  "keeps_owed cfg now job job1 \<longleftrightarrow> (owes_due_run cfg now job \<longrightarrow>
     job_id job1 = job_id job \<and> next_run job1 = next_run job \<and> owes_due_run cfg now job1)"

lemma tick_keeps_owed: "normalizeJobTickState job now = (changed, skip, job1) \<Longrightarrow> keeps_owed cfg now job job1"
  using tick_enabled(1) [of job now changed skip job1] owed_after_tick [of job now changed skip job1 cfg]
  by (auto simp: keeps_owed_def owes_due_run_def)

interpretation owed_pass: store_pass "maintain_job deps opts now" now "keeps_owed (cd_config deps) now" for deps opts now
proof unfold_locales
  fix job changed job1 and s :: "string list \<times> cron_effect list"
  assume "normalizeJobTickState job now = (changed, False, job1)"
  then have "keeps_owed (cd_config deps) now job job1" by (rule tick_keeps_owed)
  then show "keeps_owed (cd_config deps) now job (fst (snd (maintain_job deps opts now job1 s)))"
    by (auto simp: keeps_owed_def maintain_job_owed)
qed (rule tick_keeps_owed)

lemma maintenance_jobs:
  "recomputeNextRunsForMaintenance deps opts now jobs deferrals = (changed, jobs1, rest)
     \<Longrightarrow> jobs1 = fst (snd (walkSchedulableJobs (maintain_job deps opts now) now jobs (drop_irrelevant jobs deferrals, [])))"
  by (simp add: recomputeNextRunsForMaintenance_def)

text \<open>C13: The maintenance pass never skips a run that is due: for every
  enabled job whose time has come and that has neither executed this slot nor waits for a backoff,
  the pass leaves the time as it is and the job still owes the run afterwards, whatever the
  options of the pass and whatever the cron library answers. Advancing such a time would lose the
  run silently.\<close>

theorem due_slot_survives_maintenance:
  assumes "recomputeNextRunsForMaintenance deps opts now jobs deferrals = (changed, jobs1, rest)"
  shows "list_all2 (\<lambda>job job1. owes_due_run (cd_config deps) now job \<longrightarrow>
    job_id job1 = job_id job \<and> next_run job1 = next_run job \<and> owes_due_run (cd_config deps) now job1) jobs jobs1"
  unfolding maintenance_jobs [OF assms] by (rule owed_pass.pass_keeps [unfolded keeps_owed_def])

theorem due_slot_survives_maintenance_witness:
  "next_run (hd (fst (snd (recomputeNextRunsForMaintenance demo_deps \<lparr>mo_recomputeExpired = True, mo_repairFutureCronNextRunAtMs = True\<rparr>
      500 [set_next (Some 400) (demo_job (SEvery (JNum 60000) (JNum 0)))] [])))) = Some 400"
proof -
  define job where "job = set_next (Some 400) (demo_job (SEvery (JNum 60000) (JNum 0)))"
  define x where "x = recomputeNextRunsForMaintenance demo_deps \<lparr>mo_recomputeExpired = True, mo_repairFutureCronNextRunAtMs = True\<rparr> 500 [job] []"
  have "owes_due_run (cd_config demo_deps) 500 job"
    by (simp add: owes_due_run_def job_def is_due_def expired_slot_settled_def isJobEnabled_def resolveJobErrorBackoffUntilMs_def
        resolveJobLastRunStatus_def set_next_def)
  moreover have "x = (fst x, fst (snd x), snd (snd x))" by simp
  ultimately have "next_run (hd (fst (snd x))) = next_run job"
    using due_slot_survives_maintenance [of demo_deps "\<lparr>mo_recomputeExpired = True, mo_repairFutureCronNextRunAtMs = True\<rparr>" 500 "[job]" "[]"
        "fst x" "fst (snd x)" "snd (snd x)"]
    by (auto simp: list_all2_Cons1 simp flip: x_def)
  then show ?thesis by (simp add: x_def job_def)
qed

section \<open>The timer\<close>

definition enabled_flag :: "cron_job list \<Rightarrow> bool" where
  "enabled_flag jobs \<longleftrightarrow> (\<exists>j \<in> set jobs. job_enabled j = Some True)"

lemma normalizeJobTickState_enabled: "job_enabled (snd (snd (normalizeJobTickState job now))) = job_enabled job"
  by (auto simp: normalizeJobTickState_def Let_def split_beta clear_stuck_run_def normalize_anchor_frame split: option.split)

lemma maintain_job_enabled: "job_enabled (fst (snd (maintain_job deps opts now job acc))) = Some True \<Longrightarrow> job_enabled job = Some True"
  by (auto simp: maintain_job_def recomputeJobNextRunAtMs_def recordScheduleComputeError_def Let_def split_beta
      split: sum.split_asm if_split_asm)

lemma all2_origin: "list_all2 R xs ys \<Longrightarrow> y \<in> set ys \<Longrightarrow> \<exists>x \<in> set xs. R x y"
  by (induction xs ys rule: list_all2_induct) auto

definition keeps_disabled :: "cron_job \<Rightarrow> cron_job \<Rightarrow> bool" where
  "keeps_disabled job job1 \<longleftrightarrow> (job_enabled job1 = Some True \<longrightarrow> job_enabled job = Some True)"

lemma tick_enabled_flag: "normalizeJobTickState job now = (changed, skip, job1) \<Longrightarrow> job_enabled job1 = job_enabled job"
  using normalizeJobTickState_enabled [of job now] by simp

interpretation disabled_pass: store_pass "maintain_job deps opts now" now keeps_disabled for deps opts now
proof unfold_locales
  fix job changed job1 and s :: "string list \<times> cron_effect list"
  assume "normalizeJobTickState job now = (changed, False, job1)"
  from tick_enabled_flag [OF this] show "keeps_disabled job (fst (snd (maintain_job deps opts now job1 s)))"
    using maintain_job_enabled [of deps opts now job1 s] by (simp add: keeps_disabled_def)
qed (simp add: keeps_disabled_def tick_enabled_flag)

lemma maintain_jobs: "st_jobs (maintain deps opts now sv)
    = fst (snd (walkSchedulableJobs (maintain_job deps opts now) now (st_jobs sv) (drop_irrelevant (st_jobs sv) (st_deferrals sv), [])))"
  by (simp add: maintain_def recomputeNextRunsForMaintenance_def split_beta)

lemma maintain_enabled:
  "enabled_flag (st_jobs (maintain deps opts now sv)) \<Longrightarrow> enabled_flag (st_jobs sv)"
  using disabled_pass.pass_keeps [THEN all2_origin] unfolding maintain_jobs enabled_flag_def
  by (fastforce simp: keeps_disabled_def)

lemma maintain_service [simp]:
  "sv_running (maintain deps opts now sv) = sv_running sv" "sv_stopped (maintain deps opts now sv) = sv_stopped sv"
  "sv_restartRecoveryPending (maintain deps opts now sv) = sv_restartRecoveryPending sv"
  "sv_timer (maintain deps opts now sv) = sv_timer sv" for sv :: cron_service
  by (simp_all add: maintain_def split_beta)

text \<open>The steps of a service: its timer fires, the parts of a tick run in any order and number while
  it is running, the pass of a read maintains the store, an operation leaves any jobs and then
  arms the timer, and the service is stopped.\<close>

inductive service_step :: "cron_deps \<Rightarrow> cron_service \<Rightarrow> cron_service \<Rightarrow> bool" for deps where
  fire: "sv_timer sv = Some d \<Longrightarrow> service_step deps sv (snd (begin_tick (sv\<lparr>sv_timer := None\<rparr>)))"
| reserve: "sv_running sv \<Longrightarrow> service_step deps sv (snd (reserve_due deps t u stopped sv))"
| begin_run: "sv_running sv \<Longrightarrow> service_step deps sv (start_due t i sv)"
| settle: "sv_running sv \<Longrightarrow> service_step deps sv (settle_outcomes deps a t outcomes sv)"
| release: "sv_running sv \<Longrightarrow> service_step deps sv (release_unclaimed deps t u ids sv)"
| finish: "sv_running sv \<Longrightarrow> service_step deps sv (end_tick deps t sv)"
| read: "service_step deps sv (maintain deps opts t sv)"
| operation: "service_step deps sv (armTimer deps t (sv\<lparr>st_jobs := jobs, st_deferrals := ds\<rparr>))"
| stop: "service_step deps sv (sv\<lparr>sv_stopped := True, sv_timer := None\<rparr>)"

inductive service_reachable :: "cron_deps \<Rightarrow> cron_service \<Rightarrow> cron_service \<Rightarrow> bool" for deps sv0 where
  start: "service_reachable deps sv0 (armTimer deps t sv0)"
| step: "service_reachable deps sv0 sv \<Longrightarrow> service_step deps sv sv' \<Longrightarrow> service_reachable deps sv0 sv'"

definition timer_ok :: "cron_service \<Rightarrow> bool" where
  "timer_ok sv \<longleftrightarrow> (case sv_timer sv of Some d \<Rightarrow> 0 < d \<and> d \<le> MAX_TIMER_DELAY_MS | None \<Rightarrow> True)"

definition keeps_awake :: "cron_deps \<Rightarrow> cron_service \<Rightarrow> bool" where
  "keeps_awake deps sv \<longleftrightarrow> timer_ok sv \<and>
     (sv_stopped sv \<or> \<not> cd_cronEnabled deps \<or> sv_restartRecoveryPending sv \<or> sv_running sv
      \<or> \<not> enabled_flag (st_jobs sv) \<or> sv_timer sv \<noteq> None)"

lemma armTimer_awake: "keeps_awake deps (armTimer deps t sv)"
  by (auto simp: keeps_awake_def timer_ok_def armTimer_def Let_def armRunningRecheckTimer_def enabled_flag_def
      MAX_TIMER_DELAY_MS_def MIN_REFIRE_GAP_MS_def split: option.split)

lemma begin_tick_awake: "keeps_awake deps (snd (begin_tick (sv\<lparr>sv_timer := None\<rparr>)))"
  by (auto simp: begin_tick_def keeps_awake_def timer_ok_def armRunningRecheckTimer_def MAX_TIMER_DELAY_MS_def)

lemma keeps_awake_running:
  "sv_running sv' \<Longrightarrow> sv_timer sv' = sv_timer sv \<Longrightarrow> keeps_awake deps sv \<Longrightarrow> keeps_awake deps sv'"
  by (auto simp: keeps_awake_def timer_ok_def)

lemma tick_parts_service:
  "sv_running (snd (reserve_due deps t u b sv)) = sv_running sv" "sv_timer (snd (reserve_due deps t u b sv)) = sv_timer sv"
  "sv_running (start_due t i sv) = sv_running sv" "sv_timer (start_due t i sv) = sv_timer sv"
  "sv_running (settle_outcomes deps a t outcomes sv) = sv_running sv" "sv_timer (settle_outcomes deps a t outcomes sv) = sv_timer sv"
  "sv_running (release_unclaimed deps t u ids sv) = sv_running sv" "sv_timer (release_unclaimed deps t u ids sv) = sv_timer sv"
  by (auto simp: reserve_due_def start_due_def settle_outcomes_def release_unclaimed_def Let_def split: option.split)

lemma service_step_awake: "service_step deps sv sv' \<Longrightarrow> keeps_awake deps sv \<Longrightarrow> keeps_awake deps sv'"
proof (induction rule: service_step.induct)
  case (read sv opts t)
  then show ?case by (auto simp: keeps_awake_def timer_ok_def dest: maintain_enabled)
next
  case (stop sv)
  then show ?case by (simp add: keeps_awake_def timer_ok_def)
qed (auto intro: keeps_awake_running begin_tick_awake armTimer_awake simp: tick_parts_service end_tick_def)

text \<open>C14: The scheduler never falls asleep: in every state the service reaches from
  its start, by timer ticks and their parts, reads, operations that change the jobs at will and
  stops, an armed timer fires within a minute and not at once, and while the service is neither
  stopped, switched off, recovering nor inside a tick, and some job is enabled, a timer is armed.\<close>

theorem scheduler_stays_awake:
  assumes "service_reachable deps sv0 sv"
  shows "keeps_awake deps sv"
  using assms by (induction rule: service_reachable.induct) (auto intro: armTimer_awake service_step_awake)


definition idle_service :: "cron_job list \<Rightarrow> cron_service" where
  "idle_service jobs = \<lparr>st_jobs = jobs, st_deferrals = [], st_effects = [], sv_running = False, sv_stopped = False,
     sv_restartRecoveryPending = False, sv_timer = None\<rparr>"

theorem scheduler_stays_awake_witness:
  "sv_timer (snd (begin_tick ((armTimer demo_deps 0 (idle_service [demo_job (SAt ''5'')]))\<lparr>sv_timer := None\<rparr>))) = Some 60000
    \<and> keeps_awake demo_deps (snd (begin_tick ((armTimer demo_deps 0 (idle_service [demo_job (SAt ''5'')]))\<lparr>sv_timer := None\<rparr>)))"
proof -
  define sv where "sv = armTimer demo_deps 0 (idle_service [demo_job (SAt ''5'')])"
  have sv: "sv = (idle_service [demo_job (SAt ''5'')])\<lparr>sv_timer := Some 60000\<rparr>"
    by (simp add: sv_def armTimer_def idle_service_def nextWakeAtMs_def hasScheduledNextRunAtMs_def armRunningRecheckTimer_def
        MAX_TIMER_DELAY_MS_def demo_deps_def Let_def)
  then have "sv_timer sv = Some 60000" by simp
  then have "service_step demo_deps sv (snd (begin_tick (sv\<lparr>sv_timer := None\<rparr>)))" by (rule service_step.fire)
  with service_reachable.start have "service_reachable demo_deps (idle_service [demo_job (SAt ''5'')]) (snd (begin_tick (sv\<lparr>sv_timer := None\<rparr>)))"
    unfolding sv_def by (rule service_reachable.step)
  from scheduler_stays_awake [OF this] show ?thesis
    unfolding sv_def [symmetric]
    by (simp add: sv begin_tick_def idle_service_def armRunningRecheckTimer_def MAX_TIMER_DELAY_MS_def)
qed

section \<open>Catch-up after a restart\<close>

lemma mset_partition: "mset (filter P xs) + mset (filter (\<lambda>x. \<not> P x) xs) = mset xs"
  by (induction xs) auto

text \<open>C25: The catch-up plan after a restart loses no missed job and repeats
  none: the jobs it runs at once and those it defers are together exactly the jobs found due or
  missed, and at most the configured number of them (5 by default) runs at once.\<close>

theorem startup_catchup_conserves:
  assumes "planStartupCatchup deps skipJobIds deferAgentTurnJobs now sv = (plan, sv1)" "\<not> sv_stopped sv"
  shows "mset (cp_candidates plan @ map fst (cp_deferred plan))
      = mset (map job_id (collectRunnableJobs deps (startup_opts skipJobIds) now
          (deferPendingBackoffMissedCronSlots deps skipJobIds now (st_jobs sv))))
    \<and> length (cp_candidates plan) \<le> max_immediate deps"
proof -
  define missed where "missed = collectRunnableJobs deps (startup_opts skipJobIds) now
    (deferPendingBackoffMissedCronSlots deps skipJobIds now (st_jobs sv))"
  define agent where "agent = (\<lambda>j :: cron_job. job_payload j = AgentTurnPayload)"
  define eligible where "eligible = (if deferAgentTurnJobs then filter (\<lambda>j. \<not> agent j) (missed_order missed) else missed_order missed)"
  define later where "later = (if deferAgentTurnJobs then filter agent (missed_order missed) else [])"
  have "mset (take n eligible) + mset (drop n eligible) = mset eligible" for n
    by (metis append_take_drop_id mset_append)
  moreover have "mset eligible + mset later = mset missed"
    using mset_partition [of agent "missed_order missed"]
    by (simp add: eligible_def later_def missed_order_def add.commute)
  ultimately have all: "mset (take n eligible) + (mset (drop n eligible) + mset later) = mset missed" for n
    by (simp add: add.assoc [symmetric])
  have "missed = [] \<and> plan = no_plan now \<or> cp_candidates plan = map job_id (take (max_immediate deps) eligible)
      \<and> map fst (cp_deferred plan) = map job_id (drop (max_immediate deps) eligible) @ map job_id later"
    using assms unfolding planStartupCatchup_def Let_def missed_def [symmetric] agent_def [symmetric]
    by (auto simp: eligible_def later_def comp_def split: if_split_asm)
  then show ?thesis
  proof
    assume plan: "cp_candidates plan = map job_id (take (max_immediate deps) eligible)
      \<and> map fst (cp_deferred plan) = map job_id (drop (max_immediate deps) eligible) @ map job_id later"
    have "mset (cp_candidates plan @ map fst (cp_deferred plan))
        = image_mset job_id (mset (take (max_immediate deps) eligible) + (mset (drop (max_immediate deps) eligible) + mset later))"
      using plan by simp
    also have "\<dots> = mset (map job_id missed)" by (simp only: all mset_map)
    finally show ?thesis using plan by (simp add: missed_def)
  qed (simp add: missed_def no_plan_def)
qed

theorem startup_catchup_conserves_witness:
  "mset (cp_candidates (fst (planStartupCatchup demo_deps [] True 500 (idle_service [set_next (Some 400) (demo_job (SEvery (JNum 60000) (JNum 0)))])))
     @ map fst (cp_deferred (fst (planStartupCatchup demo_deps [] True 500 (idle_service [set_next (Some 400) (demo_job (SEvery (JNum 60000) (JNum 0)))])))))
     = {#''j''#}"
proof -
  define job where "job = set_next (Some 400) (demo_job (SEvery (JNum 60000) (JNum 0)))"
  define x where "x = planStartupCatchup demo_deps [] True 500 (idle_service [job])"
  have "x = (fst x, snd x)" "\<not> sv_stopped (idle_service [job])" by (simp_all add: idle_service_def)
  note all = startup_catchup_conserves [OF this [unfolded x_def], folded x_def]
  have "defer_backoff_slot demo_deps [] 500 job = job"
    by (simp add: defer_backoff_slot_def job_def)
  moreover have "isRunnableJob demo_deps (startup_opts []) 500 job"
    by (simp add: isRunnableJob_def startup_opts_def job_def isJobEnabled_def is_due_def isErrorBackoffPending_def resolveJobLastRunStatus_def set_next_def)
  ultimately have "collectRunnableJobs demo_deps (startup_opts []) 500 (deferPendingBackoffMissedCronSlots demo_deps [] 500 (st_jobs (idle_service [job]))) = [job]"
    by (simp add: deferPendingBackoffMissedCronSlots_def collectRunnableJobs_def idle_service_def)
  with all have "mset (cp_candidates (fst x) @ map fst (cp_deferred (fst x))) = {#job_id job#}" by simp
  moreover have "job_id job = ''j''" by (simp add: job_def)
  ultimately show ?thesis by (simp add: x_def job_def)
qed

text \<open>The deferred jobs that are still there and enabled, and the time each of them gets.\<close>

definition still_enabled :: "cron_job list \<Rightarrow> (string \<times> int option) list \<Rightarrow> (string \<times> int option) list" where
  "still_enabled jobs ds = filter (\<lambda>(i, _). case find_job i jobs of Some j \<Rightarrow> isJobEnabled j | None \<Rightarrow> False) ds"

definition deferred_time :: "int \<Rightarrow> int \<Rightarrow> nat \<Rightarrow> int option \<Rightarrow> int" where
  "deferred_time base stagger k delay = (case delay of Some d \<Rightarrow> base + d + int k * stagger | None \<Rightarrow> base + int (Suc k) * stagger)"

lemma deferrals_other:
  "i \<notin> fst ` set ds \<Longrightarrow> find_job i (fst (apply_deferrals base stagger offset ds jobs deferrals)) = find_job i jobs"
  by (induction base stagger offset ds jobs deferrals rule: apply_deferrals.induct)
     (auto simp: find_put_job dest: find_job_id split: option.split)

lemma still_enabled_put:
  assumes "find_job i jobs = Some job" "isJobEnabled job"
  shows "still_enabled (put_job (set_next t job) jobs) ds = still_enabled jobs ds"
proof -
  have "isJobEnabled (set_next t job)" using assms(2) by (simp add: isJobEnabled_def)
  then have "(case find_job a (put_job (set_next t job) jobs) of Some j \<Rightarrow> isJobEnabled j | None \<Rightarrow> False)
      = (case find_job a jobs of Some j \<Rightarrow> isJobEnabled j | None \<Rightarrow> False)" for a
    using assms find_job_id [OF assms(1)] by (cases "a = i") (simp_all add: find_put_job)
  then show ?thesis
    unfolding still_enabled_def by (intro filter_cong refl) auto
qed

lemma deferrals_exact:
  assumes "distinct (map fst ds)" "k < length (still_enabled jobs ds)"
  shows "\<exists>job. find_job (fst (still_enabled jobs ds ! k)) (fst (apply_deferrals base stagger (int (Suc m) * stagger) ds jobs deferrals)) = Some job
    \<and> isJobEnabled job \<and> next_run job = Some (deferred_time base stagger (m + k) (snd (still_enabled jobs ds ! k)))"
  using assms
proof (induction ds arbitrary: k m jobs deferrals)
  case (Cons e ds)
  obtain i delay where e: "e = (i, delay)" by (cases e)
  show ?case
  proof (cases "\<exists>job. find_job i jobs = Some job \<and> isJobEnabled job")
    case False
    then have "still_enabled jobs (e # ds) = still_enabled jobs ds"
      and "apply_deferrals base stagger off (e # ds) jobs deferrals = apply_deferrals base stagger off ds jobs deferrals" for off
      by (auto simp: still_enabled_def e split: option.split)
    with Cons show ?thesis by (simp add: e)
  next
    case True
    then obtain job where job: "find_job i jobs = Some job" "isJobEnabled job" by blast
    define t where "t = deferred_time base stagger m delay"
    define jobs1 where "jobs1 = put_job (set_next (Some t) job) jobs"
    have time: "(case delay of None \<Rightarrow> base + int (Suc m) * stagger | Some d \<Rightarrow> base + d + int (Suc m) * stagger - stagger) = t"
      by (simp add: t_def deferred_time_def algebra_simps split: option.split)
    have step: "apply_deferrals base stagger (int (Suc m) * stagger) (e # ds) jobs deferrals
        = apply_deferrals base stagger (int (Suc (Suc m)) * stagger) ds jobs1 (List.insert i deferrals)"
    proof -
      have "int (Suc m) * stagger + stagger = int (Suc (Suc m)) * stagger" by (simp add: algebra_simps)
      then show ?thesis by (simp only: e apply_deferrals.simps job option.case if_True not_True_eq_False if_False time jobs1_def)
    qed
    have en: "still_enabled jobs (e # ds) = (i, delay) # still_enabled jobs ds"
      using job by (simp add: still_enabled_def e)
    have en1: "still_enabled jobs1 ds = still_enabled jobs ds"
      unfolding jobs1_def by (rule still_enabled_put [OF job])
    show ?thesis
    proof (cases k)
      case 0
      have "find_job i (fst (apply_deferrals base stagger (int (Suc (Suc m)) * stagger) ds jobs1 (List.insert i deferrals))) = find_job i jobs1"
        using Cons.prems(1) by (intro deferrals_other) (auto simp: e)
      also have "\<dots> = Some (set_next (Some t) job)"
        using job find_job_id [OF job(1)] by (simp add: jobs1_def find_put_job)
      finally show ?thesis using 0 job(2) by (simp add: en step t_def isJobEnabled_def del: of_nat_Suc)
    next
      case (Suc k')
      then show ?thesis
        using Cons.IH [of k' jobs1 "Suc m" "List.insert i deferrals"] Cons.prems
        by (simp add: en en1 step del: of_nat_Suc)
    qed
  qed
qed (simp add: still_enabled_def)

lemma all2_find:
  "list_all2 (\<lambda>j k. job_id k = job_id j \<and> R j k) xs ys \<Longrightarrow> find_job i xs = Some j \<Longrightarrow> \<exists>k. find_job i ys = Some k \<and> R j k"
  by (induction xs ys rule: list_all2_induct) (auto simp: find_job_def split: if_splits)


text \<open>The maintenance pass of the catch-up changes no time that is set.\<close>

lemma tick_id: "normalizeJobTickState job now = (changed, skip, job1) \<Longrightarrow> job_id job1 = job_id job"
  by (auto simp: normalizeJobTickState_def Let_def split_beta clear_stuck_run_def normalize_anchor_frame split: option.split_asm if_split_asm)

lemma recompute_id: "job_id (fst (snd (recomputeJobNextRunAtMs deps job now))) = job_id job"
  by (auto simp: recomputeJobNextRunAtMs_def recordScheduleComputeError_def Let_def split_beta split: sum.split)

lemma maintain_job_id: "job_id (fst (snd (maintain_job deps opts now job acc))) = job_id job"
  by (auto simp: maintain_job_def Let_def split_beta recompute_id)

definition set_time :: "cron_job \<Rightarrow> bool" where
  "set_time job \<longleftrightarrow> isJobEnabled job \<and> hasScheduledNextRunAtMs (next_run job)"

lemma startup_keeps_time: "set_time job \<Longrightarrow> fst (snd (maintain_job deps startup_maintenance now job acc)) = job"
  by (simp add: set_time_def maintain_job_def needs_recompute_def startup_maintenance_def Let_def split_beta)

lemma tick_keeps_time:
  "normalizeJobTickState job now = (changed, skip, job1) \<Longrightarrow> set_time job \<Longrightarrow> set_time job1 \<and> next_run job1 = next_run job"
  using tick_enabled(2,5) [of job now changed skip job1] by (simp add: set_time_def)

definition keeps_time :: "cron_job \<Rightarrow> cron_job \<Rightarrow> bool" where
  "keeps_time job job1 \<longleftrightarrow> job_id job1 = job_id job \<and> (set_time job \<longrightarrow> next_run job1 = next_run job)"

interpretation startup_pass: store_pass "maintain_job deps startup_maintenance now" now keeps_time for deps now
proof unfold_locales
  fix job changed job1 and s :: "string list \<times> cron_effect list"
  assume "normalizeJobTickState job now = (changed, False, job1)"
  from tick_id [OF this] tick_keeps_time [OF this]
  show "keeps_time job (fst (snd (maintain_job deps startup_maintenance now job1 s)))"
    by (auto simp: keeps_time_def maintain_job_id startup_keeps_time)
qed (simp add: keeps_time_def tick_id tick_keeps_time)

lemma startup_maintenance_times:
  "list_all2 (\<lambda>j k. job_id k = job_id j \<and> (set_time j \<longrightarrow> next_run k = next_run j))
     (st_jobs sv) (st_jobs (maintain deps startup_maintenance now sv))"
  unfolding maintain_jobs by (rule startup_pass.pass_keeps [unfolded keeps_time_def])

text \<open>C26: A job deferred by the catch-up is not forgotten: when the service was not
  stopped meanwhile, the k-th (from 0) of the distinct deferred jobs that are still stored and
  enabled leaves the catch-up with the time baseNow + (k + 1) staggers for its run, or, when it was
  deferred with a delay of its own (a job that runs an agent), baseNow + that delay + k staggers,
  and the maintenance at the end of the catch-up keeps that time (provided it lies after the
  epoch).\<close>

theorem deferred_jobs_get_a_turn:
  fixes sv :: cron_service
  assumes "\<not> sv_stopped sv" "distinct (map fst (cp_deferred plan))"
    and settled: "sv2 = catchup_settled deps a plan outcomes current sv"
    and k: "k < length (still_enabled (st_jobs sv2) (cp_deferred plan))"
    and time: "t = deferred_time base (missed_stagger deps) k (snd (still_enabled (st_jobs sv2) (cp_deferred plan) ! k))" "0 < t"
  shows "\<exists>job. find_job (fst (still_enabled (st_jobs sv2) (cp_deferred plan) ! k))
      (st_jobs (applyStartupCatchupOutcomes deps a base now plan outcomes current sv)) = Some job \<and> next_run job = Some t"
proof -
  define r where "r = apply_deferrals base (missed_stagger deps) (missed_stagger deps) (cp_deferred plan) (st_jobs sv2) (st_deferrals sv2)"
  define sv3 where "sv3 = sv2\<lparr>st_jobs := fst r, st_deferrals := snd r\<rparr>"
  have "cp_deferred plan \<noteq> []" using k by (auto simp: still_enabled_def)
  then have result: "applyStartupCatchupOutcomes deps a base now plan outcomes current sv = maintain deps startup_maintenance now sv3"
    using assms(1) by (simp add: applyStartupCatchupOutcomes_def Let_def split_beta sv3_def r_def flip: settled)
  obtain job where job: "find_job (fst (still_enabled (st_jobs sv2) (cp_deferred plan) ! k)) (st_jobs sv3) = Some job"
    "isJobEnabled job" "next_run job = Some t"
    using deferrals_exact [OF assms(2) k, of base "missed_stagger deps" 0 "st_deferrals sv2"]
    by (auto simp: sv3_def r_def time(1))
  have "set_time job" using job(2,3) time(2) by (simp add: set_time_def hasScheduledNextRunAtMs_def)
  with all2_find [OF startup_maintenance_times job(1)] job(3) show ?thesis
    unfolding result by fastforce
qed

theorem deferred_jobs_get_a_turn_witness:
  "\<exists>job. find_job ''j'' (st_jobs (applyStartupCatchupOutcomes demo_deps 0 1000 1000
      \<lparr>cp_candidates = [], cp_reservedAt = 0, cp_deferred = [(''j'', None)]\<rparr> [] [] (idle_service [demo_job (SEvery (JNum 60000) (JNum 0))]))) = Some job
    \<and> next_run job = Some 6000"
proof -
  define plan where "plan = \<lparr>cp_candidates = [], cp_reservedAt = 0, cp_deferred = [(''j'', None :: int option)]\<rparr>"
  define sv where "sv = idle_service [demo_job (SEvery (JNum 60000) (JNum 0))]"
  have settled: "catchup_settled demo_deps 0 plan [] [] sv = sv"
    by (simp add: catchup_settled_def release_unstarted_def mark_running_def plan_def sv_def idle_service_def cron_store.defs)
  have en: "still_enabled (st_jobs sv) (cp_deferred plan) = [(''j'', None)]"
    by (simp add: still_enabled_def plan_def sv_def idle_service_def find_job_def isJobEnabled_def)
  have time: "deferred_time 1000 (missed_stagger demo_deps) 0 None = 6000"
    by (simp add: deferred_time_def missed_stagger_def or_default_int_def DEFAULT_MISSED_JOB_STAGGER_MS_def)
  have "\<not> sv_stopped sv" "distinct (map fst (cp_deferred plan))" by (simp_all add: sv_def idle_service_def plan_def)
  from deferred_jobs_get_a_turn [OF this settled [symmetric], where k = 0 and base = 1000 and t = 6000 and now = 1000]
  show ?thesis unfolding plan_def [symmetric] sv_def [symmetric] by (simp add: en time)
qed

end
