(* ===== verification/CronSlots.thy ===== *)
theory CronSlots
  imports CronPasses
begin

text \<open>
  The runs of a cron expression against an abstract set of slots. The documented behaviour of
  the cron library is that \<^verbatim>\<open>nextRun\<close> returns the first slot after a time and
  \<^verbatim>\<open>previousRuns(1, _)\<close> the last one before it; under these laws the staggered runs of a job
  are exactly the slots moved by the offset of the job.
\<close>

section \<open>The laws of the cron library\<close>

definition lawful_next :: "(int \<Rightarrow> bool) \<Rightarrow> (int \<Rightarrow> string + int option) \<Rightarrow> bool" where
  "lawful_next slot f \<longleftrightarrow> (\<forall>now\<ge>0. case f now of
     Inl _ \<Rightarrow> False
   | Inr None \<Rightarrow> \<forall>u. slot u \<longrightarrow> u \<le> now
   | Inr (Some t) \<Rightarrow> slot t \<and> now < t \<and> (\<forall>u. slot u \<and> now < u \<longrightarrow> t \<le> u))"

definition lawful_previous :: "(int \<Rightarrow> bool) \<Rightarrow> (int \<Rightarrow> string + int option) \<Rightarrow> bool" where
  "lawful_previous slot f \<longleftrightarrow> (\<forall>now\<ge>0. case f now of
     Inl _ \<Rightarrow> False
   | Inr None \<Rightarrow> \<forall>u. slot u \<longrightarrow> now \<le> u
   | Inr (Some t) \<Rightarrow> slot t \<and> t < now \<and> (\<forall>u. slot u \<and> u < now \<longrightarrow> u \<le> t))"

text \<open>A job whose expression has the given slots, all of them whole seconds after the epoch.\<close>

definition cron_slots :: "cron_env \<Rightarrow> (int \<Rightarrow> bool) \<Rightarrow> cron_job \<Rightarrow> bool" where
  "cron_slots env slot job \<longleftrightarrow> (case job_schedule job of
     SCron (JStr e) tz _ \<Rightarrow> js_trim e \<noteq> []
       \<and> lawful_next slot (ce_next env (js_trim e) (resolveCronTimezone env tz))
       \<and> lawful_previous slot (ce_previous env (js_trim e) (resolveCronTimezone env tz))
       \<and> (\<forall>u. slot u \<longrightarrow> 0 < u \<and> u mod 1000 = 0)
   | _ \<Rightarrow> False)"

definition next_slot_after :: "(int \<Rightarrow> bool) \<Rightarrow> int \<Rightarrow> int \<Rightarrow> int option \<Rightarrow> bool" where
  "next_slot_after slot off now r \<longleftrightarrow> (case r of
     None \<Rightarrow> \<forall>u. slot u \<longrightarrow> u + off \<le> now
   | Some t \<Rightarrow> slot (t - off) \<and> now < t \<and> (\<forall>u. slot u \<and> now < u + off \<longrightarrow> t \<le> u + off))"

section \<open>The next run\<close>

lemma cron_slots_next:
  assumes "cron_slots env slot job" "0 \<le> now"
  obtains r where "computeNextRunAtMs env (job_schedule job) now = Inr r" "next_slot_after slot 0 now r"
proof -
  obtain e tz g where s: "job_schedule job = SCron (JStr e) tz g" "js_trim e \<noteq> []"
    "lawful_next slot (ce_next env (js_trim e) (resolveCronTimezone env tz))"
    using assms(1) by (auto simp: cron_slots_def split: cron_schedule.splits js_value.splits)
  have law: "case ce_next env (js_trim e) (resolveCronTimezone env tz) now of
     Inl _ \<Rightarrow> False
   | Inr None \<Rightarrow> \<forall>u. slot u \<longrightarrow> u \<le> now
   | Inr (Some t) \<Rightarrow> slot t \<and> now < t \<and> (\<forall>u. slot u \<and> now < u \<longrightarrow> t \<le> u)"
    using s(3) assms(2) unfolding lawful_next_def by blast
  show thesis
  proof (cases "ce_next env (js_trim e) (resolveCronTimezone env tz) now")
    case (Inr r)
    have "computeNextRunAtMs env (job_schedule job) now = Inr r"
      using s law by (auto simp: computeNextRunAtMs_def resolveCronFromSchedule_def cron_next_run_def Inr Let_def split: option.splits)
    moreover have "next_slot_after slot 0 now r"
      using law by (auto simp: next_slot_after_def Inr split: option.splits)
    ultimately show thesis by (rule that)
  qed (use law in simp)
qed

lemma job_offset_nonneg: "0 \<le> job_offset env job"
  using resolveCronStaggerMs_nonneg by (auto simp: job_offset_def resolveStableCronOffsetMs_def split: cron_schedule.split)

lemma job_offset_window:
  "job_schedule job = SCron e tz g \<Longrightarrow> job_offset env job \<le> max 0 (resolveCronStaggerMs e g - 1)"
  using pos_mod_bound [of "resolveCronStaggerMs e g" "int (ce_hash env (job_id job))"]
  by (auto simp: job_offset_def resolveStableCronOffsetMs_def)

lemma staggered_cron_slots:
  assumes "cron_slots env slot job" "0 \<le> now"
  obtains r where "computeStaggeredCronNextRunAtMs env job now = Inr r" "next_slot_after slot (job_offset env job) now r"
proof (cases "job_offset env job \<le> 0")
  case True
  with job_offset_nonneg [of env job] have "job_offset env job = 0" by simp
  with that cron_slots_next [OF assms] show thesis by (auto simp: computeStaggeredCronNextRunAtMs_def)
next
  case False
  define off where "off = job_offset env job"
  define c where "c = max 0 (now - off)"
  obtain r where r: "computeNextRunAtMs env (job_schedule job) c = Inr r" "next_slot_after slot 0 c r"
    using cron_slots_next [OF assms(1), of c] by (auto simp: c_def)
  have pos: "0 < u" if "slot u" for u
    using assms(1) that by (auto simp: cron_slots_def split: cron_schedule.splits js_value.splits)
  have four: "(4::nat) = Suc 3" by simp
  have first: "now < b + off" if "r = Some b" for b
    using r(2) that by (auto simp: next_slot_after_def c_def)
  have "computeStaggeredCronNextRunAtMs env job now = staggered_next env (job_schedule job) off now 4 c"
    using False by (simp add: computeStaggeredCronNextRunAtMs_def off_def c_def)
  also have "\<dots> = Inr (map_option (\<lambda>b. b + off) r)"
    unfolding four staggered_next.simps r(1) using first by (simp split: option.split)
  finally have "computeStaggeredCronNextRunAtMs env job now = Inr (map_option (\<lambda>b. b + off) r)" .
  moreover have "next_slot_after slot off now (map_option (\<lambda>b. b + off) r)"
  proof (cases r)
    case None
    then have below: "u \<le> c" if "slot u" for u using r(2) that by (auto simp: next_slot_after_def)
    have "u + off \<le> now" if "slot u" for u
      using below [OF that] pos [OF that] by (auto simp: c_def)
    then show ?thesis by (simp add: None next_slot_after_def)
  next
    case (Some b)
    then have b: "slot b" "c < b" "\<And>u. slot u \<Longrightarrow> c < u \<Longrightarrow> b \<le> u" using r(2) by (auto simp: next_slot_after_def)
    have "b + off \<le> u + off" if "slot u" "now < u + off" for u
      using b(3) [OF that(1)] pos [OF that(1)] that(2) by (simp add: c_def)
    with b(1) first [OF Some] show ?thesis by (simp add: Some next_slot_after_def)
  qed
  ultimately show thesis by (rule that [folded off_def])
qed

definition stagger_window :: "cron_job \<Rightarrow> int" where
  "stagger_window job = (case job_schedule job of SCron expr _ staggerMs \<Rightarrow> resolveCronStaggerMs expr staggerMs | _ \<Rightarrow> 0)"

lemma offset_in_window:
  "is_cron (job_schedule job) \<Longrightarrow> 0 \<le> job_offset env job \<and> (job_offset env job = 0 \<or> job_offset env job < stagger_window job)"
  using job_offset_nonneg [of env job] job_offset_window [of job _ _ _ env]
  by (force simp: stagger_window_def is_cron_def split: cron_schedule.splits)

text \<open>C15: Given a cron library that returns the first slot after a time, the runs
  of an enabled cron job are exactly the slots of its expression, all moved by the one offset of
  the job: the next run computed at any time is the first moved slot after it, and there is none
  only when there is no later slot. The offset is not negative and is zero or smaller than the
  stagger window of the job, so no run is moved by a whole window or more.\<close>

theorem staggered_cron_exact:
  assumes "cron_slots env slot job" "isJobEnabled job" "0 \<le> now"
  shows "(\<exists>r. computeJobNextRunAtMs env job now = Inr r \<and> next_slot_after slot (job_offset env job) now r)
    \<and> 0 \<le> job_offset env job \<and> (job_offset env job = 0 \<or> job_offset env job < stagger_window job)"
proof -
  obtain e tz g where s: "job_schedule job = SCron e tz g"
    using assms(1) by (auto simp: cron_slots_def split: cron_schedule.splits)
  obtain r where r: "computeStaggeredCronNextRunAtMs env job now = Inr r" "next_slot_after slot (job_offset env job) now r"
    using staggered_cron_slots [OF assms(1,3)] .
  have later: "0 \<le> next_second now" using next_second_later [of now] assms(3) by linarith
  obtain q where q: "computeStaggeredCronNextRunAtMs env job (next_second now) = Inr q"
    "next_slot_after slot (job_offset env job) (next_second now) q"
    using staggered_cron_slots [OF assms(1) later] .
  have "q = None" if "r = None"
    using r(2) q(2) that next_second_later [of now] by (auto simp: next_slot_after_def split: option.splits)
  then have "computeJobNextRunAtMs env job now = Inr r"
    using assms(2) s r(1) q(1) by (cases r) (auto simp: computeJobNextRunAtMs_def)
  moreover have "is_cron (job_schedule job)" by (simp add: s)
  ultimately show ?thesis using r(2) offset_in_window [of job env] by blast
qed

definition full_hour :: "int \<Rightarrow> bool" where
  "full_hour u \<longleftrightarrow> 0 < u \<and> u mod 3600000 = 0"

lemma full_hour_iff: "full_hour u \<longleftrightarrow> (\<exists>k>0. u = k * 3600000)"
  by (auto simp: full_hour_def mod_eq_0_iff_dvd dvd_def mult.commute zero_less_mult_iff)

lemma hourly_lawful: "lawful_next full_hour (ce_next hourly_env e z)"
  unfolding lawful_next_def
proof (intro allI impI)
  fix now :: int assume now: "0 \<le> now"
  define t where "t = (now div 3600000 + 1) * 3600000"
  have "0 \<le> now div 3600000" using now by (simp add: pos_imp_zdiv_nonneg_iff)
  then have "full_hour t" unfolding full_hour_iff t_def by (intro exI [of _ "now div 3600000 + 1"]) simp
  moreover have "now < t" using div_bounds(2) [of 3600000 now] by (simp add: t_def algebra_simps)
  moreover have "t \<le> u" if "full_hour u" "now < u" for u
  proof -
    obtain k where k: "u = k * 3600000" using \<open>full_hour u\<close> by (auto simp: full_hour_iff)
    with that(2) div_bounds(1) [of 3600000 now] have "now div 3600000 < k" by linarith
    then show ?thesis by (simp add: t_def k)
  qed
  ultimately show "case ce_next hourly_env e z now of Inl _ \<Rightarrow> False | Inr None \<Rightarrow> \<forall>u. full_hour u \<longrightarrow> u \<le> now
      | Inr (Some t) \<Rightarrow> full_hour t \<and> now < t \<and> (\<forall>u. full_hour u \<and> now < u \<longrightarrow> t \<le> u)"
    by (simp add: hourly_env_def t_def)
qed

lemma hourly_lawful_previous: "lawful_previous full_hour (ce_previous hourly_env e z)"
  unfolding lawful_previous_def
proof (intro allI impI)
  fix now :: int
  define t where "t = (now - 1) div 3600000 * 3600000"
  have below: "u \<le> t" if "full_hour u" "u < now" for u
  proof -
    obtain k where k: "u = k * 3600000" using \<open>full_hour u\<close> by (auto simp: full_hour_iff)
    with that(2) div_bounds(2) [of 3600000 "now - 1"] have "k < (now - 1) div 3600000 + 1" by linarith
    then show ?thesis by (simp add: t_def k)
  qed
  have least: "now \<le> u" if "full_hour u" "now \<le> 3600000" for u
    using that by (auto simp: full_hour_iff)
  have t: "full_hour t \<and> t < now" if "\<not> now \<le> 3600000"
  proof -
    have "0 < (now - 1) div 3600000" using that by (simp add: pos_imp_zdiv_pos_iff)
    then have "full_hour t" unfolding full_hour_iff t_def by (intro exI [of _ "(now - 1) div 3600000"]) simp
    moreover have "t < now" using div_bounds(1) [of 3600000 "now - 1"] by (simp add: t_def)
    ultimately show ?thesis ..
  qed
  show "case ce_previous hourly_env e z now of Inl _ \<Rightarrow> False | Inr None \<Rightarrow> \<forall>u. full_hour u \<longrightarrow> now \<le> u
      | Inr (Some t) \<Rightarrow> full_hour t \<and> t < now \<and> (\<forall>u. full_hour u \<and> u < now \<longrightarrow> u \<le> t)"
    using below least t by (cases "now \<le> 3600000") (simp_all add: hourly_env_def t_def [symmetric])
qed

definition staggered_job :: cron_job where
  "staggered_job = demo_job (SCron (JStr ''0 * * * *'') None (JNum 300000))"

lemma hourly_slots: "cron_slots hourly_env full_hour staggered_job"
proof -
  have "js_trim ''0 * * * *'' = ''0 * * * *''" by (rule js_trim_fixed) (simp add: is_ws_def)
  moreover have "u mod 1000 = 0" if "full_hour u" for u
    using that by (auto simp: full_hour_iff mod_eq_0_iff_dvd)
  ultimately show ?thesis
    using hourly_lawful hourly_lawful_previous by (auto simp: cron_slots_def staggered_job_def full_hour_def)
qed

lemma staggered_offset: "job_offset hourly_env staggered_job = 90000"
  by (simp add: staggered_job_def job_offset_def resolveCronStaggerMs_def normalizeCronStaggerMs_def resolveStableCronOffsetMs_def)
     (simp add: hourly_env_def)

theorem staggered_cron_exact_witness:
  "\<exists>r. computeJobNextRunAtMs hourly_env staggered_job 3650000 = Inr r \<and> next_slot_after full_hour 90000 3650000 r \<and> 90000 < stagger_window staggered_job"
proof -
  have "isJobEnabled staggered_job" by (simp add: staggered_job_def isJobEnabled_def)
  from staggered_cron_exact [OF hourly_slots this, of 3650000] show ?thesis by (simp add: staggered_offset)
qed

section \<open>A stored slot stays where it is\<close>

definition proper_slot :: "cron_env \<Rightarrow> (int \<Rightarrow> bool) \<Rightarrow> int \<Rightarrow> cron_job \<Rightarrow> bool" where
  "proper_slot env slot now job \<longleftrightarrow> isJobEnabled job \<and> js_runningAtMs (job_state job) = None
     \<and> (case next_run job of Some n \<Rightarrow> now < n \<and> slot (n - job_offset env job) | None \<Rightarrow> False)"

lemma previous_is_slot:
  assumes "cron_slots env slot job" "slot s"
  shows "computePreviousRunAtMs env (job_schedule job) (s + 1000) = Inr (Some s)"
proof -
  obtain e tz g where j: "job_schedule job = SCron (JStr e) tz g" "js_trim e \<noteq> []"
    "lawful_previous slot (ce_previous env (js_trim e) (resolveCronTimezone env tz))"
    and sec: "\<And>u. slot u \<Longrightarrow> 0 < u \<and> u mod 1000 = 0"
    using assms(1) by (auto simp: cron_slots_def split: cron_schedule.splits js_value.splits)
  have "0 \<le> s + 1000" using sec [OF assms(2)] by simp
  then have law: "case ce_previous env (js_trim e) (resolveCronTimezone env tz) (s + 1000) of
     Inl _ \<Rightarrow> False
   | Inr None \<Rightarrow> \<forall>u. slot u \<longrightarrow> s + 1000 \<le> u
   | Inr (Some t) \<Rightarrow> slot t \<and> t < s + 1000 \<and> (\<forall>u. slot u \<and> u < s + 1000 \<longrightarrow> u \<le> t)"
    using j(3) unfolding lawful_previous_def by blast
  have same: "t = s" if "slot t" "s \<le> t" "t < s + 1000" for t
  proof -
    have "t mod 1000 = 0" "s mod 1000 = 0" using sec assms(2) that(1) by auto
    then have "1000 dvd t - s" by (simp add: mod_eq_dvd_iff [symmetric])
    with that(2,3) show ?thesis using zdvd_imp_le [of 1000 "t - s"] by (cases "t = s") auto
  qed
  have "ce_previous env (js_trim e) (resolveCronTimezone env tz) (s + 1000) = Inr (Some s)"
    using law assms(2) same by (auto split: sum.splits option.splits)
  then show ?thesis
    using j by (simp add: computePreviousRunAtMs_def resolveCronFromSchedule_def Let_def earlier_than_def)
qed

lemma slot_is_staggered_run:
  assumes "cron_slots env slot job" "slot (n - job_offset env job)"
  shows "isStaggeredCronRunAtMs env job n = Inr True"
proof -
  define off where "off = job_offset env job"
  have c: "is_cron (job_schedule job)" using assms(1) by (auto simp: cron_slots_def split: cron_schedule.splits)
  have pos: "0 < n - off"
    using assms by (auto simp: cron_slots_def off_def split: cron_schedule.splits js_value.splits)
  have prev: "computePreviousRunAtMs env (job_schedule job) (n - off + 1000) = Inr (Some (n - off))"
    using previous_is_slot [OF assms(1), of "n - off"] assms(2) by (simp add: off_def)
  have "computeStaggeredCronPreviousRunAtMs env job (n + 1000) = Inr (Some n)"
  proof (cases "off \<le> 0")
    case True
    then have "off = 0" using job_offset_nonneg [of env job] by (simp add: off_def)
    with c prev show ?thesis by (simp add: computeStaggeredCronPreviousRunAtMs_def flip: off_def)
  next
    case False
    have c0: "max 0 (n + 1000 - off) = n - off + 1000" using pos by simp
    have four: "(4::nat) = Suc 3" by simp
    have "staggered_previous env (job_schedule job) off (n + 1000) 4 (n - off + 1000) = Inr (Some n)"
      unfolding four staggered_previous.simps prev by simp
    then show ?thesis using False c by (simp add: computeStaggeredCronPreviousRunAtMs_def c0 flip: off_def)
  qed
  with c show ?thesis by (simp add: isStaggeredCronRunAtMs_def)
qed

lemma proper_slot_not_repaired:
  assumes "cron_slots env slot job" "proper_slot env slot now job"
  shows "\<not> shouldRepairFutureCronNextRunAtMs env cfg job now"
proof (cases "next_run job")
  case (Some n)
  then have "isStaggeredCronRunAtMs env job n = Inr True"
    using assms(2) by (intro slot_is_staggered_run [OF assms(1)]) (simp add: proper_slot_def)
  then have "\<not> stale_future_run env job n now"
    by (cases "computeStaggeredCronNextRunAtMs env job now") (auto simp: stale_future_run_def split: option.split)
  then show ?thesis by (simp add: shouldRepairFutureCronNextRunAtMs_def Some)
qed (simp add: shouldRepairFutureCronNextRunAtMs_def)

lemma proper_slot_scheduled:
  assumes "cron_slots env slot job" "proper_slot env slot now job"
  shows "hasScheduledNextRunAtMs (next_run job)" "\<not> is_due job now" "is_cron (job_schedule job)" "js_runningAtMs (job_state job) = None" "isJobEnabled job"
proof -
  obtain n where n: "next_run job = Some n" "now < n" "slot (n - job_offset env job)"
    using assms(2) by (auto simp: proper_slot_def split: option.splits)
  have "0 < n - job_offset env job"
    using assms(1) n(3) by (auto simp: cron_slots_def split: cron_schedule.splits js_value.splits)
  with n job_offset_nonneg [of env job] show "hasScheduledNextRunAtMs (next_run job)" "\<not> is_due job now"
    by (auto simp: hasScheduledNextRunAtMs_def is_due_def)
  show "is_cron (job_schedule job)" using assms(1) by (auto simp: cron_slots_def split: cron_schedule.splits)
  show "js_runningAtMs (job_state job) = None" "isJobEnabled job" using assms(2) by (simp_all add: proper_slot_def)
qed

definition keeps_slot :: "cron_env \<Rightarrow> (int \<Rightarrow> bool) \<Rightarrow> int \<Rightarrow> cron_job \<Rightarrow> cron_job \<Rightarrow> bool" where
  "keeps_slot env slot now job job1 \<longleftrightarrow> (cron_slots env slot job \<and> proper_slot env slot now job \<longrightarrow> job1 = job)"

interpretation slot_pass: store_pass "maintain_job deps opts now" now "keeps_slot (cd_env deps) slot now" for deps opts slot now
proof unfold_locales
  fix job changed job1
  assume t: "normalizeJobTickState job now = (changed, True, job1)"
  show "keeps_slot (cd_env deps) slot now job job1"
    using tick_enabled(6) [OF t] by (auto simp: keeps_slot_def proper_slot_def)
next
  fix job changed job1 and s :: "string list \<times> cron_effect list"
  assume t: "normalizeJobTickState job now = (changed, False, job1)"
  show "keeps_slot (cd_env deps) slot now job (fst (snd (maintain_job deps opts now job1 s)))"
    unfolding keeps_slot_def
  proof
    assume p: "cron_slots (cd_env deps) slot job \<and> proper_slot (cd_env deps) slot now job"
    note s = proper_slot_scheduled [OF conjunct1 [OF p] conjunct2 [OF p]]
    have "job1 = job" using tick_enabled(7) [OF t s(5) s(3,4,1)] .
    moreover have "\<not> needs_recompute deps opts ds job now" for ds
      using s proper_slot_not_repaired [OF conjunct1 [OF p] conjunct2 [OF p]] by (simp add: needs_recompute_def)
    ultimately show "fst (snd (maintain_job deps opts now job1 s)) = job" by (simp add: maintain_job_def Let_def split_beta)
  qed
qed

text \<open>C29: The repair of stored times has no false alarms: given a cron library
  that returns the neighbouring slots of a time, the maintenance pass leaves every enabled, idle
  cron job whose stored time is a future slot of its expression moved by its offset completely
  unchanged, whatever the options of the pass, so that a run is never moved to another slot.\<close>

theorem proper_slots_never_move:
  assumes "recomputeNextRunsForMaintenance deps opts now jobs deferrals = (changed, jobs1, rest)"
  shows "list_all2 (\<lambda>job job1. cron_slots (cd_env deps) slot job \<and> proper_slot (cd_env deps) slot now job \<longrightarrow> job1 = job) jobs jobs1"
  unfolding maintenance_jobs [OF assms] by (rule slot_pass.pass_keeps [unfolded keeps_slot_def])

theorem proper_slots_never_move_witness:
  "fst (snd (recomputeNextRunsForMaintenance demo_deps \<lparr>mo_recomputeExpired = True, mo_repairFutureCronNextRunAtMs = True\<rparr>
      500 [set_next (Some 7290000) staggered_job] [])) = [set_next (Some 7290000) staggered_job]"
proof -
  define job where "job = set_next (Some 7290000) staggered_job"
  define x where "x = recomputeNextRunsForMaintenance demo_deps \<lparr>mo_recomputeExpired = True, mo_repairFutureCronNextRunAtMs = True\<rparr> 500 [job] []"
  have "cron_slots (cd_env demo_deps) full_hour job"
    using hourly_slots by (simp add: cron_slots_def job_def)
  moreover have "job_offset hourly_env job = 90000"
    using staggered_offset by (simp add: job_offset_def job_def staggered_job_def)
  then have "proper_slot (cd_env demo_deps) full_hour 500 job"
    by (simp add: proper_slot_def job_def staggered_job_def isJobEnabled_def) (simp add: full_hour_def)
  moreover have "x = (fst x, fst (snd x), snd (snd x))" by simp
  ultimately have "fst (snd x) = [job]"
    using proper_slots_never_move [of demo_deps "\<lparr>mo_recomputeExpired = True, mo_repairFutureCronNextRunAtMs = True\<rparr>" 500 "[job]" "[]"
        "fst x" "fst (snd x)" "snd (snd x)" full_hour]
    by (auto simp: list_all2_Cons1 simp flip: x_def)
  then show ?thesis by (simp add: x_def job_def)
qed

end
