(* ===== verification/Spec2Isabelle.thy ===== *)
theory Spec2Isabelle
  imports CommandQueue AccessIdentity RateLimit DedupeCache RouteCache SessionKeys ToolCallInputs AgentClass ToolLoopProps CronRuns CronSlots
begin

text \<open>
  A verification library for the core of OpenClaw, the gateway that connects chat channels to
  agents. An inbound message is deduplicated, its sender is authorised by the channel ingress
  kernel, it is routed to an agent and a session, and its turn is queued in a command lane; there
  the transcript of the session is repaired and the agent loop calls the model and the tools.
  Jobs run on a schedule of their own, and clients of the gateway pass rate limits. Each of these parts is a component of the source that
  keeps its own state and decides something that matters for safety, and each is a group of
  theories here.

  \<^bold>\<open>Shared.\<close> \<^verbatim>\<open>Prelude\<close> holds maps and sets of JavaScript as insertion-ordered lists
  (\<open>js_map\<close>, \<open>map_set\<close>, \<open>map_delete\<close>, \<open>set_add\<close>), stable sorting, and the locales
  \<open>keyed_store\<close> (what a lookup returns after an update), \<open>invariant_machine\<close> and
  \<open>monotone_machine\<close> (a step function with an invariant, or with an order it never goes
  back in). \<^verbatim>\<open>JsText\<close> and \<^verbatim>\<open>JsNumber\<close> hold the coercions of
  \<^verbatim>\<open>src/packages/normalization-core\<close>. Strings are lists of 8-bit characters; JavaScript
  numbers are integers where the source uses them as counters or clock values, and rationals
  with \<open>None\<close> for values that are not finite where configuration is coerced. No number of
  these components comes near the 53 bits up to which they are exact.

  \<^bold>\<open>Command lanes\<close> (\<^verbatim>\<open>CommandQueue\<close>, \<^verbatim>\<open>src/src/process/command-queue.ts\<close>). The
  module-global object is the record \<open>queue_state\<close>. Promises are made explicit: a started
  command is an \<open>inflight_task\<close>, its completion is the step \<open>taskFinished\<close>, and a settled
  promise is an entry of \<open>settled\<close> under the sequence number of the command. \<open>queue_step\<close>
  is one exported operation or one completion, so every interleaving of the event loop is a list
  of steps. The invariant \<open>queue_inv\<close> (interpretations of \<open>invariant_machine\<close> and
  \<open>monotone_machine\<close>, and of \<open>queue_discipline\<close> for the priority queue of a lane) gives
  conservation of commands, absence of stalls, progress, isolation of generations and the
  bounds.

  \<^bold>\<open>Channel ingress\<close> (\<^verbatim>\<open>Gating\<close>, \<^verbatim>\<open>AccessTypes\<close>, \<^verbatim>\<open>AccessState\<close>,
  \<^verbatim>\<open>AccessDecision\<close>, \<^verbatim>\<open>AccessIdentity\<close>; \<^verbatim>\<open>src/src/channels\<close>). The kernel of
  \<^verbatim>\<open>message-access\<close> resolves allow lists and access groups against the sender
  (\<open>resolveChannelIngressState\<close>) and runs its gates (\<open>decideChannelIngress\<close>).
  \<open>dispatch_spec\<close> states without gates who gets through, and the decision is proved to
  refine it. The adapter of a channel plugin is an argument; \<^verbatim>\<open>AccessIdentity\<close> states what
  the kernel needs of it as the locale \<open>ingress_adapter_laws\<close>, interpreted on the adapter the
  source builds from an identity descriptor. \<open>localeCompare\<close> and the hooks of a plugin are
  parameters without assumptions.

  \<^bold>\<open>Rate limits\<close> (\<^verbatim>\<open>RateLimit\<close>; \<^verbatim>\<open>src/src/gateway/auth-rate-limit.ts\<close>,
  \<^verbatim>\<open>control-plane-rate-limit.ts\<close>, \<^verbatim>\<open>src/src/infra/fixed-window-rate-limit.ts\<close>). The clock is
  an argument of every operation. The resolver of client addresses and the loopback test are
  parameters.

  \<^bold>\<open>Dedupe caches\<close> (\<^verbatim>\<open>DedupeCache\<close>; \<^verbatim>\<open>src/src/infra/dedupe.ts\<close>): bounded, least recently
  used, with a time to live.

  \<^bold>\<open>Routing\<close> (\<^verbatim>\<open>RouteIds\<close>, \<^verbatim>\<open>RouteResolve\<close>, \<^verbatim>\<open>RouteCache\<close>; \<^verbatim>\<open>src/src/routing\<close>).
  Ids and session keys, the binding index and the tiers against a plain scan of the
  configuration, and the string-keyed table of resolved routes against the router itself.

  \<^bold>\<open>Stored session keys\<close> (\<^verbatim>\<open>SessionKeys\<close>; \<^verbatim>\<open>src/src/sessions/session-key-utils.ts\<close>).
  Case folding that preserves the spans of a key a channel treats as case sensitive, and the
  parsers that read agents, threads, conversations and delivery routes back from a key. The key
  the router builds for a delivery route is read back as that route.

  \<^bold>\<open>Transcript repair\<close> (\<^verbatim>\<open>JsValue\<close>, \<^verbatim>\<open>TranscriptRepair\<close>, \<^verbatim>\<open>ToolCallInputs\<close>;
  \<^verbatim>\<open>src/src/agents/session-transcript-repair.ts\<close>). Stored messages are untyped, so they are
  values of \<open>js_value\<close> and every type test of the code is a test of the model. The pairing of
  tool calls with results is \<open>repairToolUseResultPairing\<close>, the repair of the calls
  \<open>repairToolCallInputs\<close>, and \<open>replay_repair\<close> composes them as the replay of a session does.

  \<^bold>\<open>Agent loop\<close> (\<^verbatim>\<open>AgentTypes\<close>, \<^verbatim>\<open>AgentLoop\<close>, \<^verbatim>\<open>AgentLoopProps\<close>;
  \<^verbatim>\<open>src/packages/agent-core/src/agent-loop.ts\<close>). The outside of the loop (model streams, tools,
  hooks, listeners, clock, abort signal, scheduler of concurrent tools) is the record
  \<open>agent_env\<close> of functions over an arbitrary world, so a statement for every environment and
  world covers every behaviour of them and every interleaving. A callback that throws returns
  \<open>Inl\<close>. \<open>run_step\<close> is one iteration of the loop and \<open>runLoop env n\<close> the state after
  \<open>n\<close> of them. Beside the variables of the loop it records, for the statements only, every
  request with the context it was made from, every call that was let pass with the world before and
  after that decision, and every tool started. The invariant \<open>between_steps\<close> gives the protocol
  of events, that every request is made from the whole conversation with its calls answered, and
  that no tool starts uncleared.

  \<^bold>\<open>Agent\<close> (\<^verbatim>\<open>LoopInvariant\<close>, \<^verbatim>\<open>AgentClass\<close>;
  \<^verbatim>\<open>src/packages/agent-core/src/agent.ts\<close>). \<^verbatim>\<open>LoopInvariant\<close> is the interface between the
  loop and whoever runs it: the locale \<open>loop_invariant\<close> asks that one event and one callback
  keep a relation between the events so far and the world, and gives it for a whole run. The class
  \<open>Agent\<close> is a world of the loop; \<open>agent_invariant\<close> extends that interface with the agent's
  own operations and is interpreted on its transcript, on what it shows as pending or streaming
  and on its abort signal.

  \<^bold>\<open>Tool loops\<close> (\<^verbatim>\<open>StableJson\<close>, \<^verbatim>\<open>ToolLoop\<close>, \<^verbatim>\<open>ToolLoopProps\<close>;
  \<^verbatim>\<open>src/src/agents/tool-loop-detection.ts\<close> and the code around it). A call is identified by the
  digest of a deterministic serialisation: \<^verbatim>\<open>StableJson\<close> models it on values with references
  into a heap of errors, byte arrays, arrays and records, and proves that its text identifies
  exactly the values of one plain form, the tree in which the loop detector keeps them. The state is the
  history of calls of a session; \<open>run_wrapped\<close> is one call of a wrapped tool, refused or run and
  recorded, and \<open>run_session\<close> a list of them. A call that repeats without progress is cut off
  for good, and a call is refused only on evidence in the history.

  \<^bold>\<open>Cron.\<close> The scheduler of \<^verbatim>\<open>src/src/cron\<close>. \<^verbatim>\<open>CronTime\<close> (\<^verbatim>\<open>parse.ts\<close>) reads absolute
  times and shows that the check through a \<^verbatim>\<open>Date\<close> accepts exactly the calendar;
  \<^verbatim>\<open>CronSchedule\<close> (\<^verbatim>\<open>schedule.ts\<close>, \<^verbatim>\<open>stagger.ts\<close>) computes next runs and stagger windows;
  \<^verbatim>\<open>CronTypes\<close> holds jobs, configuration and effects; \<^verbatim>\<open>CronDelivery\<close> (\<^verbatim>\<open>delivery-plan.ts\<close>,
  \<^verbatim>\<open>service/failure-alerts.ts\<close>) where results and failures go; \<^verbatim>\<open>CronJobs\<close>
  (\<^verbatim>\<open>service/jobs.ts\<close>) the next run of a job and the passes over the store; \<^verbatim>\<open>RetryHint\<close>
  (\<^verbatim>\<open>retry-hint.ts\<close>) the classification of errors by patterns; \<^verbatim>\<open>CronOutcome\<close> and
  \<^verbatim>\<open>CronTimer\<close> (\<^verbatim>\<open>service/timer.ts\<close>) what an outcome does to its job, the tick, the timer and the
  catch-up after a restart. The cron library, the host's time zone, the hash of a job id,
  \<^verbatim>\<open>Date.parse\<close> and the classifier of provider errors are the fields of \<open>cron_env\<close>; every
  reading of the clock is an argument. The ids of a store are distinct: where the source holds on
  to a job object the model finds it by its id. \<^verbatim>\<open>CronRuns\<close> bounds the runs of one-shot jobs and
  the distance of recurring ones and shows that a stored time is one at which the job runs.
  \<^verbatim>\<open>CronPasses\<close> states what a pass over the store keeps of every job as the locale
  \<open>store_pass\<close>, interpreted on due runs, on disabled jobs, on the times of deferred jobs and
  (\<^verbatim>\<open>CronSlots\<close>) on proper slots, and gives the steps of a service as the relation
  \<open>service_step\<close>, with the invariant that a timer is armed. \<^verbatim>\<open>CronSlots\<close> relates staggered runs
  to the slots of a cron library that returns the first slot after a time.

  \<^bold>\<open>Loops.\<close> Every loop is a structural recursion, a fold, or a \<open>function\<close> with a measure
  (the pump over the length of the queue, the pruning of a map over its size, concurrent tools
  over the steps they have left, the matcher of error patterns over the size of the pattern, the
  serialiser of a cyclic heap over the objects not on its stack). The
  search for a staggered run makes four attempts as in the source; the first is enough for a
  library that returns the first slot. Two exceptions: the parser of JSON text in \<^verbatim>\<open>JsValue\<close> has
  fuel of twice the length of the text and one, proved enough there, and the agent loop, which may
  run for ever, is stated for every number of steps.

  \<^bold>\<open>Not modelled.\<close> Network, file and process I/O, logging, the provider streams, the channel
  plugins, the user interfaces and native clients, and the configuration loader. Of the modelled
  files: the task timeout of a lane (\<open>runQueueEntryTask\<close>, which appears as an arbitrary
  result), the migration of an old global queue object, and memo tables whose key determines
  their value. Of cron: creating, editing and manually running jobs (\<^verbatim>\<open>service/ops.ts\<close>), the
  execution of a job with its watchdogs, the store and its codecs, the task ledger, run
  diagnostics and logs, the reaper of run sessions, and the sending of results and alerts.
\<close>

end
